(* ===== verification/Vxt_Prelude.thy ===== *)
theory Vxt_Prelude
  imports Main "HOL-Library.Word" "HOL-Library.Signed_Division"
begin

text \<open>
  Shared vocabulary of the development: machine words at the widths the C code uses, the
  return codes of \<^verbatim>\<open>public/vxt_system.h\<close>, the flag test of the C sources, C strings and
  the two string functions the kernel code relies on, and the generic list and word lemmas
  that the component theories need.
\<close>

unbundle bit_operations_syntax

named_theorems vxt_simps \<open>equations that evaluate helper operations shared by the components\<close>

subsection \<open>Machine integers\<close>

type_synonym u16 = "16 word"
type_synonym u32 = "32 word"
type_synonym u64 = "64 word"

text \<open>The C idiom \<^verbatim>\<open>flags & BIT\<close> used as a condition.\<close>

definition flag_set :: "u32 \<Rightarrow> u32 \<Rightarrow> bool" where
  "flag_set flags bit_mask \<longleftrightarrow> flags AND bit_mask \<noteq> 0"

text \<open>The value that a mathematical integer has after conversion to a C \<^verbatim>\<open>int\<close>.\<close>

definition int32 :: "int \<Rightarrow> int" where
  "int32 x = signed_take_bit 31 x"

lemma int32_id: "- (2 ^ 31) \<le> x \<Longrightarrow> x < 2 ^ 31 \<Longrightarrow> int32 x = x"
  by (simp add: int32_def signed_take_bit_int_eq_self)

lemma unat_Suc_less: "(i :: 'a::len word) < n \<Longrightarrow> unat (i + 1) = Suc (unat i)"
proof -
  assume less: "i < n"
  then have "unat i < unat n"
    by (simp add: word_less_nat_alt)
  moreover have "unat n < 2 ^ LENGTH('a)"
    by simp
  ultimately have "unat i + 1 < 2 ^ LENGTH('a)"
    by linarith
  then show ?thesis
    by (simp add: unat_word_ariths)
qed

subsection \<open>Return codes\<close>

datatype vxt_status =
    VXT_SUCCESS | VXT_FAIL | VXT_RSRC | VXT_PARM | VXT_NOMEM | VXT_ALIGN | VXT_BUSY
  | VXT_ABORT | VXT_SHUTTING_DOWN | VXT_RANGE | VXT_DOWN | VXT_ERROR | VXT_BUF_SPACE
  | VXT_BLOCKED | VXT_TIMEOUT

subsection \<open>Sizes of names and error numbers\<close>

definition MAX_VXT_UNAME :: nat where "MAX_VXT_UNAME = 64"
definition MAX_VXT_UUID :: nat where "MAX_VXT_UUID = 48"

definition EINTR :: int where "EINTR = 4"
definition ENXIO :: int where "ENXIO = 6"
definition EBADF :: int where "EBADF = 9"
definition EAGAIN :: int where "EAGAIN = 11"
definition ENOMEM :: int where "ENOMEM = 12"
definition EACCES :: int where "EACCES = 13"
definition EFAULT :: int where "EFAULT = 14"
definition EBUSY :: int where "EBUSY = 16"
definition EXDEV :: int where "EXDEV = 18"
definition ENODEV :: int where "ENODEV = 19"
definition EINVAL :: int where "EINVAL = 22"
definition ENFILE :: int where "ENFILE = 23"
definition ENOSPC :: int where "ENOSPC = 28"
definition EPIPE :: int where "EPIPE = 32"
definition ENOTSOCK :: int where "ENOTSOCK = 88"
definition EAFNOSUPPORT :: int where "EAFNOSUPPORT = 97"
definition ENETUNREACH :: int where "ENETUNREACH = 101"
definition EISCONN :: int where "EISCONN = 106"

lemmas errnos = EINTR_def ENXIO_def EBADF_def EAGAIN_def ENOMEM_def EACCES_def EFAULT_def EBUSY_def EXDEV_def
  ENODEV_def EINVAL_def ENFILE_def ENOSPC_def EPIPE_def ENOTSOCK_def EAFNOSUPPORT_def ENETUNREACH_def EISCONN_def

subsection \<open>Lists\<close>

text \<open>The last \<open>n\<close> elements of a list.\<close>

definition last_n :: "nat \<Rightarrow> 'a list \<Rightarrow> 'a list" where
  "last_n n xs = drop (length xs - n) xs"

lemma last_n_all: "length xs \<le> n \<Longrightarrow> last_n n xs = xs"
  by (simp add: last_n_def)

lemma last_n_append_last_n: "last_n n (last_n n xs @ ys) = last_n n (xs @ ys)"
  by (cases "length xs \<le> n") (auto simp: last_n_def drop_append add.commute)

lemma last_split:
  assumes "Suc j = length xs"
  shows "xs = butlast xs @ [last xs]" and "j = length (butlast xs)" and "xs ! j = last xs"
proof -
  have ne: "xs \<noteq> []" and j: "j = length xs - 1" using assms by auto
  from ne show "xs = butlast xs @ [last xs]" by simp
  from j show "j = length (butlast xs)" by simp
  from ne j show "xs ! j = last xs" by (simp add: last_conv_nth)
qed

subsection \<open>Arithmetic modulo the length of a ring\<close>

lemma Suc_add_mod: "c < Suc k \<Longrightarrow> Suc (c + k) mod Suc k = c"
  by (simp flip: add_Suc_right)

lemma mod_ring_inj:
  assumes "(c + j) mod n = (c + k) mod n" and "j < n" and "k < n"
  shows "j = (k :: nat)"
proof -
  from assms(1) have "(int c + int j) mod int n = (int c + int k) mod int n"
    by (metis of_nat_add of_nat_mod)
  then have "int j mod int n = int k mod int n"
    by (metis add_diff_cancel_left' mod_diff_left_eq)
  with assms(2,3) show ?thesis by simp
qed

lemma mod_ring_surj:
  assumes "(i :: nat) < n" and "c < n"
  shows "\<exists>j < n. (c + j) mod n = i"
proof (cases "c \<le> i")
  case True
  with assms show ?thesis by (intro exI [of _ "i - c"]) auto
next
  case False
  with assms show ?thesis by (intro exI [of _ "i + n - c"]) auto
qed

end
