(* ===== verification/Vxt_Trace.thy ===== *)
theory Vxt_Trace
  imports Vxt_Prelude
begin

text \<open>
  The trace table of \<^verbatim>\<open>kernel/vxtctrlr/common/vxt_trace.c\<close>: a fixed table of entries behind a
  header, written round robin while it is running and played back from the oldest entry to
  the youngest. An access outside the allocated entries is the value \<open>None\<close>.
\<close>

subsection \<open>Data\<close>

record vxt_trace_entry =
  entry :: u64
  parm1 :: u64
  parm2 :: u64
  parm3 :: u64

text \<open>The header, followed in the same allocation by the array of entries.\<close>

record vxt_trace_header =
  halted :: u32
  wrapped :: u32
  next_record :: u32
  tsize :: u32
  entries :: "vxt_trace_entry list"

record vxt_trace_stats =
  st_halted :: u32
  st_wrapped :: u32
  st_next_record :: u32
  st_table_size :: u32

definition VXT_MAX_TRACE_TABLE_SIZE :: u32 where
  "VXT_MAX_TRACE_TABLE_SIZE = 1024"

subsection \<open>Operations\<close>

text \<open>
  \<open>kmalloc n\<close> is the allocator: \<open>None\<close> when it fails, otherwise the (uninitialised) entry
  array that follows the header.
\<close>

definition vxt_trace_create ::
  "(nat \<Rightarrow> vxt_trace_entry list option) \<Rightarrow> u32 \<Rightarrow> vxt_status + vxt_trace_header" where
  "vxt_trace_create kmalloc entry_count =
     (if entry_count > VXT_MAX_TRACE_TABLE_SIZE then Inl VXT_PARM
      else case kmalloc (unat entry_count) of
        None \<Rightarrow> Inl VXT_NOMEM
      | Some es \<Rightarrow>
          Inr \<lparr>halted = 1, wrapped = 0, next_record = 0, tsize = entry_count, entries = es\<rparr>)"

definition vxt_trace_query :: "vxt_trace_header \<Rightarrow> vxt_trace_stats \<times> vxt_status" where
  "vxt_trace_query t =
     (\<lparr>st_halted = halted t, st_wrapped = wrapped t, st_next_record = next_record t,
       st_table_size = tsize t\<rparr>, VXT_SUCCESS)"

definition vxt_trace_reset :: "vxt_trace_header \<Rightarrow> vxt_trace_header \<times> vxt_status" where
  "vxt_trace_reset t =
     (if halted t = 0 then (t, VXT_BUSY)
      else (t\<lparr>halted := 1, next_record := 0, wrapped := 0\<rparr>, VXT_SUCCESS))"

definition vxt_trace_start :: "vxt_trace_header \<Rightarrow> vxt_trace_header \<times> vxt_status" where
  "vxt_trace_start t = (t\<lparr>halted := 0\<rparr>, VXT_SUCCESS)"

definition vxt_trace_stop :: "vxt_trace_header \<Rightarrow> vxt_trace_header \<times> vxt_status" where
  "vxt_trace_stop t = (t\<lparr>halted := 1\<rparr>, VXT_SUCCESS)"

definition vxt_trace_log ::
  "vxt_trace_header \<Rightarrow> u64 \<Rightarrow> u64 \<Rightarrow> u64 \<Rightarrow> u64 \<Rightarrow> vxt_trace_header option" where
  "vxt_trace_log t cmd p1 p2 p3 =
     (if halted t \<noteq> 0 then Some t
      else if length (entries t) \<le> unat (next_record t) then None
      else
        let t1 = t\<lparr>entries := (entries t)[unat (next_record t) :=
                       \<lparr>entry = cmd, parm1 = p1, parm2 = p2, parm3 = p3\<rparr>],
                   next_record := next_record t + 1\<rparr>
        in Some (if next_record t1 = tsize t1 then t1\<lparr>wrapped := 1, next_record := 0\<rparr> else t1))"

text \<open>The copy loop of \<^verbatim>\<open>vxt_trace_playback\<close>: back to front, \<open>count\<close> entries.\<close>

fun playback_loop ::
  "vxt_trace_header \<Rightarrow> nat \<Rightarrow> u32 \<Rightarrow> vxt_trace_entry list \<Rightarrow> vxt_trace_entry list option" where
  "playback_loop t 0 ptr buffer = Some buffer"
| "playback_loop t (Suc count) ptr buffer =
     (if length (entries t) \<le> unat ptr \<or> length buffer \<le> count then None
      else playback_loop t count (if ptr \<noteq> 0 then ptr - 1 else tsize t - 1)
             (buffer[count := entries t ! unat ptr]))"

definition vxt_trace_playback ::
  "vxt_trace_header \<Rightarrow> vxt_trace_entry list \<Rightarrow> u32 \<Rightarrow>
     (vxt_trace_entry list \<times> u32 \<times> vxt_status) option" where
  "vxt_trace_playback t buffer caller_count =
     (let count0 = (if wrapped t = 1 then tsize t else next_record t);
          count = (if caller_count < count0 then caller_count else count0);
          caller = (if caller_count < count0 then caller_count else count0);
          ptr = (if next_record t = 0 then tsize t - 1 else next_record t - 1)
      in if count = 0 then Some (buffer, caller, VXT_SUCCESS)
         else case playback_loop t (unat count) ptr buffer of
                None \<Rightarrow> None
              | Some b \<Rightarrow> Some (b, caller, VXT_SUCCESS))"

subsection \<open>Invariant and abstraction\<close>

definition trace_inv :: "vxt_trace_header \<Rightarrow> bool" where
  "trace_inv t \<longleftrightarrow>
     length (entries t) = unat (tsize t) \<and> next_record t < tsize t \<and> wrapped t \<in> {0, 1}"

text \<open>The entries the table holds, oldest first.\<close>

definition trace_contents :: "vxt_trace_header \<Rightarrow> vxt_trace_entry list" where
  "trace_contents t =
     (let n = unat (next_record t)
      in if wrapped t = 1 then drop n (entries t) @ take n (entries t) else take n (entries t))"

lemma length_trace_contents:
  "trace_inv t \<Longrightarrow>
     length (trace_contents t) = (if wrapped t = 1 then unat (tsize t) else unat (next_record t))"
  by (auto simp: trace_inv_def trace_contents_def Let_def word_less_nat_alt)

text \<open>The index in the entry array of the \<open>p\<close>-th oldest entry.\<close>

definition trace_idx :: "vxt_trace_header \<Rightarrow> nat \<Rightarrow> nat" where
  "trace_idx t p =
     (let n = unat (next_record t); s = unat (tsize t)
      in if wrapped t = 1 then (if n + p < s then n + p else n + p - s) else p)"

lemma trace_contents_nth:
  assumes "trace_inv t" and "p < length (trace_contents t)"
  shows "trace_contents t ! p = entries t ! trace_idx t p" and "trace_idx t p < length (entries t)"
  using assms by (auto simp: length_trace_contents trace_contents_def trace_idx_def trace_inv_def
      Let_def nth_append word_less_nat_alt add.commute split: if_splits)

lemma trace_idx_pred:
  assumes inv: "trace_inv t" and p: "Suc p < length (trace_contents t)"
    and ptr: "unat ptr = trace_idx t (Suc p)"
  shows "unat (if ptr \<noteq> 0 then ptr - 1 else tsize t - 1) = trace_idx t p"
proof -
  have size: "unat (tsize t - 1) = unat (tsize t) - 1"
    using inv by (intro unat_minus_one) (auto simp: trace_inv_def)
  have minus: "ptr \<noteq> 0 \<Longrightarrow> unat (ptr - 1) = unat ptr - 1"
    by (rule unat_minus_one)
  have zero: "ptr = 0 \<longleftrightarrow> unat ptr = 0"
    by (simp add: unat_eq_0)
  show ?thesis
    using inv p ptr size minus zero
    by (auto simp: trace_idx_def trace_inv_def length_trace_contents Let_def word_less_nat_alt
        split: if_splits)
qed

lemma playback_loop_result:
  assumes inv: "trace_inv t"
  shows "c \<le> Suc p \<Longrightarrow> p < length (trace_contents t) \<Longrightarrow> unat ptr = trace_idx t p \<Longrightarrow>
    c \<le> length buffer \<Longrightarrow>
    playback_loop t c ptr buffer =
      Some (take c (drop (Suc p - c) (trace_contents t)) @ drop c buffer)"
proof (induction c arbitrary: p ptr buffer)
  case 0
  then show ?case by simp
next
  case (Suc c)
  let ?C = "trace_contents t" and ?ptr = "if ptr \<noteq> 0 then ptr - 1 else tsize t - 1"
  let ?buf = "buffer[c := ?C ! p]"
  have step: "playback_loop t (Suc c) ptr buffer = playback_loop t c ?ptr ?buf"
    using trace_contents_nth [OF inv Suc.prems(2)] Suc.prems by simp
  have tail: "drop c ?buf = ?C ! p # drop (Suc c) buffer"
    using Suc.prems(4) by (simp add: Cons_nth_drop_Suc [symmetric])
  have split: "take (Suc c) (drop (p - c) ?C) = take c (drop (p - c) ?C) @ [?C ! p]"
    using Suc.prems(1,2) by (simp add: take_Suc_conv_app_nth)
  show ?case
  proof (cases p)
    case 0
    with Suc.prems step tail split show ?thesis by (simp del: playback_loop.simps(2))
  next
    case (Suc p')
    have "playback_loop t c ?ptr ?buf = Some (take c (drop (Suc p' - c) ?C) @ drop c ?buf)"
      using Suc Suc.prems trace_idx_pred [OF inv, of p' ptr] by (intro Suc.IH) auto
    with step tail split Suc show ?thesis by (simp del: playback_loop.simps(2))
  qed
qed

subsection \<open>The bounded log interface\<close>

text \<open>
  What a client of a trace table relies on: logging never faults, keeps the table well formed
  and keeps the most recent \<open>cap\<close> entries in order.
\<close>

locale bounded_log =
  fixes log :: "'t \<Rightarrow> 'e \<Rightarrow> 't option"
    and contents :: "'t \<Rightarrow> 'e list"
    and cap :: "'t \<Rightarrow> nat"
    and invar :: "'t \<Rightarrow> bool"
  assumes log_step:
    "invar t \<Longrightarrow> \<exists>t'. log t e = Some t' \<and> invar t' \<and> cap t' = cap t
       \<and> contents t' = last_n (cap t) (contents t @ [e])"
begin

primrec log_all :: "'t \<Rightarrow> 'e list \<Rightarrow> 't option" where
  "log_all t [] = Some t"
| "log_all t (e # es) = (case log t e of None \<Rightarrow> None | Some t' \<Rightarrow> log_all t' es)"

lemma log_all_contents:
  "invar t \<Longrightarrow> length (contents t) \<le> cap t \<Longrightarrow>
     \<exists>t'. log_all t es = Some t' \<and> invar t' \<and> cap t' = cap t
        \<and> contents t' = last_n (cap t) (contents t @ es)"
proof (induction es arbitrary: t)
  case Nil
  then show ?case by (simp add: last_n_all)
next
  case (Cons e es)
  obtain t1 where t1: "log t e = Some t1" "invar t1" "cap t1 = cap t"
    "contents t1 = last_n (cap t) (contents t @ [e])"
    using log_step [OF Cons.prems(1)] by blast
  have "length (contents t1) \<le> cap t1"
    by (simp add: t1 last_n_def)
  from Cons.IH [OF t1(2) this] t1 show ?case
    by (auto simp: last_n_append_last_n)
qed

end

text \<open>The laws hold for a running trace table.\<close>

definition trace_log_entry :: "vxt_trace_header \<Rightarrow> vxt_trace_entry \<Rightarrow> vxt_trace_header option" where
  "trace_log_entry t e = vxt_trace_log t (entry e) (parm1 e) (parm2 e) (parm3 e)"

lemma trace_log_running:
  assumes inv: "trace_inv t" and run: "halted t = 0"
  shows "\<exists>t'. vxt_trace_log t a b c d = Some t' \<and> trace_inv t' \<and> halted t' = 0
    \<and> tsize t' = tsize t
    \<and> trace_contents t' = last_n (unat (tsize t))
         (trace_contents t @ [\<lparr>entry = a, parm1 = b, parm2 = c, parm3 = d\<rparr>])"
proof -
  let ?e = "\<lparr>entry = a, parm1 = b, parm2 = c, parm3 = d\<rparr>"
  define n where "n = unat (next_record t)"
  define es where "es = entries t"
  define s where "s = unat (tsize t)"
  have len: "length es = s" and n: "n < s"
    using inv by (auto simp: trace_inv_def word_less_nat_alt es_def n_def s_def)
  have nxt: "unat (next_record t + 1) = Suc n"
    using inv unat_Suc_less by (auto simp: trace_inv_def n_def)
  have eq: "next_record t + 1 = tsize t \<longleftrightarrow> Suc n = s"
    using nxt by (metis s_def word_unat_eq_iff)
  have upd: "es[n := ?e] = take n es @ ?e # drop (Suc n) es"
    using len n by (simp add: upd_conv_take_nth_drop)
  show ?thesis
    using inv run len n nxt eq upd
    by (auto simp: vxt_trace_log_def trace_inv_def trace_contents_def Let_def last_n_def
        n_def [symmetric] es_def [symmetric] s_def [symmetric] word_less_nat_alt
        drop_Cons' min_def take_Cons')
qed

interpretation trace_table: bounded_log trace_log_entry trace_contents "\<lambda>t. unat (tsize t)"
  "\<lambda>t. trace_inv t \<and> halted t = 0"
proof unfold_locales
  fix t e
  assume "trace_inv t \<and> halted t = 0"
  then show "\<exists>t'. trace_log_entry t e = Some t' \<and> (trace_inv t' \<and> halted t' = 0)
      \<and> unat (tsize t') = unat (tsize t)
      \<and> trace_contents t' = last_n (unat (tsize t)) (trace_contents t @ [e])"
    using trace_log_running [of t "entry e" "parm1 e" "parm2 e" "parm3 e"]
    by (cases e) (auto simp: trace_log_entry_def)
qed

subsection \<open>Properties\<close>

lemma trace_playback_eq:
  assumes inv: "trace_inv t" and buf: "unat caller_count \<le> length buffer"
  shows "vxt_trace_playback t buffer caller_count =
    (let k = min (unat caller_count) (length (trace_contents t))
     in Some (last_n k (trace_contents t) @ drop k buffer, word_of_nat k, VXT_SUCCESS))"
proof -
  let ?C = "trace_contents t"
  define c0 where "c0 = (if wrapped t = 1 then tsize t else next_record t)"
  define cnt where "cnt = (if caller_count < c0 then caller_count else c0)"
  define ptr where "ptr = (if next_record t = 0 then tsize t - 1 else next_record t - 1)"
  have len: "length ?C = unat c0"
    using inv by (simp add: length_trace_contents c0_def)
  have k: "min (unat caller_count) (length ?C) = unat cnt"
    unfolding len cnt_def by (auto simp: word_less_nat_alt)
  have cnt_le: "unat cnt \<le> length ?C" "unat cnt \<le> length buffer"
    using k buf by linarith+
  have unfolded: "vxt_trace_playback t buffer caller_count =
    (if cnt = 0 then Some (buffer, cnt, VXT_SUCCESS)
     else case playback_loop t (unat cnt) ptr buffer of None \<Rightarrow> None
          | Some b \<Rightarrow> Some (b, cnt, VXT_SUCCESS))"
    unfolding vxt_trace_playback_def Let_def c0_def [symmetric] cnt_def [symmetric]
      ptr_def [symmetric] ..
  show ?thesis
  proof (cases "cnt = 0")
    case True
    then show ?thesis
      by (simp add: unfolded Let_def k last_n_def)
  next
    case False
    then have pos: "0 < unat cnt" by (simp add: unat_gt_0)
    have size: "unat (tsize t - 1) = unat (tsize t) - 1"
      using inv by (intro unat_minus_one) (auto simp: trace_inv_def)
    have minus: "next_record t \<noteq> 0 \<Longrightarrow> unat (next_record t - 1) = unat (next_record t) - 1"
      by (rule unat_minus_one)
    have "unat ptr = trace_idx t (length ?C - 1)"
      using inv pos cnt_le(1) size minus
      by (auto simp: ptr_def trace_idx_def length_trace_contents trace_inv_def Let_def
          word_less_nat_alt unat_eq_0 split: if_splits)
    with pos cnt_le have "playback_loop t (unat cnt) ptr buffer =
      Some (take (unat cnt) (drop (Suc (length ?C - 1) - unat cnt) ?C) @ drop (unat cnt) buffer)"
      by (intro playback_loop_result [OF inv]) auto
    with False pos cnt_le k show ?thesis
      by (simp add: unfolded Let_def last_n_def)
  qed
qed

lemma trace_create_inv:
  assumes "vxt_trace_create kmalloc n = Inr t" and "0 < n"
    and "\<And>m es. kmalloc m = Some es \<Longrightarrow> length es = m"
  shows "trace_inv t" and "trace_contents t = []" and "tsize t = n"
  using assms by (auto simp: vxt_trace_create_def trace_inv_def trace_contents_def
      split: if_splits option.splits)

lemma trace_start_inv [simp]:
  "trace_inv (t\<lparr>halted := h\<rparr>) = trace_inv t" "trace_contents (t\<lparr>halted := h\<rparr>) = trace_contents t"
  by (simp_all add: trace_inv_def trace_contents_def Let_def)

text \<open>
  C34: a table created with a positive entry count and then started records any sequence of
  entries without faulting, and playback returns the most recent of them, oldest first, as
  many as the table and the caller's buffer hold. The allocator returns as many entries as
  it was asked for.
\<close>

theorem trace_session:
  assumes kmalloc: "\<And>m es. kmalloc m = Some es \<Longrightarrow> length es = m"
    and create: "vxt_trace_create kmalloc n = Inr t" and pos: "0 < n"
    and buf: "unat caller_count \<le> length buffer"
  shows "\<exists>t'. trace_table.log_all (fst (vxt_trace_start t)) evs = Some t'
    \<and> (let k = min (unat caller_count) (min (unat n) (length evs))
       in vxt_trace_playback t' buffer caller_count =
            Some (last_n k evs @ drop k buffer, word_of_nat k, VXT_SUCCESS))"
proof -
  note c = trace_create_inv [OF create pos kmalloc]
  have start: "trace_inv (fst (vxt_trace_start t)) \<and> halted (fst (vxt_trace_start t)) = 0"
    using c by (simp add: vxt_trace_start_def)
  obtain t' where t': "trace_table.log_all (fst (vxt_trace_start t)) evs = Some t'"
      "trace_inv t'" "trace_contents t' = last_n (unat n) evs"
    using trace_table.log_all_contents [OF start, of evs] c
    by (auto simp: vxt_trace_start_def)
  have last: "last_n (min m (min j l)) (last_n j xs) = last_n (min m (min j l)) xs"
    if "l = length xs" for m j l and xs :: "vxt_trace_entry list"
    using that by (auto simp: last_n_def min_def)
  have "length (last_n (unat n) evs) = min (unat n) (length evs)"
    by (auto simp: last_n_def)
  with t' trace_playback_eq [OF t'(2) buf] last [of "length evs" evs] show ?thesis
    by (simp add: Let_def)
qed

theorem trace_session_witness:
  "\<exists>t evs buffer. vxt_trace_create (\<lambda>m. Some (replicate m \<lparr>entry = 0, parm1 = 0, parm2 = 0, parm3 = 0\<rparr>)) 2
       = Inr t
    \<and> evs = map (\<lambda>i. \<lparr>entry = i, parm1 = 0, parm2 = 0, parm3 = 0\<rparr>) [1, 2, 3]
    \<and> buffer = replicate 5 \<lparr>entry = 9, parm1 = 0, parm2 = 0, parm3 = 0\<rparr>
    \<and> (\<exists>t'. trace_table.log_all (fst (vxt_trace_start t)) evs = Some t'
       \<and> (let k = min (unat (5::u32)) (min (unat (2::u32)) (length evs))
          in vxt_trace_playback t' buffer 5 =
               Some (last_n k evs @ drop k buffer, word_of_nat k, VXT_SUCCESS)))"
proof -
  let ?z = "\<lparr>entry = 0, parm1 = 0, parm2 = 0, parm3 = 0\<rparr> :: vxt_trace_entry"
  let ?t = "\<lparr>halted = 1, wrapped = 0, next_record = 0, tsize = 2, entries = replicate 2 ?z\<rparr>"
  have kmalloc: "Some (replicate m ?z) = Some es \<Longrightarrow> length es = m" for m es
    by auto
  have create: "vxt_trace_create (\<lambda>m. Some (replicate m ?z)) 2 = Inr ?t"
    by (simp add: vxt_trace_create_def VXT_MAX_TRACE_TABLE_SIZE_def)
  have pos: "0 < (2::u32)" by simp
  have buf: "unat (5::u32) \<le> length (replicate 5 \<lparr>entry = 9, parm1 = 0, parm2 = 0, parm3 = 0\<rparr>)"
    by simp
  show ?thesis
    by (rule exI, rule exI, rule exI, intro conjI, rule create, rule refl, rule refl,
        rule trace_session [OF kmalloc create pos buf])
qed

text \<open>
  an entry count of zero passes the range check of \<^verbatim>\<open>vxt_trace_create\<close>, and the first
  entry logged after the table is started is written past the end of the allocation.
\<close>

theorem trace_zero_size_faults:
  assumes "kmalloc 0 = Some []"
  shows "\<exists>t. vxt_trace_create kmalloc 0 = Inr t
    \<and> vxt_trace_log (fst (vxt_trace_start t)) cmd p1 p2 p3 = None"
  using assms by (simp add: vxt_trace_create_def vxt_trace_start_def vxt_trace_log_def)

theorem trace_zero_size_faults_witness:
  "\<exists>t. vxt_trace_create (\<lambda>m. Some (replicate m \<lparr>entry = 0, parm1 = 0, parm2 = 0, parm3 = 0\<rparr>)) 0
      = Inr t
    \<and> vxt_trace_log (fst (vxt_trace_start t)) 1 2 3 4 = None"
  by (rule trace_zero_size_faults) simp

end
