(* ===== verification/Vxt_Queue.thy ===== *)
theory Vxt_Queue
  imports Vxt_Prelude
begin

text \<open>
  The shared memory queue of \<^verbatim>\<open>lib/vxtlib/common/vxt_queue.c\<close>. The shared region is the record
  \<open>shm\<close>: the control header and the array of sub-buffers, each a header word and its data bytes.
  Each end keeps a private \<open>vxtq_queue\<close>. The signal callback is counted (\<open>signals\<close>), the wait
  callback is a parameter: what the remote end does to the shared region while the caller
  sleeps. An access outside the array of sub-buffers is the value \<open>None\<close>; \<open>None\<close> is also the
  value of a \<open>vxtq_get_buf\<close> that never returns.
\<close>

subsection \<open>Data\<close>

text \<open>
  The sub-buffer header: \<open>data_len\<close> is a 16 bit field, the other three fields are one bit
  each, with \<open>owner\<close> true while the producer owns the sub-buffer. \<open>sdata\<close> are the bytes that
  follow the header.
\<close>

record vxtq_sbuf_header =
  data_len :: u16
  sbuf_abort :: bool
  app_held :: bool
  owner :: bool
  sdata :: "8 word list"

record vxtq_control =
  data_avail_lead :: u32
  space_avail_lead :: u32
  need_signal_data :: u32
  need_signal_space :: u32
  send_cnt :: u32
  receive_cnt :: u32
  consumer_flush :: u32
  producer_suspend :: u32
  producer_stop :: u32
  qerror :: u32
  buf_cnt :: u32
  buf_size :: u32

record shm =
  hdr :: vxtq_control
  sbufs :: "vxtq_sbuf_header list"

record vxtq_queue =
  buffers :: nat \<comment> \<open>local address of the first sub-buffer\<close>
  buf_index :: u32
  local_producer :: bool
  signals :: nat \<comment> \<open>number of times the signal callback was exercised\<close>

text \<open>Calling flags of get, put and signal.\<close>

definition VXTQ_FLAGS_SIGNAL :: u32 where "VXTQ_FLAGS_SIGNAL = 0x1"
definition VXTQ_FLAGS_WAIT :: u32 where "VXTQ_FLAGS_WAIT = 0x2"
definition VXTQ_AUTO_STREAM :: u32 where "VXTQ_AUTO_STREAM = 0x4"
definition VXTQ_IGNORE_SHUTDOWN :: u32 where "VXTQ_IGNORE_SHUTDOWN = 0x8"
definition VXTQ_FLAGS_ABORT :: u32 where "VXTQ_FLAGS_ABORT = 0x10"

definition VXTQ_BUFFER_INITIALIZED :: u32 where "VXTQ_BUFFER_INITIALIZED = 0x1"
definition VXTQ_LOCAL_IS_PRODUCER :: u32 where "VXTQ_LOCAL_IS_PRODUCER = 0x2"

definition VXTQ_SIGNAL_SHUTDOWN :: u32 where "VXTQ_SIGNAL_SHUTDOWN = 0x1"
definition VXTQ_SIGNAL_CLOSE :: u32 where "VXTQ_SIGNAL_CLOSE = 0x2"
definition VXTQ_SIGNAL_ERROR :: u32 where "VXTQ_SIGNAL_ERROR = 0x4"
definition VXTQ_SIGNAL_WAIT :: u32 where "VXTQ_SIGNAL_WAIT = 0x8"
definition VXTQ_SIGNAL_STOP :: u32 where "VXTQ_SIGNAL_STOP = 0x10"
definition VXTQ_SIGNAL_START :: u32 where "VXTQ_SIGNAL_START = 0x20"

lemmas vxtq_flag_defs =
  VXTQ_FLAGS_SIGNAL_def VXTQ_FLAGS_WAIT_def VXTQ_AUTO_STREAM_def VXTQ_IGNORE_SHUTDOWN_def
  VXTQ_FLAGS_ABORT_def VXTQ_BUFFER_INITIALIZED_def VXTQ_LOCAL_IS_PRODUCER_def
  VXTQ_SIGNAL_SHUTDOWN_def VXTQ_SIGNAL_CLOSE_def VXTQ_SIGNAL_ERROR_def VXTQ_SIGNAL_WAIT_def
  VXTQ_SIGNAL_STOP_def VXTQ_SIGNAL_START_def

text \<open>\<^verbatim>\<open>sizeof(vxtq_sbuf_header_t)\<close> and \<^verbatim>\<open>sizeof(vxtq_control_t)\<close>.\<close>

definition sizeof_sbuf_header :: nat where "sizeof_sbuf_header = 4"
definition sizeof_vxtq_control :: nat where "sizeof_vxtq_control = 48"

subsection \<open>Addresses and field updates\<close>

text \<open>The address handed to the application: just behind the header of sub-buffer \<open>i\<close>.\<close>

definition buf_addr :: "vxtq_queue \<Rightarrow> shm \<Rightarrow> u32 \<Rightarrow> nat" where
  "buf_addr q m i = buffers q + unat (i * buf_size (hdr m)) + sizeof_sbuf_header"

definition set_sbuf :: "shm \<Rightarrow> u32 \<Rightarrow> vxtq_sbuf_header \<Rightarrow> shm" where
  "set_sbuf m i b = m\<lparr>sbufs := (sbufs m)[unat i := b]\<rparr>"

text \<open>\<^verbatim>\<open>next_buf++\<close> with the wrap to zero at \<^verbatim>\<open>buf_cnt\<close>.\<close>

definition next_index :: "shm \<Rightarrow> u32 \<Rightarrow> u32" where
  "next_index m i = (if i + 1 \<ge> buf_cnt (hdr m) then 0 else i + 1)"

definition do_signal :: "vxtq_queue \<Rightarrow> vxtq_queue" where
  "do_signal q = q\<lparr>signals := Suc (signals q)\<rparr>"

subsection \<open>Get\<close>

text \<open>What the caller of get receives: buffer number, buffer address and data length.\<close>

datatype vxtq_get_result = Got u32 nat u32 | NotGot vxt_status

partial_function (option) vxtq_get_loop ::
  "(shm \<Rightarrow> shm) \<Rightarrow> u32 \<Rightarrow> vxtq_queue \<Rightarrow> shm \<Rightarrow> (vxtq_queue \<times> shm \<times> vxtq_get_result) option" where
  "vxtq_get_loop wait flags q m =
     (let i = buf_index q; b = sbufs m ! unat i
      in if length (sbufs m) \<le> unat i then None
         else if owner b = local_producer q then
           (if sbuf_abort b then
              vxtq_get_loop wait flags (q\<lparr>buf_index := next_index m i\<rparr>)
                (set_sbuf m i (b\<lparr>sbuf_abort := False, owner := \<not> owner b\<rparr>))
            else if app_held b then Some (q, m, NotGot VXT_NOMEM)
            else
              Some (q\<lparr>buf_index := next_index m i\<rparr>, set_sbuf m i (b\<lparr>app_held := True\<rparr>),
                Got i (buf_addr q m i)
                  (if local_producer q then buf_size (hdr m) - word_of_nat sizeof_sbuf_header
                   else ucast (data_len b))))
         else if flag_set flags VXTQ_FLAGS_WAIT then
           (if local_producer q \<and> need_signal_space (hdr m) = 0 then
              vxtq_get_loop wait flags q (m\<lparr>hdr := (hdr m)\<lparr>need_signal_space := 1\<rparr>\<rparr>)
            else if \<not> local_producer q \<and> need_signal_data (hdr m) = 0 then
              vxtq_get_loop wait flags q (m\<lparr>hdr := (hdr m)\<lparr>need_signal_data := 1\<rparr>\<rparr>)
            else
              let m' = wait m
              in if length (sbufs m') \<le> unat i then None
                 else if owner (sbufs m' ! unat i) = local_producer q then
                   vxtq_get_loop wait flags q m'
                 else Some (q, m', NotGot VXT_ABORT))
         else Some (q, m, NotGot VXT_RSRC))"

definition vxtq_get_buf ::
  "(shm \<Rightarrow> shm) \<Rightarrow> u32 \<Rightarrow> vxtq_queue \<Rightarrow> shm \<Rightarrow> (vxtq_queue \<times> shm \<times> vxtq_get_result) option" where
  "vxtq_get_buf wait flags q m =
     (if \<not> flag_set flags VXTQ_IGNORE_SHUTDOWN \<and> local_producer q \<and> consumer_flush (hdr m) \<noteq> 0
      then Some (q, m, NotGot VXT_SHUTTING_DOWN)
      else if \<not> flag_set flags VXTQ_IGNORE_SHUTDOWN \<and> local_producer q \<and> producer_stop (hdr m) \<noteq> 0
      then Some (q, m, NotGot VXT_BLOCKED)
      else if \<not> flag_set flags VXTQ_IGNORE_SHUTDOWN \<and> \<not> local_producer q
              \<and> producer_suspend (hdr m) \<noteq> 0
      then Some (q, m, NotGot VXT_SHUTTING_DOWN)
      else vxtq_get_loop wait flags q m)"

subsection \<open>Put\<close>

text \<open>The space and data estimates of the streaming hysteresis.\<close>

definition producer_avail_num :: "vxtq_control \<Rightarrow> u32" where
  "producer_avail_num h =
     (if receive_cnt h \<le> send_cnt h then buf_cnt h - (send_cnt h - receive_cnt h)
      else receive_cnt h - send_cnt h)"

definition consumer_avail_num :: "vxtq_control \<Rightarrow> u32" where
  "consumer_avail_num h =
     (if receive_cnt h \<le> send_cnt h then send_cnt h - receive_cnt h
      else buf_cnt h - receive_cnt h + (send_cnt h + 1))"

text \<open>The signalling part of put: explicit, streaming, or on a waiting remote.\<close>

definition vxtq_put_signal :: "u32 \<Rightarrow> vxtq_queue \<Rightarrow> vxtq_control \<Rightarrow> vxtq_queue \<times> vxtq_control" where
  "vxtq_put_signal flags q h =
     (if flag_set flags VXTQ_FLAGS_SIGNAL then (do_signal q, h)
      else if flag_set flags VXTQ_AUTO_STREAM then
        (if local_producer q then
           (if producer_avail_num h = space_avail_lead h \<and> need_signal_data h \<noteq> 0
            then (do_signal q, h\<lparr>need_signal_data := 0\<rparr>) else (q, h))
         else
           (if consumer_avail_num h = data_avail_lead h \<and> need_signal_space h \<noteq> 0
            then (do_signal q, h\<lparr>need_signal_space := 0\<rparr>) else (q, h)))
      else
        (if local_producer q then
           (if need_signal_data h \<noteq> 0 then (do_signal q, h\<lparr>need_signal_data := 0\<rparr>) else (q, h))
         else
           (if need_signal_space h \<noteq> 0 then (do_signal q, h\<lparr>need_signal_space := 0\<rparr>) else (q, h))))"

text \<open>The accounting after a buffer went to the remote end, followed by the signalling.\<close>

definition vxtq_put_done ::
  "u32 \<Rightarrow> vxtq_queue \<Rightarrow> shm \<Rightarrow> (vxtq_queue \<times> shm \<times> vxt_status) option" where
  "vxtq_put_done flags q m =
     (let h = (if local_producer q then (hdr m)\<lparr>send_cnt := send_cnt (hdr m) + 1\<rparr>
               else (hdr m)\<lparr>receive_cnt := receive_cnt (hdr m) + 1\<rparr>);
          (q', h') = vxtq_put_signal flags q h
      in Some (q', m\<lparr>hdr := h'\<rparr>, VXT_SUCCESS))"

text \<open>The abort branch: back the pointer up, or turn the buffer around at the remote end.\<close>

definition vxtq_put_abort ::
  "u32 \<Rightarrow> vxtq_queue \<Rightarrow> shm \<Rightarrow> u32 \<Rightarrow> (vxtq_queue \<times> shm \<times> vxt_status) option" where
  "vxtq_put_abort flags q m buf_num =
     (let b = (sbufs m ! unat buf_num)\<lparr>app_held := False\<rparr>
      in if buf_index q = buf_num + 1 \<or> (buf_num + 1 = buf_cnt (hdr m) \<and> buf_index q = 0) then
           (let q1 = q\<lparr>buf_index := buf_num\<rparr>
            in Some (if flag_set flags VXTQ_FLAGS_SIGNAL then do_signal q1 else q1,
                 set_sbuf m buf_num b, VXT_SUCCESS))
         else
           (let b1 = (if local_producer q then b\<lparr>data_len := 0\<rparr> else b)
            in vxtq_put_done flags q
                 (set_sbuf m buf_num
                   (b1\<lparr>app_held := False, sbuf_abort := True, owner := \<not> owner b1\<rparr>))))"

definition vxtq_put_buf ::
  "u32 \<Rightarrow> vxtq_queue \<Rightarrow> shm \<Rightarrow> nat \<Rightarrow> u32 \<Rightarrow> u32 \<Rightarrow> (vxtq_queue \<times> shm \<times> vxt_status) option" where
  "vxtq_put_buf flags q m buffer buf_num dlen =
     (let b = sbufs m ! unat buf_num
      in if buf_num \<ge> buf_cnt (hdr m) then Some (q, m, VXT_PARM)
         else if buf_addr q m buf_num \<noteq> buffer then Some (q, m, VXT_PARM)
         else if length (sbufs m) \<le> unat buf_num then None
         else if owner b \<noteq> local_producer q then Some (q, m, VXT_PARM)
         else if \<not> app_held b then Some (q, m, VXT_PARM)
         else if flag_set flags VXTQ_FLAGS_ABORT then vxtq_put_abort flags q m buf_num
         else if \<not> flag_set flags VXTQ_IGNORE_SHUTDOWN \<and> local_producer q
                 \<and> producer_stop (hdr m) = 1
         then Some (q, m, VXT_BLOCKED)
         else vxtq_put_done flags q
                (set_sbuf m buf_num
                  (b\<lparr>data_len := ucast dlen, app_held := False, owner := \<not> owner b\<rparr>)))"

subsection \<open>Initialisation\<close>

text \<open>
  \<open>raw i\<close> is what the shared region holds at the place of the \<open>i\<close>-th sub-buffer before the
  call. The C arguments are \<^verbatim>\<open>int\<close>s; \<^verbatim>\<open>hdr_len < sizeof(vxtq_control_t)\<close> compares in the
  64 bit unsigned type of \<^verbatim>\<open>sizeof\<close>. The result carries the sub-buffer size, the private
  queue state and the initialised region.
\<close>

definition vxtq_init_control :: "int \<Rightarrow> int \<Rightarrow> int \<Rightarrow> int \<Rightarrow> vxtq_control" where
  "vxtq_init_control cnt sub_size space_hyster data_hyster =
     \<lparr>data_avail_lead = (if data_hyster \<noteq> 0 then word_of_int data_hyster
                         else word_of_int (drop_bit 2 cnt)),
      space_avail_lead = (if space_hyster \<noteq> 0 then word_of_int space_hyster
                          else word_of_int (drop_bit 1 cnt + drop_bit 2 cnt)),
      need_signal_data = 0, need_signal_space = 0, send_cnt = 0, receive_cnt = 0,
      consumer_flush = 0, producer_suspend = 0, producer_stop = 0, qerror = 0,
      buf_cnt = word_of_int cnt, buf_size = word_of_int sub_size\<rparr>"

definition vxtq_init_headers :: "u32 \<Rightarrow> int \<Rightarrow> (nat \<Rightarrow> vxtq_sbuf_header) \<Rightarrow> vxtq_sbuf_header list" where
  "vxtq_init_headers flags cnt raw =
     map (\<lambda>i. if flag_set flags VXTQ_BUFFER_INITIALIZED then raw i
              else (raw i)\<lparr>owner := True, sbuf_abort := False, app_held := False\<rparr>) [0..<nat cnt]"

definition vxtq_init_buf ::
  "bool \<Rightarrow> (nat \<Rightarrow> vxtq_sbuf_header) \<Rightarrow> nat \<Rightarrow> int \<Rightarrow> int \<Rightarrow> int \<Rightarrow> int \<Rightarrow> int \<Rightarrow> u32 \<Rightarrow>
     vxt_status + (int \<times> vxtq_queue \<times> shm)" where
  "vxtq_init_buf malloc_ok raw sm_buf len hdr_len cnt space_hyster data_hyster flags =
     (if cnt = 0 \<or> take_bit 64 hdr_len < int sizeof_vxtq_control then Inl VXT_RANGE
      else if len < int32 (int32 (cnt * int sizeof_sbuf_header) + hdr_len) then Inl VXT_RANGE
      else
        let sub_size = int32 (len - hdr_len) sdiv cnt
        in if sub_size = 0 then Inl VXT_RANGE
           else if \<not> malloc_ok then Inl VXT_NOMEM
           else
             Inr (sub_size,
               \<lparr>buffers = nat (int sm_buf + hdr_len), buf_index = 0,
                local_producer = flag_set flags VXTQ_LOCAL_IS_PRODUCER, signals = 0\<rparr>,
               \<lparr>hdr = vxtq_init_control cnt sub_size space_hyster data_hyster,
                sbufs = vxtq_init_headers flags cnt raw\<rparr>))"

subsection \<open>Signal\<close>

definition vxtq_signal ::
  "(shm \<Rightarrow> shm) \<Rightarrow> u32 \<Rightarrow> vxtq_queue \<Rightarrow> shm \<Rightarrow> vxtq_queue \<times> shm \<times> vxt_status" where
  "vxtq_signal wait flags q m =
     (let p = local_producer q
      in if flag_set flags VXTQ_SIGNAL_STOP \<and> p then (q, m, VXT_PARM)
      else let m1 = (if flag_set flags VXTQ_SIGNAL_STOP
                     then m\<lparr>hdr := (hdr m)\<lparr>producer_stop := 1\<rparr>\<rparr> else m)
      in if flag_set flags VXTQ_SIGNAL_START \<and> p then (q, m1, VXT_PARM)
      else let m2 = (if flag_set flags VXTQ_SIGNAL_START
                     then m1\<lparr>hdr := (hdr m1)\<lparr>producer_stop := 0\<rparr>\<rparr> else m1);
               m3 = (if flag_set flags VXTQ_SIGNAL_SHUTDOWN
                     then (if p then m2\<lparr>hdr := (hdr m2)\<lparr>producer_suspend := 1\<rparr>\<rparr>
                           else m2\<lparr>hdr := (hdr m2)\<lparr>consumer_flush := 1\<rparr>\<rparr>)
                     else m2)
      in if flag_set flags VXTQ_SIGNAL_CLOSE \<and> \<not> p \<and> producer_suspend (hdr m3) \<noteq> 1
         then (q, m3, VXT_PARM)
      else if flag_set flags VXTQ_SIGNAL_CLOSE \<and> p \<and> consumer_flush (hdr m3) \<noteq> 1
         then (q, m3, VXT_PARM)
      else let m4 = (if flag_set flags VXTQ_SIGNAL_CLOSE
                     then (if p then m3\<lparr>hdr := (hdr m3)\<lparr>producer_suspend := 1\<rparr>\<rparr>
                           else m3\<lparr>hdr := (hdr m3)\<lparr>consumer_flush := 1\<rparr>\<rparr>)
                     else m3);
               m5 = (if flag_set flags VXTQ_SIGNAL_ERROR
                     then m4\<lparr>hdr := (hdr m4)\<lparr>qerror := 1\<rparr>\<rparr> else m4);
               m6 = (if flag_set flags VXTQ_SIGNAL_WAIT then wait m5 else m5)
      in (do_signal q, m6, VXT_SUCCESS))"

subsection \<open>Io control\<close>

text \<open>
  The command codes of \<^verbatim>\<open>public/vxt_msg_export.h\<close> that reach the queue, and the untyped
  \<^verbatim>\<open>info\<close> argument as a tagged union. A failed \<^verbatim>\<open>ASSERT\<close> on \<^verbatim>\<open>info_len\<close> is \<open>None\<close>.
\<close>

datatype vxtq_cmd =
    VXT_IOCTL_QUERY_SEND | VXT_IOCTL_QUERY_RCV | VXT_IOCTL_SET_SEND_ERROR
  | VXT_IOCTL_SET_RCV_ERROR | VXT_IOCTL_RESET_SEND | VXT_IOCTL_RESET_RCV
  | VXT_IOCTL_SET_SEND_HYSTERESIS | VXT_IOCTL_SET_RCV_HYSTERESIS | VXT_IOCTL_OTHER

record vxtq_queue_info =
  info_hdr :: vxtq_control
  info_buf_index :: u32
  info_local_producer :: bool

datatype vxtq_info =
    Hysteresis u32 u32 \<comment> \<open>\<^verbatim>\<open>vxtq_set_hysteresis_t\<close>: data, space\<close>
  | Queue_Info vxtq_queue_info
  | Error_Value u32

definition vxtq_reset :: "vxtq_queue \<Rightarrow> shm \<Rightarrow> vxtq_queue \<times> shm" where
  "vxtq_reset q m =
     (q\<lparr>buf_index := 0\<rparr>,
      \<lparr>hdr = (hdr m)\<lparr>need_signal_data := 0, need_signal_space := 0, consumer_flush := 0,
         producer_suspend := 0, producer_stop := 0, qerror := 0, send_cnt := 0,
         receive_cnt := 0\<rparr>,
       sbufs = map (\<lambda>b. b\<lparr>owner := True\<rparr>) (take (unat (buf_cnt (hdr m))) (sbufs m))
               @ drop (unat (buf_cnt (hdr m))) (sbufs m)\<rparr>)"

definition vxtq_io_control ::
  "vxtq_cmd \<Rightarrow> vxtq_info \<Rightarrow> vxtq_queue \<Rightarrow> shm \<Rightarrow>
     (vxtq_queue \<times> shm \<times> vxtq_info \<times> vxt_status) option" where
  "vxtq_io_control cmd info q m =
     (if cmd = VXT_IOCTL_SET_SEND_HYSTERESIS \<or> cmd = VXT_IOCTL_SET_RCV_HYSTERESIS then
        (case info of
           Hysteresis d s \<Rightarrow>
             Some (q, m\<lparr>hdr := (hdr m)\<lparr>data_avail_lead := d, space_avail_lead := s\<rparr>\<rparr>, info, VXT_PARM)
         | _ \<Rightarrow> None)
      else if cmd = VXT_IOCTL_QUERY_SEND \<or> cmd = VXT_IOCTL_QUERY_RCV then
        (case info of
           Queue_Info _ \<Rightarrow>
             Some (q, m, Queue_Info \<lparr>info_hdr = hdr m, info_buf_index = buf_index q,
               info_local_producer = local_producer q\<rparr>, VXT_PARM)
         | _ \<Rightarrow> None)
      else if cmd = VXT_IOCTL_SET_SEND_ERROR \<or> cmd = VXT_IOCTL_SET_RCV_ERROR then
        (case info of
           Error_Value e \<Rightarrow> Some (q, m\<lparr>hdr := (hdr m)\<lparr>qerror := e\<rparr>\<rparr>, info, VXT_PARM)
         | _ \<Rightarrow> None)
      else if cmd = VXT_IOCTL_RESET_SEND \<or> cmd = VXT_IOCTL_RESET_RCV then
        (if local_producer q then
           (let (q', m') = vxtq_reset q m in Some (q', m', info, VXT_PARM))
         else Some (q\<lparr>buf_index := 0\<rparr>, m, info, VXT_SUCCESS))
      else Some (q, m, info, VXT_PARM))"

end
