(* ===== verification/Vxt_Ring.thy ===== *)
theory Vxt_Ring
  imports Vxt_Queue
begin

text \<open>
  The ring discipline of the shared memory queue. Read from the consumer's index, the
  array of sub-buffers is a list \<open>W @ F\<close>: first the window \<open>W\<close> of sub-buffers the producer has
  taken and the consumer has not, then the free part \<open>F\<close>. The relation \<open>ring_rep\<close> links the two
  private queue states and the shared region to \<open>(W, F)\<close>; get and put are shown to refine
  operations on the two lists.
\<close>

subsection \<open>Rotations\<close>

lemma rotate_list_update:
  assumes j: "j < length xs" and i: "i = (c + j) mod length xs"
  shows "rotate c (xs[i := b]) = (rotate c xs)[j := b]"
proof (rule nth_equalityI)
  show "length (rotate c (xs[i := b])) = length ((rotate c xs)[j := b])" by simp
next
  fix k assume "k < length (rotate c (xs[i := b]))"
  then have k: "k < length xs" by simp
  have "(c + k) mod length xs = (c + j) mod length xs \<longleftrightarrow> k = j"
    using mod_ring_inj [of c k "length xs" j] j k by blast
  moreover have "(c + j) mod length xs < length xs"
    using j by (intro mod_less_divisor) linarith
  ultimately show "rotate c (xs[i := b]) ! k = (rotate c xs)[j := b] ! k"
    using j k i by (auto simp: nth_rotate nth_list_update)
qed

lemma unat_next_index:
  assumes "unat i < unat (buf_cnt (hdr m))"
  shows "unat (next_index m i) = Suc (unat i) mod unat (buf_cnt (hdr m))"
proof -
  have "unat (i + 1) = Suc (unat i)"
    using assms by (intro unat_Suc_less [of i "buf_cnt (hdr m)"]) (simp add: word_less_nat_alt)
  with assms show ?thesis
    by (auto simp: next_index_def word_le_nat_alt le_Suc_eq not_le)
qed

subsection \<open>The window and the free part\<close>

text \<open>
  A sub-buffer of the window is held by the producer's application or was passed on to the
  consumer; a free one is held by the consumer's application or was passed back.
\<close>

definition in_flight :: "vxtq_sbuf_header \<Rightarrow> bool" where
  "in_flight b \<longleftrightarrow> (if owner b then app_held b \<and> \<not> sbuf_abort b else \<not> app_held b)"

definition is_free :: "vxtq_sbuf_header \<Rightarrow> bool" where
  "is_free b \<longleftrightarrow> (if owner b then \<not> app_held b else app_held b \<and> \<not> sbuf_abort b)"

definition ring_rep ::
  "vxtq_queue \<Rightarrow> vxtq_queue \<Rightarrow> shm \<Rightarrow> vxtq_sbuf_header list \<Rightarrow> vxtq_sbuf_header list \<Rightarrow> bool" where
  "ring_rep p c m W F \<longleftrightarrow>
     local_producer p \<and> \<not> local_producer c
     \<and> length (sbufs m) = unat (buf_cnt (hdr m))
     \<and> unat (buf_index c) < length (sbufs m)
     \<and> rotate (unat (buf_index c)) (sbufs m) = W @ F
     \<and> unat (buf_index p) = (unat (buf_index c) + length W) mod length (sbufs m)
     \<and> (\<forall>b \<in> set W. in_flight b) \<and> (\<forall>b \<in> set F. is_free b)"

text \<open>The array position of the \<open>j\<close>-th sub-buffer counted from the consumer's index.\<close>

definition ring_pos :: "vxtq_queue \<Rightarrow> shm \<Rightarrow> nat \<Rightarrow> nat" where
  "ring_pos c m j = (unat (buf_index c) + j) mod length (sbufs m)"

lemma ring_rep_length: "ring_rep p c m W F \<Longrightarrow> length W + length F = length (sbufs m)"
  by (metis length_append length_rotate ring_rep_def)

lemma ring_rep_nonempty: "ring_rep p c m W F \<Longrightarrow> 0 < length (sbufs m)"
  by (auto simp: ring_rep_def)

lemma ring_rep_index_p: "ring_rep p c m W F \<Longrightarrow> unat (buf_index p) = ring_pos c m (length W)"
  by (simp add: ring_rep_def ring_pos_def)

lemma ring_rep_bounds:
  assumes "ring_rep p c m W F"
  shows "unat (buf_index p) < length (sbufs m)" and "unat (buf_index c) < length (sbufs m)"
    and "ring_pos c m j < length (sbufs m)"
  using assms ring_rep_nonempty [OF assms] by (auto simp: ring_rep_def ring_pos_def)

lemma ring_rep_nth:
  assumes rep: "ring_rep p c m W F" and j: "j < length (sbufs m)"
  shows "sbufs m ! ring_pos c m j = (W @ F) ! j"
  using assms nth_rotate [OF j, of "unat (buf_index c)"] by (simp add: ring_rep_def ring_pos_def)

text \<open>Updating one sub-buffer updates the corresponding element of \<open>W @ F\<close>.\<close>

lemma ring_rep_update:
  assumes rep: "ring_rep p c m W F" and j: "j < length (sbufs m)" and i: "unat i = ring_pos c m j"
  shows "rotate (unat (buf_index c)) (sbufs (set_sbuf m i b)) = (W @ F)[j := b]"
  using assms rotate_list_update [OF j, of _ "unat (buf_index c)" b]
  by (simp add: ring_rep_def ring_pos_def set_sbuf_def)

lemma set_sbuf_simps [simp]:
  "length (sbufs (set_sbuf m i b)) = length (sbufs m)" "hdr (set_sbuf m i b) = hdr m"
  "ring_pos c (set_sbuf m i b) = ring_pos c m"
  by (auto simp: set_sbuf_def ring_pos_def)

lemma ring_pos_advance:
  assumes "ring_rep p c m W F"
  shows "unat (next_index m (buf_index p)) = ring_pos c m (Suc (length W))"
    and "unat (next_index m (buf_index c)) = ring_pos c m 1"
proof -
  have "length (sbufs m) = unat (buf_cnt (hdr m))"
    using assms by (simp add: ring_rep_def)
  then show "unat (next_index m (buf_index p)) = ring_pos c m (Suc (length W))"
    and "unat (next_index m (buf_index c)) = ring_pos c m 1"
    using unat_next_index ring_rep_bounds [OF assms] ring_rep_index_p [OF assms]
    by (simp_all add: ring_pos_def mod_Suc_eq)
qed

text \<open>
  Three moves cover all operations: the producer takes the first free sub-buffer, the
  consumer takes the first of the window, and one sub-buffer changes in place.
\<close>

lemma ring_rep_take_p:
  assumes rep: "ring_rep p c m W (b # F)" and b': "in_flight b'"
  shows "ring_rep (p\<lparr>buf_index := next_index m (buf_index p)\<rparr>) c (set_sbuf m (buf_index p) b')
           (W @ [b']) F"
proof -
  have j: "length W < length (sbufs m)"
    using ring_rep_length [OF rep] by simp
  show ?thesis
    using rep b' ring_rep_update [OF rep j ring_rep_index_p [OF rep], of b']
      ring_pos_advance(1) [OF rep]
    by (auto simp: ring_rep_def ring_pos_def)
qed

lemma ring_rep_take_c:
  assumes rep: "ring_rep p c m (b # W) F" and b': "is_free b'"
  shows "ring_rep p (c\<lparr>buf_index := next_index m (buf_index c)\<rparr>) (set_sbuf m (buf_index c) b')
           W (F @ [b'])"
proof -
  let ?n = "length (sbufs m)" and ?c = "unat (buf_index c)"
  have n: "0 < ?n" and c: "?c < ?n"
    using ring_rep_bounds [OF rep] by auto
  have "unat (buf_index c) = ring_pos c m 0"
    using c by (simp add: ring_pos_def)
  from ring_rep_update [OF rep n this, of b']
  have rot: "rotate ?c (sbufs (set_sbuf m (buf_index c) b')) = b' # W @ F"
    by simp
  have adv: "unat (next_index m (buf_index c)) = Suc ?c mod ?n"
    using ring_pos_advance(2) [OF rep] by (simp add: ring_pos_def)
  have "rotate (Suc ?c mod ?n) (sbufs (set_sbuf m (buf_index c) b'))
      = rotate1 (rotate ?c (sbufs (set_sbuf m (buf_index c) b')))"
    by (metis length_rotate rotate_Suc rotate_conv_mod set_sbuf_simps(1))
  then have rot': "rotate (Suc ?c mod ?n) (sbufs (set_sbuf m (buf_index c) b')) = W @ F @ [b']"
    using rot by simp
  have "(Suc ?c mod ?n + length W) mod ?n = (?c + Suc (length W)) mod ?n"
    by (simp add: mod_add_left_eq)
  with rep b' rot' adv n show ?thesis
    by (auto simp: ring_rep_def)
qed

lemma ring_rep_change_W:
  assumes rep: "ring_rep p c m W F" and j: "j < length W" and i: "unat i = ring_pos c m j"
    and b': "in_flight b'"
  shows "ring_rep p c (set_sbuf m i b') (W[j := b']) F"
proof -
  have "j < length (sbufs m)"
    using j ring_rep_length [OF rep] by simp
  from ring_rep_update [OF rep this i, of b'] rep j b' show ?thesis
    by (auto simp: ring_rep_def list_update_append dest: set_update_subset_insert [THEN subsetD])
qed

lemma ring_rep_change_F:
  assumes rep: "ring_rep p c m W F" and j: "j < length F"
    and i: "unat i = ring_pos c m (length W + j)" and b': "is_free b'"
  shows "ring_rep p c (set_sbuf m i b') W (F[j := b'])"
proof -
  have "length W + j < length (sbufs m)"
    using j ring_rep_length [OF rep] by simp
  from ring_rep_update [OF rep this i, of b'] rep j b' show ?thesis
    by (auto simp: ring_rep_def list_update_append dest: set_update_subset_insert [THEN subsetD])
qed

lemma ring_rep_back_p:
  assumes rep: "ring_rep p c m (W @ [b]) F" and i: "unat i = ring_pos c m (length W)"
    and b': "is_free b'"
  shows "ring_rep (p\<lparr>buf_index := i\<rparr>) c (set_sbuf m i b') W (b' # F)"
proof -
  have "length W < length (sbufs m)"
    using ring_rep_length [OF rep] by simp
  from ring_rep_update [OF rep this i, of b'] rep i b' show ?thesis
    by (auto simp: ring_rep_def ring_pos_def)
qed

lemma ring_rep_back_c:
  assumes rep: "ring_rep p c m W (F @ [b])" and i: "unat i = ring_pos c m (length W + length F)"
    and b': "in_flight b'"
  shows "ring_rep p (c\<lparr>buf_index := i\<rparr>) (set_sbuf m i b') (b' # W) F"
proof -
  let ?n = "length (sbufs m)" and ?c = "unat (buf_index c)"
  let ?xs = "sbufs (set_sbuf m i b')"
  have n: "?n = Suc (length W + length F)"
    using ring_rep_length [OF rep] by simp
  have pos: "unat i = (?c + (length W + length F)) mod ?n"
    using i by (simp add: ring_pos_def)
  have c: "Suc (unat i) mod ?n = ?c"
    using ring_rep_bounds(2) [OF rep] unfolding pos mod_Suc_eq by (simp add: n Suc_add_mod)
  have "length W + length F < ?n"
    using n by simp
  from ring_rep_update [OF rep this i, of b']
  have rot: "rotate ?c ?xs = W @ F @ [b']"
    by (simp add: list_update_append)
  have "rotate1 (rotate (unat i) ?xs) = W @ F @ [b']"
    using rot c by (metis length_rotate rotate_Suc rotate_conv_mod set_sbuf_simps(1))
  then have rot': "rotate (unat i) ?xs = b' # W @ F"
    by (cases "rotate (unat i) ?xs") (auto simp flip: append_assoc)
  have "(unat i + Suc (length W)) mod ?n = (?c + length W) mod ?n"
    using c by (metis add_Suc_right add_Suc mod_add_left_eq)
  with rep rot' b' ring_rep_bounds(3) [OF rep] i show ?thesis
    by (auto simp: ring_rep_def)
qed

text \<open>Everything but the indices, the roles, the buffer count and the sub-buffers is irrelevant.\<close>

lemma ring_rep_frame [simp]:
  "ring_rep (p\<lparr>signals := s\<rparr>) = ring_rep p"
  "ring_rep p (c\<lparr>signals := s\<rparr>) = ring_rep p c"
  "buf_cnt h = buf_cnt (hdr m) \<Longrightarrow> ring_rep p c (m\<lparr>hdr := h\<rparr>) = ring_rep p c m"
  by (auto simp: ring_rep_def fun_eq_iff)

subsection \<open>The list specification of get\<close>

text \<open>
  What get does on \<open>(W, F)\<close>: aborted sub-buffers are turned around, the next one is taken
  if it is available, and otherwise the caller learns whether it holds that sub-buffer
  itself (\<^verbatim>\<open>VXT_NOMEM\<close>) or the remote end has to act first (\<^verbatim>\<open>VXT_RSRC\<close>).
\<close>

type_synonym window = "vxtq_sbuf_header list \<times> vxtq_sbuf_header list"

definition turn_around :: "vxtq_sbuf_header \<Rightarrow> vxtq_sbuf_header" where
  "turn_around b = b\<lparr>sbuf_abort := False, owner := \<not> owner b\<rparr>"

fun spec_get_p :: "vxtq_sbuf_header list \<Rightarrow> vxtq_sbuf_header list \<Rightarrow>
    window \<times> (vxt_status + vxtq_sbuf_header)" where
  "spec_get_p W [] =
     ((W, []), Inl (if W \<noteq> [] \<and> owner (hd W) then VXT_NOMEM else VXT_RSRC))"
| "spec_get_p W (b # F) =
     (if \<not> owner b then ((W, b # F), Inl VXT_RSRC)
      else if sbuf_abort b then spec_get_p (W @ [turn_around b]) F
      else ((W @ [b\<lparr>app_held := True\<rparr>], F), Inr b))"

fun spec_get_c :: "vxtq_sbuf_header list \<Rightarrow> vxtq_sbuf_header list \<Rightarrow>
    window \<times> (vxt_status + vxtq_sbuf_header)" where
  "spec_get_c [] F =
     (([], F), Inl (if F \<noteq> [] \<and> \<not> owner (hd F) then VXT_NOMEM else VXT_RSRC))"
| "spec_get_c (b # W) F =
     (if owner b then ((b # W, F), Inl VXT_RSRC)
      else if sbuf_abort b then spec_get_c W (F @ [turn_around b])
      else ((W, F @ [b\<lparr>app_held := True\<rparr>]), Inr b))"

lemma turn_around_kind:
  "is_free b \<Longrightarrow> owner b \<Longrightarrow> in_flight (turn_around b)"
  "in_flight b \<Longrightarrow> \<not> owner b \<Longrightarrow> is_free (turn_around b)"
  by (auto simp: turn_around_def in_flight_def is_free_def)

lemma hold_kind:
  "is_free b \<Longrightarrow> owner b \<Longrightarrow> \<not> sbuf_abort b \<Longrightarrow> in_flight (b\<lparr>app_held := True\<rparr>)"
  "in_flight b \<Longrightarrow> \<not> owner b \<Longrightarrow> \<not> sbuf_abort b \<Longrightarrow> is_free (b\<lparr>app_held := True\<rparr>)"
  by (auto simp: in_flight_def is_free_def)

text \<open>The sub-buffer under each index.\<close>

lemma ring_rep_at_p:
  assumes "ring_rep p c m W F"
  shows "sbufs m ! unat (buf_index p) = (if F = [] then hd W else hd F)"
proof (cases F)
  case Nil
  then have len: "length W = length (sbufs m)"
    using ring_rep_length [OF assms] by simp
  then have "unat (buf_index p) = ring_pos c m 0"
    using ring_rep_index_p [OF assms] by (simp add: ring_pos_def)
  with ring_rep_nth [OF assms, of 0] ring_rep_nonempty [OF assms] len Nil show ?thesis
    by (cases W) auto
next
  case (Cons b F')
  then have "length W < length (sbufs m)"
    using ring_rep_length [OF assms] by simp
  from ring_rep_nth [OF assms this] ring_rep_index_p [OF assms] Cons show ?thesis by simp
qed

lemma ring_rep_at_c:
  assumes "ring_rep p c m W F"
  shows "sbufs m ! unat (buf_index c) = (if W = [] then hd F else hd W)"
proof -
  have "unat (buf_index c) = ring_pos c m 0"
    using ring_rep_bounds [OF assms] by (simp add: ring_pos_def)
  with ring_rep_nth [OF assms, of 0] ring_rep_nonempty [OF assms] ring_rep_length [OF assms]
  show ?thesis by (cases W; cases F) auto
qed

text \<open>The result of get for a specification result: a status, or the sub-buffer at a position.\<close>

definition get_result ::
  "vxtq_queue \<Rightarrow> shm \<Rightarrow> nat \<Rightarrow> vxt_status + vxtq_sbuf_header \<Rightarrow> vxtq_get_result" where
  "get_result q m pos res =
     (case res of Inl e \<Rightarrow> NotGot e
      | Inr b \<Rightarrow> Got (word_of_nat pos) (buf_addr q m (word_of_nat pos))
          (if local_producer q then buf_size (hdr m) - word_of_nat sizeof_sbuf_header
           else ucast (data_len b)))"

lemma get_result_frame [simp]:
  "get_result (q\<lparr>buf_index := i\<rparr>) m = get_result q m"
  "get_result q (set_sbuf m i b) = get_result q m"
  by (auto simp: get_result_def buf_addr_def fun_eq_iff split: sum.split)

lemma word_of_unat: "unat (w :: u32) = n \<Longrightarrow> word_of_nat n = w"
  by auto

lemma vxtq_get_loop_p_refines:
  assumes "ring_rep p c m W F" and "\<not> flag_set flags VXTQ_FLAGS_WAIT"
    and "spec_get_p W F = ((W', F'), res)"
  shows "\<exists>p' m'. ring_rep p' c m' W' F' \<and> hdr m' = hdr m \<and> buffers p' = buffers p
    \<and> signals p' = signals p
    \<and> vxtq_get_loop wait flags p m =
        Some (p', m', get_result p m (ring_pos c m' (length W' - 1)) res)"
  using assms
proof (induction F arbitrary: p m W)
  case Nil
  note bounds = ring_rep_bounds [OF Nil.prems(1)]
  have "W \<noteq> []" "\<forall>b \<in> set W. in_flight b" "local_producer p"
    using Nil.prems(1) ring_rep_length [OF Nil.prems(1)] bounds by (auto simp: ring_rep_def)
  then show ?case
    using Nil.prems bounds ring_rep_at_p [OF Nil.prems(1)]
    by (subst vxtq_get_loop.simps) (auto simp: Let_def not_le in_flight_def get_result_def)
next
  case (Cons b F)
  note bounds = ring_rep_bounds [OF Cons.prems(1)]
  have at: "sbufs m ! unat (buf_index p) = b" and prod: "local_producer p"
    and free: "is_free b"
    using ring_rep_at_p [OF Cons.prems(1)] Cons.prems(1) by (auto simp: ring_rep_def)
  let ?p = "p\<lparr>buf_index := next_index m (buf_index p)\<rparr>"
  consider (remote) "\<not> owner b" | (abort) "owner b" "sbuf_abort b"
    | (take) "owner b" "\<not> sbuf_abort b"
    by blast
  then show ?case
  proof cases
    case remote
    with Cons.prems at prod bounds show ?thesis
      by (subst vxtq_get_loop.simps) (auto simp: Let_def not_le get_result_def)
  next
    case abort
    let ?m = "set_sbuf m (buf_index p) (turn_around b)"
    have rep: "ring_rep ?p c ?m (W @ [turn_around b]) F"
      using ring_rep_take_p [OF Cons.prems(1)] turn_around_kind(1) [OF free] abort by blast
    have "vxtq_get_loop wait flags p m = vxtq_get_loop wait flags ?p ?m"
      using abort at prod bounds
      by (subst vxtq_get_loop.simps) (simp add: Let_def not_le turn_around_def)
    with Cons.IH [OF rep Cons.prems(2)] Cons.prems(3) abort show ?thesis by auto
  next
    case take
    let ?m = "set_sbuf m (buf_index p) (b\<lparr>app_held := True\<rparr>)"
    have rep: "ring_rep ?p c ?m (W @ [b\<lparr>app_held := True\<rparr>]) F"
      using ring_rep_take_p [OF Cons.prems(1)] hold_kind(1) [OF free] take by blast
    have "word_of_nat (ring_pos c m (length W)) = buf_index p"
      using ring_rep_index_p [OF Cons.prems(1)] by (rule word_of_unat)
    with take at prod bounds free rep Cons.prems(3) show ?thesis
      by (subst vxtq_get_loop.simps)
        (auto simp: Let_def not_le is_free_def get_result_def)
  qed
qed

lemma vxtq_get_loop_c_refines:
  assumes "ring_rep p c m W F" and "\<not> flag_set flags VXTQ_FLAGS_WAIT"
    and "spec_get_c W F = ((W', F'), res)"
  shows "\<exists>c' m'. ring_rep p c' m' W' F' \<and> hdr m' = hdr m \<and> buffers c' = buffers c
    \<and> signals c' = signals c
    \<and> vxtq_get_loop wait flags c m =
        Some (c', m', get_result c m (ring_pos c' m' (length W' + length F' - 1)) res)"
  using assms
proof (induction W arbitrary: c m F)
  case Nil
  note bounds = ring_rep_bounds [OF Nil.prems(1)]
  have "F \<noteq> []" "\<forall>b \<in> set F. is_free b" "\<not> local_producer c"
    using Nil.prems(1) ring_rep_length [OF Nil.prems(1)] bounds by (auto simp: ring_rep_def)
  then show ?case
    using Nil.prems bounds ring_rep_at_c [OF Nil.prems(1)]
    by (subst vxtq_get_loop.simps) (auto simp: Let_def not_le is_free_def get_result_def)
next
  case (Cons b W)
  note bounds = ring_rep_bounds [OF Cons.prems(1)]
  have at: "sbufs m ! unat (buf_index c) = b" and cons: "\<not> local_producer c"
    and flight: "in_flight b"
    using ring_rep_at_c [OF Cons.prems(1)] Cons.prems(1) by (auto simp: ring_rep_def)
  let ?c = "c\<lparr>buf_index := next_index m (buf_index c)\<rparr>"
  consider (remote) "owner b" | (abort) "\<not> owner b" "sbuf_abort b"
    | (take) "\<not> owner b" "\<not> sbuf_abort b"
    by blast
  then show ?case
  proof cases
    case remote
    with Cons.prems at cons bounds show ?thesis
      by (subst vxtq_get_loop.simps) (auto simp: Let_def not_le get_result_def)
  next
    case abort
    let ?m = "set_sbuf m (buf_index c) (turn_around b)"
    have rep: "ring_rep p ?c ?m W (F @ [turn_around b])"
      using ring_rep_take_c [OF Cons.prems(1)] turn_around_kind(2) [OF flight] abort by blast
    have "vxtq_get_loop wait flags c m = vxtq_get_loop wait flags ?c ?m"
      using abort at cons bounds
      by (subst vxtq_get_loop.simps) (simp add: Let_def not_le turn_around_def)
    with Cons.IH [OF rep Cons.prems(2)] Cons.prems(3) abort show ?thesis by auto
  next
    case take
    let ?m = "set_sbuf m (buf_index c) (b\<lparr>app_held := True\<rparr>)"
    have rep: "ring_rep p ?c ?m W (F @ [b\<lparr>app_held := True\<rparr>])"
      using ring_rep_take_c [OF Cons.prems(1)] hold_kind(2) [OF flight] take by blast
    have len: "Suc (length W + length F) = length (sbufs m)"
      using ring_rep_length [OF Cons.prems(1)] by simp
    have "unat (buf_index c) = ring_pos ?c m (length W + length F)"
      using ring_pos_advance(2) [OF Cons.prems(1)] bounds(2)
      by (simp add: ring_pos_def mod_add_left_eq Suc_add_mod flip: len)
    then have "word_of_nat (ring_pos ?c m (length W + length F)) = buf_index c"
      by (rule word_of_unat)
    with take at cons bounds flight rep Cons.prems(3) show ?thesis
      by (subst vxtq_get_loop.simps)
        (auto simp: Let_def not_le in_flight_def get_result_def)
  qed
qed

subsection \<open>Put\<close>

text \<open>Header fields that moving a buffer never changes.\<close>

definition same_config :: "vxtq_control \<Rightarrow> vxtq_control \<Rightarrow> bool" where
  "same_config h h' \<longleftrightarrow>
     buf_cnt h' = buf_cnt h \<and> buf_size h' = buf_size h
     \<and> consumer_flush h' = consumer_flush h \<and> producer_suspend h' = producer_suspend h
     \<and> producer_stop h' = producer_stop h \<and> qerror h' = qerror h
     \<and> data_avail_lead h' = data_avail_lead h \<and> space_avail_lead h' = space_avail_lead h"

lemma same_config_refl [simp]: "same_config h h"
  by (simp add: same_config_def)

lemma same_config_trans: "same_config h h1 \<Longrightarrow> same_config h1 h2 \<Longrightarrow> same_config h h2"
  by (simp add: same_config_def)

lemma signals_same [simp]: "\<exists>s. q = q\<lparr>signals := s\<rparr>"
  by (rule exI [of _ "signals q"]) simp

lemma vxtq_put_done_eq:
  "\<exists>h s. vxtq_put_done flags q m = Some (q\<lparr>signals := s\<rparr>, m\<lparr>hdr := h\<rparr>, VXT_SUCCESS)
     \<and> same_config (hdr m) h
     \<and> send_cnt h = send_cnt (hdr m) + (if local_producer q then 1 else 0)
     \<and> receive_cnt h = receive_cnt (hdr m) + (if local_producer q then 0 else 1)"
  by (auto simp: vxtq_put_done_def vxtq_put_signal_def do_signal_def same_config_def Let_def)

lemma ring_pos_ex:
  assumes rep: "ring_rep p c m W F" and i: "i < buf_cnt (hdr m)"
  shows "\<exists>j < length (sbufs m). unat i = ring_pos c m j"
  using mod_ring_surj [of "unat i" "length (sbufs m)" "unat (buf_index c)"] rep i
  by (auto simp: ring_rep_def ring_pos_def word_less_nat_alt)

lemma ring_pos_inj:
  "ring_pos c m j = ring_pos c m k \<Longrightarrow> j < length (sbufs m) \<Longrightarrow> k < length (sbufs m) \<Longrightarrow> j = k"
  unfolding ring_pos_def by (rule mod_ring_inj)

text \<open>A sub-buffer held by one end lies in the part of the ring that end works on.\<close>

lemma ring_rep_held:
  assumes rep: "ring_rep p c m W F" and j: "j < length (sbufs m)"
    and held: "app_held ((W @ F) ! j)"
  shows "owner ((W @ F) ! j) \<longleftrightarrow> j < length W"
proof (cases "j < length W")
  case True
  then have "in_flight (W ! j)" using rep by (auto simp: ring_rep_def)
  with True held show ?thesis by (auto simp: in_flight_def nth_append split: if_splits)
next
  case False
  then have "F ! (j - length W) \<in> set F" using ring_rep_length [OF rep] j by simp
  then have "is_free (F ! (j - length W))" using rep by (auto simp: ring_rep_def)
  with False held show ?thesis by (auto simp: is_free_def nth_append split: if_splits)
qed

definition give :: "u32 \<Rightarrow> vxtq_sbuf_header \<Rightarrow> vxtq_sbuf_header" where
  "give dlen b = b\<lparr>data_len := ucast dlen, app_held := False, owner := \<not> owner b\<rparr>"

definition may_put :: "vxtq_queue \<Rightarrow> shm \<Rightarrow> nat \<Rightarrow> u32 \<Rightarrow> bool" where
  "may_put q m buffer i \<longleftrightarrow> i < buf_cnt (hdr m) \<and> buf_addr q m i = buffer
     \<and> owner (sbufs m ! unat i) = local_producer q \<and> app_held (sbufs m ! unat i)"

lemma vxtq_put_buf_rejects:
  assumes "length (sbufs m) = unat (buf_cnt (hdr m))" and "\<not> may_put q m buffer i"
  shows "vxtq_put_buf flags q m buffer i dlen = Some (q, m, VXT_PARM)"
  using assms by (auto simp: vxtq_put_buf_def may_put_def Let_def not_le word_less_nat_alt)

lemma vxtq_put_buf_accepts:
  assumes len: "length (sbufs m) = unat (buf_cnt (hdr m))" and may: "may_put q m buffer i"
  shows "vxtq_put_buf flags q m buffer i dlen =
    (if flag_set flags VXTQ_FLAGS_ABORT then vxtq_put_abort flags q m i
     else if \<not> flag_set flags VXTQ_IGNORE_SHUTDOWN \<and> local_producer q
             \<and> producer_stop (hdr m) = 1 then Some (q, m, VXT_BLOCKED)
     else vxtq_put_done flags q (set_sbuf m i (give dlen (sbufs m ! unat i))))"
proof -
  have "\<not> buf_cnt (hdr m) \<le> i" "\<not> length (sbufs m) \<le> unat i"
    using len may by (simp_all add: may_put_def not_le word_less_nat_alt)
  with may show ?thesis by (simp add: vxtq_put_buf_def may_put_def Let_def give_def)
qed

text \<open>An ordinary put of a sub-buffer the producer's application holds.\<close>

lemma vxtq_put_buf_p:
  assumes rep: "ring_rep p c m W F" and j: "j < length W" and own: "owner (W ! j)"
    and i: "unat i = ring_pos c m j" and addr: "buffer = buf_addr p m i"
    and flags: "\<not> flag_set flags VXTQ_FLAGS_ABORT"
    and stop: "flag_set flags VXTQ_IGNORE_SHUTDOWN \<or> producer_stop (hdr m) \<noteq> 1"
  shows "\<exists>s h. vxtq_put_buf flags p m buffer i dlen =
      Some (p\<lparr>signals := s\<rparr>, (set_sbuf m i (give dlen (W ! j)))\<lparr>hdr := h\<rparr>, VXT_SUCCESS)
    \<and> ring_rep (p\<lparr>signals := s\<rparr>) c ((set_sbuf m i (give dlen (W ! j)))\<lparr>hdr := h\<rparr>)
        (W[j := give dlen (W ! j)]) F
    \<and> same_config (hdr m) h"
proof -
  have jn: "j < length (sbufs m)" using j ring_rep_length [OF rep] by simp
  have at: "sbufs m ! unat i = W ! j"
    using ring_rep_nth [OF rep jn] i j by (simp add: nth_append)
  have fl: "in_flight (W ! j)" and prod: "local_producer p"
    and len: "length (sbufs m) = unat (buf_cnt (hdr m))"
    using rep j by (auto simp: ring_rep_def)
  have lt: "\<not> buf_cnt (hdr m) \<le> i" "\<not> length (sbufs m) \<le> unat i"
    using ring_rep_bounds(3) [OF rep, of j] i len by (simp_all add: word_le_nat_alt)
  have "in_flight (give dlen (W ! j))"
    using fl own by (simp add: in_flight_def give_def)
  then have rep': "ring_rep p c (set_sbuf m i (give dlen (W ! j))) (W[j := give dlen (W ! j)]) F"
    using ring_rep_change_W [OF rep j i] by blast
  obtain h s where fin: "vxtq_put_done flags p (set_sbuf m i (give dlen (W ! j))) =
      Some (p\<lparr>signals := s\<rparr>, (set_sbuf m i (give dlen (W ! j)))\<lparr>hdr := h\<rparr>, VXT_SUCCESS)"
      "same_config (hdr m) h"
    using vxtq_put_done_eq [of flags p "set_sbuf m i (give dlen (W ! j))"] by auto
  have "vxtq_put_buf flags p m buffer i dlen =
      vxtq_put_done flags p (set_sbuf m i (give dlen (W ! j)))"
    using lt at own fl prod flags stop addr len
    by (subst vxtq_put_buf_accepts) (auto simp: may_put_def in_flight_def not_le)
  with fin rep' show ?thesis
    by (auto simp: same_config_def)
qed

lemma vxtq_put_buf_c:
  assumes rep: "ring_rep p c m W F" and j: "j < length F" and own: "\<not> owner (F ! j)"
    and i: "unat i = ring_pos c m (length W + j)" and addr: "buffer = buf_addr c m i"
    and flags: "\<not> flag_set flags VXTQ_FLAGS_ABORT"
  shows "\<exists>s h. vxtq_put_buf flags c m buffer i dlen =
      Some (c\<lparr>signals := s\<rparr>, (set_sbuf m i (give dlen (F ! j)))\<lparr>hdr := h\<rparr>, VXT_SUCCESS)
    \<and> ring_rep p (c\<lparr>signals := s\<rparr>) ((set_sbuf m i (give dlen (F ! j)))\<lparr>hdr := h\<rparr>)
        W (F[j := give dlen (F ! j)])
    \<and> same_config (hdr m) h"
proof -
  have jn: "length W + j < length (sbufs m)" using j ring_rep_length [OF rep] by simp
  have at: "sbufs m ! unat i = F ! j"
    using ring_rep_nth [OF rep jn] i j by (simp add: nth_append)
  have fr: "is_free (F ! j)" and cons: "\<not> local_producer c"
    and len: "length (sbufs m) = unat (buf_cnt (hdr m))"
    using rep j by (auto simp: ring_rep_def)
  have lt: "\<not> buf_cnt (hdr m) \<le> i" "\<not> length (sbufs m) \<le> unat i"
    using ring_rep_bounds(3) [OF rep, of "length W + j"] i len by (simp_all add: word_le_nat_alt)
  have "is_free (give dlen (F ! j))"
    using fr own by (simp add: is_free_def give_def)
  then have rep': "ring_rep p c (set_sbuf m i (give dlen (F ! j))) W (F[j := give dlen (F ! j)])"
    using ring_rep_change_F [OF rep j i] by blast
  obtain h s where fin: "vxtq_put_done flags c (set_sbuf m i (give dlen (F ! j))) =
      Some (c\<lparr>signals := s\<rparr>, (set_sbuf m i (give dlen (F ! j)))\<lparr>hdr := h\<rparr>, VXT_SUCCESS)"
      "same_config (hdr m) h"
    using vxtq_put_done_eq [of flags c "set_sbuf m i (give dlen (F ! j))"] by auto
  have "vxtq_put_buf flags c m buffer i dlen =
      vxtq_put_done flags c (set_sbuf m i (give dlen (F ! j)))"
    using lt at own fr cons flags addr len
    by (subst vxtq_put_buf_accepts) (auto simp: may_put_def is_free_def not_le)
  with fin rep' show ?thesis
    by (auto simp: same_config_def)
qed

subsection \<open>Abort\<close>

text \<open>
  The condition under which an aborted put backs the index up means that the sub-buffer is
  the last one its end took.
\<close>

definition backs_up :: "vxtq_queue \<Rightarrow> shm \<Rightarrow> u32 \<Rightarrow> bool" where
  "backs_up q m i \<longleftrightarrow> buf_index q = i + 1 \<or> (i + 1 = buf_cnt (hdr m) \<and> buf_index q = 0)"

lemma backs_up_next:
  assumes "backs_up q m i" and "unat i < unat (buf_cnt (hdr m))"
    and "unat (buf_index q) < unat (buf_cnt (hdr m))"
  shows "unat (buf_index q) = Suc (unat i) mod unat (buf_cnt (hdr m))"
proof -
  have "unat (i + 1) = Suc (unat i)"
    using assms(2) by (intro unat_Suc_less [of i "buf_cnt (hdr m)"]) (simp add: word_less_nat_alt)
  with assms show ?thesis by (auto simp: backs_up_def)
qed

lemma mod_ring_last:
  assumes "(c + Suc j) mod n = (c + k) mod n" and "j < k" and "k \<le> n"
  shows "Suc j = (k :: nat)"
  using assms mod_ring_inj [of "Suc c" j n "k - 1"] by simp

lemma backs_up_p:
  assumes rep: "ring_rep p c m W F" and j: "j < length W" and i: "unat i = ring_pos c m j"
    and bu: "backs_up p m i"
  shows "Suc j = length W"
proof (rule mod_ring_last)
  let ?n = "length (sbufs m)"
  have len: "?n = unat (buf_cnt (hdr m))" using rep by (simp add: ring_rep_def)
  show "(unat (buf_index c) + Suc j) mod ?n = (unat (buf_index c) + length W) mod ?n"
    using backs_up_next [OF bu] ring_rep_bounds [OF rep] i ring_rep_index_p [OF rep]
    by (simp add: len ring_pos_def mod_Suc_eq)
  show "j < length W" "length W \<le> ?n" using j ring_rep_length [OF rep] by auto
qed

lemma backs_up_c:
  assumes rep: "ring_rep p c m W F" and j: "j < length F"
    and i: "unat i = ring_pos c m (length W + j)" and bu: "backs_up c m i"
  shows "Suc j = length F"
proof -
  let ?n = "length (sbufs m)"
  have len: "?n = unat (buf_cnt (hdr m))" and n: "length W + length F = ?n"
    using rep ring_rep_length [OF rep] by (auto simp: ring_rep_def)
  have "Suc (length W + j) = ?n"
  proof (rule mod_ring_last)
    show "(unat (buf_index c) + Suc (length W + j)) mod ?n = (unat (buf_index c) + ?n) mod ?n"
      using backs_up_next [OF bu] ring_rep_bounds [OF rep] i
      by (simp add: len ring_pos_def mod_Suc_eq)
  qed (use j n in auto)
  with n show ?thesis by simp
qed

definition abort_given :: "vxtq_sbuf_header \<Rightarrow> vxtq_sbuf_header" where
  "abort_given b = (if owner b then b\<lparr>data_len := 0\<rparr> else b)
     \<lparr>app_held := False, sbuf_abort := True, owner := \<not> owner b\<rparr>"

text \<open>An aborted put of a held sub-buffer, for the producer and for the consumer.\<close>

lemma vxtq_put_abort_p:
  assumes rep: "ring_rep p c m W F" and j: "j < length W" and own: "owner (W ! j)"
    and i: "unat i = ring_pos c m j"
  shows "\<exists>p' m' W' F'. vxtq_put_abort flags p m i = Some (p', m', VXT_SUCCESS)
    \<and> ring_rep p' c m' W' F' \<and> same_config (hdr m) (hdr m')
    \<and> (if backs_up p m i then W' = butlast W \<and> F' = (last W)\<lparr>app_held := False\<rparr> # F
       else W' = W[j := abort_given (W ! j)] \<and> F' = F)"
proof -
  have jn: "j < length (sbufs m)" using j ring_rep_length [OF rep] by simp
  have at: "sbufs m ! unat i = W ! j"
    using ring_rep_nth [OF rep jn] i j by (simp add: nth_append)
  have fl: "in_flight (W ! j)" and prod: "local_producer p"
    using rep j by (auto simp: ring_rep_def)
  show ?thesis
  proof (cases "backs_up p m i")
    case True
    have last: "Suc j = length W" using backs_up_p [OF rep j i True] .
    then have W: "W = butlast W @ [last W]" and j': "j = length (butlast W)" and lj: "W ! j = last W"
      by (rule last_split)+
    have "is_free ((last W)\<lparr>app_held := False\<rparr>)"
      using own lj by (simp add: is_free_def)
    moreover have "ring_rep p c m (butlast W @ [last W]) F"
      using rep W by simp
    ultimately have "ring_rep (p\<lparr>buf_index := i\<rparr>) c (set_sbuf m i ((last W)\<lparr>app_held := False\<rparr>))
        (butlast W) ((last W)\<lparr>app_held := False\<rparr> # F)"
      using i j' by (intro ring_rep_back_p) auto
    with True at lj show ?thesis
      by (auto simp: vxtq_put_abort_def Let_def backs_up_def [symmetric] do_signal_def)
  next
    case False
    let ?m = "set_sbuf m i (abort_given (W ! j))"
    have rep': "ring_rep p c ?m (W[j := abort_given (W ! j)]) F"
      using fl own by (intro ring_rep_change_W [OF rep j i]) (simp add: in_flight_def abort_given_def)
    have "vxtq_put_abort flags p m i = vxtq_put_done flags p ?m"
      using False at own prod
      by (simp add: vxtq_put_abort_def Let_def backs_up_def [symmetric] abort_given_def)
    with False rep' vxtq_put_done_eq [of flags p ?m] show ?thesis
      by (fastforce simp: same_config_def)
  qed
qed

lemma vxtq_put_abort_c:
  assumes rep: "ring_rep p c m W F" and j: "j < length F" and own: "\<not> owner (F ! j)"
    and i: "unat i = ring_pos c m (length W + j)"
  shows "\<exists>c' m' W' F'. vxtq_put_abort flags c m i = Some (c', m', VXT_SUCCESS)
    \<and> ring_rep p c' m' W' F' \<and> same_config (hdr m) (hdr m')
    \<and> (if backs_up c m i then W' = (last F)\<lparr>app_held := False\<rparr> # W \<and> F' = butlast F
       else W' = W \<and> F' = F[j := abort_given (F ! j)])"
proof -
  have jn: "length W + j < length (sbufs m)" using j ring_rep_length [OF rep] by simp
  have at: "sbufs m ! unat i = F ! j"
    using ring_rep_nth [OF rep jn] i j by (simp add: nth_append)
  have fr: "is_free (F ! j)" and cons: "\<not> local_producer c"
    using rep j by (auto simp: ring_rep_def)
  show ?thesis
  proof (cases "backs_up c m i")
    case True
    have last: "Suc j = length F" using backs_up_c [OF rep j i True] .
    then have F: "F = butlast F @ [last F]" and j': "j = length (butlast F)" and lj: "F ! j = last F"
      by (rule last_split)+
    have "in_flight ((last F)\<lparr>app_held := False\<rparr>)"
      using own lj by (simp add: in_flight_def)
    moreover have "ring_rep p c m W (butlast F @ [last F])"
      using rep F by simp
    ultimately have "ring_rep p (c\<lparr>buf_index := i\<rparr>) (set_sbuf m i ((last F)\<lparr>app_held := False\<rparr>))
        ((last F)\<lparr>app_held := False\<rparr> # W) (butlast F)"
      using i j' by (intro ring_rep_back_c) auto
    with True at lj show ?thesis
      by (auto simp: vxtq_put_abort_def Let_def backs_up_def [symmetric] do_signal_def)
  next
    case False
    let ?m = "set_sbuf m i (abort_given (F ! j))"
    have rep': "ring_rep p c ?m W (F[j := abort_given (F ! j)])"
      using fr own by (intro ring_rep_change_F [OF rep j i]) (simp add: is_free_def abort_given_def)
    have "vxtq_put_abort flags c m i = vxtq_put_done flags c ?m"
      using False at own cons
      by (simp add: vxtq_put_abort_def Let_def backs_up_def [symmetric] abort_given_def)
    with False rep' vxtq_put_done_eq [of flags c ?m] show ?thesis
      by (fastforce simp: same_config_def)
  qed
qed

subsection \<open>Every call keeps the ring discipline\<close>

lemma vxtq_put_buf_keeps_p:
  assumes rep: "ring_rep p c m W F"
  shows "\<exists>p' m' st W' F'. vxtq_put_buf flags p m buffer i dlen = Some (p', m', st)
    \<and> ring_rep p' c m' W' F' \<and> same_config (hdr m) (hdr m')"
proof -
  let ?b = "sbufs m ! unat i"
  consider (parm) "\<not> may_put p m buffer i"
    | (held) "i < buf_cnt (hdr m)" "buf_addr p m i = buffer" "owner ?b" "app_held ?b"
    using rep by (auto simp: may_put_def ring_rep_def)
  then show ?thesis
  proof cases
    case parm
    with rep vxtq_put_buf_rejects [OF _ parm] show ?thesis
      by (fastforce simp: ring_rep_def)
  next
    case held
    obtain j where jn: "j < length (sbufs m)" and i: "unat i = ring_pos c m j"
      using ring_pos_ex [OF rep held(1)] by blast
    have at: "?b = (W @ F) ! j" using ring_rep_nth [OF rep jn] i by simp
    then have j: "j < length W" using ring_rep_held [OF rep jn] held by simp
    with at have b: "?b = W ! j" by (simp add: nth_append)
    have prod: "local_producer p" using rep by (simp add: ring_rep_def)
    have accept: "vxtq_put_buf flags p m buffer i dlen =
      (if flag_set flags VXTQ_FLAGS_ABORT then vxtq_put_abort flags p m i
       else if \<not> flag_set flags VXTQ_IGNORE_SHUTDOWN \<and> local_producer p
               \<and> producer_stop (hdr m) = 1 then Some (p, m, VXT_BLOCKED)
       else vxtq_put_done flags p (set_sbuf m i (give dlen ?b)))"
      using held prod rep by (intro vxtq_put_buf_accepts) (auto simp: may_put_def ring_rep_def)
    consider (abort) "flag_set flags VXTQ_FLAGS_ABORT"
      | (blocked) "vxtq_put_buf flags p m buffer i dlen = Some (p, m, VXT_BLOCKED)"
      | (give) "\<not> flag_set flags VXTQ_FLAGS_ABORT"
          "flag_set flags VXTQ_IGNORE_SHUTDOWN \<or> producer_stop (hdr m) \<noteq> 1"
      using accept prod by (auto split: if_splits)
    then show ?thesis
    proof cases
      case abort
      with accept vxtq_put_abort_p [OF rep j _ i, of flags] held(3) b show ?thesis by auto
    next
      case blocked
      with rep show ?thesis by auto
    next
      case give
      with vxtq_put_buf_p [OF rep j _ i] held b show ?thesis by fastforce
    qed
  qed
qed

lemma vxtq_put_buf_keeps_c:
  assumes rep: "ring_rep p c m W F"
  shows "\<exists>c' m' st W' F'. vxtq_put_buf flags c m buffer i dlen = Some (c', m', st)
    \<and> ring_rep p c' m' W' F' \<and> same_config (hdr m) (hdr m')"
proof -
  let ?b = "sbufs m ! unat i"
  consider (parm) "\<not> may_put c m buffer i"
    | (held) "i < buf_cnt (hdr m)" "buf_addr c m i = buffer" "\<not> owner ?b" "app_held ?b"
    using rep by (auto simp: may_put_def ring_rep_def)
  then show ?thesis
  proof cases
    case parm
    with rep vxtq_put_buf_rejects [OF _ parm] show ?thesis
      by (fastforce simp: ring_rep_def)
  next
    case held
    obtain k where kn: "k < length (sbufs m)" and k: "unat i = ring_pos c m k"
      using ring_pos_ex [OF rep held(1)] by blast
    have at: "?b = (W @ F) ! k" using ring_rep_nth [OF rep kn] k by simp
    then have "length W \<le> k" using ring_rep_held [OF rep kn] held by simp
    then obtain j where kj: "k = length W + j" by (metis le_Suc_ex)
    have j: "j < length F" using kj kn ring_rep_length [OF rep] by simp
    have b: "?b = F ! j" and i: "unat i = ring_pos c m (length W + j)"
      using at kj k by (simp_all add: nth_append)
    have cons: "\<not> local_producer c" using rep by (simp add: ring_rep_def)
    show ?thesis
    proof (cases "flag_set flags VXTQ_FLAGS_ABORT")
      case True
      then have "vxtq_put_buf flags c m buffer i dlen = vxtq_put_abort flags c m i"
        using held cons rep by (subst vxtq_put_buf_accepts) (auto simp: may_put_def ring_rep_def)
      then show ?thesis using vxtq_put_abort_c [OF rep j _ i, of flags] held(3) b by auto
    next
      case False
      with vxtq_put_buf_c [OF rep j _ i] held b show ?thesis by fastforce
    qed
  qed
qed

subsection \<open>Waiting\<close>

text \<open>
  What one end knows of the ring: some state of the other end completes its own state and
  the shared region to a ring. A get that sleeps relies on the remote end keeping this.
\<close>

definition ring_view :: "vxtq_queue \<Rightarrow> shm \<Rightarrow> bool" where
  "ring_view q m \<longleftrightarrow>
     (if local_producer q then \<exists>c W F. ring_rep q c m W F else \<exists>p W F. ring_rep p q m W F)"

lemma ring_view_bound: "ring_view q m \<Longrightarrow> unat (buf_index q) < length (sbufs m)"
  using ring_rep_bounds by (fastforce simp: ring_view_def split: if_splits)

lemma ring_view_turn_around:
  assumes view: "ring_view q m" and own: "owner (sbufs m ! unat (buf_index q)) = local_producer q"
    and abort: "sbuf_abort (sbufs m ! unat (buf_index q))"
  shows "ring_view (q\<lparr>buf_index := next_index m (buf_index q)\<rparr>)
           (set_sbuf m (buf_index q) (turn_around (sbufs m ! unat (buf_index q))))"
proof (cases "local_producer q")
  case True
  with view obtain c W F where rep: "ring_rep q c m W F" by (auto simp: ring_view_def)
  have "\<not> in_flight (hd W)" if "F = []"
    using that own abort True ring_rep_at_p [OF rep] by (simp add: in_flight_def)
  moreover have "W \<noteq> []" if "F = []"
    using that ring_rep_length [OF rep] ring_rep_nonempty [OF rep] by auto
  ultimately obtain b F' where F: "F = b # F'"
    using rep by (cases F) (auto simp: ring_rep_def)
  have b: "sbufs m ! unat (buf_index q) = b" using ring_rep_at_p [OF rep] F by simp
  have "in_flight (turn_around b)"
    using rep F own True b by (intro turn_around_kind) (auto simp: ring_rep_def)
  from ring_rep_take_p [OF rep [unfolded F] this] True b show ?thesis
    by (auto simp: ring_view_def)
next
  case False
  with view obtain p W F where rep: "ring_rep p q m W F" by (auto simp: ring_view_def)
  have "\<not> is_free (hd F)" if "W = []"
    using that own abort False ring_rep_at_c [OF rep] by (simp add: is_free_def)
  moreover have "F \<noteq> []" if "W = []"
    using that ring_rep_length [OF rep] ring_rep_nonempty [OF rep] by auto
  ultimately obtain b W' where W: "W = b # W'"
    using rep by (cases W) (auto simp: ring_rep_def)
  have b: "sbufs m ! unat (buf_index q) = b" using ring_rep_at_c [OF rep] W by simp
  have "is_free (turn_around b)"
    using rep W own False b by (intro turn_around_kind) (auto simp: ring_rep_def)
  from ring_rep_take_c [OF rep [unfolded W] this] False b show ?thesis
    by (auto simp: ring_view_def)
qed

lemma ring_view_hold:
  assumes view: "ring_view q m" and own: "owner (sbufs m ! unat (buf_index q)) = local_producer q"
    and idle: "\<not> sbuf_abort (sbufs m ! unat (buf_index q))" "\<not> app_held (sbufs m ! unat (buf_index q))"
  shows "ring_view (q\<lparr>buf_index := next_index m (buf_index q)\<rparr>)
           (set_sbuf m (buf_index q) ((sbufs m ! unat (buf_index q))\<lparr>app_held := True\<rparr>))"
proof (cases "local_producer q")
  case True
  with view obtain c W F where rep: "ring_rep q c m W F" by (auto simp: ring_view_def)
  have "\<not> in_flight (hd W)" if "F = []"
    using that own idle True ring_rep_at_p [OF rep] by (simp add: in_flight_def)
  moreover have "W \<noteq> []" if "F = []"
    using that ring_rep_length [OF rep] ring_rep_nonempty [OF rep] by auto
  ultimately obtain b F' where F: "F = b # F'"
    using rep by (cases F) (auto simp: ring_rep_def)
  have b: "sbufs m ! unat (buf_index q) = b" using ring_rep_at_p [OF rep] F by simp
  have "in_flight (b\<lparr>app_held := True\<rparr>)"
    using rep F own True b idle by (intro hold_kind) (auto simp: ring_rep_def)
  from ring_rep_take_p [OF rep [unfolded F] this] True b show ?thesis
    by (auto simp: ring_view_def)
next
  case False
  with view obtain p W F where rep: "ring_rep p q m W F" by (auto simp: ring_view_def)
  have "\<not> is_free (hd F)" if "W = []"
    using that own idle False ring_rep_at_c [OF rep] by (simp add: is_free_def)
  moreover have "F \<noteq> []" if "W = []"
    using that ring_rep_length [OF rep] ring_rep_nonempty [OF rep] by auto
  ultimately obtain b W' where W: "W = b # W'"
    using rep by (cases W) (auto simp: ring_rep_def)
  have b: "sbufs m ! unat (buf_index q) = b" using ring_rep_at_c [OF rep] W by simp
  have "is_free (b\<lparr>app_held := True\<rparr>)"
    using rep W own False b idle by (intro hold_kind) (auto simp: ring_rep_def)
  from ring_rep_take_c [OF rep [unfolded W] this] False b show ?thesis
    by (auto simp: ring_view_def)
qed

lemma ring_view_hdr [simp]:
  "buf_cnt h = buf_cnt (hdr m) \<Longrightarrow> ring_view q (m\<lparr>hdr := h\<rparr>) = ring_view q m"
  by (auto simp: ring_view_def)

lemma vxtq_get_loop_keeps_view:
  assumes ret: "vxtq_get_loop wait flags q m = Some res"
    and rely: "\<And>q m. ring_view q m \<Longrightarrow> ring_view q (wait m)" and view: "ring_view q m"
  shows "ring_view (fst res) (fst (snd res))"
proof -
  have "(\<forall>q m. ring_view q m \<longrightarrow> ring_view q (wait m)) \<longrightarrow> ring_view q m \<longrightarrow>
      ring_view (fst res) (fst (snd res))"
  proof (rule vxtq_get_loop.raw_induct [where P = "\<lambda>wait flags q m res.
      (\<forall>q m. ring_view q m \<longrightarrow> ring_view q (wait m)) \<longrightarrow> ring_view q m \<longrightarrow>
      ring_view (fst res) (fst (snd res))", OF _ ret], intro impI, goal_cases)
    case (1 f wait flags q m res)
    have more: "f wait flags q' m' = Some res \<Longrightarrow> ring_view q' m' \<Longrightarrow>
        ring_view (fst res) (fst (snd res))" for q' m'
      using 1(1,3) by blast
    note turn = ring_view_turn_around [OF 1(4), unfolded turn_around_def]
    show ?case
      using 1(2-4) more turn ring_view_hold [OF 1(4)] by (auto simp: Let_def split: if_splits)
  qed
  with rely view show ?thesis by blast
qed

end
