(* ===== verification/Vxt_Channel.thy ===== *)
theory Vxt_Channel
  imports Vxt_Ring
begin

text \<open>
  The two ends of one shared memory queue as a transition system: which calls each end can
  make, the states reachable from the initialisation sequence of \<^verbatim>\<open>vxt_msg_add\<close> and
  \<^verbatim>\<open>vxt_msg_connect\<close>, and the properties of the queue that hold in all of them.
\<close>

record channel =
  prod :: vxtq_queue
  cons :: vxtq_queue
  mem :: shm

definition chan_inv :: "channel \<Rightarrow> bool" where
  "chan_inv s \<longleftrightarrow> (\<exists>W F. ring_rep (prod s) (cons s) (mem s) W F)"

subsection \<open>Initialisation\<close>

text \<open>
  The creating end initialises the region, the connecting end attaches to it with
  \<^verbatim>\<open>VXTQ_BUFFER_INITIALIZED\<close>; \<open>pfirst\<close> says that the creating end is the producer.
\<close>

definition chan_init ::
  "(nat \<Rightarrow> vxtq_sbuf_header) \<Rightarrow> nat \<Rightarrow> nat \<Rightarrow> int \<Rightarrow> int \<Rightarrow> int \<Rightarrow> bool \<Rightarrow> channel option" where
  "chan_init raw base1 base2 len hdr_len cnt pfirst =
     (case vxtq_init_buf True raw base1 len hdr_len cnt 0 0
             (if pfirst then VXTQ_LOCAL_IS_PRODUCER else 0) of
        Inl _ \<Rightarrow> None
      | Inr (_, q1, m1) \<Rightarrow>
          (case vxtq_init_buf True (\<lambda>i. sbufs m1 ! i) base2 len hdr_len cnt 0 0
                  (VXTQ_BUFFER_INITIALIZED OR (if pfirst then 0 else VXTQ_LOCAL_IS_PRODUCER)) of
             Inl _ \<Rightarrow> None
           | Inr (_, q2, m2) \<Rightarrow>
               Some (if pfirst then \<lparr>prod = q1, cons = q2, mem = m2\<rparr>
                     else \<lparr>prod = q2, cons = q1, mem = m2\<rparr>)))"

lemma flag_eval [simp]:
  "flag_set VXTQ_LOCAL_IS_PRODUCER VXTQ_LOCAL_IS_PRODUCER"
  "\<not> flag_set 0 VXTQ_LOCAL_IS_PRODUCER"
  "\<not> flag_set VXTQ_LOCAL_IS_PRODUCER VXTQ_BUFFER_INITIALIZED"
  "\<not> flag_set 0 VXTQ_BUFFER_INITIALIZED"
  "flag_set VXTQ_BUFFER_INITIALIZED VXTQ_BUFFER_INITIALIZED"
  "flag_set (VXTQ_BUFFER_INITIALIZED OR VXTQ_LOCAL_IS_PRODUCER) VXTQ_BUFFER_INITIALIZED"
  "flag_set (VXTQ_BUFFER_INITIALIZED OR VXTQ_LOCAL_IS_PRODUCER) VXTQ_LOCAL_IS_PRODUCER"
  "flag_set VXTQ_BUFFER_INITIALIZED VXTQ_LOCAL_IS_PRODUCER = False"
  by (simp_all add: flag_set_def vxtq_flag_defs)

lemma chan_init_ring:
  assumes init: "chan_init raw base1 base2 len hdr_len cnt pfirst = Some s"
    and cnt: "0 < cnt" "cnt < 2 ^ 31"
  shows "\<exists>F. ring_rep (prod s) (cons s) (mem s) [] F \<and> (\<forall>b \<in> set F. owner b)"
proof -
  have n: "unat (word_of_int cnt :: u32) = nat cnt"
    using cnt by (simp add: unat_eq_nat_uint uint_word_of_int)
  have hdrs: "sbufs (mem s) = map (\<lambda>i. (raw i)\<lparr>owner := True, sbuf_abort := False, app_held := False\<rparr>)
      [0..<nat cnt]"
    and idx: "buf_index (prod s) = 0" "buf_index (cons s) = 0"
    and role: "local_producer (prod s)" "\<not> local_producer (cons s)"
    and bc: "buf_cnt (hdr (mem s)) = word_of_int cnt"
    using init by (auto simp: chan_init_def vxtq_init_buf_def vxtq_init_headers_def Let_def
        vxtq_init_control_def split: if_splits sum.splits prod.splits)
  then show ?thesis
    using cnt by (auto simp: ring_rep_def n is_free_def)
qed

subsection \<open>The calls of one end\<close>

text \<open>
  \<open>end_step\<close> is one call of an end that does not sleep, on its private state and the shared
  region: get, put, signal, a query or settings control command, the announcement a
  sleeping get makes before it sleeps, and the application writing the data of a
  sub-buffer it holds.
\<close>

inductive end_step :: "vxtq_queue \<times> shm \<Rightarrow> vxtq_queue \<times> shm \<Rightarrow> bool" where
  get: "\<not> flag_set flags VXTQ_FLAGS_WAIT \<Longrightarrow> vxtq_get_buf wait flags q m = Some (q', m', r) \<Longrightarrow>
    end_step (q, m) (q', m')"
| put: "vxtq_put_buf flags q m buffer i dlen = Some (q', m', st) \<Longrightarrow> end_step (q, m) (q', m')"
| signal: "\<not> flag_set flags VXTQ_SIGNAL_WAIT \<Longrightarrow> vxtq_signal wait flags q m = (q', m', st) \<Longrightarrow>
    end_step (q, m) (q', m')"
| control: "cmd \<notin> {VXT_IOCTL_RESET_SEND, VXT_IOCTL_RESET_RCV} \<Longrightarrow>
    vxtq_io_control cmd info q m = Some (q', m', info', st) \<Longrightarrow> end_step (q, m) (q', m')"
| announce: "h = (if local_producer q then (hdr m)\<lparr>need_signal_space := 1\<rparr>
                  else (hdr m)\<lparr>need_signal_data := 1\<rparr>) \<Longrightarrow>
    end_step (q, m) (q, m\<lparr>hdr := h\<rparr>)"
| fill: "unat i < length (sbufs m) \<Longrightarrow> owner (sbufs m ! unat i) = local_producer q \<Longrightarrow>
    app_held (sbufs m ! unat i) \<Longrightarrow> length bytes = length (sdata (sbufs m ! unat i)) \<Longrightarrow>
    end_step (q, m) (q, set_sbuf m i ((sbufs m ! unat i)\<lparr>sdata := bytes\<rparr>))"

text \<open>
  A reset command is not a step of one end: the producer's takes all sub-buffers back, those of the consumer included,
  and the consumer's moves its index only. A queue is reset by both ends, the producer first, when no
  application holds a sub-buffer.
\<close>

definition is_reset :: "vxtq_cmd \<Rightarrow> bool" where
  "is_reset cmd \<longleftrightarrow> cmd \<in> {VXT_IOCTL_RESET_SEND, VXT_IOCTL_RESET_RCV}"

inductive chan_step :: "channel \<Rightarrow> channel \<Rightarrow> bool" where
  producer: "end_step (prod s, mem s) (q', m') \<Longrightarrow> chan_step s (s\<lparr>prod := q', mem := m'\<rparr>)"
| consumer: "end_step (cons s, mem s) (q', m') \<Longrightarrow> chan_step s (s\<lparr>cons := q', mem := m'\<rparr>)"
| reset: "(\<And>b. b \<in> set (sbufs (mem s)) \<Longrightarrow> \<not> app_held b) \<Longrightarrow> is_reset cmd \<Longrightarrow> is_reset cmd' \<Longrightarrow>
    vxtq_io_control cmd info (prod s) (mem s) = Some (q, m, r) \<Longrightarrow> vxtq_io_control cmd' info' (cons s) m = Some (q', m', r') \<Longrightarrow>
    chan_step s \<lparr>prod = q, cons = q', mem = m'\<rparr>"

inductive chan_reachable :: "channel \<Rightarrow> channel \<Rightarrow> bool" for s0 where
  start: "chan_reachable s0 s0"
| step: "chan_reachable s0 s \<Longrightarrow> chan_step s s' \<Longrightarrow> chan_reachable s0 s'"

inductive_cases end_stepE: "end_step (q, m) (q', m')"
inductive_cases chan_stepE: "chan_step s s'"

lemmas end_step_cases = end_stepE [consumes 1, case_names get put signal control announce fill]
lemmas chan_step_cases = chan_stepE [consumes 1, case_names producer consumer reset]

lemma signal_frame:
  assumes "\<not> flag_set flags VXTQ_SIGNAL_WAIT" and "vxtq_signal wait flags q m = (q', m', st)"
  shows "\<exists>n h. q' = q\<lparr>signals := n\<rparr> \<and> m' = m\<lparr>hdr := h\<rparr> \<and> buf_cnt h = buf_cnt (hdr m)
    \<and> buf_size h = buf_size (hdr m)"
proof -
  have "\<exists>h. m = m\<lparr>hdr := h\<rparr> \<and> buf_cnt h = buf_cnt (hdr m) \<and> buf_size h = buf_size (hdr m)"
    by (rule exI [of _ "hdr m"]) simp
  with assms show ?thesis
    by (auto simp: vxtq_signal_def Let_def do_signal_def split: if_splits)
qed

lemma control_frame:
  assumes "vxtq_io_control cmd info q m = Some (q', m', info', st)"
    and "cmd \<noteq> VXT_IOCTL_RESET_SEND" and "cmd \<noteq> VXT_IOCTL_RESET_RCV"
  shows "\<exists>h. q' = q \<and> m' = m\<lparr>hdr := h\<rparr> \<and> buf_cnt h = buf_cnt (hdr m)
    \<and> buf_size h = buf_size (hdr m)"
proof -
  have "\<exists>h. m = m\<lparr>hdr := h\<rparr> \<and> buf_cnt h = buf_cnt (hdr m) \<and> buf_size h = buf_size (hdr m)"
    by (rule exI [of _ "hdr m"]) simp
  with assms show ?thesis
    by (auto simp: vxtq_io_control_def split: if_splits vxtq_info.splits)
qed

lemma get_buf_cases:
  assumes "vxtq_get_buf wait flags q m = Some (q', m', r)"
  shows "(q' = q \<and> m' = m) \<or> vxtq_get_loop wait flags q m = Some (q', m', r)"
  using assms by (auto simp: vxtq_get_buf_def split: if_splits)

lemma write_kind:
  "in_flight (b\<lparr>sdata := d\<rparr>) = in_flight b" "is_free (b\<lparr>sdata := d\<rparr>) = is_free b"
  by (simp_all add: in_flight_def is_free_def)

lemma write_keeps:
  assumes rep: "ring_rep p c m W F" and i: "unat i < length (sbufs m)"
  shows "\<exists>W' F'. ring_rep p c (set_sbuf m i ((sbufs m ! unat i)\<lparr>sdata := d\<rparr>)) W' F'"
proof -
  have "i < buf_cnt (hdr m)" using rep i by (simp add: ring_rep_def word_less_nat_alt)
  then obtain j where j: "j < length (sbufs m)" "unat i = ring_pos c m j"
    using ring_pos_ex [OF rep] by blast
  have at: "sbufs m ! unat i = (W @ F) ! j" using ring_rep_nth [OF rep j(1)] j(2) by simp
  show ?thesis
  proof (cases "j < length W")
    case True
    then have "in_flight (sbufs m ! unat i)" using rep at by (simp add: ring_rep_def nth_append)
    then show ?thesis
      using ring_rep_change_W [OF rep True j(2)] write_kind by blast
  next
    case False
    then have j': "j - length W < length F" "unat i = ring_pos c m (length W + (j - length W))"
      using j ring_rep_length [OF rep] by auto
    then have "is_free (sbufs m ! unat i)" using rep at False by (simp add: ring_rep_def nth_append)
    then show ?thesis
      using ring_rep_change_F [OF rep j'] write_kind by blast
  qed
qed

lemma end_step_producer_keeps:
  assumes step: "end_step (p, m) (p', m')" and rep: "ring_rep p c m W F"
  shows "\<exists>W' F'. ring_rep p' c m' W' F'"
  using step
proof (cases rule: end_step_cases)
  case (get flags wait r)
  obtain W1 F1 res where spec: "spec_get_p W F = ((W1, F1), res)" by (metis surj_pair)
  from get_buf_cases [OF get(2)] vxtq_get_loop_p_refines [OF rep get(1) spec, of wait] rep
  show ?thesis by fastforce
next
  case (put flags buffer i dlen st)
  with vxtq_put_buf_keeps_p [OF rep, of flags buffer i dlen] show ?thesis by auto
next
  case (signal flags wait st)
  from signal_frame [OF this] rep show ?thesis by (metis ring_rep_frame)
next
  case (control cmd info info' st)
  from control_frame [OF this] rep show ?thesis by (metis ring_rep_frame(3))
next
  case announce
  with rep show ?thesis by auto
next
  case (fill i bytes)
  with write_keeps [OF rep] show ?thesis by blast
qed

lemma end_step_consumer_keeps:
  assumes step: "end_step (c, m) (c', m')" and rep: "ring_rep p c m W F"
  shows "\<exists>W' F'. ring_rep p c' m' W' F'"
  using step
proof (cases rule: end_step_cases)
  case (get flags wait r)
  obtain W1 F1 res where spec: "spec_get_c W F = ((W1, F1), res)" by (metis surj_pair)
  from get_buf_cases [OF get(2)] vxtq_get_loop_c_refines [OF rep get(1) spec, of wait] rep
  show ?thesis by fastforce
next
  case (put flags buffer i dlen st)
  with vxtq_put_buf_keeps_c [OF rep, of flags buffer i dlen] show ?thesis by auto
next
  case (signal flags wait st)
  from signal_frame [OF this] rep show ?thesis by (metis ring_rep_frame)
next
  case (control cmd info info' st)
  from control_frame [OF this] rep show ?thesis by (metis ring_rep_frame(3))
next
  case announce
  with rep show ?thesis by auto
next
  case (fill i bytes)
  with write_keeps [OF rep] show ?thesis by blast
qed

lemma reset_result:
  assumes "is_reset cmd"
  shows "vxtq_io_control cmd info q m = (if local_producer q then Some (fst (vxtq_reset q m), snd (vxtq_reset q m), info, VXT_PARM)
     else Some (q\<lparr>buf_index := 0\<rparr>, m, info, VXT_SUCCESS))"
  using assms by (auto simp: is_reset_def vxtq_io_control_def case_prod_beta)

lemma reset_keeps:
  assumes rep: "ring_rep p c m W F" and held: "\<And>b. b \<in> set (sbufs m) \<Longrightarrow> \<not> app_held b" and cmd: "is_reset cmd" "is_reset cmd'"
    and p: "vxtq_io_control cmd info p m = Some (q, m1, r)" and c: "vxtq_io_control cmd' info' c m1 = Some (q', m2, r')"
  shows "ring_rep q q' m2 [] (sbufs m2)"
proof -
  have roles: "local_producer p" "\<not> local_producer c" and len: "length (sbufs m) = unat (buf_cnt (hdr m))" "0 < length (sbufs m)"
    using rep ring_rep_nonempty [OF rep] by (simp_all add: ring_rep_def)
  have "q = p\<lparr>buf_index := 0\<rparr>" "m1 = snd (vxtq_reset p m)" "q' = c\<lparr>buf_index := 0\<rparr>" "m2 = m1"
    using p c roles by (simp_all add: reset_result [OF cmd(1)] reset_result [OF cmd(2)] vxtq_reset_def)
  with roles len held show ?thesis by (auto simp: ring_rep_def vxtq_reset_def is_free_def)
qed

lemma chan_step_keeps:
  assumes "chan_step s s'" "chan_inv s"
  shows "chan_inv s'"
  using assms(1)
proof (cases rule: chan_step_cases)
  case (reset cmd cmd' info q m r info' q' m' r')
  obtain W F where "ring_rep (prod s) (cons s) (mem s) W F" using assms(2) by (auto simp: chan_inv_def)
  from reset_keeps [OF this reset(2-6)] show ?thesis unfolding chan_inv_def reset(1) by auto
qed (use assms(2) in \<open>auto simp: chan_inv_def dest: end_step_producer_keeps end_step_consumer_keeps\<close>)



subsection \<open>What no call changes\<close>

definition same_geometry :: "vxtq_queue \<times> shm \<Rightarrow> vxtq_queue \<times> shm \<Rightarrow> bool" where
  "same_geometry = (\<lambda>(q, m) (q', m'). buffers q' = buffers q \<and> local_producer q' = local_producer q
     \<and> length (sbufs m') = length (sbufs m)
     \<and> buf_cnt (hdr m') = buf_cnt (hdr m) \<and> buf_size (hdr m') = buf_size (hdr m))"

text \<open>
  The effect of a get that does not sleep: the geometry stays, and so does every sub-buffer
  of the remote end.
\<close>

definition only_own :: "vxtq_queue \<times> shm \<Rightarrow> vxtq_queue \<times> shm \<Rightarrow> bool" where
  "only_own = (\<lambda>(q, m) (q', m').
     \<forall>i. owner (sbufs m ! i) \<noteq> local_producer q \<longrightarrow> sbufs m' ! i = sbufs m ! i)"

lemma set_sbuf_only_own:
  assumes "owner (sbufs m ! unat n) = local_producer q"
  shows "only_own (q, m) (q', set_sbuf m n b)"
  unfolding only_own_def prod.case
proof (intro allI impI)
  fix i assume "owner (sbufs m ! i) \<noteq> local_producer q"
  with assms have "unat n \<noteq> i" by auto
  then show "sbufs (set_sbuf m n b) ! i = sbufs m ! i" by (simp add: set_sbuf_def)
qed

lemma get_loop_frame:
  assumes ret: "vxtq_get_loop wait flags q m = Some res"
    and nowait: "\<not> flag_set flags VXTQ_FLAGS_WAIT"
  shows "same_geometry (q, m) (fst res, fst (snd res)) \<and> only_own (q, m) (fst res, fst (snd res))"
proof -
  let ?R = "\<lambda>q m q' m'. same_geometry (q, m) (q', m') \<and> only_own (q, m) (q', m')"
  have "\<not> flag_set flags VXTQ_FLAGS_WAIT \<longrightarrow> ?R q m (fst res) (fst (snd res))"
  proof (rule vxtq_get_loop.raw_induct [where P = "\<lambda>wait flags q m res.
      \<not> flag_set flags VXTQ_FLAGS_WAIT \<longrightarrow> ?R q m (fst res) (fst (snd res))", OF _ ret],
      intro impI, goal_cases)
    case (1 f wait flags q m res)
    let ?own = "owner (sbufs m ! unat (buf_index q)) = local_producer q"
    have one: "?R q m (q\<lparr>buf_index := n\<rparr>) (set_sbuf m (buf_index q) b)" if ?own for n b
      using set_sbuf_only_own [OF that] by (simp add: same_geometry_def)
    have more: "?R q m (fst res) (fst (snd res))"
      if "f wait flags q' m' = Some res" and "?R q m q' m'" for q' m'
      using 1(1) [of wait flags q' m' res] 1(3) that
      by (auto simp: same_geometry_def only_own_def)
    have none: "?R q m q m" by (simp add: same_geometry_def only_own_def)
    show ?case
      using 1(2,3) more one none by (auto simp: Let_def split: if_splits)
  qed
  with nowait show ?thesis by blast
qed

lemma put_frame:
  assumes "vxtq_put_buf flags q m buffer n dlen = Some (q', m', st)"
  shows "same_geometry (q, m) (q', m') \<and> only_own (q, m) (q', m')"
proof -
  have hd: "only_own (q, m) (q', m1\<lparr>hdr := h\<rparr>) = only_own (q, m) (q, m1)" for q' m1 h
    by (simp add: only_own_def)
  have "only_own (q, m) (q', m')"
    using assms set_sbuf_only_own [of m n q]
    by (auto simp: vxtq_put_buf_def vxtq_put_abort_def vxtq_put_done_def Let_def hd
        split: if_splits prod.splits) (simp_all add: only_own_def)
  moreover have "same_geometry (q, m) (q', m')"
    using assms by (auto simp: vxtq_put_buf_def vxtq_put_abort_def vxtq_put_done_def Let_def
        vxtq_put_signal_def do_signal_def same_geometry_def split: if_splits)
  ultimately show ?thesis by simp
qed

lemma end_step_frame:
  assumes "end_step (q, m) (q', m')"
  shows "same_geometry (q, m) (q', m') \<and> only_own (q, m) (q', m')"
  using assms
proof (cases rule: end_step_cases)
  case (get flags wait r)
  from get_buf_cases [OF get(2)] get_loop_frame [OF _ get(1), of wait q m "(q', m', r)"]
  show ?thesis by (auto simp: same_geometry_def only_own_def)
next
  case (put flags buffer n dlen st)
  then show ?thesis by (rule put_frame)
next
  case (signal flags wait st)
  from signal_frame [OF this] show ?thesis by (auto simp: same_geometry_def only_own_def)
next
  case (control cmd info info' st)
  from control_frame [OF this] show ?thesis by (auto simp: same_geometry_def only_own_def)
next
  case announce
  then show ?thesis by (auto simp: same_geometry_def only_own_def)
next
  case (fill n bytes)
  then show ?thesis using set_sbuf_only_own by (auto simp: same_geometry_def)
qed

subsection \<open>The reachable states of a queue\<close>

lemma reset_same_geometry:
  assumes "is_reset cmd" "vxtq_io_control cmd info q m = Some (q', m', r)"
  shows "same_geometry (q, m) (q', m')"
  using assms(2) by (auto simp: reset_result [OF assms(1)] vxtq_reset_def same_geometry_def split: if_splits)

lemma reset_geometry:
  assumes "is_reset cmd" "is_reset cmd'" "vxtq_io_control cmd info (prod s) (mem s) = Some (q, m, r)"
    "vxtq_io_control cmd' info' (cons s) m = Some (q', m', r')"
  shows "same_geometry (prod s, mem s) (q, m')" "same_geometry (cons s, mem s) (q', m')"
  using reset_same_geometry [OF assms(1,3)] reset_same_geometry [OF assms(2,4)] by (auto simp: same_geometry_def)

lemma chan_reachable_keeps:
  assumes "chan_reachable s0 s" and "chan_inv s0"
  shows "chan_inv s \<and> same_geometry (prod s0, mem s0) (prod s, mem s)
    \<and> same_geometry (cons s0, mem s0) (cons s, mem s)"
  using assms
proof induction
  case start
  then show ?case by (simp add: same_geometry_def)
next
  case (step s s')
  have "same_geometry (prod s, mem s) (prod s', mem s') \<and> same_geometry (cons s, mem s) (cons s', mem s')"
    using step.hyps(2)
  proof (cases rule: chan_step_cases)
    case (reset cmd cmd' info q m r info' q' m' r')
    from reset_geometry [OF reset(3-6)] show ?thesis unfolding reset(1) by simp
  qed (auto dest!: end_step_frame simp: same_geometry_def)
  then show ?case
    using step.IH [OF step.prems] chan_step_keeps [OF step.hyps(2)] by (auto simp: same_geometry_def)
qed

lemma chan_init_inv:
  assumes "chan_init raw base1 base2 len hdr_len cnt pfirst = Some s" and "0 < cnt" "cnt < 2 ^ 31"
  shows "chan_inv s" "length (sbufs (mem s)) = nat cnt"
proof -
  show "chan_inv s" using chan_init_ring [OF assms] by (auto simp: chan_inv_def)
  show "length (sbufs (mem s)) = nat cnt"
    using assms(1) by (auto simp: chan_init_def vxtq_init_buf_def vxtq_init_headers_def Let_def
        split: if_splits sum.splits prod.splits)
qed

text \<open>
  C3: In every state that the two ends of a freshly initialised queue can reach by any
  interleaving of their get, put, abort, signal, query and settings calls that do not sleep, and of resets
  by both ends while no sub-buffer is held, the ring of sub-buffers
  splits into a window taken by the producer and a free part, the two private indices
  delimit the window, and the header bits of every sub-buffer agree with the part it is in. A
  reset command of one end alone, or while a sub-buffer is held, is not covered.
\<close>

theorem queue_discipline:
  assumes "chan_init raw base1 base2 len hdr_len cnt pfirst = Some s0"
    and "0 < cnt" and "cnt < 2 ^ 31" and "chan_reachable s0 s"
  shows "\<exists>W F. ring_rep (prod s) (cons s) (mem s) W F \<and> length W + length F = nat cnt"
proof -
  note init = chan_init_inv [OF assms(1-3)]
  from chan_reachable_keeps [OF assms(4) init(1)] obtain W F
    where rep: "ring_rep (prod s) (cons s) (mem s) W F"
      and len: "length (sbufs (mem s)) = length (sbufs (mem s0))"
    by (auto simp: chan_inv_def same_geometry_def)
  with init(2) ring_rep_length [OF rep] show ?thesis by auto
qed

text \<open>
  C28: A get, put, abort, signal, query or settings call of one end that does not sleep, and the application's
  writing to a sub-buffer it holds, never change a sub-buffer that the other end
  owns. The reset commands are excluded: the producer's takes all sub-buffers back.
\<close>

theorem ownership_respected:
  assumes "end_step (q, m) (q', m')" and "owner (sbufs m ! i) \<noteq> local_producer q"
  shows "sbufs m' ! i = sbufs m ! i"
  using end_step_frame [OF assms(1)] assms(2) by (simp add: only_own_def)


subsection \<open>A queue of four sub-buffers\<close>

definition blank_sbuf :: "nat \<Rightarrow> vxtq_sbuf_header" where
  "blank_sbuf n = \<lparr>data_len = 0, sbuf_abort = False, app_held = False, owner = False,
     sdata = replicate n 0\<rparr>"

definition sample_chan :: channel where
  "sample_chan = the (chan_init (\<lambda>_. blank_sbuf 12) 4096 8192 112 48 4 True)"

lemma sample_chan_init: "chan_init (\<lambda>_. blank_sbuf 12) 4096 8192 112 48 4 True = Some sample_chan"
  by (simp add: sample_chan_def chan_init_def vxtq_init_buf_def Let_def int32_def
      sizeof_sbuf_header_def sizeof_vxtq_control_def flag_set_def vxtq_flag_defs
      signed_divide_int_def)


lemma sample_chan_eq:
  "sample_chan = \<lparr>
     prod = \<lparr>buffers = 4144, buf_index = 0, local_producer = True, signals = 0\<rparr>,
     cons = \<lparr>buffers = 8240, buf_index = 0, local_producer = False, signals = 0\<rparr>,
     mem = \<lparr>hdr = \<lparr>data_avail_lead = 1, space_avail_lead = 3, need_signal_data = 0,
         need_signal_space = 0, send_cnt = 0, receive_cnt = 0, consumer_flush = 0,
         producer_suspend = 0, producer_stop = 0, qerror = 0, buf_cnt = 4, buf_size = 16\<rparr>,
       sbufs = [(blank_sbuf 12)\<lparr>owner := True\<rparr>, (blank_sbuf 12)\<lparr>owner := True\<rparr>,
         (blank_sbuf 12)\<lparr>owner := True\<rparr>, (blank_sbuf 12)\<lparr>owner := True\<rparr>]\<rparr>\<rparr>"
  by (simp add: sample_chan_def chan_init_def vxtq_init_buf_def vxtq_init_control_def
      vxtq_init_headers_def Let_def int32_def sizeof_sbuf_header_def sizeof_vxtq_control_def
      flag_set_def vxtq_flag_defs upt_rec signed_divide_int_def blank_sbuf_def)

lemma replicate_sample: "replicate 3 x = [x, x, x]" "replicate 4 x = [x, x, x, x]"
  by (simp_all add: numeral_eq_Suc)

definition sample_held :: shm where
  "sample_held = set_sbuf (mem sample_chan) 0 ((blank_sbuf 12)\<lparr>owner := True, app_held := True\<rparr>)"

lemmas sample_eval = sample_chan_eq sample_held_def set_sbuf_def blank_sbuf_def flag_set_def
  vxtq_flag_defs next_index_def buf_addr_def sizeof_sbuf_header_def word_le_nat_alt
  word_less_nat_alt

lemma sample_get:
  "vxtq_get_buf id 0 (prod sample_chan) (mem sample_chan) =
     Some ((prod sample_chan)\<lparr>buf_index := 1\<rparr>, sample_held, Got 0 4148 12)"
  by (simp add: sample_eval Let_def vxtq_get_buf_def vxtq_get_loop.simps [of id])

lemma sample_reachable: "chan_reachable sample_chan
    (sample_chan\<lparr>prod := (prod sample_chan)\<lparr>buf_index := 1\<rparr>, mem := sample_held\<rparr>)"
proof (rule chan_reachable.step [OF chan_reachable.start], rule chan_step.producer)
  show "end_step (prod sample_chan, mem sample_chan)
      ((prod sample_chan)\<lparr>buf_index := 1\<rparr>, sample_held)"
    by (rule end_step.get [OF _ sample_get]) (simp add: flag_set_def)
qed


theorem queue_discipline_witness:
  "\<exists>W F. ring_rep ((prod sample_chan)\<lparr>buf_index := 1\<rparr>) (cons sample_chan) sample_held W F
     \<and> length W + length F = 4"
  using queue_discipline [OF sample_chan_init _ _ sample_reachable] by simp

theorem ownership_respected_witness:
  "owner (sbufs sample_held ! 1) \<noteq> local_producer (cons sample_chan)
   \<and> sbufs (mem sample_chan) ! 1 =
       sbufs (sample_held\<lparr>hdr := (hdr sample_held)\<lparr>need_signal_data := 1\<rparr>\<rparr>) ! 1"
proof -
  let ?m = "sample_held\<lparr>hdr := (hdr sample_held)\<lparr>need_signal_data := 1\<rparr>\<rparr>"
  have own: "owner (sbufs sample_held ! 1) \<noteq> local_producer (cons sample_chan)"
    by (simp add: sample_held_def sample_chan_eq set_sbuf_def blank_sbuf_def)
  have "end_step (cons sample_chan, sample_held) (cons sample_chan, ?m)"
    by (rule end_step.announce) (simp add: sample_chan_eq)
  from ownership_respected [OF this own] own show ?thesis
    by (simp add: sample_held_def set_sbuf_def)
qed

end
