(* ===== verification/Vxt_Queue_Props.thy ===== *)
theory Vxt_Queue_Props
  imports Vxt_Channel
begin

text \<open>
  The contract of the individual calls of the shared memory queue: get and put refine the
  operations on the window and the free part of the ring, a get that sleeps hands out a
  sub-buffer its caller may put, put wakes a sleeping remote end, the sub-buffers lie in the
  shared region and do not overlap, and the shutdown and flow control flags have the
  documented effect.
\<close>

subsection \<open>Get and put on the ring\<close>

text \<open>A get is let through when no shutdown or stop flag of the remote end stands against it.\<close>

definition get_allowed :: "u32 \<Rightarrow> vxtq_queue \<Rightarrow> shm \<Rightarrow> bool" where
  "get_allowed flags q m \<longleftrightarrow> flag_set flags VXTQ_IGNORE_SHUTDOWN
     \<or> (if local_producer q then consumer_flush (hdr m) = 0 \<and> producer_stop (hdr m) = 0
        else producer_suspend (hdr m) = 0)"

lemma get_allowed_loop:
  "get_allowed flags q m \<Longrightarrow> vxtq_get_buf wait flags q m = vxtq_get_loop wait flags q m"
  by (auto simp: get_allowed_def vxtq_get_buf_def split: if_splits)

text \<open>
  C22: A get that does not sleep always returns. It turns aborted sub-buffers around and
  takes the next sub-buffer of the ring: for the producer the first free one, which joins
  the end of the window, for the consumer the first of the window, which joins the end of
  the free part. Otherwise the ring stays and the status tells whether the caller holds that
  sub-buffer itself or the remote end has to act.
\<close>

theorem get_refines_ring:
  assumes "ring_rep p c m W F" and "\<not> flag_set flags VXTQ_FLAGS_WAIT"
  shows "(get_allowed flags p m \<longrightarrow> spec_get_p W F = ((W', F'), res) \<longrightarrow>
      (\<exists>p' m'. ring_rep p' c m' W' F' \<and> vxtq_get_buf wait flags p m =
        Some (p', m', get_result p m (ring_pos c m' (length W' - 1)) res)))
    \<and> (get_allowed flags c m \<longrightarrow> spec_get_c W F = ((W', F'), res) \<longrightarrow>
      (\<exists>c' m'. ring_rep p c' m' W' F' \<and> vxtq_get_buf wait flags c m =
        Some (c', m', get_result c m (ring_pos c' m' (length W' + length F' - 1)) res)))"
  using vxtq_get_loop_p_refines [OF assms, of W' F' res wait]
    vxtq_get_loop_c_refines [OF assms, of W' F' res wait]
  by (auto simp: get_allowed_loop)

lemma sample_ring: "ring_rep (prod sample_chan) (cons sample_chan) (mem sample_chan) []
    (replicate 4 ((blank_sbuf 12)\<lparr>owner := True\<rparr>))"
  by (simp add: sample_eval ring_rep_def is_free_def replicate_sample)

lemma sample_held_ring: "ring_rep ((prod sample_chan)\<lparr>buf_index := 1\<rparr>) (cons sample_chan) sample_held
    [(blank_sbuf 12)\<lparr>owner := True, app_held := True\<rparr>]
    (replicate 3 ((blank_sbuf 12)\<lparr>owner := True\<rparr>))"
  by (simp add: sample_eval ring_rep_def is_free_def in_flight_def replicate_sample)

theorem get_refines_ring_witness:
  "\<exists>p' m'. ring_rep p' (cons sample_chan) m' [(blank_sbuf 12)\<lparr>owner := True, app_held := True\<rparr>]
       (replicate 3 ((blank_sbuf 12)\<lparr>owner := True\<rparr>))
     \<and> vxtq_get_buf id 0 (prod sample_chan) (mem sample_chan) =
         Some (p', m', Got 0 4148 12)"
proof -
  have "get_allowed 0 (prod sample_chan) (mem sample_chan)"
    by (simp add: get_allowed_def sample_chan_eq)
  moreover have "spec_get_p [] (replicate 4 ((blank_sbuf 12)\<lparr>owner := True\<rparr>)) =
      (([(blank_sbuf 12)\<lparr>owner := True, app_held := True\<rparr>], replicate 3 ((blank_sbuf 12)\<lparr>owner := True\<rparr>)),
       Inr ((blank_sbuf 12)\<lparr>owner := True\<rparr>))"
    by (simp add: numeral_eq_Suc blank_sbuf_def)
  ultimately show ?thesis
    using get_refines_ring [OF sample_ring, of 0, where wait = id] sample_get
    by (fastforce simp: flag_set_def)
qed

text \<open>
  C23: Putting the \<open>j\<close>-th sub-buffer of the window, held by the producer, records the low 16
  bits of the length, passes the sub-buffer to the consumer, and leaves every other
  sub-buffer, its place in the ring and the free part alone.
\<close>

theorem put_refines_ring:
  assumes "ring_rep p c m W F" and "j < length W" and "owner (W ! j)"
    and "unat i = ring_pos c m j" and "\<not> flag_set flags VXTQ_FLAGS_ABORT"
    and "flag_set flags VXTQ_IGNORE_SHUTDOWN \<or> producer_stop (hdr m) \<noteq> 1"
  shows "\<exists>p' m'. vxtq_put_buf flags p m (buf_addr p m i) i dlen = Some (p', m', VXT_SUCCESS)
    \<and> ring_rep p' c m' (W[j := (W ! j)\<lparr>data_len := ucast dlen, app_held := False, owner := False\<rparr>]) F"
proof -
  have "give dlen (W ! j) = (W ! j)\<lparr>data_len := ucast dlen, app_held := False, owner := False\<rparr>"
    using assms(3) by (simp add: give_def)
  with vxtq_put_buf_p [OF assms(1-4) refl assms(5,6), of dlen] show ?thesis by fastforce
qed

theorem put_refines_ring_witness:
  "\<exists>p' m'. vxtq_put_buf 0 ((prod sample_chan)\<lparr>buf_index := 1\<rparr>) sample_held 4148 0 70000 =
       Some (p', m', VXT_SUCCESS)
     \<and> ring_rep p' (cons sample_chan) m' [(blank_sbuf 12)\<lparr>data_len := 4464\<rparr>]
         (replicate 3 ((blank_sbuf 12)\<lparr>owner := True\<rparr>))"
proof -
  let ?p = "(prod sample_chan)\<lparr>buf_index := 1\<rparr>"
  have addr: "buf_addr ?p sample_held 0 = 4148" by (simp add: sample_eval)
  have pos: "unat (0 :: u32) = ring_pos (cons sample_chan) sample_held 0"
    by (simp add: sample_eval ring_pos_def)
  have stop: "producer_stop (hdr sample_held) \<noteq> 1" by (simp add: sample_eval)
  have b: "(blank_sbuf 12)\<lparr>owner := True, app_held := True, data_len := ucast (70000 :: u32),
      app_held := False, owner := False\<rparr> = (blank_sbuf 12)\<lparr>data_len := 4464\<rparr>"
    by (simp add: blank_sbuf_def)
  show ?thesis
    using put_refines_ring [OF sample_held_ring _ _ pos, of 0 70000] stop b
    by (simp add: addr flag_set_def)
qed

text \<open>
  An aborted put of the sub-buffer the producer took last backs the index up, so that the
  next get returns it again; an abort of an earlier one passes it to the consumer marked, and
  the consumer's get turns it around without showing it to the application.
\<close>

theorem abort_refines_ring:
  assumes "ring_rep p c m W F" and "j < length W" and "owner (W ! j)"
    and "unat i = ring_pos c m j" and "flag_set flags VXTQ_FLAGS_ABORT"
  shows "\<exists>p' m' W' F'. vxtq_put_buf flags p m (buf_addr p m i) i dlen = Some (p', m', VXT_SUCCESS)
    \<and> ring_rep p' c m' W' F'
    \<and> (if backs_up p m i then W' = butlast W \<and> F' = (last W)\<lparr>app_held := False\<rparr> # F
       else W' = W[j := abort_given (W ! j)] \<and> F' = F
         \<and> spec_get_c (abort_given (W ! j) # drop (Suc j) W) F =
             spec_get_c (drop (Suc j) W) (F @ [turn_around (abort_given (W ! j))]))"
proof -
  have j: "j < length (sbufs m)" using assms(2) ring_rep_length [OF assms(1)] by simp
  then have at: "sbufs m ! unat i = W ! j"
    using ring_rep_nth [OF assms(1) j] assms(2,4) by (simp add: nth_append)
  have "app_held (W ! j)" "local_producer p" and len: "length (sbufs m) = unat (buf_cnt (hdr m))"
    using assms(1-3) by (auto simp: ring_rep_def in_flight_def dest!: nth_mem)
  moreover have "i < buf_cnt (hdr m)"
    using len assms(4) ring_rep_bounds(3) [OF assms(1), of j] by (simp add: word_less_nat_alt)
  ultimately have may: "may_put p m (buf_addr p m i) i"
    using at assms(3) by (simp add: may_put_def)
  have "vxtq_put_buf flags p m (buf_addr p m i) i dlen = vxtq_put_abort flags p m i"
    using vxtq_put_buf_accepts [OF len may] assms(5) by simp
  moreover have "\<not> owner (abort_given (W ! j))" "sbuf_abort (abort_given (W ! j))"
    using assms(3) by (simp_all add: abort_given_def)
  ultimately show ?thesis
    using vxtq_put_abort_p [OF assms(1-4), of flags] by (auto split: if_splits)
qed

theorem abort_refines_ring_witness:
  "\<exists>p' m'. vxtq_put_buf VXTQ_FLAGS_ABORT ((prod sample_chan)\<lparr>buf_index := 1\<rparr>) sample_held 4148 0 5 =
       Some (p', m', VXT_SUCCESS)
     \<and> ring_rep p' (cons sample_chan) m' [] (replicate 4 ((blank_sbuf 12)\<lparr>owner := True\<rparr>))"
proof -
  let ?p = "(prod sample_chan)\<lparr>buf_index := 1\<rparr>"
  have addr: "buf_addr ?p sample_held 0 = 4148" by (simp add: sample_eval)
  have pos: "unat (0 :: u32) = ring_pos (cons sample_chan) sample_held 0"
    by (simp add: sample_eval ring_pos_def)
  have bu: "backs_up ?p sample_held 0" by (simp add: sample_eval backs_up_def)
  have ab: "flag_set VXTQ_FLAGS_ABORT VXTQ_FLAGS_ABORT" by (simp add: sample_eval)
  have b: "(blank_sbuf 12)\<lparr>owner := True, app_held := True, app_held := False\<rparr> #
      replicate 3 ((blank_sbuf 12)\<lparr>owner := True\<rparr>) = replicate 4 ((blank_sbuf 12)\<lparr>owner := True\<rparr>)"
    by (simp add: blank_sbuf_def replicate_sample)
  show ?thesis
    using abort_refines_ring [OF sample_held_ring _ _ pos ab, of 5] bu b
    by (simp add: addr)
qed

text \<open>
  C30: Put rejects with \<^verbatim>\<open>VXT_PARM\<close>, changing nothing, every buffer number out of range, every
  address that is not the one get handed out for that number, and every sub-buffer that the
  calling end does not own and hold.
\<close>

theorem put_rejects_foreign:
  assumes "ring_view q m" and "\<not> may_put q m buffer i"
  shows "vxtq_put_buf flags q m buffer i dlen = Some (q, m, VXT_PARM)"
  using assms by (intro vxtq_put_buf_rejects) (auto simp: ring_view_def ring_rep_def split: if_splits)


theorem put_rejects_foreign_witness:
  "vxtq_put_buf 0 (prod sample_chan) (mem sample_chan) 4148 0 5 =
     Some (prod sample_chan, mem sample_chan, VXT_PARM)"
proof -
  have "ring_view (prod sample_chan) (mem sample_chan)"
    using sample_ring by (auto simp: ring_view_def sample_chan_eq)
  moreover have "\<not> may_put (prod sample_chan) (mem sample_chan) 4148 0"
    by (simp add: sample_eval may_put_def)
  ultimately show ?thesis by (rule put_rejects_foreign)
qed

subsection \<open>Sleeping and waking\<close>

lemma vxtq_get_loop_hands_out:
  assumes ret: "vxtq_get_loop wait flags q m = Some (q', m', Got n a l)"
    and rely: "\<And>q m. ring_view q m \<Longrightarrow> ring_view q (wait m)" and view: "ring_view q m"
  shows "may_put q' m' a n"
proof -
  let ?P = "\<lambda>res. \<forall>n a l. snd (snd res) = Got n a l \<longrightarrow> may_put (fst res) (fst (snd res)) a n"
  have "(\<forall>q m. ring_view q m \<longrightarrow> ring_view q (wait m)) \<longrightarrow> ring_view q m \<longrightarrow> ?P (q', m', Got n a l)"
  proof (rule vxtq_get_loop.raw_induct [where P = "\<lambda>wait flags q m res.
      (\<forall>q m. ring_view q m \<longrightarrow> ring_view q (wait m)) \<longrightarrow> ring_view q m \<longrightarrow> ?P res", OF _ ret],
      intro impI, goal_cases)
    case (1 f wait flags q m res)
    have more: "f wait flags q' m' = Some res \<Longrightarrow> ring_view q' m' \<Longrightarrow> ?P res" for q' m'
      using 1(1,3) by blast
    have len: "length (sbufs m) = unat (buf_cnt (hdr m))"
      using 1(4) by (auto simp: ring_view_def ring_rep_def split: if_splits)
    note turn = ring_view_turn_around [OF 1(4), unfolded turn_around_def]
    show ?case
    proof (cases "owner (sbufs m ! unat (buf_index q)) = local_producer q
        \<and> \<not> sbuf_abort (sbufs m ! unat (buf_index q)) \<and> \<not> app_held (sbufs m ! unat (buf_index q))")
      case True
      with 1(2) len ring_view_bound [OF 1(4)] show ?thesis
        by (auto simp: Let_def may_put_def buf_addr_def set_sbuf_def word_less_nat_alt)
    next
      case False
      with 1(2-4) more turn show ?thesis by (auto simp: Let_def split: if_splits)
    qed
  qed
  with rely view show ?thesis by simp
qed

text \<open>
  C29: Whenever get hands out a sub-buffer, also after sleeping any number of times while the
  remote end changed the region within the ring discipline, the caller owns and holds that
  sub-buffer, its number and address are those put accepts, and the ring discipline holds.
\<close>

theorem get_hands_out_own:
  assumes "vxtq_get_buf wait flags q m = Some (q', m', Got n a l)"
    and "\<And>q m. ring_view q m \<Longrightarrow> ring_view q (wait m)" and "ring_view q m"
  shows "ring_view q' m' \<and> may_put q' m' a n"
proof -
  have loop: "vxtq_get_loop wait flags q m = Some (q', m', Got n a l)"
    using assms(1) by (auto simp: vxtq_get_buf_def split: if_splits)
  from vxtq_get_loop_keeps_view [OF loop assms(2,3)] vxtq_get_loop_hands_out [OF loop assms(2,3)]
  show ?thesis by simp
qed

theorem get_hands_out_own_witness:
  "ring_view ((prod sample_chan)\<lparr>buf_index := 1\<rparr>) sample_held
     \<and> may_put ((prod sample_chan)\<lparr>buf_index := 1\<rparr>) sample_held 4148 0"
proof -
  have "ring_view (prod sample_chan) (mem sample_chan)"
    using sample_ring by (auto simp: ring_view_def sample_chan_eq)
  from get_hands_out_own [OF sample_get _ this] show ?thesis by simp
qed

text \<open>
  C31: A sleeping get announces itself in the shared header before it waits, and when the wait
  returns with the next sub-buffer available it returns that sub-buffer.
\<close>

theorem get_wakes_up:
  assumes "get_allowed flags q m" and "flag_set flags VXTQ_FLAGS_WAIT"
    and "unat (buf_index q) < length (sbufs m)"
    and "owner (sbufs m ! unat (buf_index q)) \<noteq> local_producer q"
    and "m' = wait (m\<lparr>hdr := (if local_producer q
            then (hdr m)\<lparr>need_signal_space := if need_signal_space (hdr m) = 0 then 1 else need_signal_space (hdr m)\<rparr>
            else (hdr m)\<lparr>need_signal_data := if need_signal_data (hdr m) = 0 then 1 else need_signal_data (hdr m)\<rparr>)\<rparr>)"
    and "unat (buf_index q) < length (sbufs m')"
    and "b = sbufs m' ! unat (buf_index q)"
    and "owner b = local_producer q" and "\<not> sbuf_abort b" and "\<not> app_held b"
  shows "vxtq_get_buf wait flags q m =
    Some (q\<lparr>buf_index := next_index m' (buf_index q)\<rparr>,
      set_sbuf m' (buf_index q) (b\<lparr>app_held := True\<rparr>),
      Got (buf_index q) (buf_addr q m' (buf_index q))
        (if local_producer q then buf_size (hdr m') - 4 else ucast (data_len b)))"
proof -
  have got: "vxtq_get_loop wait flags q m' = Some (q\<lparr>buf_index := next_index m' (buf_index q)\<rparr>,
      set_sbuf m' (buf_index q) (b\<lparr>app_held := True\<rparr>),
      Got (buf_index q) (buf_addr q m' (buf_index q))
        (if local_producer q then buf_size (hdr m') - 4 else ucast (data_len b)))"
    using assms(6-) by (subst vxtq_get_loop.simps) (simp add: Let_def sizeof_sbuf_header_def)
  have sleep: "vxtq_get_loop wait flags q m1 = vxtq_get_loop wait flags q m'"
    if "m' = wait m1" "sbufs m1 = sbufs m" "if local_producer q then need_signal_space (hdr m1) \<noteq> 0
      else need_signal_data (hdr m1) \<noteq> 0" for m1
    using that assms(2-4,6-8)
    by (subst vxtq_get_loop.simps) (auto simp: Let_def split: if_splits)
  show ?thesis
  proof (cases "if local_producer q then need_signal_space (hdr m) = 0 else need_signal_data (hdr m) = 0")
    case True
    let ?h = "if local_producer q then (hdr m)\<lparr>need_signal_space := 1\<rparr> else (hdr m)\<lparr>need_signal_data := 1\<rparr>"
    have "vxtq_get_loop wait flags q m = vxtq_get_loop wait flags q (m\<lparr>hdr := ?h\<rparr>)"
      using True assms(2-4) by (subst vxtq_get_loop.simps) (auto simp: Let_def split: if_splits)
    also have "\<dots> = vxtq_get_loop wait flags q m'"
      using True assms(5) by (intro sleep) (auto split: if_splits)
    finally show ?thesis using got get_allowed_loop [OF assms(1)] by simp
  next
    case False
    then have "vxtq_get_loop wait flags q m = vxtq_get_loop wait flags q m'"
      using assms(5) by (intro sleep) (auto split: if_splits)
    then show ?thesis using got get_allowed_loop [OF assms(1)] by simp
  qed
qed


theorem get_wakes_up_witness:
  "vxtq_get_buf (\<lambda>m. set_sbuf m 0 ((blank_sbuf 12)\<lparr>data_len := 5\<rparr>)) VXTQ_FLAGS_WAIT
     (cons sample_chan) (mem sample_chan) =
   Some ((cons sample_chan)\<lparr>buf_index := 1\<rparr>,
     set_sbuf ((mem sample_chan)\<lparr>hdr := (hdr (mem sample_chan))\<lparr>need_signal_data := 1\<rparr>\<rparr>) 0
       ((blank_sbuf 12)\<lparr>data_len := 5, app_held := True\<rparr>),
     Got 0 8244 5)"
proof -
  let ?wait = "\<lambda>m. set_sbuf m 0 ((blank_sbuf 12)\<lparr>data_len := 5\<rparr>)"
  let ?q = "cons sample_chan" and ?m = "mem sample_chan"
  let ?m1 = "?wait (?m\<lparr>hdr := (hdr ?m)\<lparr>need_signal_data := 1\<rparr>\<rparr>)"
  have m1: "?m1 = ?wait (?m\<lparr>hdr := (if local_producer ?q
      then (hdr ?m)\<lparr>need_signal_space := if need_signal_space (hdr ?m) = 0 then 1 else need_signal_space (hdr ?m)\<rparr>
      else (hdr ?m)\<lparr>need_signal_data := if need_signal_data (hdr ?m) = 0 then 1 else need_signal_data (hdr ?m)\<rparr>)\<rparr>)"
    by (simp add: sample_chan_eq)
  have "get_allowed VXTQ_FLAGS_WAIT ?q ?m" "flag_set VXTQ_FLAGS_WAIT VXTQ_FLAGS_WAIT"
    "unat (buf_index ?q) < length (sbufs ?m)"
    "owner (sbufs ?m ! unat (buf_index ?q)) \<noteq> local_producer ?q"
    "unat (buf_index ?q) < length (sbufs ?m1)"
    "owner (sbufs ?m1 ! unat (buf_index ?q)) = local_producer ?q"
    "\<not> sbuf_abort (sbufs ?m1 ! unat (buf_index ?q))" "\<not> app_held (sbufs ?m1 ! unat (buf_index ?q))"
    by (simp_all add: sample_eval get_allowed_def)
  note wake = get_wakes_up [where wait = ?wait, OF this(1-4) m1 this(5) refl this(6-8)]
  have "next_index ?m1 (buf_index ?q) = 1" "buf_index ?q = 0" "buf_addr ?q ?m1 0 = 8244"
    "sbufs ?m1 ! unat (buf_index ?q) = (blank_sbuf 12)\<lparr>data_len := 5\<rparr>" "\<not> local_producer ?q"
    by (simp_all add: sample_eval)
  with wake show ?thesis by (simp add: set_sbuf_def)
qed

text \<open>
  A put that succeeds without streaming signals the remote end exactly once when the remote
  end announced that it sleeps, and withdraws the announcement; without an announcement it
  does not signal.
\<close>

theorem put_signals_sleeper:
  assumes "vxtq_put_buf flags q m buffer i dlen = Some (q', m', VXT_SUCCESS)"
    and "\<not> flag_set flags VXTQ_FLAGS_SIGNAL" and "\<not> flag_set flags VXTQ_AUTO_STREAM"
    and "\<not> flag_set flags VXTQ_FLAGS_ABORT"
  shows "signals q' = signals q + (if (if local_producer q then need_signal_data (hdr m)
      else need_signal_space (hdr m)) \<noteq> 0 then 1 else 0)
    \<and> (if local_producer q then need_signal_data (hdr m') = 0 \<and> need_signal_space (hdr m') = need_signal_space (hdr m)
       else need_signal_space (hdr m') = 0 \<and> need_signal_data (hdr m') = need_signal_data (hdr m))"
  using assms by (auto simp: vxtq_put_buf_def vxtq_put_done_def vxtq_put_signal_def do_signal_def
      Let_def split: if_splits)

theorem put_signals_sleeper_witness:
  "\<exists>q' m'. vxtq_put_buf 0 ((prod sample_chan)\<lparr>buf_index := 1\<rparr>)
       (sample_held\<lparr>hdr := (hdr sample_held)\<lparr>need_signal_data := 1\<rparr>\<rparr>) 4148 0 5 = Some (q', m', VXT_SUCCESS)
     \<and> signals q' = 1 \<and> need_signal_data (hdr m') = 0"
proof -
  let ?q = "(prod sample_chan)\<lparr>buf_index := 1\<rparr>"
    and ?m = "sample_held\<lparr>hdr := (hdr sample_held)\<lparr>need_signal_data := 1\<rparr>\<rparr>"
  have "may_put ?q ?m 4148 0" "length (sbufs ?m) = unat (buf_cnt (hdr ?m))"
    "producer_stop (hdr ?m) \<noteq> 1"
    by (simp_all add: sample_eval may_put_def)
  then obtain q' m' where put: "vxtq_put_buf 0 ?q ?m 4148 0 5 = Some (q', m', VXT_SUCCESS)"
    using vxtq_put_done_eq [of 0 ?q] by (fastforce simp: vxtq_put_buf_accepts flag_set_def)
  with put_signals_sleeper [OF put] show ?thesis
    by (simp add: flag_set_def sample_chan_eq)
qed


subsection \<open>The layout of the region\<close>

lemma sub_size_bounds:
  assumes init: "vxtq_init_buf ok raw sm len hdr_len cnt sh dh flags = Inr (sub, q, m)"
    and cnt: "0 < cnt" and pos: "0 \<le> hdr_len" and fits: "cnt * 4 + hdr_len < 2 ^ 31" and len: "len < 2 ^ 31"
  shows "4 \<le> sub" and "sub * cnt \<le> len - hdr_len" and "buf_size (hdr m) = word_of_int sub"
    and "buf_cnt (hdr m) = word_of_int cnt" and "buffers q = sm + nat hdr_len"
    and "sub < 2 ^ 31"
proof -
  have i: "int32 (int32 (cnt * 4) + hdr_len) = cnt * 4 + hdr_len"
    using cnt pos fits by (simp add: int32_id)
  have le: "cnt * 4 + hdr_len \<le> len"
    using init i by (auto simp: vxtq_init_buf_def sizeof_sbuf_header_def split: if_splits)
  have d: "int32 (len - hdr_len) = len - hdr_len"
    using le cnt pos len by (simp add: int32_id)
  have "sub = (len - hdr_len) sdiv cnt"
    using init by (auto simp: vxtq_init_buf_def Let_def d split: if_splits)
  then have sub: "sub = (len - hdr_len) div cnt"
    using cnt le by (simp add: signed_divide_int_def)
  have "4 = cnt * 4 div cnt" using cnt by simp
  also have "\<dots> \<le> (len - hdr_len) div cnt" using le cnt by (intro zdiv_mono1) auto
  finally show "4 \<le> sub" using sub by simp
  show *: "sub * cnt \<le> len - hdr_len"
    using sub cnt by (simp add: mult.commute pos_mod_sign minus_mod_eq_mult_div [symmetric])
  show "buf_size (hdr m) = word_of_int sub" "buf_cnt (hdr m) = word_of_int cnt"
    "buffers q = sm + nat hdr_len"
    using init pos by (auto simp: vxtq_init_buf_def vxtq_init_control_def Let_def nat_add_distrib split: if_splits)
  have "sub * 1 \<le> sub * cnt" using cnt \<open>4 \<le> sub\<close> by (intro mult_left_mono) auto
  with * len pos show "sub < 2 ^ 31" by simp
qed

lemma unat_word_of_int: "0 \<le> x \<Longrightarrow> x < 2 ^ 31 \<Longrightarrow> unat (word_of_int x :: u32) = nat x"
  by (simp add: unat_eq_nat_uint uint_word_of_int)

lemma buf_addr_exact:
  assumes "buf_size (hdr m) = word_of_int sub" and "unat i < n" and "int n * sub < 2 ^ 31" and "0 \<le> sub"
  shows "buf_addr q m i = buffers q + unat i * nat sub + 4"
proof -
  have "int (unat i) * sub \<le> int n * sub" 
    using assms(2,4) by (intro mult_right_mono of_nat_mono less_imp_le [of "unat i"])
  then have less: "int (unat i) * sub < 2 ^ 31" using assms(3) by simp
  have "i * word_of_int sub = word_of_int (int (unat i) * sub)"
    by simp
  moreover have "unat (word_of_int (int (unat i) * sub) :: u32) = nat (int (unat i) * sub)"
    using less assms(4) by (intro unat_word_of_int mult_nonneg_nonneg) auto
  ultimately have "unat (i * buf_size (hdr m)) = nat (int (unat i) * sub)"
    using assms(1) by metis
  then show ?thesis
    using assms(4) by (simp add: buf_addr_def sizeof_sbuf_header_def nat_mult_distrib)
qed

text \<open>
  C32: After a successful initialisation the data of every sub-buffer lies inside the shared
  region behind the control header, and the data of a sub-buffer ends before the header of
  the next one begins.
\<close>

theorem sub_buffers_in_region:
  assumes init: "vxtq_init_buf ok raw sm len hdr_len cnt sh dh flags = Inr (sub, q, m)"
    and "0 < cnt" and "0 \<le> hdr_len" and "cnt * 4 + hdr_len < 2 ^ 31" and "len < 2 ^ 31"
    and i: "i < buf_cnt (hdr m)"
  shows "sm + sizeof_vxtq_control \<le> buf_addr q m i - sizeof_sbuf_header
    \<and> buf_addr q m i + unat (buf_size (hdr m) - word_of_nat sizeof_sbuf_header) \<le> sm + nat len
    \<and> (\<forall>j. i < j \<longrightarrow> j < buf_cnt (hdr m) \<longrightarrow>
        buf_addr q m i + unat (buf_size (hdr m) - word_of_nat sizeof_sbuf_header)
        \<le> buf_addr q m j - sizeof_sbuf_header)"
proof -
  note b = sub_size_bounds [OF assms(1-5)]
  have n: "unat (buf_cnt (hdr m)) = nat cnt"
    using b(4) assms(2-4) by (simp add: unat_eq_nat_uint uint_word_of_int)
  have lim: "int (nat cnt) * sub < 2 ^ 31"
    using b(2) assms(2,3,5) by (simp add: mult.commute)
  have addr: "buf_addr q m j = buffers q + unat j * nat sub + 4" if "j < buf_cnt (hdr m)" for j
    using buf_addr_exact [OF b(3) _ lim] that b(1) n by (simp add: word_less_nat_alt)
  have size: "unat (buf_size (hdr m) - word_of_nat sizeof_sbuf_header) = nat sub - 4"
  proof -
    have u: "unat (word_of_int sub :: u32) = nat sub"
      using b(1,6) by (simp add: unat_eq_nat_uint uint_word_of_int)
    have "(4 :: u32) \<le> word_of_int sub" using u b(1) by (simp add: word_le_nat_alt)
    then show ?thesis using u b(3) by (simp add: sizeof_sbuf_header_def unat_sub)
  qed
  have hdr: "48 \<le> hdr_len"
    using init assms(2-4) by (auto simp: vxtq_init_buf_def sizeof_vxtq_control_def
        take_bit_int_eq_self split: if_splits)
  have step: "Suc (unat i) * nat sub \<le> k * nat sub" if "unat i < k" for k
    using that by (intro mult_right_mono) auto
  have "nat cnt * nat sub \<le> nat (len - hdr_len)"
    using b(1,2) assms(2) by (simp add: nat_mult_distrib [symmetric] mult.commute nat_le_iff)
  moreover have "0 \<le> sub * cnt" using b(1) assms(2) by simp
  then have "nat (len - hdr_len) + nat hdr_len = nat len" using b(2) assms(3) by simp
  ultimately have top: "Suc (unat i) * nat sub + nat hdr_len \<le> nat len"
    using step [of "nat cnt"] i n by (simp add: word_less_nat_alt)
  have next_le: "unat i * nat sub + nat sub \<le> unat j * nat sub" if "i < j" for j
    using step [of "unat j"] that by (simp add: word_less_nat_alt add.commute)
  show ?thesis
    using hdr top b(1,5) next_le i
    by (auto simp: addr size sizeof_vxtq_control_def size [unfolded sizeof_sbuf_header_def, simplified]
        sizeof_sbuf_header_def)
qed


theorem sub_buffers_in_region_witness:
  "\<exists>q m. vxtq_init_buf True (\<lambda>_. blank_sbuf 12) 4096 112 48 4 0 0 VXTQ_LOCAL_IS_PRODUCER = Inr (16, q, m)
     \<and> buf_addr q m 3 + 12 \<le> 4096 + 112 \<and> buf_addr q m 1 + 12 \<le> buf_addr q m 2 - 4"
proof -
  let ?q = "prod sample_chan" and ?m = "mem sample_chan"
  have init: "vxtq_init_buf True (\<lambda>_. blank_sbuf 12) 4096 112 48 4 0 0 VXTQ_LOCAL_IS_PRODUCER =
      Inr (16, ?q, ?m)"
    by (simp add: sample_chan_eq vxtq_init_buf_def vxtq_init_control_def vxtq_init_headers_def
        Let_def int32_def sizeof_sbuf_header_def sizeof_vxtq_control_def flag_set_def
        vxtq_flag_defs upt_rec signed_divide_int_def blank_sbuf_def)
  from sub_buffers_in_region [OF init, of 3] sub_buffers_in_region [OF init, of 1] init
  show ?thesis
    by (auto simp: sample_chan_eq sizeof_sbuf_header_def word_less_nat_alt)
qed

subsection \<open>Flow control and shutdown\<close>

text \<open>
  After the consumer signals \<^verbatim>\<open>VXTQ_SIGNAL_STOP\<close>, the producer's get and its put of any
  sub-buffer it holds return \<^verbatim>\<open>VXT_BLOCKED\<close> and change nothing, unless they ignore
  shutdown; after \<^verbatim>\<open>VXTQ_SIGNAL_START\<close> neither is refused for that reason. The producer
  itself may not stop the queue.
\<close>

theorem stop_blocks_producer:
  assumes "local_producer p" and "\<not> local_producer c" and "consumer_flush (hdr m) = 0"
    and "\<not> flag_set flags VXTQ_IGNORE_SHUTDOWN" and "\<not> flag_set flags VXTQ_FLAGS_ABORT"
  shows "(\<exists>c' m'. vxtq_signal wait VXTQ_SIGNAL_STOP c m = (c', m', VXT_SUCCESS) \<and> sbufs m' = sbufs m
      \<and> vxtq_get_buf w flags p m' = Some (p, m', NotGot VXT_BLOCKED)
      \<and> (\<forall>buffer i dlen. may_put p m buffer i \<longrightarrow> unat i < length (sbufs m) \<longrightarrow>
          vxtq_put_buf flags p m' buffer i dlen = Some (p, m', VXT_BLOCKED))
      \<and> (\<exists>c'' m''. vxtq_signal wait VXTQ_SIGNAL_START c' m' = (c'', m'', VXT_SUCCESS)
          \<and> get_allowed flags p m''))
    \<and> vxtq_signal wait VXTQ_SIGNAL_STOP p m = (p, m, VXT_PARM)"
  using assms
  by (auto simp: vxtq_signal_def vxtq_get_buf_def vxtq_put_buf_def may_put_def get_allowed_def Let_def
      flag_set_def vxtq_flag_defs do_signal_def buf_addr_def not_le)


theorem stop_blocks_producer_witness:
  "\<exists>c' m'. vxtq_signal id VXTQ_SIGNAL_STOP (cons sample_chan) sample_held = (c', m', VXT_SUCCESS)
     \<and> vxtq_put_buf 0 (prod sample_chan) m' 4148 0 5 = Some (prod sample_chan, m', VXT_BLOCKED)"
proof -
  have sample: "local_producer (prod sample_chan)" "\<not> local_producer (cons sample_chan)"
    "consumer_flush (hdr sample_held) = 0" "may_put (prod sample_chan) sample_held 4148 0"
    "unat (0 :: u32) < length (sbufs sample_held)"
    by (simp_all add: sample_eval may_put_def)
  then show ?thesis
    using stop_blocks_producer [OF sample(1-3), of 0 id] by (fastforce simp: flag_set_def)
qed

text \<open>
  When no sub-buffer is held by an application, the two reset commands, in either order of
  the ends, bring the queue back to the empty ring with cleared counters and flags. A
  sub-buffer that was held stays marked as held: the producer's next get is refused with
  \<^verbatim>\<open>VXT_NOMEM\<close> although the producer owns the whole ring.
\<close>

theorem reset_empties_ring:
  assumes "ring_rep p c m W F"
  shows "\<exists>p' c' m' info' info''. vxtq_io_control VXT_IOCTL_RESET_SEND info p m = Some (p', m', info', VXT_PARM)
    \<and> vxtq_io_control VXT_IOCTL_RESET_RCV info c m' = Some (c', m', info'', VXT_SUCCESS)
    \<and> send_cnt (hdr m') = 0 \<and> receive_cnt (hdr m') = 0 \<and> producer_stop (hdr m') = 0
    \<and> (\<forall>b \<in> set (sbufs m'). owner b)
    \<and> ((\<forall>b \<in> set (sbufs m). \<not> app_held b) \<longrightarrow> (\<exists>F'. ring_rep p' c' m' [] F'))
    \<and> (app_held (sbufs m ! 0) \<and> \<not> sbuf_abort (sbufs m ! 0) \<longrightarrow>
        vxtq_get_buf wait flags p' m' = Some (p', m', NotGot VXT_NOMEM))"
proof -
  have len: "length (sbufs m) = unat (buf_cnt (hdr m))" "0 < length (sbufs m)"
    and role: "local_producer p" "\<not> local_producer c"
    using assms ring_rep_nonempty [OF assms] by (auto simp: ring_rep_def)
  show ?thesis
    using len role
    by (auto simp: vxtq_io_control_def vxtq_reset_def Let_def ring_rep_def is_free_def
        vxtq_get_buf_def vxtq_get_loop.simps [of wait flags])
qed

theorem reset_empties_ring_witness:
  "\<exists>p' m' info'. vxtq_io_control VXT_IOCTL_RESET_SEND (Error_Value 0) ((prod sample_chan)\<lparr>buf_index := 1\<rparr>) sample_held
       = Some (p', m', info', VXT_PARM)
     \<and> vxtq_get_buf id 0 p' m' = Some (p', m', NotGot VXT_NOMEM)"
proof -
  have "app_held (sbufs sample_held ! 0)" "\<not> sbuf_abort (sbufs sample_held ! 0)"
    by (simp_all add: sample_eval)
  with reset_empties_ring [OF sample_held_ring, of "Error_Value 0" id 0] show ?thesis by blast
qed

text \<open>
  The producer's estimate of free sub-buffers is exact for \<open>k\<close> outstanding ones as long as
  the two 32 bit counters have not wrapped against each other. Once the send counter has
  wrapped and the receive counter has not, the estimate is \<open>2 ^ 32 - k\<close> instead, and a
  streaming put does not signal.
\<close>

theorem stream_estimate:
  assumes "send_cnt h = word_of_nat (r + k)" and "receive_cnt h = word_of_nat r"
    and "0 < k" and "k \<le> unat (buf_cnt h)" and "unat (buf_cnt h) < 2 ^ 31"
  shows "producer_avail_num h =
      (if r mod 2 ^ 32 + k < 2 ^ 32 then buf_cnt h - word_of_nat k else - word_of_nat k)
    \<and> (2 ^ 32 \<le> r mod 2 ^ 32 + k \<longrightarrow> local_producer q \<longrightarrow> space_avail_lead h < 2 ^ 31 \<longrightarrow>
        \<not> flag_set flags VXTQ_FLAGS_SIGNAL \<longrightarrow> flag_set flags VXTQ_AUTO_STREAM \<longrightarrow>
        vxtq_put_signal flags q h = (q, h))"
proof -
  let ?N = "2 ^ 32 :: nat"
  have k: "k < 2 ^ 31" using assms(4,5) by simp
  have snd: "unat (send_cnt h) = (r + k) mod ?N" and rcv: "unat (receive_cnt h) = r mod ?N"
    using assms(1,2) by (simp_all add: unat_of_nat del: of_nat_add)
  have sum: "(r + k) mod ?N = (if r mod ?N + k < ?N then r mod ?N + k else r mod ?N + k - ?N)"
  proof -
    have "r mod ?N < ?N" by simp
    then have "(r mod ?N + k) mod ?N =
        (if r mod ?N + k < ?N then r mod ?N + k else r mod ?N + k - ?N)"
      using k by (subst mod_if) (auto simp del: mod_add_left_eq)
    then show ?thesis by (simp add: mod_add_left_eq)
  qed
  have order: "receive_cnt h \<le> send_cnt h \<longleftrightarrow> r mod ?N + k < ?N"
    unfolding word_le_nat_alt snd rcv sum using k assms(3) by auto
  have avail: "producer_avail_num h =
      (if r mod ?N + k < ?N then buf_cnt h - word_of_nat k else - word_of_nat k)"
    unfolding producer_avail_num_def order using assms(1,2) by simp
  have "- word_of_nat k \<noteq> l" if l: "l < (2 ^ 31 :: u32)" for l
  proof
    assume "- word_of_nat k = l"
    then have "l + word_of_nat k = 0" by auto
    then have "unat (l + word_of_nat k) = 0" by simp
    then have "(unat l + k) mod ?N = 0" using k by (simp add: unat_word_ariths(1) unat_of_nat)
    moreover have "unat l + k < ?N" using l k by (simp add: word_less_nat_alt)
    ultimately show False using assms(3) by simp
  qed
  with avail show ?thesis by (auto simp: vxtq_put_signal_def)
qed


theorem stream_estimate_witness:
  "producer_avail_num ((hdr sample_held)\<lparr>send_cnt := 1, receive_cnt := 0xFFFFFFFF\<rparr>) = - 2"
  using stream_estimate [of "(hdr sample_held)\<lparr>send_cnt := 1, receive_cnt := 0xFFFFFFFF\<rparr>" "0xFFFFFFFF" 2]
  by (simp add: sample_eval)

end
