(* ===== verification/Vxt_Msg.thy ===== *)
theory Vxt_Msg
  imports Vxt_Queue_Props
begin

text \<open>
  The byte stream of \<^verbatim>\<open>lib/vxtlib/common/vxt_msg.c\<close>: \<^verbatim>\<open>vxt_msg_send\<close> and \<^verbatim>\<open>vxt_msg_rcv\<close> copy the
  caller's bytes into and out of the sub-buffers of a send and a receive queue, keeping a
  partly filled and a partly read sub-buffer between calls. The shared regions of the two
  queues are separate arguments. A copy outside a sub-buffer or outside the caller's buffer
  and a failed \<^verbatim>\<open>ASSERT\<close> are the value \<open>None\<close>.
\<close>

subsection \<open>Data\<close>

text \<open>A sub-buffer kept between calls: address, offset, length and number.\<close>

record partial_buf =
  pb_buf :: nat
  pb_offset :: int
  pb_len :: int
  pb_index :: u32

record vxt_msg_dev_instance =
  is_new :: bool
  sendq :: vxtq_queue
  rcvq :: vxtq_queue
  partial_send :: "partial_buf option"
  partial_rcv :: "partial_buf option"

definition VXT_MSG_SIGNAL :: u32 where "VXT_MSG_SIGNAL = 0x1"
definition VXT_MSG_WAIT :: u32 where "VXT_MSG_WAIT = 0x2"
definition VXT_MSG_AUTO_STREAM :: u32 where "VXT_MSG_AUTO_STREAM = 0x4"

definition vxtmsg_queue_cookie :: string where "vxtmsg_queue_cookie = ''XXVMSG1''"
definition vxtmsg_cookie_size :: nat where "vxtmsg_cookie_size = 8"

text \<open>
  The cookie is read once, and again one second later when it does not match; the two
  arguments are what the shared header holds at those times, as C strings.
\<close>

definition vxt_msg_cookie_check :: "string \<Rightarrow> string \<Rightarrow> string \<Rightarrow> nat \<Rightarrow> vxt_status" where
  "vxt_msg_cookie_check cookie later ident n =
     (if take n cookie = take n ident then VXT_SUCCESS
      else if take n later = take n ident then VXT_SUCCESS else VXT_FAIL)"

subsection \<open>Copying\<close>

text \<open>\<^verbatim>\<open>memcpy\<close> into and out of the data of the sub-buffer a get has handed out.\<close>

definition memcpy_in :: "vxtq_queue \<Rightarrow> shm \<Rightarrow> nat \<Rightarrow> u32 \<Rightarrow> int \<Rightarrow> 8 word list \<Rightarrow> shm option" where
  "memcpy_in q m buffer i offset bytes =
     (if length (sbufs m) \<le> unat i \<or> buffer \<noteq> buf_addr q m i \<or> offset < 0
         \<or> length (sdata (sbufs m ! unat i)) < nat offset + length bytes then None
      else Some (set_sbuf m i ((sbufs m ! unat i)\<lparr>sdata :=
             take (nat offset) (sdata (sbufs m ! unat i)) @ bytes
             @ drop (nat offset + length bytes) (sdata (sbufs m ! unat i))\<rparr>)))"

definition memcpy_out :: "vxtq_queue \<Rightarrow> shm \<Rightarrow> nat \<Rightarrow> u32 \<Rightarrow> int \<Rightarrow> int \<Rightarrow> 8 word list option" where
  "memcpy_out q m buffer i offset n =
     (if length (sbufs m) \<le> unat i \<or> buffer \<noteq> buf_addr q m i \<or> offset < 0 \<or> n < 0
         \<or> length (sdata (sbufs m ! unat i)) < nat offset + nat n then None
      else Some (take (nat n) (drop (nat offset) (sdata (sbufs m ! unat i)))))"

text \<open>The caller's buffer: reading \<open>n\<close> bytes at an offset.\<close>

definition read_user :: "8 word list \<Rightarrow> int \<Rightarrow> int \<Rightarrow> 8 word list option" where
  "read_user buffer offset n =
     (if offset < 0 \<or> n < 0 \<or> length buffer < nat offset + nat n then None
      else Some (take (nat n) (drop (nat offset) buffer)))"

subsection \<open>Send\<close>

text \<open>
  The loop of \<^verbatim>\<open>vxt_msg_send\<close>. The sub-buffer in hand is the record \<open>x\<close> (\<^verbatim>\<open>send_buf\<close>,
  \<^verbatim>\<open>dest_offset\<close>, \<^verbatim>\<open>sbuf_len\<close>, \<^verbatim>\<open>buf_num\<close>). The result carries the value left in \<^verbatim>\<open>*len\<close>.
\<close>

partial_function (option) vxt_msg_send_loop ::
  "(shm \<Rightarrow> shm) \<Rightarrow> u32 \<Rightarrow> 8 word list \<Rightarrow> int \<Rightarrow> vxt_msg_dev_instance \<Rightarrow> shm \<Rightarrow> partial_buf \<Rightarrow> int \<Rightarrow>
     (vxt_msg_dev_instance \<times> shm \<times> int \<times> vxt_status) option" where
  "vxt_msg_send_loop wait flags buffer total_len device m x source_offset =
     (let room = pb_len x - pb_offset x;
          remainder = (if room < total_len - source_offset then room else total_len - source_offset)
      in case read_user buffer source_offset remainder of None \<Rightarrow> None | Some bytes \<Rightarrow>
         (case memcpy_in (sendq device) m (pb_buf x) (pb_index x) (pb_offset x) bytes of
            None \<Rightarrow> None
          | Some m1 \<Rightarrow>
            let dest_offset = pb_offset x + remainder; source = source_offset + remainder
            in if source = total_len then
                 (if dest_offset < pb_len x \<and> flag_set flags VXT_MSG_AUTO_STREAM then
                    Some (device\<lparr>partial_send := Some (x\<lparr>pb_offset := dest_offset\<rparr>)\<rparr>, m1, total_len,
                      VXT_SUCCESS)
                  else
                    (case vxtq_put_buf flags (sendq device) m1 (pb_buf x) (pb_index x)
                            (word_of_int dest_offset) of
                       None \<Rightarrow> None
                     | Some (q, m2, ret) \<Rightarrow>
                         if ret = VXT_BLOCKED then Some (device\<lparr>sendq := q\<rparr>, m2, total_len, VXT_BLOCKED)
                         else if ret = VXT_SUCCESS then Some (device\<lparr>sendq := q\<rparr>, m2, total_len, VXT_SUCCESS)
                         else None))
               else
                 (case vxtq_put_buf flags (sendq device) m1 (pb_buf x) (pb_index x)
                         (word_of_int dest_offset) of
                    None \<Rightarrow> None
                  | Some (q, m2, ret) \<Rightarrow>
                      if ret = VXT_BLOCKED then Some (device\<lparr>sendq := q\<rparr>, m2, source, VXT_BLOCKED)
                      else
                        (case vxtq_get_buf wait flags q m2 of
                           None \<Rightarrow> None
                         | Some (q', m3, NotGot e) \<Rightarrow>
                             Some (device\<lparr>sendq := q'\<rparr>, m3, source,
                               if flag_set flags VXT_MSG_WAIT \<or> e = VXT_SHUTTING_DOWN \<or> e = VXT_BLOCKED
                               then e else VXT_BUF_SPACE)
                         | Some (q', m3, Got n a l) \<Rightarrow>
                             vxt_msg_send_loop wait flags buffer total_len (device\<lparr>sendq := q'\<rparr>) m3
                               \<lparr>pb_buf = a, pb_offset = 0, pb_len = sint l, pb_index = n\<rparr> source))))"

definition vxt_msg_send ::
  "string \<Rightarrow> string \<Rightarrow> (shm \<Rightarrow> shm) \<Rightarrow> vxt_msg_dev_instance \<Rightarrow> shm \<Rightarrow> 8 word list \<Rightarrow> int \<Rightarrow> u32 \<Rightarrow>
     (vxt_msg_dev_instance \<times> shm \<times> int \<times> vxt_status) option" where
  "vxt_msg_send cookie later wait device0 m buffer len flags =
     (if is_new device0
         \<and> vxt_msg_cookie_check cookie later vxtmsg_queue_cookie vxtmsg_cookie_size \<noteq> VXT_SUCCESS
      then Some (device0, m, len,
             vxt_msg_cookie_check cookie later vxtmsg_queue_cookie vxtmsg_cookie_size)
      else let device = device0\<lparr>is_new := False\<rparr>
      in case partial_send device of
        Some x \<Rightarrow> vxt_msg_send_loop wait flags buffer len (device\<lparr>partial_send := None\<rparr>) m x 0
      | None \<Rightarrow>
          (case vxtq_get_buf wait flags (sendq device) m of
             None \<Rightarrow> None
           | Some (q, m1, NotGot e) \<Rightarrow> Some (device\<lparr>sendq := q\<rparr>, m1, len, e)
           | Some (q, m1, Got n a l) \<Rightarrow>
               vxt_msg_send_loop wait flags buffer len (device\<lparr>sendq := q\<rparr>) m1
                 \<lparr>pb_buf = a, pb_offset = 0, pb_len = sint l, pb_index = n\<rparr> 0))"

subsection \<open>Receive\<close>

text \<open>
  The loop of \<^verbatim>\<open>vxt_msg_rcv\<close>; \<open>got\<close> are the bytes copied to the caller so far, so that
  \<^verbatim>\<open>dest_offset\<close> is their number. Put is passed \<^verbatim>\<open>*len\<close>, the caller's length, as in the code.
\<close>

partial_function (option) vxt_msg_rcv_loop ::
  "u32 \<Rightarrow> int \<Rightarrow> vxt_msg_dev_instance \<Rightarrow> shm \<Rightarrow> partial_buf \<Rightarrow> 8 word list \<Rightarrow>
     (vxt_msg_dev_instance \<times> shm \<times> 8 word list \<times> int \<times> vxt_status) option" where
  "vxt_msg_rcv_loop flags total_len device m x got =
     (let room = pb_len x - pb_offset x; left = total_len - int (length got);
          remainder = (if room < left then room else left)
      in case memcpy_out (rcvq device) m (pb_buf x) (pb_index x) (pb_offset x) remainder of
           None \<Rightarrow> None
         | Some bytes \<Rightarrow>
           let got' = got @ bytes; source_offset = pb_offset x + remainder
           in if int (length got') = total_len then
                (if source_offset < pb_len x then
                   Some (device\<lparr>partial_rcv := Some (x\<lparr>pb_offset := source_offset\<rparr>)\<rparr>, m, got', total_len,
                     VXT_SUCCESS)
                 else
                   (case vxtq_put_buf flags (rcvq device) m (pb_buf x) (pb_index x) (word_of_int total_len) of
                      None \<Rightarrow> None
                    | Some (q, m1, ret) \<Rightarrow>
                        if ret = VXT_SUCCESS then Some (device\<lparr>rcvq := q\<rparr>, m1, got', total_len, VXT_SUCCESS)
                        else None))
              else
                (case vxtq_put_buf flags (rcvq device) m (pb_buf x) (pb_index x) (word_of_int total_len) of
                   None \<Rightarrow> None
                 | Some (q, m1, ret) \<Rightarrow>
                     if ret \<noteq> VXT_SUCCESS then None
                     else let flags' = flags AND NOT VXT_MSG_WAIT
                     in case vxtq_get_buf id flags' q m1 of
                          None \<Rightarrow> None
                        | Some (q', m2, NotGot e) \<Rightarrow>
                            Some (device\<lparr>rcvq := q'\<rparr>, m2, got', int (length got'),
                              if flag_set flags' VXT_MSG_WAIT \<or> e = VXT_SHUTTING_DOWN \<or> e = VXT_BLOCKED
                              then e else VXT_BUF_SPACE)
                        | Some (q', m2, Got n a l) \<Rightarrow>
                            vxt_msg_rcv_loop flags' total_len (device\<lparr>rcvq := q'\<rparr>) m2
                              \<lparr>pb_buf = a, pb_offset = 0, pb_len = sint l, pb_index = n\<rparr> got'))"

definition vxt_msg_rcv ::
  "string \<Rightarrow> string \<Rightarrow> (shm \<Rightarrow> shm) \<Rightarrow> vxt_msg_dev_instance \<Rightarrow> shm \<Rightarrow> int \<Rightarrow> u32 \<Rightarrow>
     (vxt_msg_dev_instance \<times> shm \<times> 8 word list \<times> int \<times> vxt_status) option" where
  "vxt_msg_rcv cookie later wait device0 m len flags =
     (if is_new device0
         \<and> vxt_msg_cookie_check cookie later vxtmsg_queue_cookie vxtmsg_cookie_size \<noteq> VXT_SUCCESS
      then Some (device0, m, [], len,
             vxt_msg_cookie_check cookie later vxtmsg_queue_cookie vxtmsg_cookie_size)
      else let device = device0\<lparr>is_new := False\<rparr>
      in case partial_rcv device of
        Some x \<Rightarrow> vxt_msg_rcv_loop flags len (device\<lparr>partial_rcv := None\<rparr>) m x []
      | None \<Rightarrow>
          (case vxtq_get_buf wait flags (rcvq device) m of
             None \<Rightarrow> None
           | Some (q, m1, NotGot e) \<Rightarrow>
               Some (device\<lparr>rcvq := q\<rparr>, m1, [], 0, if e = VXT_RSRC then VXT_SUCCESS else e)
           | Some (q, m1, Got n a l) \<Rightarrow>
               vxt_msg_rcv_loop flags len (device\<lparr>rcvq := q\<rparr>) m1
                 \<lparr>pb_buf = a, pb_offset = 0, pb_len = sint l, pb_index = n\<rparr> []))"


subsection \<open>Control\<close>

text \<open>
  The commands that reach a connection and their untyped argument as a tagged union; the send
  and the receive region are \<open>ms\<close> and \<open>mr\<close>.
\<close>

datatype vxt_msg_cmd = VXT_IOCTL_SIGNAL_SEND | VXT_IOCTL_SIGNAL_RCV | Queue_Cmd vxtq_cmd

datatype vxt_msg_info = Signal_Flags u32 | Queue_Arg vxtq_info

definition vxt_msg_control ::
  "(shm \<Rightarrow> shm) \<Rightarrow> vxt_msg_cmd \<Rightarrow> vxt_msg_info \<Rightarrow> vxt_msg_dev_instance \<Rightarrow> shm \<Rightarrow> shm \<Rightarrow>
     (vxt_msg_dev_instance \<times> shm \<times> shm \<times> vxt_msg_info \<times> vxt_status) option" where
  "vxt_msg_control wait cmd info device ms mr =
     (case cmd of
        VXT_IOCTL_SIGNAL_SEND \<Rightarrow>
          (case info of
             Signal_Flags flags \<Rightarrow>
               (let (q, m, ret) = vxtq_signal wait flags (sendq device) ms
                in Some (device\<lparr>sendq := q\<rparr>, m, mr, info, ret))
           | _ \<Rightarrow> None)
      | VXT_IOCTL_SIGNAL_RCV \<Rightarrow>
          (case info of
             Signal_Flags flags \<Rightarrow>
               (let (q, m, ret) = vxtq_signal wait flags (rcvq device) mr
                in Some (device\<lparr>rcvq := q\<rparr>, ms, m, info, ret))
           | _ \<Rightarrow> None)
      | Queue_Cmd c \<Rightarrow>
          if c \<in> {VXT_IOCTL_QUERY_SEND, VXT_IOCTL_SET_SEND_ERROR, VXT_IOCTL_RESET_SEND} then
            (case info of
               Queue_Arg arg \<Rightarrow>
                 (case vxtq_io_control c arg (sendq device) ms of
                    None \<Rightarrow> None
                  | Some (q, m, arg', ret) \<Rightarrow> Some (device\<lparr>sendq := q\<rparr>, m, mr, Queue_Arg arg', ret))
             | _ \<Rightarrow> None)
          else if c \<in> {VXT_IOCTL_QUERY_RCV, VXT_IOCTL_SET_RCV_ERROR, VXT_IOCTL_RESET_RCV} then
            (case info of
               Queue_Arg arg \<Rightarrow>
                 (case vxtq_io_control c arg (rcvq device) mr of
                    None \<Rightarrow> None
                  | Some (q, m, arg', ret) \<Rightarrow> Some (device\<lparr>rcvq := q\<rparr>, ms, m, Queue_Arg arg', ret))
             | _ \<Rightarrow> None)
          else Some (device, ms, mr, info, VXT_PARM))"

end
