(* ===== verification/Vxt_Stream.thy ===== *)
theory Vxt_Stream
  imports Vxt_Msg
begin

text \<open>
  The byte stream contract of \<^verbatim>\<open>vxt_msg_send\<close> and \<^verbatim>\<open>vxt_msg_rcv\<close>: the bytes in transit
  between two connected devices are a queue of bytes, send appends to it and receive takes
  from its front.
\<close>

subsection \<open>The bytes in transit\<close>

text \<open>
  \<open>W\<close> are the sub-buffers passed to the consumer and not yet taken, \<open>F\<close> those the producer
  may take, \<open>Hs\<close> the one the sender keeps partly filled and \<open>Hr\<close> the one the receiver keeps
  partly read.
\<close>

definition capacity :: "shm \<Rightarrow> nat" where
  "capacity m = unat (buf_size (hdr m)) - sizeof_sbuf_header"

definition holds :: "vxtq_queue \<Rightarrow> vxtq_queue \<Rightarrow> shm \<Rightarrow> nat \<Rightarrow> partial_buf \<Rightarrow> bool" where
  "holds q c m k x \<longleftrightarrow> unat (pb_index x) = ring_pos c m k \<and> pb_buf x = buf_addr q m (pb_index x)
     \<and> 0 \<le> pb_offset x \<and> pb_offset x \<le> pb_len x \<and> pb_len x \<le> int (capacity m)"

definition stream_rep ::
  "vxtq_queue \<Rightarrow> vxtq_queue \<Rightarrow> shm \<Rightarrow> partial_buf option \<Rightarrow> partial_buf option \<Rightarrow>
     vxtq_sbuf_header list \<Rightarrow> vxtq_sbuf_header list \<Rightarrow> vxtq_sbuf_header list \<Rightarrow>
     vxtq_sbuf_header list \<Rightarrow> bool" where
  "stream_rep p c m ps pr W F Hs Hr \<longleftrightarrow>
     ring_rep p c m (W @ Hs) (F @ Hr)
     \<and> sizeof_sbuf_header \<le> unat (buf_size (hdr m)) \<and> capacity m < 2 ^ 16
     \<and> (\<forall>b \<in> set (W @ Hs @ F @ Hr). \<not> sbuf_abort b \<and> length (sdata b) = capacity m)
     \<and> (\<forall>b \<in> set W. \<not> owner b \<and> unat (data_len b) \<le> capacity m) \<and> (\<forall>b \<in> set F. owner b)
     \<and> (case ps of None \<Rightarrow> Hs = []
        | Some x \<Rightarrow> (\<exists>b. Hs = [b] \<and> owner b) \<and> holds p c m (length W) x \<and> pb_len x = int (capacity m))
     \<and> (case pr of None \<Rightarrow> Hr = []
        | Some x \<Rightarrow> (\<exists>b. Hr = [b] \<and> \<not> owner b) \<and> holds c c m (length W + length Hs + length F) x)"

definition payload :: "vxtq_sbuf_header \<Rightarrow> 8 word list" where
  "payload b = take (unat (data_len b)) (sdata b)"

definition in_transit ::
  "partial_buf option \<Rightarrow> partial_buf option \<Rightarrow> vxtq_sbuf_header list \<Rightarrow> vxtq_sbuf_header list \<Rightarrow>
     vxtq_sbuf_header list \<Rightarrow> 8 word list" where
  "in_transit ps pr W Hs Hr =
     (case pr of None \<Rightarrow> []
      | Some x \<Rightarrow> drop (nat (pb_offset x)) (take (nat (pb_len x)) (sdata (hd Hr))))
     @ concat (map payload W)
     @ (case ps of None \<Rightarrow> [] | Some x \<Rightarrow> take (nat (pb_offset x)) (sdata (hd Hs)))"

lemma sint_capacity:
  assumes "sizeof_sbuf_header \<le> unat (buf_size (hdr m))" and "capacity m < 2 ^ 16"
  shows "sint (buf_size (hdr m) - word_of_nat sizeof_sbuf_header) = int (capacity m)"
proof -
  have "unat (buf_size (hdr m) - word_of_nat sizeof_sbuf_header) = capacity m"
    using assms(1) by (simp add: capacity_def sizeof_sbuf_header_def unat_sub word_le_nat_alt)
  then have "uint (buf_size (hdr m) - word_of_nat sizeof_sbuf_header) = int (capacity m)"
    by (metis of_nat_unat)
  with assms(2) show ?thesis by (simp add: sint_uint signed_take_bit_int_eq_self)
qed

lemma holds_frame:
  assumes "buf_size (hdr m') = buf_size (hdr m)" and "length (sbufs m') = length (sbufs m)"
    and "buf_index c' = buf_index c" and "buffers q' = buffers q"
  shows "holds q' c' m' k x \<longleftrightarrow> holds q c m k x"
  using assms by (auto simp: holds_def ring_pos_def buf_addr_def capacity_def)

lemma ring_rep_size: "ring_rep p c m W F \<Longrightarrow> length (sbufs m) < 2 ^ 32"
proof -
  have "unat (buf_cnt (hdr m)) < 2 ^ LENGTH(32)" by (rule unsigned_less)
  then show "ring_rep p c m W F \<Longrightarrow> length (sbufs m) < 2 ^ 32" by (simp add: ring_rep_def)
qed

lemma unat_ring_pos: "ring_rep p c m W F \<Longrightarrow> unat (word_of_nat (ring_pos c m k) :: u32) = ring_pos c m k"
  using ring_rep_size [of p c m W F] ring_rep_bounds(3) [of p c m W F k]
  by (simp add: unat_of_nat)

subsection \<open>The sender's calls\<close>

lemma send_get_empty:
  assumes rep: "stream_rep p c m None pr W [] [] Hr"
    and nowait: "\<not> flag_set flags VXTQ_FLAGS_WAIT" and allowed: "get_allowed flags p m"
  shows "\<exists>p' m'. vxtq_get_buf wait flags p m = Some (p', m', NotGot VXT_RSRC)
    \<and> stream_rep p' c m' None pr W [] [] Hr \<and> hdr m' = hdr m"
proof -
  have ring: "ring_rep p c m W Hr" and W: "\<forall>b \<in> set W. \<not> owner b"
    and Hr: "Hr = [] \<or> (\<exists>b. Hr = [b] \<and> \<not> owner b)"
    using rep by (auto simp: stream_rep_def split: option.splits)
  have "spec_get_p W Hr = ((W, Hr), Inl VXT_RSRC)" using W Hr by (cases W) auto
  from vxtq_get_loop_p_refines [OF ring nowait this, of wait] obtain p' m' where
    r: "ring_rep p' c m' W Hr" "hdr m' = hdr m" "buffers p' = buffers p"
    and get: "vxtq_get_loop wait flags p m = Some (p', m', NotGot VXT_RSRC)"
    by (auto simp: get_result_def)
  have len: "length (sbufs m') = length (sbufs m)"
    using ring_rep_length [OF ring] ring_rep_length [OF r(1)] by simp
  show ?thesis
    using rep r get len by (auto simp: get_allowed_loop [OF allowed] stream_rep_def capacity_def
        holds_frame [of m' m c c c c] split: option.splits)
qed

lemma send_get:
  assumes rep: "stream_rep p c m None pr W (b # F) [] Hr"
    and nowait: "\<not> flag_set flags VXTQ_FLAGS_WAIT" and allowed: "get_allowed flags p m"
  shows "\<exists>p' m' n a l. vxtq_get_buf wait flags p m = Some (p', m', Got n a l)
    \<and> stream_rep p' c m' (Some \<lparr>pb_buf = a, pb_offset = 0, pb_len = sint l, pb_index = n\<rparr>) pr
        W F [b\<lparr>app_held := True\<rparr>] Hr \<and> hdr m' = hdr m"
proof -
  have ring: "ring_rep p c m W (b # F @ Hr)" and own: "owner b" "\<not> sbuf_abort b"
    and role: "local_producer p"
    using rep by (auto simp: stream_rep_def ring_rep_def)
  have size: "sizeof_sbuf_header \<le> unat (buf_size (hdr m))" "capacity m < 2 ^ 16"
    using rep by (auto simp: stream_rep_def)
  have "spec_get_p W (b # F @ Hr) = ((W @ [b\<lparr>app_held := True\<rparr>], F @ Hr), Inr b)"
    using own by simp
  from vxtq_get_loop_p_refines [OF ring nowait this, of wait] obtain p' m' where
    r: "ring_rep p' c m' (W @ [b\<lparr>app_held := True\<rparr>]) (F @ Hr)" "hdr m' = hdr m" "buffers p' = buffers p"
    and get: "vxtq_get_loop wait flags p m = Some (p', m',
      Got (word_of_nat (ring_pos c m' (length W))) (buf_addr p m (word_of_nat (ring_pos c m' (length W))))
       (buf_size (hdr m) - word_of_nat sizeof_sbuf_header))"
    by (auto simp: get_result_def role)
  have len: "length (sbufs m') = length (sbufs m)"
    using ring_rep_length [OF ring] ring_rep_length [OF r(1)] by simp
  let ?n = "word_of_nat (ring_pos c m' (length W)) :: u32"
  have held: "holds p' c m' (length W) \<lparr>pb_buf = buf_addr p m ?n, pb_offset = 0,
      pb_len = sint (buf_size (hdr m) - word_of_nat sizeof_sbuf_header), pb_index = ?n\<rparr>"
    using unat_ring_pos [OF r(1)] r(2,3) by (simp add: holds_def sint_capacity [OF size] buf_addr_def capacity_def)
  have "stream_rep p' c m' (Some \<lparr>pb_buf = buf_addr p m ?n, pb_offset = 0,
      pb_len = sint (buf_size (hdr m) - word_of_nat sizeof_sbuf_header), pb_index = ?n\<rparr>) pr
      W F [b\<lparr>app_held := True\<rparr>] Hr"
    using rep r held len own size
    by (auto simp: stream_rep_def capacity_def sint_capacity holds_frame [of m' m c c c c]
        split: option.splits)
  with get r(2) show ?thesis by (auto simp: get_allowed_loop [OF allowed])
qed


lemma give_simps [simp]:
  "owner (give n b) \<longleftrightarrow> \<not> owner b" "sbuf_abort (give n b) = sbuf_abort b" "sdata (give n b) = sdata b"
  "data_len (give n b) = ucast n"
  by (simp_all add: give_def)

text \<open>The sub-buffer in the sender's hand: where it is in the ring and in the region.\<close>

lemma send_held:
  assumes rep: "stream_rep p c m (Some x) pr W F [b] Hr"
  shows "ring_rep p c m (W @ [b]) (F @ Hr)" and "owner b" and "in_flight b"
    and "unat (pb_index x) = ring_pos c m (length W)" and "pb_buf x = buf_addr p m (pb_index x)"
    and "unat (pb_index x) < length (sbufs m)" and "sbufs m ! unat (pb_index x) = b"
    and "0 \<le> pb_offset x" and "pb_offset x \<le> pb_len x" and "pb_len x = int (capacity m)"
    and "length (sdata b) = capacity m" and "capacity m < 2 ^ 16"
proof -
  show ring: "ring_rep p c m (W @ [b]) (F @ Hr)" and "owner b"
    and i: "unat (pb_index x) = ring_pos c m (length W)" and "pb_buf x = buf_addr p m (pb_index x)"
    and "0 \<le> pb_offset x" and "pb_offset x \<le> pb_len x" and "pb_len x = int (capacity m)"
    and "length (sdata b) = capacity m" and "capacity m < 2 ^ 16"
    using rep by (auto simp: stream_rep_def holds_def)
  show "in_flight b" using ring by (auto simp: ring_rep_def)
  show "unat (pb_index x) < length (sbufs m)" using i ring_rep_bounds(3) [OF ring] by simp
  have "length W < length (sbufs m)" using ring_rep_length [OF ring] by simp
  from ring_rep_nth [OF ring this] i show "sbufs m ! unat (pb_index x) = b" by (simp add: nth_append)
qed

lemma send_copy:
  assumes rep: "stream_rep p c m (Some x) pr W F [b] Hr"
    and room: "int (length bytes) \<le> pb_len x - pb_offset x"
  shows "\<exists>m1 b1. memcpy_in p m (pb_buf x) (pb_index x) (pb_offset x) bytes = Some m1 \<and> hdr m1 = hdr m
    \<and> stream_rep p c m1 (Some (x\<lparr>pb_offset := pb_offset x + int (length bytes)\<rparr>)) pr W F [b1] Hr
    \<and> take (nat (pb_offset x + int (length bytes))) (sdata b1) = take (nat (pb_offset x)) (sdata b) @ bytes"
proof -
  note held = send_held [OF rep]
  let ?d = "take (nat (pb_offset x)) (sdata b) @ bytes @ drop (nat (pb_offset x) + length bytes) (sdata b)"
  let ?m = "set_sbuf m (pb_index x) (b\<lparr>sdata := ?d\<rparr>)"
  have fit: "nat (pb_offset x) + length bytes \<le> capacity m"
    using room held(8-10) by linarith
  have copy: "memcpy_in p m (pb_buf x) (pb_index x) (pb_offset x) bytes = Some ?m"
    using held fit by (simp add: memcpy_in_def)
  have "in_flight (b\<lparr>sdata := ?d\<rparr>)" using held(3) by (simp add: in_flight_def)
  from ring_rep_change_W [OF held(1) _ held(4) this]
  have ring: "ring_rep p c ?m (W @ [b\<lparr>sdata := ?d\<rparr>]) (F @ Hr)" by simp
  have "stream_rep p c ?m (Some (x\<lparr>pb_offset := pb_offset x + int (length bytes)\<rparr>)) pr W F
      [b\<lparr>sdata := ?d\<rparr>] Hr"
    using rep ring room fit held(8)
    by (auto simp: stream_rep_def capacity_def holds_def buf_addr_def split: option.splits)
  moreover have "nat (pb_offset x + int (length bytes)) = nat (pb_offset x) + length bytes"
    using held(8) by simp
  moreover have "nat (pb_offset x) \<le> length (sdata b)" using held(8-11) by simp
  ultimately show ?thesis
    using copy by (intro exI [of _ ?m] exI [of _ "b\<lparr>sdata := ?d\<rparr>"]) simp
qed

lemma send_put:
  assumes rep: "stream_rep p c m (Some x) pr W F [b] Hr"
    and flags: "\<not> flag_set flags VXTQ_FLAGS_ABORT"
    and stop: "flag_set flags VXTQ_IGNORE_SHUTDOWN \<or> producer_stop (hdr m) \<noteq> 1"
  shows "\<exists>p' m' b'. vxtq_put_buf flags p m (pb_buf x) (pb_index x) (word_of_int (pb_offset x)) =
      Some (p', m', VXT_SUCCESS)
    \<and> stream_rep p' c m' None pr (W @ [b']) F [] Hr \<and> same_config (hdr m) (hdr m')
    \<and> payload b' = take (nat (pb_offset x)) (sdata b)"
proof -
  note held = send_held [OF rep]
  let ?b = "give (word_of_int (pb_offset x)) b"
  from vxtq_put_buf_p [OF held(1) _ _ held(4) held(5) flags stop, of "word_of_int (pb_offset x)"] held(2)
  obtain s h where put: "vxtq_put_buf flags p m (pb_buf x) (pb_index x) (word_of_int (pb_offset x)) =
      Some (p\<lparr>signals := s\<rparr>, (set_sbuf m (pb_index x) ?b)\<lparr>hdr := h\<rparr>, VXT_SUCCESS)"
    and ring: "ring_rep (p\<lparr>signals := s\<rparr>) c ((set_sbuf m (pb_index x) ?b)\<lparr>hdr := h\<rparr>) (W @ [?b]) (F @ Hr)"
    and cfg: "same_config (hdr m) h"
    by auto
  have off: "pb_offset x < 2 ^ 16" using held(9,10,12) by simp
  have "unat (ucast (word_of_int (pb_offset x) :: u32) :: u16) = nat (pb_offset x)"
    using off held(8) by (simp add: unat_eq_nat_uint uint_word_of_int take_bit_int_eq_self unsigned_ucast_eq)
  then have dl: "unat (data_len ?b) = nat (pb_offset x)" by simp
  then have "payload ?b = take (nat (pb_offset x)) (sdata b)" by (simp add: payload_def)
  moreover have "stream_rep (p\<lparr>signals := s\<rparr>) c ((set_sbuf m (pb_index x) ?b)\<lparr>hdr := h\<rparr>) None pr (W @ [?b]) F [] Hr"
  proof -
    have "nat (pb_offset x) \<le> capacity m" using held(9,10) by linarith
    moreover have "holds c c ((set_sbuf m (pb_index x) ?b)\<lparr>hdr := h\<rparr>) k y \<longleftrightarrow> holds c c m k y" for k y
      using cfg by (intro holds_frame) (auto simp: same_config_def)
    ultimately show ?thesis
      using rep ring cfg dl held(2)
      by (auto simp: stream_rep_def capacity_def same_config_def split: option.splits)
  qed
  ultimately show ?thesis
    using put cfg by (intro exI conjI) (assumption | simp)+
qed

subsection \<open>The receiver's calls\<close>

lemma rcv_get_empty:
  assumes rep: "stream_rep p c m ps None [] F Hs []"
    and nowait: "\<not> flag_set flags VXTQ_FLAGS_WAIT" and allowed: "get_allowed flags c m"
  shows "\<exists>c' m'. vxtq_get_buf wait flags c m = Some (c', m', NotGot VXT_RSRC)
    \<and> stream_rep p c' m' ps None [] F Hs [] \<and> hdr m' = hdr m"
proof -
  have ring: "ring_rep p c m Hs F" and F: "\<forall>b \<in> set F. owner b"
    and Hs: "Hs = [] \<or> (\<exists>b. Hs = [b] \<and> owner b)"
    using rep by (auto simp: stream_rep_def split: option.splits)
  have "owner (sbufs m ! unat (buf_index c)) \<noteq> local_producer c"
    using ring_rep_at_c [OF ring] F Hs ring_rep_length [OF ring] ring_rep_nonempty [OF ring] ring
    by (cases F) (auto simp: ring_rep_def)
  with ring nowait have "vxtq_get_loop wait flags c m = Some (c, m, NotGot VXT_RSRC)"
    by (subst vxtq_get_loop.simps) (auto simp: Let_def ring_rep_def)
  with rep show ?thesis by (simp add: get_allowed_loop [OF allowed])
qed

lemma ring_pos_next:
  assumes "ring_rep p c m W F"
  shows "ring_pos (c\<lparr>buf_index := next_index m (buf_index c)\<rparr>) m k = ring_pos c m (Suc k)"
  using ring_pos_advance(2) [OF assms] by (simp add: ring_pos_def mod_simps)

lemma sint_ucast16: "sint (ucast (w :: u16) :: u32) = int (unat w)"
proof -
  have "uint w < 2 ^ LENGTH(16)" by (rule unsigned_less)
  moreover have "- (2 ^ 31) \<le> uint w" by (rule order_trans [of _ 0]) simp_all
  moreover have "uint (ucast w :: u32) = uint w"
    by (simp add: unsigned_ucast_eq take_bit_int_eq_self_iff less_trans [OF unsigned_less])
  ultimately show ?thesis by (simp add: sint_uint signed_take_bit_int_eq_self)
qed

lemma rcv_get:
  assumes rep: "stream_rep p c m ps None (b # W) F Hs []"
    and nowait: "\<not> flag_set flags VXTQ_FLAGS_WAIT" and allowed: "get_allowed flags c m"
  shows "\<exists>c' m' n a l. vxtq_get_buf wait flags c m = Some (c', m', Got n a l)
    \<and> stream_rep p c' m' ps (Some \<lparr>pb_buf = a, pb_offset = 0, pb_len = sint l, pb_index = n\<rparr>)
        W F Hs [b\<lparr>app_held := True\<rparr>] \<and> hdr m' = hdr m \<and> sint l = int (unat (data_len b))"
proof -
  have ring: "ring_rep p c m (b # W @ Hs) F" and own: "\<not> owner b" "\<not> sbuf_abort b"
    and role: "\<not> local_producer c" and dl: "unat (data_len b) \<le> capacity m"
    using rep by (auto simp: stream_rep_def ring_rep_def)
  let ?b = "b\<lparr>app_held := True\<rparr>" and ?i = "buf_index c"
  let ?c = "c\<lparr>buf_index := next_index m ?i\<rparr>" and ?m = "set_sbuf m ?i (b\<lparr>app_held := True\<rparr>)"
  have fl: "in_flight b" using ring by (simp add: ring_rep_def)
  have at: "sbufs m ! unat ?i = b" using ring_rep_at_c [OF ring] by simp
  have bnd: "unat ?i < length (sbufs m)" using ring_rep_bounds [OF ring] by simp
  have get: "vxtq_get_loop wait flags c m = Some (?c, ?m, Got ?i (buf_addr c m ?i) (ucast (data_len b)))"
    using at bnd own role fl by (subst vxtq_get_loop.simps) (simp add: Let_def in_flight_def)
  have ring': "ring_rep p ?c ?m (W @ Hs) (F @ [?b])"
    using ring_rep_take_c [OF ring hold_kind(2) [OF fl own]] .
  have len: "length (sbufs m) = Suc (length W + length Hs + length F)"
    using ring_rep_length [OF ring] by simp
  have pos: "unat ?i = ring_pos ?c ?m (length W + length Hs + length F)"
    using ring_pos_next [OF ring] bnd len by (simp add: ring_pos_def Suc_add_mod)
  have "holds ?c ?c ?m (length W + length Hs + length F) \<lparr>pb_buf = buf_addr c m ?i, pb_offset = 0,
      pb_len = sint (ucast (data_len b) :: u32), pb_index = ?i\<rparr>"
    using pos of_nat_mono [OF dl, where 'a = int] by (simp add: holds_def sint_ucast16 buf_addr_def capacity_def)
  moreover have "holds p ?c ?m (length W) x" if "holds p c m (Suc (length W)) x" for x
    using that ring_pos_next [OF ring] by (simp add: holds_def buf_addr_def capacity_def)
  ultimately have "stream_rep p ?c ?m ps (Some \<lparr>pb_buf = buf_addr c m ?i, pb_offset = 0,
      pb_len = sint (ucast (data_len b) :: u32), pb_index = ?i\<rparr>) W F Hs [?b]"
    using rep ring' own
    by (auto simp: stream_rep_def capacity_def split: option.splits)
  with get show ?thesis by (auto simp: get_allowed_loop [OF allowed] sint_ucast16)
qed


lemma rcv_held:
  assumes rep: "stream_rep p c m ps (Some x) W F Hs [b]"
  shows "ring_rep p c m (W @ Hs) (F @ [b])" and "\<not> owner b" and "is_free b"
    and "unat (pb_index x) = ring_pos c m (length (W @ Hs) + length F)"
    and "pb_buf x = buf_addr c m (pb_index x)"
    and "unat (pb_index x) < length (sbufs m)" and "sbufs m ! unat (pb_index x) = b"
    and "0 \<le> pb_offset x" and "pb_offset x \<le> pb_len x" and "pb_len x \<le> int (capacity m)"
    and "length (sdata b) = capacity m"
proof -
  show ring: "ring_rep p c m (W @ Hs) (F @ [b])" and "\<not> owner b"
    and i: "unat (pb_index x) = ring_pos c m (length (W @ Hs) + length F)"
    and "pb_buf x = buf_addr c m (pb_index x)"
    and "0 \<le> pb_offset x" and "pb_offset x \<le> pb_len x" and "pb_len x \<le> int (capacity m)"
    and "length (sdata b) = capacity m"
    using rep by (auto simp: stream_rep_def holds_def)
  show "is_free b" using ring by (auto simp: ring_rep_def)
  show "unat (pb_index x) < length (sbufs m)" using i ring_rep_bounds(3) [OF ring] by simp
  have "length (W @ Hs) + length F < length (sbufs m)" using ring_rep_length [OF ring] by simp
  from ring_rep_nth [OF ring this] i show "sbufs m ! unat (pb_index x) = b" by (simp add: nth_append)
qed

lemma rcv_copy:
  assumes rep: "stream_rep p c m ps (Some x) W F Hs [b]"
    and n: "0 \<le> n" and room: "n \<le> pb_len x - pb_offset x"
  shows "memcpy_out c m (pb_buf x) (pb_index x) (pb_offset x) n =
      Some (take (nat n) (drop (nat (pb_offset x)) (sdata b)))
    \<and> length (take (nat n) (drop (nat (pb_offset x)) (sdata b))) = nat n
    \<and> stream_rep p c m ps (Some (x\<lparr>pb_offset := pb_offset x + n\<rparr>)) W F Hs [b]
    \<and> in_transit ps (Some x) W Hs [b] = take (nat n) (drop (nat (pb_offset x)) (sdata b))
        @ in_transit ps (Some (x\<lparr>pb_offset := pb_offset x + n\<rparr>)) W Hs [b]"
proof -
  note held = rcv_held [OF rep]
  have fit: "nat (pb_offset x) + nat n \<le> nat (pb_len x)" "nat (pb_len x) \<le> capacity m"
    using n room held(8-10) by linarith+
  have sum: "nat (pb_offset x + n) = nat (pb_offset x) + nat n" using n held(8) by simp
  have "drop (nat (pb_offset x)) (take (nat (pb_len x)) (sdata b)) =
      take (nat n) (drop (nat (pb_offset x)) (sdata b))
      @ drop (nat (pb_offset x) + nat n) (take (nat (pb_len x)) (sdata b))"
  proof -
    let ?t = "drop (nat (pb_offset x)) (take (nat (pb_len x)) (sdata b))"
    have "take (nat n) ?t = take (nat n) (drop (nat (pb_offset x)) (sdata b))"
      using fit by (simp add: drop_take min_def)
    then show ?thesis using append_take_drop_id [of "nat n" ?t] by (simp add: add.commute)
  qed
  moreover have "stream_rep p c m ps (Some (x\<lparr>pb_offset := pb_offset x + n\<rparr>)) W F Hs [b]"
    using rep n room by (auto simp: stream_rep_def holds_def split: option.splits)
  moreover have "min (capacity m - nat (pb_offset x)) (nat n) = nat n" using fit by linarith
  ultimately show ?thesis
    using held fit n sum by (simp add: memcpy_out_def in_transit_def)
qed

lemma rcv_put:
  assumes rep: "stream_rep p c m ps (Some x) W F Hs [b]"
    and flags: "\<not> flag_set flags VXTQ_FLAGS_ABORT"
  shows "\<exists>c' m' b'. vxtq_put_buf flags c m (pb_buf x) (pb_index x) dlen = Some (c', m', VXT_SUCCESS)
    \<and> stream_rep p c' m' ps None W (F @ [b']) Hs [] \<and> same_config (hdr m) (hdr m')"
proof -
  note held = rcv_held [OF rep]
  let ?b = "give dlen b"
  from vxtq_put_buf_c [OF held(1) _ _ held(4) held(5) flags, of dlen] held(2)
  obtain s h where put: "vxtq_put_buf flags c m (pb_buf x) (pb_index x) dlen =
      Some (c\<lparr>signals := s\<rparr>, (set_sbuf m (pb_index x) ?b)\<lparr>hdr := h\<rparr>, VXT_SUCCESS)"
    and ring: "ring_rep p (c\<lparr>signals := s\<rparr>) ((set_sbuf m (pb_index x) ?b)\<lparr>hdr := h\<rparr>) (W @ Hs) (F @ [?b])"
    and cfg: "same_config (hdr m) h"
    by auto
  have "holds p (c\<lparr>signals := s\<rparr>) ((set_sbuf m (pb_index x) ?b)\<lparr>hdr := h\<rparr>) k y \<longleftrightarrow> holds p c m k y" for k y
    using cfg by (intro holds_frame) (auto simp: same_config_def)
  then have "stream_rep p (c\<lparr>signals := s\<rparr>) ((set_sbuf m (pb_index x) ?b)\<lparr>hdr := h\<rparr>) ps None W (F @ [?b]) Hs []"
    using rep ring cfg held(2)
    by (auto simp: stream_rep_def capacity_def same_config_def split: option.splits)
  with put cfg show ?thesis by (intro exI conjI) (assumption | simp)+
qed


subsection \<open>The send loop\<close>

lemma msg_wait_flag: "VXT_MSG_WAIT = VXTQ_FLAGS_WAIT"
  by (simp add: VXT_MSG_WAIT_def VXTQ_FLAGS_WAIT_def)

definition plain_flags :: "u32 \<Rightarrow> bool" where
  "plain_flags flags \<longleftrightarrow> \<not> flag_set flags VXTQ_FLAGS_WAIT \<and> \<not> flag_set flags VXTQ_FLAGS_ABORT"

text \<open>The bytes \<open>[i, j)\<close> of the caller's buffer.\<close>

definition part :: "8 word list \<Rightarrow> int \<Rightarrow> int \<Rightarrow> 8 word list" where
  "part buffer i j = take (nat (j - i)) (drop (nat i) buffer)"

lemma part_append:
  assumes "0 \<le> i" "i \<le> j" "j \<le> k"
  shows "part buffer i j @ part buffer j k = part buffer i k"
proof -
  have "nat (k - i) = nat (j - i) + nat (k - j)" and "nat j = nat (j - i) + nat i"
    using assms by linarith+
  then show ?thesis by (simp add: part_def take_add)
qed

lemma part_read:
  assumes "0 \<le> i" "i \<le> j" "j \<le> int (length buffer)"
  shows "read_user buffer i (j - i) = Some (part buffer i j)"
    and "int (length (part buffer i j)) = j - i"
proof -
  have "nat i + nat (j - i) = nat j" using assms by linarith
  then show "read_user buffer i (j - i) = Some (part buffer i j)"
    using assms by (auto simp: read_user_def part_def)
  show "int (length (part buffer i j)) = j - i"
    using assms by (auto simp: part_def)
qed

lemma in_transit_send:
  "in_transit (Some x) pr W [b] Hr = in_transit None pr W [] Hr @ take (nat (pb_offset x)) (sdata b)"
  "in_transit None pr (W @ [b]) [] Hr = in_transit None pr W [] Hr @ payload b"
  by (simp_all add: in_transit_def)

text \<open>The fields that a send leaves alone.\<close>

definition sender_frame :: "vxt_msg_dev_instance \<Rightarrow> shm \<Rightarrow> vxt_msg_dev_instance \<Rightarrow> shm \<Rightarrow> bool" where
  "sender_frame d m d' m' \<longleftrightarrow> rcvq d' = rcvq d \<and> partial_rcv d' = partial_rcv d
     \<and> is_new d' = is_new d \<and> same_config (hdr m) (hdr m')"

text \<open>
  The outcome of a send from byte \<open>src\<close> of the caller's buffer on, with the bytes \<open>T\<close> in transit
  before: everything was accepted, or the ring is full and \<open>n\<close> bytes were.
\<close>

definition send_outcome ::
  "vxt_status \<Rightarrow> int \<Rightarrow> int \<Rightarrow> vxtq_sbuf_header list \<Rightarrow> bool" where
  "send_outcome st n len F \<longleftrightarrow> st = VXT_SUCCESS \<and> n = len \<or> st = VXT_BUF_SPACE \<and> n < len \<and> F = []"

definition send_ok ::
  "vxtq_queue \<Rightarrow> partial_buf option \<Rightarrow> vxtq_sbuf_header list \<Rightarrow> 8 word list \<Rightarrow> int \<Rightarrow>
     vxt_msg_dev_instance \<Rightarrow> shm \<Rightarrow> 8 word list \<Rightarrow> int \<Rightarrow>
     (vxt_msg_dev_instance \<times> shm \<times> int \<times> vxt_status) option \<Rightarrow> bool" where
  "send_ok c pr Hr buffer len d m T src res \<longleftrightarrow>
     (\<exists>d' m' n st W F Hs. res = Some (d', m', n, st)
       \<and> stream_rep (sendq d') c m' (partial_send d') pr W F Hs Hr \<and> sender_frame d m d' m'
       \<and> in_transit (partial_send d') pr W Hs Hr = T @ part buffer src n
       \<and> src \<le> n \<and> send_outcome st n len F)"

lemma send_okI:
  "res = Some (d', m', n, st) \<Longrightarrow> stream_rep (sendq d') c m' (partial_send d') pr W F Hs Hr \<Longrightarrow>
     sender_frame d m d' m' \<Longrightarrow> in_transit (partial_send d') pr W Hs Hr = T @ part buffer src n \<Longrightarrow>
     src \<le> n \<Longrightarrow> send_outcome st n len F \<Longrightarrow> send_ok c pr Hr buffer len d m T src res"
  unfolding send_ok_def by blast

lemma send_ok_later:
  assumes "send_ok c pr Hr buffer len d' m' T' src' res"
    and "sender_frame d m d' m'" and "T' = T @ part buffer src src'" and "0 \<le> src" and "src \<le> src'"
  shows "send_ok c pr Hr buffer len d m T src res"
proof -
  from assms(1) obtain d2 m2 n st W F Hs where ok: "res = Some (d2, m2, n, st)"
    "stream_rep (sendq d2) c m2 (partial_send d2) pr W F Hs Hr" "sender_frame d' m' d2 m2"
    "in_transit (partial_send d2) pr W Hs Hr = T' @ part buffer src' n" "src' \<le> n"
    "send_outcome st n len F"
    by (auto simp: send_ok_def)
  have "in_transit (partial_send d2) pr W Hs Hr = T @ part buffer src n"
    using ok(4,5) assms(3-5) part_append [of src src' n buffer] by simp
  moreover have "sender_frame d m d2 m2"
    using ok(3) assms(2) same_config_trans by (auto simp: sender_frame_def)
  ultimately show ?thesis
    using ok assms(5) by (intro send_okI) auto
qed

text \<open>The part of the loop after a full sub-buffer went out.\<close>

definition send_continue where
  "send_continue wait flags buffer len d q m src =
     (case vxtq_get_buf wait flags q m of None \<Rightarrow> None
      | Some (q', m', NotGot e) \<Rightarrow> Some (d\<lparr>sendq := q'\<rparr>, m', src,
          if flag_set flags VXT_MSG_WAIT \<or> e = VXT_SHUTTING_DOWN \<or> e = VXT_BLOCKED then e else VXT_BUF_SPACE)
      | Some (q', m', Got n a l) \<Rightarrow> vxt_msg_send_loop wait flags buffer len (d\<lparr>sendq := q'\<rparr>) m'
          \<lparr>pb_buf = a, pb_offset = 0, pb_len = sint l, pb_index = n\<rparr> src)"

lemma send_step:
  assumes rep: "stream_rep (sendq d) c m (Some x) pr W F [b] Hr" and idle: "partial_send d = None"
    and flags: "plain_flags flags" and allowed: "get_allowed flags (sendq d) m"
    and src: "0 \<le> src" "src \<le> len" "len \<le> int (length buffer)"
  obtains (finished) "send_ok c pr Hr buffer len d m (in_transit (Some x) pr W [b] Hr) src
      (vxt_msg_send_loop wait flags buffer len d m x src)"
    | (more) q m' W' src' where
      "stream_rep q c m' None pr W' F [] Hr" "same_config (hdr m) (hdr m')"
      "local_producer q = local_producer (sendq d)" "src \<le> src'" "src' < len"
      "in_transit None pr W' [] Hr = in_transit (Some x) pr W [b] Hr @ part buffer src src'"
      "vxt_msg_send_loop wait flags buffer len d m x src = send_continue wait flags buffer len d q m' src'"
proof -
  note held = send_held [OF rep]
  define n where "n = (if pb_len x - pb_offset x < len - src then pb_len x - pb_offset x else len - src)"
  have n: "0 \<le> n" "n \<le> pb_len x - pb_offset x" "src + n \<le> len"
    using held(9) src by (auto simp: n_def)
  have read: "read_user buffer src n = Some (part buffer src (src + n))"
    and lenp: "int (length (part buffer src (src + n))) = n"
    using part_read [of src "src + n" buffer] n src by auto
  obtain m1 b1 where copy: "memcpy_in (sendq d) m (pb_buf x) (pb_index x) (pb_offset x) (part buffer src (src + n)) = Some m1"
    and h1: "hdr m1 = hdr m"
    and rep1: "stream_rep (sendq d) c m1 (Some (x\<lparr>pb_offset := pb_offset x + n\<rparr>)) pr W F [b1] Hr"
    and b1: "take (nat (pb_offset x + n)) (sdata b1) = take (nat (pb_offset x)) (sdata b) @ part buffer src (src + n)"
    using send_copy [OF rep, of "part buffer src (src + n)"] lenp n(2) by auto
  have tr1: "in_transit (Some (x\<lparr>pb_offset := pb_offset x + n\<rparr>)) pr W [b1] Hr =
      in_transit (Some x) pr W [b] Hr @ part buffer src (src + n)"
    by (simp add: in_transit_send b1)
  have stop: "flag_set flags VXTQ_IGNORE_SHUTDOWN \<or> producer_stop (hdr m1) \<noteq> 1"
    using allowed h1 held(1) by (auto simp: get_allowed_def ring_rep_def)
  have noabort: "\<not> flag_set flags VXTQ_FLAGS_ABORT" using flags by (simp add: plain_flags_def)
  from send_put [OF rep1 noabort stop] h1 obtain p2 m2 b2 where
    put: "vxtq_put_buf flags (sendq d) m1 (pb_buf x) (pb_index x) (word_of_int (pb_offset x + n)) = Some (p2, m2, VXT_SUCCESS)"
    and rep2: "stream_rep p2 c m2 None pr (W @ [b2]) F [] Hr" and cfg: "same_config (hdr m) (hdr m2)"
    and b2: "payload b2 = take (nat (pb_offset x + n)) (sdata b1)"
    by (auto simp del: of_int_add)
  have tr2: "in_transit None pr (W @ [b2]) [] Hr = in_transit (Some x) pr W [b] Hr @ part buffer src (src + n)"
    by (simp add: in_transit_send b2 b1)
  have loop: "vxt_msg_send_loop wait flags buffer len d m x src =
     (if src + n = len then
        (if pb_offset x + n < pb_len x \<and> flag_set flags VXT_MSG_AUTO_STREAM then
           Some (d\<lparr>partial_send := Some (x\<lparr>pb_offset := pb_offset x + n\<rparr>)\<rparr>, m1, len, VXT_SUCCESS)
         else Some (d\<lparr>sendq := p2\<rparr>, m2, len, VXT_SUCCESS))
      else send_continue wait flags buffer len d p2 m2 (src + n))"
    by (subst vxt_msg_send_loop.simps) (simp add: n_def [symmetric] Let_def read copy put send_continue_def
        del: of_int_add)
  show thesis
  proof (cases "src + n = len")
    case True
    show thesis
    proof (rule finished, cases "pb_offset x + n < pb_len x \<and> flag_set flags VXT_MSG_AUTO_STREAM")
      case stream: True
      have "sender_frame d m (d\<lparr>partial_send := Some (x\<lparr>pb_offset := pb_offset x + n\<rparr>)\<rparr>) m1"
        using h1 by (simp add: sender_frame_def)
      with loop True stream rep1 tr1 src(2)
      show "send_ok c pr Hr buffer len d m (in_transit (Some x) pr W [b] Hr) src
          (vxt_msg_send_loop wait flags buffer len d m x src)"
        by (intro send_okI) (auto simp: send_outcome_def)
    next
      case False
      have "sender_frame d m (d\<lparr>sendq := p2\<rparr>) m2" using cfg by (simp add: sender_frame_def)
      with loop True False rep2 tr2 idle src(2)
      show "send_ok c pr Hr buffer len d m (in_transit (Some x) pr W [b] Hr) src
          (vxt_msg_send_loop wait flags buffer len d m x src)"
        by (intro send_okI [where d' = "d\<lparr>sendq := p2\<rparr>"]) (auto simp: send_outcome_def)
    qed
  next
    case False
    have "local_producer p2 = local_producer (sendq d)"
      using rep2 held(1) by (auto simp: stream_rep_def ring_rep_def)
    then show thesis
      using more [OF rep2 cfg _ _ _ tr2] loop False n by auto
  qed
qed

lemma get_allowed_frame:
  "same_config (hdr m) (hdr m') \<Longrightarrow> local_producer q' = local_producer q \<Longrightarrow>
     get_allowed flags q' m' = get_allowed flags q m"
  by (auto simp: get_allowed_def same_config_def)

lemma plain_no_wait: "plain_flags flags \<Longrightarrow> \<not> flag_set flags VXTQ_FLAGS_WAIT"
  by (simp add: plain_flags_def)

text \<open>Continuing on a full ring stops the send; on any other ring it goes on with the next sub-buffer.\<close>

lemma send_continue_full:
  assumes rep: "stream_rep q c m None pr W [] [] Hr" and flags: "plain_flags flags"
    and "get_allowed flags q m" and "partial_send d = None" and "src < len"
  shows "send_ok c pr Hr buffer len d m (in_transit None pr W [] Hr) src
    (send_continue wait flags buffer len d q m src)"
proof -
  from send_get_empty [OF rep plain_no_wait [OF flags] assms(3), of wait]
  obtain q2 m2 where get: "vxtq_get_buf wait flags q m = Some (q2, m2, NotGot VXT_RSRC)"
    and rep2: "stream_rep q2 c m2 None pr W [] [] Hr" and h2: "hdr m2 = hdr m" by blast
  have "sender_frame d m (d\<lparr>sendq := q2\<rparr>) m2" using h2 by (simp add: sender_frame_def)
  moreover have "send_continue wait flags buffer len d q m src = Some (d\<lparr>sendq := q2\<rparr>, m2, src, VXT_BUF_SPACE)"
    using get flags by (simp add: send_continue_def msg_wait_flag plain_flags_def)
  ultimately show ?thesis
    using rep2 assms(4,5)
    by (intro send_okI [where d' = "d\<lparr>sendq := q2\<rparr>"]) (auto simp: send_outcome_def part_def)
qed

lemma send_get_next:
  assumes rep: "stream_rep q c m None pr W (f # F) [] Hr" and flags: "plain_flags flags"
    and allowed: "get_allowed flags q m"
  obtains q' m' n a l x where "vxtq_get_buf wait flags q m = Some (q', m', Got n a l)"
    "x = \<lparr>pb_buf = a, pb_offset = 0, pb_len = sint l, pb_index = n\<rparr>"
    "stream_rep q' c m' (Some x) pr W F [f\<lparr>app_held := True\<rparr>] Hr" "hdr m' = hdr m"
    "get_allowed flags q' m'"
    "in_transit (Some x) pr W [f\<lparr>app_held := True\<rparr>] Hr = in_transit None pr W [] Hr"
proof -
  from send_get [OF rep plain_no_wait [OF flags] allowed, of wait]
  obtain q2 m2 n a l where get: "vxtq_get_buf wait flags q m = Some (q2, m2, Got n a l)"
    and rep2: "stream_rep q2 c m2 (Some \<lparr>pb_buf = a, pb_offset = 0, pb_len = sint l, pb_index = n\<rparr>) pr
      W F [f\<lparr>app_held := True\<rparr>] Hr" and h2: "hdr m2 = hdr m" by blast
  have "local_producer q2 = local_producer q"
    using rep2 rep by (simp add: stream_rep_def ring_rep_def)
  then have "get_allowed flags q2 m2" using allowed h2 get_allowed_frame [of m m2 q2 q] by simp
  with that [OF get refl rep2 h2] show thesis by (simp add: in_transit_send)
qed

lemma send_loop:
  assumes "stream_rep (sendq d) c m (Some x) pr W F [b] Hr" and "partial_send d = None"
    and "plain_flags flags" and "get_allowed flags (sendq d) m"
    and "0 \<le> src" "src \<le> len" "len \<le> int (length buffer)"
  shows "send_ok c pr Hr buffer len d m (in_transit (Some x) pr W [b] Hr) src
      (vxt_msg_send_loop wait flags buffer len d m x src)"
  using assms
proof (induction F arbitrary: d m x W b src)
  case Nil
  show ?case
  proof (cases rule: send_step [OF Nil, of wait, case_names finished more])
    case (more q m' W' src')
    then have "get_allowed flags q m'" using get_allowed_frame Nil.prems(4) by blast
    note ok = send_continue_full [OF more(1) Nil.prems(3) this Nil.prems(2) more(5)]
    have "sender_frame d m d m'" using more(2) by (simp add: sender_frame_def)
    from send_ok_later [OF ok this more(6) Nil.prems(5) more(4)] show ?thesis unfolding more(7) .
  qed
next
  case (Cons f F)
  show ?case
  proof (cases rule: send_step [OF Cons.prems, of wait, case_names finished more])
    case (more q m' W' src')
    then have "get_allowed flags q m'" using get_allowed_frame Cons.prems(4) by blast
    from send_get_next [OF more(1) Cons.prems(3) this, of wait]
    obtain q2 m2 n a l x2 where get: "vxtq_get_buf wait flags q m' = Some (q2, m2, Got n a l)"
        "x2 = \<lparr>pb_buf = a, pb_offset = 0, pb_len = sint l, pb_index = n\<rparr>"
      and go: "stream_rep q2 c m2 (Some x2) pr W' F [f\<lparr>app_held := True\<rparr>] Hr" "hdr m2 = hdr m'"
      "get_allowed flags q2 m2"
      "in_transit (Some x2) pr W' [f\<lparr>app_held := True\<rparr>] Hr = in_transit None pr W' [] Hr" .
    have ok: "send_ok c pr Hr buffer len (d\<lparr>sendq := q2\<rparr>) m2
        (in_transit (Some x2) pr W' [f\<lparr>app_held := True\<rparr>] Hr) src'
        (vxt_msg_send_loop wait flags buffer len (d\<lparr>sendq := q2\<rparr>) m2 x2 src')"
      using go Cons.prems more by (intro Cons.IH) auto
    have "sender_frame d m (d\<lparr>sendq := q2\<rparr>) m2"
      using more(2) go(2) by (simp add: sender_frame_def)
    from send_ok_later [OF ok this _ Cons.prems(5) more(4)] go(4) more(6) get show ?thesis
      unfolding more(7) send_continue_def by simp
  qed
qed


subsection \<open>The receive loop\<close>

lemma clear_wait:
  assumes "plain_flags flags"
  shows "flags AND NOT VXT_MSG_WAIT = flags"
proof (rule bit_word_eqI)
  fix n assume n: "n < LENGTH(32)"
  have "flags AND VXT_MSG_WAIT = 0"
    using assms by (simp add: plain_flags_def flag_set_def msg_wait_flag)
  then have "\<not> (bit flags n \<and> bit VXT_MSG_WAIT n)" by (metis bit_and_iff bit_0_eq bot_fun_def bot_bool_def)
  then show "bit (flags AND NOT VXT_MSG_WAIT) n = bit flags n"
    using n by (auto simp: bit_and_iff bit_not_iff)
qed

definition receiver_frame :: "vxt_msg_dev_instance \<Rightarrow> shm \<Rightarrow> vxt_msg_dev_instance \<Rightarrow> shm \<Rightarrow> bool" where
  "receiver_frame d m d' m' \<longleftrightarrow> sendq d' = sendq d \<and> partial_send d' = partial_send d
     \<and> is_new d' = is_new d \<and> same_config (hdr m) (hdr m')"

text \<open>
  The outcome of a receive that has already delivered \<open>got\<close>, with the bytes \<open>T\<close> in transit: the
  caller has all it asked for, or nothing complete is left to take.
\<close>

definition rcv_ok ::
  "vxtq_queue \<Rightarrow> partial_buf option \<Rightarrow> vxtq_sbuf_header list \<Rightarrow> int \<Rightarrow> vxt_msg_dev_instance \<Rightarrow> shm \<Rightarrow>
     8 word list \<Rightarrow> 8 word list \<Rightarrow>
     (vxt_msg_dev_instance \<times> shm \<times> 8 word list \<times> int \<times> vxt_status) option \<Rightarrow> bool" where
  "rcv_ok p ps Hs len d m got T res \<longleftrightarrow>
     (\<exists>d' m' data n st W F Hr. res = Some (d', m', data, n, st)
       \<and> stream_rep p (rcvq d') m' ps (partial_rcv d') W F Hs Hr \<and> receiver_frame d m d' m'
       \<and> got @ T = data @ in_transit ps (partial_rcv d') W Hs Hr \<and> n = int (length data)
       \<and> (st = VXT_SUCCESS \<and> n = len \<or> st = VXT_BUF_SPACE \<and> n < len \<and> W = [] \<and> Hr = []))"

lemma rcv_okI:
  "res = Some (d', m', data, n, st) \<Longrightarrow> stream_rep p (rcvq d') m' ps (partial_rcv d') W F Hs Hr \<Longrightarrow>
     receiver_frame d m d' m' \<Longrightarrow> got @ T = data @ in_transit ps (partial_rcv d') W Hs Hr \<Longrightarrow>
     n = int (length data) \<Longrightarrow>
     st = VXT_SUCCESS \<and> n = len \<or> st = VXT_BUF_SPACE \<and> n < len \<and> W = [] \<and> Hr = [] \<Longrightarrow>
     rcv_ok p ps Hs len d m got T res"
  unfolding rcv_ok_def by blast

lemma rcv_ok_later:
  assumes "rcv_ok p ps Hs len d' m' got' T' res" and "receiver_frame d m d' m'" and "got @ T = got' @ T'"
  shows "rcv_ok p ps Hs len d m got T res"
proof -
  from assms(1) obtain d2 m2 data n st W F Hr where ok: "res = Some (d2, m2, data, n, st)"
    "stream_rep p (rcvq d2) m2 ps (partial_rcv d2) W F Hs Hr" "receiver_frame d' m' d2 m2"
    "got' @ T' = data @ in_transit ps (partial_rcv d2) W Hs Hr" "n = int (length data)"
    "st = VXT_SUCCESS \<and> n = len \<or> st = VXT_BUF_SPACE \<and> n < len \<and> W = [] \<and> Hr = []"
    unfolding rcv_ok_def by blast
  moreover have "receiver_frame d m d2 m2"
    using ok(3) assms(2) same_config_trans by (auto simp: receiver_frame_def)
  ultimately show ?thesis using assms(3) by (intro rcv_okI) auto
qed

definition rcv_continue where
  "rcv_continue flags len d q m got =
     (case vxtq_get_buf id flags q m of None \<Rightarrow> None
      | Some (q', m', NotGot e) \<Rightarrow> Some (d\<lparr>rcvq := q'\<rparr>, m', got, int (length got),
          if flag_set flags VXT_MSG_WAIT \<or> e = VXT_SHUTTING_DOWN \<or> e = VXT_BLOCKED then e else VXT_BUF_SPACE)
      | Some (q', m', Got n a l) \<Rightarrow> vxt_msg_rcv_loop flags len (d\<lparr>rcvq := q'\<rparr>) m'
          \<lparr>pb_buf = a, pb_offset = 0, pb_len = sint l, pb_index = n\<rparr> got)"

lemma in_transit_rcv:
  "pb_offset x = pb_len x \<Longrightarrow> in_transit ps (Some x) W Hs [b] = in_transit ps None W Hs []"
  "in_transit ps None (b # W) Hs [] = payload b @ in_transit ps None W Hs []"
  by (simp_all add: in_transit_def)

lemma rcv_step:
  assumes rep: "stream_rep p (rcvq d) m ps (Some x) W F Hs [b]" and idle: "partial_rcv d = None"
    and flags: "plain_flags flags" and len: "int (length got) \<le> len"
  obtains (finished) "rcv_ok p ps Hs len d m got (in_transit ps (Some x) W Hs [b])
      (vxt_msg_rcv_loop flags len d m x got)"
    | (more) q m' F' got' where
      "stream_rep p q m' ps None W F' Hs []" "same_config (hdr m) (hdr m')"
      "local_producer q = local_producer (rcvq d)" "int (length got') < len"
      "got @ in_transit ps (Some x) W Hs [b] = got' @ in_transit ps None W Hs []"
      "vxt_msg_rcv_loop flags len d m x got = rcv_continue flags len d q m' got'"
proof -
  note held = rcv_held [OF rep]
  let ?left = "len - int (length got)"
  define n where "n = (if pb_len x - pb_offset x < ?left then pb_len x - pb_offset x else ?left)"
  have n: "0 \<le> n" "n \<le> pb_len x - pb_offset x" "n \<le> ?left" using held(9) len by (auto simp: n_def)
  let ?bytes = "take (nat n) (drop (nat (pb_offset x)) (sdata b))"
  let ?x = "x\<lparr>pb_offset := pb_offset x + n\<rparr>"
  from rcv_copy [OF rep n(1,2)]
  have copy: "memcpy_out (rcvq d) m (pb_buf x) (pb_index x) (pb_offset x) n = Some ?bytes"
    and lenb: "length ?bytes = nat n" and rep1: "stream_rep p (rcvq d) m ps (Some ?x) W F Hs [b]"
    and tr: "in_transit ps (Some x) W Hs [b] = ?bytes @ in_transit ps (Some ?x) W Hs [b]"
    by blast+
  have noabort: "\<not> flag_set flags VXTQ_FLAGS_ABORT" using flags by (simp add: plain_flags_def)
  obtain q m2 b2 where put: "vxtq_put_buf flags (rcvq d) m (pb_buf x) (pb_index x) (word_of_int len) =
      Some (q, m2, VXT_SUCCESS)"
    and rep2: "stream_rep p q m2 ps None W (F @ [b2]) Hs []" and cfg: "same_config (hdr m) (hdr m2)"
    using rcv_put [OF rep noabort] by blast
  have lg: "int (length (got @ ?bytes)) = int (length got) + n" using lenb n(1) by simp
  have loop: "vxt_msg_rcv_loop flags len d m x got =
      (if int (length got) + n = len then
         (if pb_offset x + n < pb_len x then
            Some (d\<lparr>partial_rcv := Some ?x\<rparr>, m, got @ ?bytes, len, VXT_SUCCESS)
          else Some (d\<lparr>rcvq := q\<rparr>, m2, got @ ?bytes, len, VXT_SUCCESS))
       else rcv_continue flags len d q m2 (got @ ?bytes))"
    by (subst vxt_msg_rcv_loop.simps)
      (simp only: n_def [symmetric] Let_def copy put option.case lg prod.case clear_wait [OF flags]
        rcv_continue_def not_True_eq_False if_False if_True simp_thms)
  have done_len: "pb_offset ?x = pb_len ?x" if "\<not> pb_offset x + n < pb_len x" using that n(2) by simp
  show thesis
  proof (cases "int (length got) + n = len")
    case True
    show thesis
    proof (rule finished, cases "pb_offset x + n < pb_len x")
      case part: True
      have "receiver_frame d m (d\<lparr>partial_rcv := Some ?x\<rparr>) m" by (simp add: receiver_frame_def)
      with loop True part rep1 tr lg
      show "rcv_ok p ps Hs len d m got (in_transit ps (Some x) W Hs [b]) (vxt_msg_rcv_loop flags len d m x got)"
        by (intro rcv_okI [where d' = "d\<lparr>partial_rcv := Some ?x\<rparr>"]) auto
    next
      case False
      have "receiver_frame d m (d\<lparr>rcvq := q\<rparr>) m2" using cfg by (simp add: receiver_frame_def)
      with loop True False rep2 tr lg idle in_transit_rcv(1) [OF done_len [OF False]]
      show "rcv_ok p ps Hs len d m got (in_transit ps (Some x) W Hs [b]) (vxt_msg_rcv_loop flags len d m x got)"
        by (intro rcv_okI [where d' = "d\<lparr>rcvq := q\<rparr>"]) auto
    qed
  next
    case False
    then have "n = pb_len x - pb_offset x" by (auto simp: n_def split: if_splits)
    then have "got @ in_transit ps (Some x) W Hs [b] = (got @ ?bytes) @ in_transit ps None W Hs []"
      using tr in_transit_rcv(1) [of ?x] by simp
    moreover have "local_producer q = local_producer (rcvq d)"
      using rep2 held(1) by (auto simp: stream_rep_def ring_rep_def)
    ultimately show thesis
      using more [OF rep2 cfg, of "got @ ?bytes"] loop False n lg by auto
  qed
qed


lemma rcv_continue_empty:
  assumes rep: "stream_rep p q m ps None [] F Hs []" and flags: "plain_flags flags"
    and "get_allowed flags q m" and "partial_rcv d = None" and "int (length got) < len"
  shows "rcv_ok p ps Hs len d m got (in_transit ps None [] Hs []) (rcv_continue flags len d q m got)"
proof -
  from rcv_get_empty [OF rep plain_no_wait [OF flags] assms(3), of id]
  obtain q2 m2 where get: "vxtq_get_buf id flags q m = Some (q2, m2, NotGot VXT_RSRC)"
    and rep2: "stream_rep p q2 m2 ps None [] F Hs []" and h2: "hdr m2 = hdr m" by blast
  have "receiver_frame d m (d\<lparr>rcvq := q2\<rparr>) m2" using h2 by (simp add: receiver_frame_def)
  moreover have "rcv_continue flags len d q m got =
      Some (d\<lparr>rcvq := q2\<rparr>, m2, got, int (length got), VXT_BUF_SPACE)"
    using get flags by (simp add: rcv_continue_def msg_wait_flag plain_flags_def)
  ultimately show ?thesis
    using rep2 assms(4,5) by (intro rcv_okI [where d' = "d\<lparr>rcvq := q2\<rparr>"]) auto
qed

lemma rcv_get_next:
  assumes rep: "stream_rep p q m ps None (w # W) F Hs []" and flags: "plain_flags flags"
    and allowed: "get_allowed flags q m"
  obtains q' m' n a l x where "vxtq_get_buf wait flags q m = Some (q', m', Got n a l)"
    "x = \<lparr>pb_buf = a, pb_offset = 0, pb_len = sint l, pb_index = n\<rparr>"
    "stream_rep p q' m' ps (Some x) W F Hs [w\<lparr>app_held := True\<rparr>]" "hdr m' = hdr m"
    "get_allowed flags q' m'"
    "in_transit ps (Some x) W Hs [w\<lparr>app_held := True\<rparr>] = in_transit ps None (w # W) Hs []"
proof -
  from rcv_get [OF rep plain_no_wait [OF flags] allowed, of wait]
  obtain q2 m2 n a l where get: "vxtq_get_buf wait flags q m = Some (q2, m2, Got n a l)"
    and rep2: "stream_rep p q2 m2 ps (Some \<lparr>pb_buf = a, pb_offset = 0, pb_len = sint l, pb_index = n\<rparr>)
      W F Hs [w\<lparr>app_held := True\<rparr>]" and h2: "hdr m2 = hdr m" and l: "sint l = int (unat (data_len w))"
    by blast
  have "local_producer q2 = local_producer q"
    using rep2 rep by (simp add: stream_rep_def ring_rep_def)
  then have "get_allowed flags q2 m2" using allowed h2 get_allowed_frame [of m m2 q2 q] by simp
  with that [OF get refl rep2 h2] l show thesis
    by (simp add: in_transit_def payload_def nat_int del: of_nat_unat)
qed

lemma rcv_loop:
  assumes "stream_rep p (rcvq d) m ps (Some x) W F Hs [b]" and "partial_rcv d = None"
    and "plain_flags flags" and "int (length got) \<le> len" and "get_allowed flags (rcvq d) m"
  shows "rcv_ok p ps Hs len d m got (in_transit ps (Some x) W Hs [b]) (vxt_msg_rcv_loop flags len d m x got)"
  using assms
proof (induction W arbitrary: d m x F b got)
  case Nil
  show ?case
  proof (cases rule: rcv_step [OF Nil(1-4), case_names finished more])
    case (more q m' F' got')
    then have "get_allowed flags q m'" using get_allowed_frame Nil.prems(5) by blast
    note ok = rcv_continue_empty [OF more(1) Nil.prems(3) this Nil.prems(2) more(4)]
    have "receiver_frame d m d m'" using more(2) by (simp add: receiver_frame_def)
    from rcv_ok_later [OF ok this more(5)] show ?thesis unfolding more(6) .
  qed
next
  case (Cons w W)
  show ?case
  proof (cases rule: rcv_step [OF Cons.prems(1-4), case_names finished more])
    case (more q m' F' got')
    then have "get_allowed flags q m'" using get_allowed_frame Cons.prems(5) by blast
    from rcv_get_next [OF more(1) Cons.prems(3) this, of id]
    obtain q2 m2 n a l x2 where get: "vxtq_get_buf id flags q m' = Some (q2, m2, Got n a l)"
        "x2 = \<lparr>pb_buf = a, pb_offset = 0, pb_len = sint l, pb_index = n\<rparr>"
      and go: "stream_rep p q2 m2 ps (Some x2) W F' Hs [w\<lparr>app_held := True\<rparr>]" "hdr m2 = hdr m'"
      "get_allowed flags q2 m2"
      "in_transit ps (Some x2) W Hs [w\<lparr>app_held := True\<rparr>] = in_transit ps None (w # W) Hs []" .
    have ok: "rcv_ok p ps Hs len (d\<lparr>rcvq := q2\<rparr>) m2 got' (in_transit ps (Some x2) W Hs [w\<lparr>app_held := True\<rparr>])
        (vxt_msg_rcv_loop flags len (d\<lparr>rcvq := q2\<rparr>) m2 x2 got')"
      using go Cons.prems more by (intro Cons.IH) auto
    have "receiver_frame d m (d\<lparr>rcvq := q2\<rparr>) m2"
      using more(2) go(2) by (simp add: receiver_frame_def)
    from rcv_ok_later [OF ok this, of got "in_transit ps (Some x) (w # W) Hs [b]"] go(4) more(5) get
    show ?thesis unfolding more(6) rcv_continue_def by simp
  qed
qed

subsection \<open>The stream between two devices\<close>

text \<open>
  \<open>stream a b m T\<close>: the send queue of \<open>a\<close> and the receive queue of \<open>b\<close> are the two ends of the ring
  in the region \<open>m\<close>, and the bytes \<open>T\<close> are in transit from \<open>a\<close> to \<open>b\<close>.
\<close>

definition stream :: "vxt_msg_dev_instance \<Rightarrow> vxt_msg_dev_instance \<Rightarrow> shm \<Rightarrow> 8 word list \<Rightarrow> bool" where
  "stream a b m T \<longleftrightarrow> (\<exists>W F Hs Hr. stream_rep (sendq a) (rcvq b) m (partial_send a) (partial_rcv b) W F Hs Hr
     \<and> T = in_transit (partial_send a) (partial_rcv b) W Hs Hr)"

definition cookie_ok :: "string \<Rightarrow> string \<Rightarrow> vxt_msg_dev_instance \<Rightarrow> bool" where
  "cookie_ok cookie later d \<longleftrightarrow> \<not> is_new d
     \<or> vxt_msg_cookie_check cookie later vxtmsg_queue_cookie vxtmsg_cookie_size = VXT_SUCCESS"

lemma send_resumed:
  assumes "partial_send a = Some x" and "cookie_ok cookie later a"
  shows "vxt_msg_send cookie later wait a m buffer len flags =
    vxt_msg_send_loop wait flags buffer len (a\<lparr>is_new := False, partial_send := None\<rparr>) m x 0"
  using assms by (auto simp: vxt_msg_send_def cookie_ok_def Let_def)

lemma send_fresh:
  assumes "partial_send a = None" and "cookie_ok cookie later a"
  shows "vxt_msg_send cookie later wait a m buffer len flags =
    (case vxtq_get_buf wait flags (sendq a) m of None \<Rightarrow> None
     | Some (q, m1, NotGot e) \<Rightarrow> Some (a\<lparr>is_new := False, sendq := q\<rparr>, m1, len, e)
     | Some (q, m1, Got n addr l) \<Rightarrow>
         vxt_msg_send_loop wait flags buffer len (a\<lparr>is_new := False, sendq := q\<rparr>) m1
           \<lparr>pb_buf = addr, pb_offset = 0, pb_len = sint l, pb_index = n\<rparr> 0)"
  using assms by (auto simp: vxt_msg_send_def cookie_ok_def Let_def split: option.split)

text \<open>The result of a send, seen at the level of the stream.\<close>

definition stream_send ::
  "vxt_msg_dev_instance \<Rightarrow> vxt_msg_dev_instance \<Rightarrow> shm \<Rightarrow> 8 word list \<Rightarrow> 8 word list \<Rightarrow> int \<Rightarrow>
     (vxt_msg_dev_instance \<times> shm \<times> int \<times> vxt_status) option \<Rightarrow> bool" where
  "stream_send a b m T buffer len res \<longleftrightarrow>
     (\<exists>a' m' n st. res = Some (a', m', n, st) \<and> rcvq a' = rcvq a \<and> partial_rcv a' = partial_rcv a
       \<and> same_config (hdr m) (hdr m')
       \<and> (if st = VXT_RSRC then n = len \<and> stream a' b m' T
          else 0 \<le> n \<and> n \<le> len \<and> stream a' b m' (T @ take (nat n) buffer)
            \<and> st = (if n = len then VXT_SUCCESS else VXT_BUF_SPACE)))"

lemma send_ok_stream:
  assumes "send_ok (rcvq b) (partial_rcv b) Hr buffer len d m1 T 0 res"
    and "rcvq d = rcvq a" "partial_rcv d = partial_rcv a" and "hdr m1 = hdr m"
  shows "stream_send a b m T buffer len res"
proof -
  from assms(1) obtain d' m' n e W' F' Hs' where r: "res = Some (d', m', n, e)"
    "stream_rep (sendq d') (rcvq b) m' (partial_send d') (partial_rcv b) W' F' Hs' Hr"
    "sender_frame d m1 d' m'"
    "in_transit (partial_send d') (partial_rcv b) W' Hs' Hr = T @ part buffer 0 n" "0 \<le> n"
    "send_outcome e n len F'"
    unfolding send_ok_def by blast
  have "stream d' b m' (T @ take (nat n) buffer)"
    unfolding stream_def using r(2,4) by (metis part_def diff_zero nat_0 drop_0)
  with r assms(2-4) show ?thesis
    unfolding stream_send_def
    by (intro exI [of _ d'] exI [of _ m'] exI [of _ n] exI [of _ e])
      (auto simp: send_outcome_def sender_frame_def)
qed

lemma send_appends:
  assumes st: "stream a b m T" and flags: "plain_flags flags" and allowed: "get_allowed flags (sendq a) m"
    and cookie: "cookie_ok cookie later a" and len: "0 \<le> len" "len \<le> int (length buffer)"
  shows "stream_send a b m T buffer len (vxt_msg_send cookie later wait a m buffer len flags)"
proof -
  obtain W F Hs Hr where rep: "stream_rep (sendq a) (rcvq b) m (partial_send a) (partial_rcv b) W F Hs Hr"
    and T: "T = in_transit (partial_send a) (partial_rcv b) W Hs Hr" using st by (auto simp: stream_def)
  show ?thesis
  proof (cases "partial_send a")
    case (Some x)
    then obtain hs where hs: "Hs = [hs]" using rep by (auto simp: stream_rep_def)
    have "send_ok (rcvq b) (partial_rcv b) Hr buffer len (a\<lparr>is_new := False, partial_send := None\<rparr>) m T 0
        (vxt_msg_send cookie later wait a m buffer len flags)"
      unfolding T Some hs send_resumed [OF Some cookie]
      using rep Some hs flags allowed len by (intro send_loop) auto
    then show ?thesis by (rule send_ok_stream) auto
  next
    case None
    then have Hs: "Hs = []" using rep by (auto simp: stream_rep_def)
    have rep0: "stream_rep (sendq a) (rcvq b) m None (partial_rcv b) W F [] Hr" using rep None Hs by simp
    show ?thesis
    proof (cases F)
      case Nil
      from send_get_empty [OF rep0 [unfolded Nil] plain_no_wait [OF flags] allowed, of wait]
      obtain q m' where get: "vxtq_get_buf wait flags (sendq a) m = Some (q, m', NotGot VXT_RSRC)"
        "stream_rep q (rcvq b) m' None (partial_rcv b) W [] [] Hr" "hdr m' = hdr m" by blast
      then have "stream (a\<lparr>is_new := False, sendq := q\<rparr>) b m' T"
        unfolding stream_def T Hs using None by auto
      with get show ?thesis unfolding stream_send_def send_fresh [OF None cookie] by simp
    next
      case (Cons f F1)
      from send_get_next [OF rep0 [unfolded Cons] flags allowed, of wait]
      obtain q m1 n addr l x where get: "vxtq_get_buf wait flags (sendq a) m = Some (q, m1, Got n addr l)"
          "x = \<lparr>pb_buf = addr, pb_offset = 0, pb_len = sint l, pb_index = n\<rparr>" and
        go: "stream_rep q (rcvq b) m1 (Some x) (partial_rcv b) W F1 [f\<lparr>app_held := True\<rparr>] Hr"
          "hdr m1 = hdr m" "get_allowed flags q m1"
          "in_transit (Some x) (partial_rcv b) W [f\<lparr>app_held := True\<rparr>] Hr = in_transit None (partial_rcv b) W [] Hr" .
      have "send_ok (rcvq b) (partial_rcv b) Hr buffer len (a\<lparr>is_new := False, sendq := q\<rparr>) m1
          (in_transit (Some x) (partial_rcv b) W [f\<lparr>app_held := True\<rparr>] Hr) 0
          (vxt_msg_send_loop wait flags buffer len (a\<lparr>is_new := False, sendq := q\<rparr>) m1 x 0)"
        using go None flags len by (intro send_loop) auto
      then have "send_ok (rcvq b) (partial_rcv b) Hr buffer len (a\<lparr>is_new := False, sendq := q\<rparr>) m1 T 0
          (vxt_msg_send cookie later wait a m buffer len flags)"
        unfolding send_fresh [OF None cookie] T None Hs go(4) using get by simp
      then show ?thesis by (rule send_ok_stream) (use go(2) in auto)
    qed
  qed
qed


lemma rcv_resumed:
  assumes "partial_rcv b = Some x" and "cookie_ok cookie later b"
  shows "vxt_msg_rcv cookie later wait b m len flags =
    vxt_msg_rcv_loop flags len (b\<lparr>is_new := False, partial_rcv := None\<rparr>) m x []"
  using assms by (auto simp: vxt_msg_rcv_def cookie_ok_def Let_def)

lemma rcv_fresh:
  assumes "partial_rcv b = None" and "cookie_ok cookie later b"
  shows "vxt_msg_rcv cookie later wait b m len flags =
    (case vxtq_get_buf wait flags (rcvq b) m of None \<Rightarrow> None
     | Some (q, m1, NotGot e) \<Rightarrow>
         Some (b\<lparr>is_new := False, rcvq := q\<rparr>, m1, [], 0, if e = VXT_RSRC then VXT_SUCCESS else e)
     | Some (q, m1, Got n addr l) \<Rightarrow>
         vxt_msg_rcv_loop flags len (b\<lparr>is_new := False, rcvq := q\<rparr>) m1
           \<lparr>pb_buf = addr, pb_offset = 0, pb_len = sint l, pb_index = n\<rparr> [])"
  using assms by (auto simp: vxt_msg_rcv_def cookie_ok_def Let_def split: option.split)

definition stream_rcv ::
  "vxt_msg_dev_instance \<Rightarrow> vxt_msg_dev_instance \<Rightarrow> shm \<Rightarrow> 8 word list \<Rightarrow> int \<Rightarrow>
     (vxt_msg_dev_instance \<times> shm \<times> 8 word list \<times> int \<times> vxt_status) option \<Rightarrow> bool" where
  "stream_rcv a b m T len res \<longleftrightarrow>
     (\<exists>b' m' data n st T'. res = Some (b', m', data, n, st) \<and> sendq b' = sendq b
       \<and> partial_send b' = partial_send b \<and> same_config (hdr m) (hdr m')
       \<and> stream a b' m' T' \<and> T = data @ T' \<and> n = int (length data) \<and> n \<le> len
       \<and> (n = len \<and> st = VXT_SUCCESS
          \<or> n < len \<and> (st = VXT_BUF_SPACE \<or> n = 0 \<and> st = VXT_SUCCESS)
            \<and> length T' \<le> capacity m' \<and> (partial_send a = None \<longrightarrow> T' = [])))"

text \<open>When the window has no complete sub-buffer left, only the sender's partial one is in transit.\<close>

lemma in_transit_rest:
  assumes "stream_rep p c m ps None [] F Hs []"
  shows "length (in_transit ps None [] Hs []) \<le> capacity m" and "ps = None \<longrightarrow> in_transit ps None [] Hs [] = []"
  using assms by (auto simp: stream_rep_def in_transit_def split: option.splits)

lemma rcv_ok_stream:
  assumes ok: "rcv_ok (sendq a) (partial_send a) Hs len d m1 [] T res" and len: "0 \<le> len"
    and d: "sendq d = sendq b" "partial_send d = partial_send b" and m1: "hdr m1 = hdr m"
  shows "stream_rcv a b m T len res"
proof -
  from ok obtain d' m' data n e W F Hr where r: "res = Some (d', m', data, n, e)"
    "stream_rep (sendq a) (rcvq d') m' (partial_send a) (partial_rcv d') W F Hs Hr"
    "receiver_frame d m1 d' m'"
    "T = data @ in_transit (partial_send a) (partial_rcv d') W Hs Hr" "n = int (length data)"
    "e = VXT_SUCCESS \<and> n = len \<or> e = VXT_BUF_SPACE \<and> n < len \<and> W = [] \<and> Hr = []"
    unfolding rcv_ok_def by auto
  let ?T = "in_transit (partial_send a) (partial_rcv d') W Hs Hr"
  have "stream a d' m' ?T" unfolding stream_def using r(2) by blast
  moreover have "length ?T \<le> capacity m' \<and> (partial_send a = None \<longrightarrow> ?T = [])" if "W = []" "Hr = []"
  proof -
    have none: "partial_rcv d' = None" using r(2) that by (cases "partial_rcv d'") (auto simp: stream_rep_def)
    then have "stream_rep (sendq a) (rcvq d') m' (partial_send a) None [] F Hs []" using r(2) that by simp
    from in_transit_rest [OF this] none that show ?thesis by simp
  qed
  ultimately show ?thesis
    using r d m1 len unfolding stream_rcv_def
    by (intro exI [of _ d'] exI [of _ m'] exI [of _ data] exI [of _ n] exI [of _ e] exI [of _ ?T])
      (auto simp: receiver_frame_def)
qed

lemma rcv_takes:
  assumes st: "stream a b m T" and flags: "plain_flags flags" and allowed: "get_allowed flags (rcvq b) m"
    and cookie: "cookie_ok cookie later b" and len: "0 \<le> len"
  shows "stream_rcv a b m T len (vxt_msg_rcv cookie later wait b m len flags)"
proof -
  obtain W F Hs Hr where rep: "stream_rep (sendq a) (rcvq b) m (partial_send a) (partial_rcv b) W F Hs Hr"
    and T: "T = in_transit (partial_send a) (partial_rcv b) W Hs Hr" using st by (auto simp: stream_def)
  show ?thesis
  proof (cases "partial_rcv b")
    case (Some x)
    then obtain hr where hr: "Hr = [hr]" using rep by (auto simp: stream_rep_def)
    have "rcv_ok (sendq a) (partial_send a) Hs len (b\<lparr>is_new := False, partial_rcv := None\<rparr>) m [] T
        (vxt_msg_rcv cookie later wait b m len flags)"
      unfolding T Some hr rcv_resumed [OF Some cookie]
      using rep Some hr flags allowed len by (intro rcv_loop) auto
    then show ?thesis by (rule rcv_ok_stream [OF _ len]) auto
  next
    case None
    then have Hr: "Hr = []" using rep by (auto simp: stream_rep_def)
    have rep0: "stream_rep (sendq a) (rcvq b) m (partial_send a) None W F Hs []" using rep None Hr by simp
    show ?thesis
    proof (cases W)
      case Nil
      from rcv_get_empty [OF rep0 [unfolded Nil] plain_no_wait [OF flags] allowed, of wait]
      obtain q m' where get: "vxtq_get_buf wait flags (rcvq b) m = Some (q, m', NotGot VXT_RSRC)"
        and rep': "stream_rep (sendq a) q m' (partial_send a) None [] F Hs []" and h: "hdr m' = hdr m" by blast
      then have "stream a (b\<lparr>is_new := False, rcvq := q\<rparr>) m' T"
        unfolding stream_def T Hr Nil using None by auto
      with get h in_transit_rest [OF rep'] len show ?thesis
        unfolding stream_rcv_def rcv_fresh [OF None cookie] by (auto simp: T Nil Hr None)
    next
      case (Cons w W1)
      from rcv_get_next [OF rep0 [unfolded Cons] flags allowed, of wait]
      obtain q m1 n addr l x where get: "vxtq_get_buf wait flags (rcvq b) m = Some (q, m1, Got n addr l)"
          "x = \<lparr>pb_buf = addr, pb_offset = 0, pb_len = sint l, pb_index = n\<rparr>" and
        go: "stream_rep (sendq a) q m1 (partial_send a) (Some x) W1 F Hs [w\<lparr>app_held := True\<rparr>]"
          "hdr m1 = hdr m" "get_allowed flags q m1"
          "in_transit (partial_send a) (Some x) W1 Hs [w\<lparr>app_held := True\<rparr>] =
             in_transit (partial_send a) None (w # W1) Hs []" .
      have "rcv_ok (sendq a) (partial_send a) Hs len (b\<lparr>is_new := False, rcvq := q\<rparr>) m1 []
          (in_transit (partial_send a) (Some x) W1 Hs [w\<lparr>app_held := True\<rparr>])
          (vxt_msg_rcv_loop flags len (b\<lparr>is_new := False, rcvq := q\<rparr>) m1 x [])"
        using go None flags len by (intro rcv_loop) auto
      then have "rcv_ok (sendq a) (partial_send a) Hs len (b\<lparr>is_new := False, rcvq := q\<rparr>) m1 [] T
          (vxt_msg_rcv cookie later wait b m len flags)"
        unfolding rcv_fresh [OF None cookie] T None Hr Cons go(4) using get by simp
      then show ?thesis by (rule rcv_ok_stream [OF _ len]) (use go(2) in auto)
    qed
  qed
qed


subsection \<open>Connected devices\<close>

definition msg_dev :: "vxtq_queue \<Rightarrow> vxtq_queue \<Rightarrow> vxt_msg_dev_instance" where
  "msg_dev sq rq = \<lparr>is_new = True, sendq = sq, rcvq = rq, partial_send = None, partial_rcv = None\<rparr>"

text \<open>
  A send queue set up by the two initialisation calls carries an empty stream, provided the
  sub-buffers hold fewer than \<open>2 ^ 16\<close> bytes.
\<close>

lemma chan_init_fields:
  assumes "chan_init raw base1 base2 len hdr_len cnt pfirst = Some s"
  shows "buf_size (hdr (mem s)) = word_of_int (int32 (len - hdr_len) sdiv cnt)"
    and "sbufs (mem s) = map (\<lambda>i. (raw i)\<lparr>owner := True, sbuf_abort := False, app_held := False\<rparr>) [0..<nat cnt]"
  using assms by (auto simp: chan_init_def vxtq_init_buf_def vxtq_init_headers_def Let_def
      vxtq_init_control_def split: if_splits sum.splits prod.splits)

lemma connect_stream:
  assumes init: "chan_init raw base1 base2 len hdr_len cnt pfirst = Some s"
    and cnt: "0 < cnt" "cnt < 2 ^ 31"
    and size: "unat (buf_size (hdr (mem s))) = k + sizeof_sbuf_header" "k < 2 ^ 16"
    and raw: "\<And>i. i < nat cnt \<Longrightarrow> length (sdata (raw i)) = k"
  shows "stream (msg_dev (prod s) q) (msg_dev q' (cons s)) (mem s) []"
proof -
  obtain F where ring: "ring_rep (prod s) (cons s) (mem s) [] F" and own: "\<forall>b \<in> set F. owner b"
    using chan_init_ring [OF init cnt] by blast
  have "set F = set (sbufs (mem s))" using ring by (metis append_Nil ring_rep_def set_rotate)
  then have "\<forall>b \<in> set F. \<not> sbuf_abort b \<and> length (sdata b) = k"
    using chan_init_fields(2) [OF init] raw by auto
  moreover have "capacity (mem s) = k" using size(1) by (simp add: capacity_def)
  ultimately have "stream_rep (prod s) (cons s) (mem s) None None [] F [] []"
    using ring own size by (auto simp: stream_rep_def)
  then show ?thesis
    unfolding stream_def msg_dev_def
    by (intro exI [of _ "[]"] exI [of _ F]) (simp add: in_transit_def)
qed

text \<open>
  \<open>exchange s0 s\<close>: from \<open>s0\<close> the two devices have reached \<open>s\<close> by sends of one and receives of the
  other in any order, each of which runs whole: calls without \<^verbatim>\<open>VXTQ_FLAGS_WAIT\<close> and \<^verbatim>\<open>VXTQ_FLAGS_ABORT\<close>, while the queue is
  neither stopped nor suspended. A state lists the sending and the receiving device, the region, the
  bytes the sends have accepted and the bytes the receives have delivered.
\<close>

type_synonym exchange_state =
  "vxt_msg_dev_instance \<times> vxt_msg_dev_instance \<times> shm \<times> 8 word list \<times> 8 word list"

inductive exchange :: "exchange_state \<Rightarrow> exchange_state \<Rightarrow> bool" for s0 where
  start: "exchange s0 s0"
| send: "exchange s0 (a, b, m, tx, rx) \<Longrightarrow> plain_flags flags \<Longrightarrow> get_allowed flags (sendq a) m \<Longrightarrow>
    cookie_ok cookie later a \<Longrightarrow> 0 \<le> len \<Longrightarrow> len \<le> int (length buffer) \<Longrightarrow>
    vxt_msg_send cookie later wait a m buffer len flags = Some (a', m', n, st) \<Longrightarrow>
    exchange s0 (a', b, m', if st = VXT_RSRC then tx else tx @ take (nat n) buffer, rx)"
| rcv: "exchange s0 (a, b, m, tx, rx) \<Longrightarrow> plain_flags flags \<Longrightarrow> get_allowed flags (rcvq b) m \<Longrightarrow>
    cookie_ok cookie later b \<Longrightarrow> 0 \<le> len \<Longrightarrow>
    vxt_msg_rcv cookie later wait b m len flags = Some (b', m', data, n, st) \<Longrightarrow>
    exchange s0 (a, b', m', tx, rx @ data)"

lemma exchange_keeps:
  assumes "exchange s0 s" and "case s0 of (a, b, m, tx, rx) \<Rightarrow> \<exists>T. stream a b m T \<and> tx = rx @ T"
  shows "case s of (a, b, m, tx, rx) \<Rightarrow> \<exists>T. stream a b m T \<and> tx = rx @ T"
  using assms
proof induction
  case start
  then show ?case .
next
  case (send a b m tx rx flags cookie later len buffer wait a' m' n st)
  then obtain T where T: "stream a b m T" "tx = rx @ T" by auto
  from send_appends [OF T(1) send(2-6), of wait] send(7) T(2) show ?case
    by (auto simp: stream_send_def split: if_splits)
next
  case (rcv a b m tx rx flags cookie later len wait b' m' data n st)
  then obtain T where T: "stream a b m T" "tx = rx @ T" by auto
  from rcv_takes [OF T(1) rcv(2-5), of wait] rcv(6) T(2) show ?case
    by (auto simp: stream_rcv_def)
qed

text \<open>
  C1: The send queue of a device whose sub-buffers hold less than 64 KB is a reliable byte stream:
  whatever the interleaving of whole sends and receives that neither wait nor abort, on a queue that is
  not stopped or suspended, with a valid cookie, with any lengths and with or without streaming, the
  bytes the receiver has been given are a prefix of the bytes the sender had accepted, and the rest is
  in transit. (The length of a larger sub-buffer would not fit in the 16 bits of \<^verbatim>\<open>data_len\<close>.)
\<close>

theorem byte_stream_fifo:
  assumes "chan_init raw base1 base2 len hdr_len cnt pfirst = Some s"
    and "0 < cnt" and "cnt < 2 ^ 31"
    and "unat (buf_size (hdr (mem s))) = k + sizeof_sbuf_header" and "k < 2 ^ 16"
    and "\<And>i. i < nat cnt \<Longrightarrow> length (sdata (raw i)) = k"
    and "exchange (msg_dev (prod s) q, msg_dev q' (cons s), mem s, [], []) (a, b, m, tx, rx)"
  shows "\<exists>T. stream a b m T \<and> tx = rx @ T"
  using exchange_keeps [OF assms(7)] connect_stream [OF assms(1-6)] by simp

text \<open>
  C16: A send that may not sleep, on a queue that is not stopped, always returns; it appends a
  prefix of the caller's bytes to the stream and reports its length: all of them, or as many
  as fitted (\<^verbatim>\<open>VXT_BUF_SPACE\<close>). When not even one sub-buffer is free it reports
  \<^verbatim>\<open>VXT_RSRC\<close> and appends nothing, but leaves the caller's length unchanged.
\<close>

theorem send_appends_prefix:
  assumes "stream a b m T" and "plain_flags flags" and "get_allowed flags (sendq a) m"
    and "cookie_ok cookie later a" and "0 \<le> len" and "len \<le> int (length buffer)"
  shows "\<exists>a' m' n st. vxt_msg_send cookie later wait a m buffer len flags = Some (a', m', n, st)
    \<and> (if st = VXT_RSRC then n = len \<and> stream a' b m' T
       else 0 \<le> n \<and> n \<le> len \<and> stream a' b m' (T @ take (nat n) buffer)
         \<and> st = (if n = len then VXT_SUCCESS else VXT_BUF_SPACE))"
  using send_appends [OF assms, of wait] unfolding stream_send_def by blast

text \<open>
  C17: A receive that may not sleep always returns; it takes the bytes it delivers from the
  front of the stream and reports their number. It delivers fewer than asked for only when
  nothing is left in transit but what the sender still keeps in a partly filled sub-buffer.
\<close>

theorem rcv_takes_prefix:
  assumes "stream a b m T" and "plain_flags flags" and "get_allowed flags (rcvq b) m"
    and "cookie_ok cookie later b" and "0 \<le> len"
  shows "\<exists>b' m' data n st T'. vxt_msg_rcv cookie later wait b m len flags = Some (b', m', data, n, st)
    \<and> stream a b' m' T' \<and> T = data @ T' \<and> n = int (length data) \<and> n \<le> len
    \<and> (n = len \<and> st = VXT_SUCCESS
       \<or> n < len \<and> (st = VXT_BUF_SPACE \<or> n = 0 \<and> st = VXT_SUCCESS)
         \<and> length T' \<le> capacity m' \<and> (partial_send a = None \<longrightarrow> T' = []))"
  using rcv_takes [OF assms, of wait] unfolding stream_rcv_def
  by (elim exE conjE, intro exI conjI) assumption+

subsection \<open>A short exchange\<close>

abbreviation sample_dev :: vxt_msg_dev_instance where
  "sample_dev \<equiv> msg_dev (prod sample_chan) (cons sample_chan)"

lemma sample_stream: "stream sample_dev sample_dev (mem sample_chan) []"
  by (rule connect_stream [OF sample_chan_init, where k = 12])
    (simp_all add: sample_eval)

lemma sample_cookie: "cookie_ok vxtmsg_queue_cookie [] sample_dev"
  by (simp add: cookie_ok_def vxt_msg_cookie_check_def)

definition sample_filled :: shm where
  "sample_filled = sample_held\<lparr>hdr := (hdr sample_held)\<lparr>send_cnt := 1\<rparr>,
     sbufs := (sbufs sample_held)[0 := (blank_sbuf 12)\<lparr>data_len := 3,
       sdata := [1, 2, 3, 0, 0, 0, 0, 0, 0, 0, 0, 0]\<rparr>]\<rparr>"

lemma replicate_12: "replicate 12 (x :: 'a) = [x, x, x, x, x, x, x, x, x, x, x, x]"
  by (simp add: numeral_eq_Suc)

lemma sample_send:
  "vxt_msg_send vxtmsg_queue_cookie [] id sample_dev (mem sample_chan) [1, 2, 3] 3 0 =
     Some (sample_dev\<lparr>is_new := False, sendq := (prod sample_chan)\<lparr>buf_index := 1\<rparr>\<rparr>, sample_filled, 3, VXT_SUCCESS)"
proof -
  have "partial_send sample_dev = None" by (simp add: msg_dev_def)
  note send = send_fresh [OF this sample_cookie]
  show ?thesis
    unfolding send
    by (simp add: msg_dev_def sample_get vxt_msg_send_loop.simps [of id])
      (simp add: Let_def read_user_def memcpy_in_def sample_eval sample_filled_def vxtq_put_buf_def
        vxtq_put_done_def vxtq_put_signal_def replicate_12 VXT_MSG_AUTO_STREAM_def)
qed


lemma sample_calm: "plain_flags 0" "get_allowed 0 (sendq sample_dev) (mem sample_chan)"
  by (simp_all add: plain_flags_def get_allowed_def flag_set_def msg_dev_def sample_chan_eq)

lemma sample_filled_stream:
  "stream (sample_dev\<lparr>is_new := False, sendq := (prod sample_chan)\<lparr>buf_index := 1\<rparr>\<rparr>) sample_dev
     sample_filled [1, 2, 3]"
  using send_appends [OF sample_stream sample_calm sample_cookie, of 3 "[1, 2, 3]" id]
  by (simp add: sample_send stream_send_def)

theorem send_appends_prefix_witness:
  "stream (sample_dev\<lparr>is_new := False, sendq := (prod sample_chan)\<lparr>buf_index := 1\<rparr>\<rparr>) sample_dev
     sample_filled [1, 2, 3]"
  using send_appends_prefix [OF sample_stream sample_calm sample_cookie, of 3 "[1, 2, 3]" id]
  by (simp add: sample_send)

theorem rcv_takes_prefix_witness:
  "\<exists>b' m' data n st T'. vxt_msg_rcv vxtmsg_queue_cookie [] id sample_dev sample_filled 2 0 = Some (b', m', data, n, st)
     \<and> [1, 2, 3] = data @ T' \<and> n = int (length data) \<and> (n = 2 \<or> T' = [])"
proof -
  let ?a = "sample_dev\<lparr>is_new := False, sendq := (prod sample_chan)\<lparr>buf_index := 1\<rparr>\<rparr>"
  have "plain_flags 0" "get_allowed 0 (rcvq sample_dev) sample_filled" "partial_send ?a = None"
    by (simp_all add: plain_flags_def get_allowed_def flag_set_def msg_dev_def sample_eval sample_filled_def)
  with rcv_takes_prefix [OF sample_filled_stream this(1,2) sample_cookie, of 2 id] show ?thesis by auto
qed

theorem byte_stream_fifo_witness:
  "\<exists>T. stream (sample_dev\<lparr>is_new := False, sendq := (prod sample_chan)\<lparr>buf_index := 1\<rparr>\<rparr>) sample_dev
     sample_filled T \<and> [1, 2, 3] = [] @ T"
proof -
  let ?s0 = "(sample_dev, sample_dev, mem sample_chan, [], [])"
  from exchange.send [where tx = "[]" and rx = "[]" and b = sample_dev, OF exchange.start sample_calm sample_cookie _ _ sample_send]
  have "exchange ?s0 (sample_dev\<lparr>is_new := False, sendq := (prod sample_chan)\<lparr>buf_index := 1\<rparr>\<rparr>, sample_dev,
      sample_filled, [1, 2, 3], [])"
    by simp
  moreover have "unat (buf_size (hdr (mem sample_chan))) = 12 + sizeof_sbuf_header"
    "length (sdata (blank_sbuf 12)) = 12"
    by (simp_all add: sample_eval)
  ultimately show ?thesis
    by (intro byte_stream_fifo [OF sample_chan_init, where k = 12]) auto
qed

subsection \<open>A blocked send\<close>

text \<open>
  C33: A send that finishes a partly filled sub-buffer while the consumer has stopped the queue
  returns \<^verbatim>\<open>VXT_BLOCKED\<close>, reports every byte as sent and drops its reference to the sub-buffer,
  which stays held by the sender and is never passed on.
\<close>

theorem blocked_send_strands_buffer:
  assumes rep: "stream_rep (sendq a) c m (Some x) pr W F [h] Hr" and "partial_send a = Some x"
    and "cookie_ok cookie later a" and "producer_stop (hdr m) = 1"
    and "\<not> flag_set flags VXTQ_IGNORE_SHUTDOWN" and "\<not> flag_set flags VXTQ_FLAGS_ABORT"
    and "\<not> flag_set flags VXT_MSG_AUTO_STREAM"
    and "0 \<le> len" and "len \<le> int (length buffer)" and "len \<le> pb_len x - pb_offset x"
  shows "\<exists>a' m'. vxt_msg_send cookie later wait a m buffer len flags = Some (a', m', len, VXT_BLOCKED)
    \<and> partial_send a' = None \<and> owner (sbufs m' ! unat (pb_index x)) \<and> app_held (sbufs m' ! unat (pb_index x))"
proof -
  note held = send_held [OF rep]
  let ?a = "a\<lparr>is_new := False, partial_send := None\<rparr>"
  have n: "(if pb_len x - pb_offset x < len - 0 then pb_len x - pb_offset x else len - 0) = len"
    using assms(10) by simp
  have read: "read_user buffer 0 len = Some (part buffer 0 len)" and lenp: "int (length (part buffer 0 len)) = len"
    using part_read [of 0 len buffer] assms(8,9) by auto
  obtain m1 b1 where copy: "memcpy_in (sendq a) m (pb_buf x) (pb_index x) (pb_offset x) (part buffer 0 len) = Some m1"
    and h1: "hdr m1 = hdr m"
    and rep1: "stream_rep (sendq a) c m1 (Some (x\<lparr>pb_offset := pb_offset x + len\<rparr>)) pr W F [b1] Hr"
    using send_copy [OF rep, of "part buffer 0 len"] lenp assms(10) by auto
  note held1 = send_held [OF rep1, simplified]
  have role: "local_producer (sendq a)" "length (sbufs m1) = unat (buf_cnt (hdr m1))"
    using held1(1) by (auto simp: ring_rep_def)
  have "may_put (sendq a) m1 (pb_buf x) (pb_index x)"
    using held1 role by (auto simp: may_put_def in_flight_def word_less_nat_alt)
  then have "vxtq_put_buf flags (sendq a) m1 (pb_buf x) (pb_index x) dlen = Some (sendq a, m1, VXT_BLOCKED)" for dlen
    using vxtq_put_buf_accepts [OF role(2)] role(1) assms(4-6) h1 by simp
  then have "vxt_msg_send cookie later wait a m buffer len flags = Some (?a, m1, len, VXT_BLOCKED)"
    unfolding send_resumed [OF assms(2,3)]
    by (subst vxt_msg_send_loop.simps) (simp only: n Let_def, simp add: read copy assms(7))
  moreover have "owner (sbufs m1 ! unat (pb_index x)) \<and> app_held (sbufs m1 ! unat (pb_index x))"
    using held1 by (auto simp: in_flight_def)
  ultimately show ?thesis by auto
qed


lemma sample_partial:
  "stream_rep ((prod sample_chan)\<lparr>buf_index := 1\<rparr>) (cons sample_chan)
     (sample_held\<lparr>hdr := (hdr sample_held)\<lparr>producer_stop := 1\<rparr>\<rparr>)
     (Some \<lparr>pb_buf = 4148, pb_offset = 3, pb_len = 12, pb_index = 0\<rparr>) None []
     (replicate 3 ((blank_sbuf 12)\<lparr>owner := True\<rparr>)) [(blank_sbuf 12)\<lparr>owner := True, app_held := True\<rparr>] []"
  by (simp add: stream_rep_def capacity_def holds_def ring_pos_def ring_rep_def in_flight_def
      is_free_def replicate_sample sample_eval)

theorem blocked_send_strands_buffer_witness:
  "\<exists>a' m'. vxt_msg_send vxtmsg_queue_cookie [] id
       (sample_dev\<lparr>sendq := (prod sample_chan)\<lparr>buf_index := 1\<rparr>,
          partial_send := Some \<lparr>pb_buf = 4148, pb_offset = 3, pb_len = 12, pb_index = 0\<rparr>\<rparr>)
       (sample_held\<lparr>hdr := (hdr sample_held)\<lparr>producer_stop := 1\<rparr>\<rparr>) [7, 8] 2 0 = Some (a', m', 2, VXT_BLOCKED)
     \<and> partial_send a' = None \<and> owner (sbufs m' ! 0) \<and> app_held (sbufs m' ! 0)"
proof -
  let ?x = "\<lparr>pb_buf = 4148, pb_offset = 3, pb_len = 12, pb_index = 0\<rparr>"
  let ?a = "sample_dev\<lparr>sendq := (prod sample_chan)\<lparr>buf_index := 1\<rparr>, partial_send := Some ?x\<rparr>"
  have "stream_rep (sendq ?a) (cons sample_chan) (sample_held\<lparr>hdr := (hdr sample_held)\<lparr>producer_stop := 1\<rparr>\<rparr>)
      (Some ?x) None [] (replicate 3 ((blank_sbuf 12)\<lparr>owner := True\<rparr>))
      [(blank_sbuf 12)\<lparr>owner := True, app_held := True\<rparr>] []"
    using sample_partial by simp
  moreover have "cookie_ok vxtmsg_queue_cookie [] ?a"
    by (simp add: cookie_ok_def vxt_msg_cookie_check_def)
  ultimately show ?thesis
    using blocked_send_strands_buffer [of ?a, where x = ?x and len = 2 and buffer = "[7, 8]" and flags = 0]
    by (fastforce simp: flag_set_def)
qed

end
