(* ===== verification/Vxt_Chains.thy ===== *)
theory Vxt_Chains
  imports Main
begin

text \<open>
  The intrusive circular lists of the authorization database. A hash entry is the head of a
  bucket or one of the two entries embedded in a record; the links are two functions. The
  operations are the statement sequences of \<^verbatim>\<open>vxt_db.c\<close> that link an entry behind a bucket
  head, unlink it and make it point at itself; the locale \<open>hash_chains\<close> is the contract the
  database relies on, and the link functions are shown to provide it.
\<close>

subsection \<open>Entries and links\<close>

datatype entry = Head nat | Cli nat | Srv nat

record links =
  nxt :: "entry \<Rightarrow> entry"
  prv :: "entry \<Rightarrow> entry"

definition link_self :: "entry \<Rightarrow> links \<Rightarrow> links" where
  "link_self n s = s\<lparr>nxt := (nxt s)(n := n), prv := (prv s)(n := n)\<rparr>"

definition link_first :: "entry \<Rightarrow> nat \<Rightarrow> links \<Rightarrow> links" where
  "link_first n b s =
     (let s1 = s\<lparr>nxt := (nxt s)(n := nxt s (Head b))\<rparr>;
          s2 = s1\<lparr>prv := (prv s1)(n := prv s1 (nxt s1 (Head b)))\<rparr>;
          s3 = s2\<lparr>prv := (prv s2)(nxt s2 (Head b) := n)\<rparr>
      in s3\<lparr>nxt := (nxt s3)(Head b := n)\<rparr>)"

definition unlink :: "entry \<Rightarrow> links \<Rightarrow> links" where
  "unlink n s =
     (let s1 = s\<lparr>prv := (prv s)(nxt s n := prv s n)\<rparr>
      in s1\<lparr>nxt := (nxt s1)(prv s1 n := nxt s1 n)\<rparr>)"

subsection \<open>Paths\<close>

fun path :: "('n \<Rightarrow> 'n) \<Rightarrow> 'n list \<Rightarrow> bool" where
  "path f (x # y # zs) \<longleftrightarrow> f x = y \<and> path f (y # zs)"
| "path f _ \<longleftrightarrow> True"

lemma path_Cons: "zs \<noteq> [] \<Longrightarrow> path f (x # zs) \<longleftrightarrow> f x = hd zs \<and> path f zs"
  by (cases zs) auto

lemma path_append:
  "xs \<noteq> [] \<Longrightarrow> ys \<noteq> [] \<Longrightarrow> path f (xs @ ys) \<longleftrightarrow> path f xs \<and> f (last xs) = hd ys \<and> path f ys"
  by (induction f xs rule: path.induct) (auto simp: path_Cons)

lemma path_upd: "u \<notin> set (butlast xs) \<Longrightarrow> path (f(u := v)) xs = path f xs"
  by (induction f xs rule: path.induct) auto

definition ring_at :: "links \<Rightarrow> entry \<Rightarrow> entry list \<Rightarrow> bool" where
  "ring_at s h xs \<longleftrightarrow> path (nxt s) (h # xs @ [h]) \<and> path (prv s) (h # rev xs @ [h]) \<and> distinct (h # xs)"

lemma ring_at_Nil: "ring_at s n [] \<longleftrightarrow> nxt s n = n \<and> prv s n = n"
  by (auto simp: ring_at_def)

lemma ring_at_nxt: "ring_at s h xs \<Longrightarrow> nxt s h = hd (xs @ [h])"
  by (simp add: ring_at_def path_Cons)

text \<open>The links of a ring whose entries are split in two.\<close>

lemma ring_at_split:
  "ring_at s h (us @ vs) \<longleftrightarrow>
     path (nxt s) (h # us) \<and> nxt s (last (h # us)) = hd (vs @ [h]) \<and> path (nxt s) (vs @ [h])
     \<and> path (prv s) (h # rev vs) \<and> prv s (hd (vs @ [h])) = last (h # us) \<and> path (prv s) (rev us @ [h])
     \<and> distinct (h # us @ vs)"
proof -
  have "path (nxt s) (h # (us @ vs) @ [h]) \<longleftrightarrow>
      path (nxt s) (h # us) \<and> nxt s (last (h # us)) = hd (vs @ [h]) \<and> path (nxt s) (vs @ [h])"
    using path_append [of "h # us" "vs @ [h]" "nxt s"] by simp
  moreover have "last (h # rev vs) = hd (vs @ [h])" "hd (rev us @ [h]) = last (h # us)"
    by (simp_all add: last_rev hd_append hd_rev)
  then have "path (prv s) (h # rev (us @ vs) @ [h]) \<longleftrightarrow>
      path (prv s) (h # rev vs) \<and> prv s (hd (vs @ [h])) = last (h # us) \<and> path (prv s) (rev us @ [h])"
    using path_append [of "h # rev vs" "rev us @ [h]" "prv s"] by simp
  ultimately show ?thesis unfolding ring_at_def by blast
qed

lemma ring_at_first_prv: "ring_at s h xs \<Longrightarrow> prv s (nxt s h) = h"
  using ring_at_split [of s h "[]" xs] by simp

lemma ring_at_frame:
  assumes "ring_at s h xs" and "\<And>n. n \<in> set (h # xs) \<Longrightarrow> nxt s' n = nxt s n \<and> prv s' n = prv s n"
  shows "ring_at s' h xs"
proof -
  have cong: "path f zs = path g zs" if "\<And>n. n \<in> set (butlast zs) \<Longrightarrow> f n = g n" for f g and zs :: "entry list"
    using that by (induction f zs rule: path.induct) auto
  have "path (nxt s') (h # xs @ [h]) = path (nxt s) (h # xs @ [h])"
    using assms(2) by (intro cong) (auto simp: butlast_append)
  moreover have "path (prv s') (h # rev xs @ [h]) = path (prv s) (h # rev xs @ [h])"
    using assms(2) by (intro cong) (auto simp: butlast_append)
  ultimately show ?thesis using assms(1) by (simp add: ring_at_def)
qed

lemma ring_at_neighbours:
  assumes "ring_at s h (us @ n # vs)"
  shows "nxt s n = hd (vs @ [h])" and "prv s n = last (h # us)"
  using assms ring_at_split [of s h us "n # vs"] by (auto simp: path_Cons)

lemma ring_at_link_first:
  assumes r: "ring_at s (Head b) xs" and n: "n \<notin> set (Head b # xs)"
  shows "ring_at (link_first n b s) (Head b) (n # xs)"
proof -
  let ?f = "nxt s (Head b)"
  have f: "?f = hd (xs @ [Head b])" using ring_at_nxt [OF r] .
  have s': "nxt (link_first n b s) = (nxt s)(n := ?f, Head b := n)"
      "prv (link_first n b s) = (prv s)(n := Head b, ?f := n)"
    using n ring_at_first_prv [OF r] by (auto simp: link_first_def Let_def)
  have d: "distinct (Head b # xs)" using r by (simp add: ring_at_def)
  have "path (nxt s) (xs @ [Head b])" "path (prv s) (Head b # rev xs)"
    using r ring_at_split [of s "Head b" "[]" xs] by auto
  moreover have "n \<notin> set (butlast (xs @ [Head b]))" "Head b \<notin> set (butlast (xs @ [Head b]))"
    "n \<notin> set (butlast (Head b # rev xs))"
    using n d by (auto simp: butlast_append dest: in_set_butlastD list.set_sel(2))
  moreover have "?f \<notin> set (butlast (Head b # rev xs))"
    using d f by (cases xs) (auto simp: butlast_append)
  ultimately have "path (nxt (link_first n b s)) (xs @ [Head b])" "path (prv (link_first n b s)) (Head b # rev xs)"
    unfolding s' by (simp_all add: path_upd del: butlast.simps butlast_snoc)
  moreover have "?f \<noteq> n" "Head b \<noteq> n" using f n by (cases xs, auto)
  ultimately show ?thesis
    using ring_at_split [of "link_first n b s" "Head b" "[n]" xs] d n f
    by (auto simp: s')
qed

lemma ring_at_unlink:
  assumes r: "ring_at s h (us @ n # vs)"
  shows "ring_at (unlink n s) h (us @ vs)"
proof -
  let ?p = "last (h # us)" and ?q = "hd (vs @ [h])"
  have d: "distinct (h # us @ n # vs)" using r by (simp add: ring_at_def)
  have "?q \<noteq> n" using d by (cases vs) auto
  then have s': "nxt (unlink n s) = (nxt s)(?p := ?q)" "prv (unlink n s) = (prv s)(?q := ?p)"
    using ring_at_neighbours [OF r] by (simp_all add: unlink_def Let_def)
  have "path (nxt s) (h # us)" "path (nxt s) (vs @ [h])" "path (prv s) (h # rev vs)" "path (prv s) (rev us @ [h])"
    using r ring_at_split [of s h us "n # vs"] ring_at_split [of s h "us @ [n]" vs]
      path_append [of "h # us" "[n]" "nxt s"] by auto
  moreover have "?p \<notin> set (butlast (h # us))" "?p \<notin> set (butlast (vs @ [h]))"
    "?q \<notin> set (butlast (h # rev vs))" "?q \<notin> set (butlast (rev us @ [h]))"
    using d by (cases us rule: rev_cases; cases vs; auto simp: butlast_append)+
  ultimately show ?thesis
    using ring_at_split [of "unlink n s" h us vs] d by (auto simp: s' path_upd)
qed


text \<open>Everything outside the neighbourhood of the entry keeps its links.\<close>

lemma link_first_frame:
  assumes "ring_at s (Head b) xs" and "m \<notin> set (Head b # n # xs)"
  shows "nxt (link_first n b s) m = nxt s m \<and> prv (link_first n b s) m = prv s m"
proof -
  have "nxt s (Head b) \<in> set (Head b # xs)" using ring_at_nxt [OF assms(1)] by (cases xs) auto
  with assms(2) show ?thesis by (auto simp: link_first_def Let_def)
qed

lemma unlink_frame:
  assumes "ring_at s h (us @ n # vs)" and "m \<notin> set (h # us @ vs)"
  shows "nxt (unlink n s) m = nxt s m \<and> prv (unlink n s) m = prv s m"
proof -
  have "hd (vs @ [h]) \<in> set (h # vs)" "last (h # us) \<in> set (h # us)" "hd (vs @ [h]) \<noteq> n"
    using assms(1) by (cases vs; auto simp: ring_at_def)+
  with assms(2) ring_at_neighbours [OF assms(1)] show ?thesis
    by (auto simp: unlink_def Let_def)
qed

subsection \<open>The chains of a hash table\<close>

text \<open>
  \<open>chains A s ch\<close>: the links \<open>s\<close> hold for every bucket \<open>b\<close> the entries \<open>ch b\<close> in a ring behind its
  head, no entry is in two chains, and the entries of \<open>A\<close> that are in no chain point at
  themselves.
\<close>

definition chains :: "entry set \<Rightarrow> links \<Rightarrow> (nat \<Rightarrow> entry list) \<Rightarrow> bool" where
  "chains A s ch \<longleftrightarrow> (\<forall>b. ring_at s (Head b) (ch b)) \<and> (\<forall>b. set (ch b) \<subseteq> A) \<and> (\<forall>b. Head b \<notin> A)
     \<and> (\<forall>b b' n. n \<in> set (ch b) \<longrightarrow> n \<in> set (ch b') \<longrightarrow> b = b')
     \<and> (\<forall>n \<in> A. (\<forall>b. n \<notin> set (ch b)) \<longrightarrow> nxt s n = n \<and> prv s n = n)"

lemma chainsI:
  assumes "\<And>b. ring_at s (Head b) (ch b)" and "\<And>b. set (ch b) \<subseteq> A" and "\<And>b. Head b \<notin> A"
    and "\<And>b b' n. n \<in> set (ch b) \<Longrightarrow> n \<in> set (ch b') \<Longrightarrow> b = b'"
    and "\<And>n. n \<in> A \<Longrightarrow> (\<And>b. n \<notin> set (ch b)) \<Longrightarrow> nxt s n = n \<and> prv s n = n"
  shows "chains A s ch"
  unfolding chains_def using assms by blast

lemma chains_ring: "chains A s ch \<Longrightarrow> ring_at s (Head b) (ch b)"
  and chains_sub: "chains A s ch \<Longrightarrow> n \<in> set (ch b) \<Longrightarrow> n \<in> A"
  and chains_head: "chains A s ch \<Longrightarrow> n \<in> A \<Longrightarrow> n \<noteq> Head b"
  and chains_disj: "chains A s ch \<Longrightarrow> n \<in> set (ch b) \<Longrightarrow> n \<in> set (ch b') \<Longrightarrow> b = b'"
  and chains_off: "chains A s ch \<Longrightarrow> n \<in> A \<Longrightarrow> (\<And>b. n \<notin> set (ch b)) \<Longrightarrow> nxt s n = n \<and> prv s n = n"
  unfolding chains_def by blast+

lemma chains_head_out: "chains A s ch \<Longrightarrow> Head b \<notin> set (ch b')"
  using chains_sub chains_head by blast

lemma chains_self:
  assumes c: "chains A s ch" and n: "n \<notin> A" and nh: "\<And>b. n \<noteq> Head b"
  shows "chains (insert n A) (link_self n s) ch"
proof (rule chainsI)
  have keep: "nxt (link_self n s) m = nxt s m \<and> prv (link_self n s) m = prv s m" if "m \<noteq> n" for m
    using that by (simp add: link_self_def)
  have out: "n \<notin> set (ch b)" for b using chains_sub [OF c] n by blast
  show "ring_at (link_self n s) (Head b) (ch b)" for b
  proof (rule ring_at_frame [OF chains_ring [OF c]], rule keep)
    fix m assume "m \<in> set (Head b # ch b)"
    then show "m \<noteq> n" using out [of b] nh [of b] by auto
  qed
  show "nxt (link_self n s) m = m \<and> prv (link_self n s) m = m" if "m \<in> insert n A" "\<And>b. m \<notin> set (ch b)" for m
    using that chains_off [OF c] keep by (cases "m = n") (auto simp: link_self_def)
  show "set (ch b) \<subseteq> insert n A" for b using chains_sub [OF c] by blast
  show "Head b \<notin> insert n A" for b using chains_head [OF c] nh by blast
qed (rule chains_disj [OF c])

lemma chains_link_first:
  assumes c: "chains A s ch" and n: "n \<in> A" and out: "\<And>b. n \<notin> set (ch b)"
  shows "chains A (link_first n b s) (ch(b := n # ch b))"
proof (rule chainsI)
  note r = chains_ring [OF c, of b]
  have nh: "n \<noteq> Head b'" for b' using chains_head [OF c n] .
  show "ring_at (link_first n b s) (Head b') ((ch(b := n # ch b)) b')" for b'
  proof (cases "b' = b")
    case True
    then show ?thesis using ring_at_link_first [OF r] nh out by auto
  next
    case False
    have "ring_at (link_first n b s) (Head b') (ch b')"
    proof (rule ring_at_frame [OF chains_ring [OF c]], rule link_first_frame [OF r])
      fix m assume "m \<in> set (Head b' # ch b')"
      then show "m \<notin> set (Head b # n # ch b)"
        using chains_head_out [OF c] chains_disj [OF c] out [of b'] nh [of b'] False by auto
    qed
    with False show ?thesis by simp
  qed
  show "nxt (link_first n b s) m = m \<and> prv (link_first n b s) m = m"
    if "m \<in> A" and off': "\<And>b'. m \<notin> set ((ch(b := n # ch b)) b')" for m
  proof -
    have off: "m \<notin> set (ch b')" for b' using off' [of b'] by (auto split: if_splits)
    then have "m \<notin> set (Head b # n # ch b)"
      using off' [of b] chains_head [OF c that(1)] by auto
    with link_first_frame [OF r this] chains_off [OF c that(1) off] show ?thesis by simp
  qed
  show "set ((ch(b := n # ch b)) b') \<subseteq> A" for b' using chains_sub [OF c] n by auto
  show "Head b' \<notin> A" for b' using chains_head [OF c] by blast
  show "b1 = b2" if "m \<in> set ((ch(b := n # ch b)) b1)" "m \<in> set ((ch(b := n # ch b)) b2)" for b1 b2 m
    using that out chains_disj [OF c] by (auto split: if_splits)
qed

text \<open>An unlinked entry leaves the live entries, unless it is made to point at itself again.\<close>

lemma chains_unlink:
  assumes c: "chains A s ch" and n: "n \<in> set (ch b)"
  shows "chains (A - {n}) (unlink n s) (ch(b := remove1 n (ch b)))"
proof -
  obtain us vs where ch: "ch b = us @ n # vs" using n by (meson split_list)
  note r = chains_ring [OF c, of b, unfolded ch]
  have d: "n \<notin> set us" "n \<notin> set vs" using r by (auto simp: ring_at_def)
  have rm: "remove1 n (ch b) = us @ vs" using d by (simp add: ch remove1_append)
  have out: "n \<notin> set (ch b')" if "b' \<noteq> b" for b' using chains_disj [OF c n] that by blast
  show ?thesis
    unfolding rm
  proof (rule chainsI)
    show "ring_at (unlink n s) (Head b') ((ch(b := us @ vs)) b')" for b'
    proof (cases "b' = b")
      case True
      then show ?thesis using ring_at_unlink [OF r] by simp
    next
      case False
      have "ring_at (unlink n s) (Head b') (ch b')"
      proof (rule ring_at_frame [OF chains_ring [OF c]], rule unlink_frame [OF r])
        fix m assume "m \<in> set (Head b' # ch b')"
        then have "m \<notin> set (Head b # ch b)"
          using chains_head_out [OF c] chains_disj [OF c] False by auto
        then show "m \<notin> set (Head b # us @ vs)" using ch by auto
      qed
      with False show ?thesis by simp
    qed
    show "nxt (unlink n s) m = m \<and> prv (unlink n s) m = m"
      if "m \<in> A - {n}" and off': "\<And>b'. m \<notin> set ((ch(b := us @ vs)) b')" for m
    proof -
      have off: "m \<notin> set (ch b')" for b' using that(1) off' [of b'] ch by (auto split: if_splits)
      have "m \<noteq> Head b" using chains_head [OF c] that(1) by blast
      then have "m \<notin> set (Head b # us @ vs)" using off [of b] ch by auto
      with unlink_frame [OF r this] chains_off [OF c _ off] that(1) show ?thesis by simp
    qed
    have "set (us @ vs) \<subseteq> A" using chains_sub [OF c, of _ b] ch by auto
    then show "set ((ch(b := us @ vs)) b') \<subseteq> A - {n}" for b'
      using chains_sub [OF c] d out [of b'] by (auto split: if_splits)
    show "Head b' \<notin> A - {n}" for b' using chains_head [OF c] by blast
    show "b1 = b2" if "m \<in> set ((ch(b := us @ vs)) b1)" "m \<in> set ((ch(b := us @ vs)) b2)" for b1 b2 m
      using that chains_disj [OF c, of m] ch by (auto split: if_splits)
  qed
qed

lemma unlink_noop:
  assumes "chains A s ch" and "n \<in> A" and "\<And>b. n \<notin> set (ch b)"
  shows "unlink n s = s"
proof -
  have "nxt s n = n" "prv s n = n" using assms by (auto simp: chains_def)
  then show ?thesis by (simp add: unlink_def Let_def fun_upd_idem)
qed


subsection \<open>The contract of the chains\<close>

locale hash_chains =
  fixes holds_chains :: "'n set \<Rightarrow> 's \<Rightarrow> (nat \<Rightarrow> 'n list) \<Rightarrow> bool"
    and hd_of :: "nat \<Rightarrow> 'n" and succ :: "'s \<Rightarrow> 'n \<Rightarrow> 'n"
    and self :: "'n \<Rightarrow> 's \<Rightarrow> 's" and push :: "'n \<Rightarrow> nat \<Rightarrow> 's \<Rightarrow> 's" and pull :: "'n \<Rightarrow> 's \<Rightarrow> 's"
  assumes fresh: "holds_chains A s ch \<Longrightarrow> n \<notin> A \<Longrightarrow> (\<And>b. n \<noteq> hd_of b) \<Longrightarrow>
      holds_chains (insert n A) (self n s) ch"
    and pushed: "holds_chains A s ch \<Longrightarrow> n \<in> A \<Longrightarrow> (\<And>b. n \<notin> set (ch b)) \<Longrightarrow>
      holds_chains A (push n b s) (ch(b := n # ch b))"
    and pulled: "holds_chains A s ch \<Longrightarrow> n \<in> set (ch b) \<Longrightarrow>
      holds_chains (A - {n}) (pull n s) (ch(b := remove1 n (ch b)))"
    and pull_noop: "holds_chains A s ch \<Longrightarrow> n \<in> A \<Longrightarrow> (\<And>b. n \<notin> set (ch b)) \<Longrightarrow> pull n s = s"
    and live: "holds_chains A s ch \<Longrightarrow> n \<in> set (ch b) \<Longrightarrow> n \<in> A"
    and live_no_head: "holds_chains A s ch \<Longrightarrow> n \<in> A \<Longrightarrow> n \<noteq> hd_of b"
    and one_chain: "holds_chains A s ch \<Longrightarrow> n \<in> set (ch b) \<Longrightarrow> n \<in> set (ch b') \<Longrightarrow> b = b'"
    and off_chain: "holds_chains A s ch \<Longrightarrow> n \<in> A \<Longrightarrow> succ s n = n \<longleftrightarrow> (\<forall>b. n \<notin> set (ch b))"
    and walk_first: "holds_chains A s ch \<Longrightarrow> succ s (hd_of b) = hd (ch b @ [hd_of b])"
    and walk_next: "holds_chains A s ch \<Longrightarrow> ch b = us @ n # vs \<Longrightarrow> succ s n = hd (vs @ [hd_of b])"
    and distinct_chain: "holds_chains A s ch \<Longrightarrow> distinct (ch b)"
    and shrink: "holds_chains A s ch \<Longrightarrow> B \<subseteq> A \<Longrightarrow> (\<And>b. set (ch b) \<subseteq> B) \<Longrightarrow> holds_chains B s ch"
begin

text \<open>Unlinking an entry wherever it is: in one chain, or in none.\<close>

lemma detached:
  assumes "holds_chains A s ch" and "n \<in> A"
  shows "holds_chains (A - {n}) (pull n s) (\<lambda>b. remove1 n (ch b))"
proof (cases "\<exists>b. n \<in> set (ch b)")
  case True
  then obtain b where b: "n \<in> set (ch b)" by blast
  then have "n \<notin> set (ch b')" if "b' \<noteq> b" for b' using one_chain [OF assms(1) b] that by blast
  then have "(\<lambda>b. remove1 n (ch b)) = ch(b := remove1 n (ch b))"
    by (auto simp: remove1_idem)
  with pulled [OF assms(1) b] show ?thesis by simp
next
  case False
  then have "set (ch b) \<subseteq> A - {n}" for b using live [OF assms(1)] by blast
  from shrink [OF assms(1) Diff_subset this] pull_noop [OF assms] False show ?thesis
    by (simp add: remove1_idem)
qed

lemma reset:
  assumes "holds_chains A s ch" and "n \<in> A"
  shows "holds_chains A (self n (pull n s)) (\<lambda>b. remove1 n (ch b))"
  using fresh [OF detached [OF assms], of n] live_no_head [OF assms] assms(2)
  by (simp add: insert_absorb)

end

lemma chains_next_self:
  assumes c: "chains A s ch" and n: "n \<in> A"
  shows "nxt s n = n \<longleftrightarrow> (\<forall>b. n \<notin> set (ch b))"
proof
  assume eq: "nxt s n = n"
  show "\<forall>b. n \<notin> set (ch b)"
  proof (intro allI notI)
    fix b assume "n \<in> set (ch b)"
    then obtain us vs where ch: "ch b = us @ n # vs" by (meson split_list)
    note r = chains_ring [OF c, of b, unfolded ch]
    have "n \<noteq> Head b" using chains_head [OF c n] .
    moreover have "hd (vs @ [Head b]) = n" using ring_at_neighbours(1) [OF r] eq by simp
    ultimately show False using r by (cases vs) (auto simp: ring_at_def)
  qed
next
  assume "\<forall>b. n \<notin> set (ch b)"
  with chains_off [OF c n] show "nxt s n = n" by blast
qed

lemma chains_shrink:
  "chains A s ch \<Longrightarrow> B \<subseteq> A \<Longrightarrow> (\<And>b. set (ch b) \<subseteq> B) \<Longrightarrow> chains B s ch"
  unfolding chains_def by blast

interpretation db_chains: hash_chains chains Head nxt link_self link_first unlink
proof unfold_locales
  fix A s ch and b :: nat and us n vs
  assume c: "chains A s ch"
  show "nxt s (Head b) = hd (ch b @ [Head b])" using ring_at_nxt [OF chains_ring [OF c]] .
  show "distinct (ch b)" using chains_ring [OF c, of b] by (simp add: ring_at_def)
  show "nxt s n = hd (vs @ [Head b])" if "ch b = us @ n # vs"
    using ring_at_neighbours(1) [OF chains_ring [OF c, of b, unfolded that]] .
qed (simp_all add: chains_self chains_link_first chains_unlink unlink_noop chains_sub chains_head
    chains_disj chains_next_self chains_shrink)

end
