(* ===== verification/Vxt_Db.thy ===== *)
theory Vxt_Db
  imports Vxt_Prelude Vxt_Chains "HOL-Library.Monad_Syntax"
begin

text \<open>
  The authorization database of \<^verbatim>\<open>kernel/vxtdb/common/vxt_db.c\<close>: records of authorized
  client and server pairs with their devices, hashed by endpoint in circular lists, and the
  file that mirrors them. Heap records are numbered; the memory and the file system are the
  record \<open>kernel\<close>, in which lists of outcomes say which allocations fail and how many bytes a
  write transfers (an empty list stands for success). An operation that runs for ever or
  dereferences memory it does not own has the value \<open>None\<close>. C strings are lists of
  characters without the terminator.
\<close>

subsection \<open>Strings and little endian numbers\<close>

text \<open>\<^verbatim>\<open>!strncmp(a, b, n)\<close> on terminated strings.\<close>

definition strn_eq :: "nat \<Rightarrow> string \<Rightarrow> string \<Rightarrow> bool" where
  "strn_eq n a b \<longleftrightarrow> take n a = take n b"

definition NUL :: char where "NUL = CHR 0x00"

fun le_bytes :: "nat \<Rightarrow> nat \<Rightarrow> char list" where
  "le_bytes 0 v = []"
| "le_bytes (Suc n) v = char_of (v mod 256) # le_bytes n (v div 256)"

fun le_value :: "char list \<Rightarrow> nat" where
  "le_value [] = 0"
| "le_value (c # cs) = of_char c + 256 * le_value cs"

definition c_field :: "nat \<Rightarrow> string \<Rightarrow> char list" where
  "c_field n s = take n s @ replicate (n - length s) NUL"

definition c_string :: "char list \<Rightarrow> string" where
  "c_string bs = takeWhile (\<lambda>c. c \<noteq> NUL) bs"

subsection \<open>Constants\<close>

definition VXT_HASH_TABLE_SIZE :: nat where "VXT_HASH_TABLE_SIZE = 109"
definition VXT_DB_INSERT_CLIENT :: u32 where "VXT_DB_INSERT_CLIENT = 0x1"
definition VXT_DB_INSERT_SERVER :: u32 where "VXT_DB_INSERT_SERVER = 0x2"
definition VXT_DB_INSERT_FILE :: u32 where "VXT_DB_INSERT_FILE = 0x1000000"
definition VXT_DEV_DIRECT_CONNECT :: u32 where "VXT_DEV_DIRECT_CONNECT = 0x1"
definition VXTDB_DOM0_ENDPOINT :: string where
  "VXTDB_DOM0_ENDPOINT = ''Default Local Domain 0 Connection''"
definition VXT_BANNER :: string where "VXT_BANNER = ''VxT Local Authorization File, version 1.0''"
definition VXT_DB_NAME_MAX :: nat where "VXT_DB_NAME_MAX = 256"
definition VXT_DB_VERSION :: nat where "VXT_DB_VERSION = 0x10000"

subsection \<open>File records\<close>

record vxt_db_file_rec =
  fr_valid :: bool
  fr_direct :: bool
  fr_client :: string
  fr_server :: string
  fr_dev_name :: string
  fr_class_name_length :: u64
  fr_label :: u64

definition file_rec_size :: nat where "file_rec_size = 168"
definition header_size :: nat where "header_size = 264"

text \<open>
  The layout of the structure in memory and in the file: the flag bits, the three names in
  arrays of 40, 40 and 64 bytes, and two 64 bit numbers.
\<close>

definition rec_image :: "vxt_db_file_rec \<Rightarrow> char list" where
  "rec_image r = le_bytes 8 (of_bool (fr_valid r) + 2 * of_bool (fr_direct r))
     @ c_field 40 (fr_client r) @ c_field 40 (fr_server r) @ c_field MAX_VXT_UNAME (fr_dev_name r)
     @ le_bytes 8 (unat (fr_class_name_length r)) @ le_bytes 8 (unat (fr_label r))"

definition image_rec :: "char list \<Rightarrow> vxt_db_file_rec" where
  "image_rec bs =
     \<lparr>fr_valid = odd (le_value (take 8 bs)), fr_direct = odd (le_value (take 8 bs) div 2),
      fr_client = c_string (take 40 (drop 8 bs)), fr_server = c_string (take 40 (drop 48 bs)),
      fr_dev_name = c_string (take 64 (drop 88 bs)),
      fr_class_name_length = word_of_nat (le_value (take 8 (drop 152 bs))),
      fr_label = word_of_nat (le_value (take 8 (drop 160 bs)))\<rparr>"

text \<open>The extended version in the header is never set; its four bytes are the argument.\<close>

definition header_image :: "char list \<Rightarrow> char list" where
  "header_image ext = c_field VXT_DB_NAME_MAX VXT_BANNER @ ext @ le_bytes 4 VXT_DB_VERSION"

subsection \<open>The kernel below the database\<close>

text \<open>
  \<open>mallocs\<close> and \<open>writes\<close> are the outcomes of the coming allocations and writes; \<open>kernel_ds\<close> says
  whether the caller has widened its address limit, without which the file system refuses
  the kernel's buffers; \<open>stale\<close> is what an uninitialised record on the stack holds.
\<close>

record kernel =
  dfile :: "char list"
  file_open :: bool
  file_linked :: bool
  mallocs :: "bool list"
  writes :: "int list"
  kernel_ds :: bool
  stale :: "char list"

definition vxt_kmalloc :: "'a kernel_scheme \<Rightarrow> bool \<times> 'a kernel_scheme" where
  "vxt_kmalloc k = (case mallocs k of [] \<Rightarrow> (True, k) | b # bs \<Rightarrow> (b, k\<lparr>mallocs := bs\<rparr>))"

definition file_put :: "char list \<Rightarrow> nat \<Rightarrow> char list \<Rightarrow> char list" where
  "file_put f off bs =
     (if bs = [] then f
      else take off (f @ replicate (off - length f) NUL) @ bs @ drop (off + length bs) f)"

text \<open>The count or the negative error number, and the position after the call.\<close>

definition vxt_file_write ::
    "'a kernel_scheme \<Rightarrow> char list \<Rightarrow> nat \<Rightarrow> nat \<Rightarrow> int \<times> nat \<times> 'a kernel_scheme" where
  "vxt_file_write k buf n pos =
     (if \<not> kernel_ds k then (- EFAULT, pos, k)
      else case writes k of
        [] \<Rightarrow> (int n, pos + n, k\<lparr>dfile := file_put (dfile k) pos (take n buf)\<rparr>)
      | w # ws \<Rightarrow>
          (if w < 0 then (w, pos, k\<lparr>writes := ws\<rparr>)
           else let c = min (nat w) n in
             (int c, pos + c, k\<lparr>writes := ws, dfile := file_put (dfile k) pos (take c buf)\<rparr>)))"

definition vxt_file_read :: "'a kernel_scheme \<Rightarrow> char list \<Rightarrow> nat \<Rightarrow> nat \<Rightarrow> int \<times> char list" where
  "vxt_file_read k buf n pos =
     (if \<not> kernel_ds k then (- EFAULT, buf)
      else let bs = take n (drop pos (dfile k)) in (int (length bs), bs @ drop (length bs) buf))"

subsection \<open>Records in memory\<close>

record vxt_dev_rec =
  file_offset :: nat
  dev_name :: string
  class_name_length :: u64
  label :: u64

record vxt_db_rec =
  valid :: bool
  direct :: bool
  client :: string
  server :: string
  devices :: "vxt_dev_rec list"
  device_count :: u32

text \<open>
  The hash table and the two hash entries of every record are nodes of \<open>hash_table\<close>; \<open>db_recs\<close>
  is the heap of records, \<open>next_rec\<close> an address no record has used.
\<close>

record vxt_auth_database = kernel +
  free_file_rec_list :: "nat list"
  database_end :: nat
  db_file_name :: string
  hash_table :: links
  db_recs :: "nat \<rightharpoonup> vxt_db_rec"
  next_rec :: nat

fun parent :: "entry \<Rightarrow> nat option" where
  "parent (Head b) = None"
| "parent (Cli i) = Some i"
| "parent (Srv i) = Some i"

definition rec_at :: "vxt_auth_database \<Rightarrow> entry \<Rightarrow> vxt_db_rec option" where
  "rec_at db e = do { i \<leftarrow> parent e; db_recs db i }"

definition set_rec :: "nat \<Rightarrow> vxt_db_rec \<Rightarrow> vxt_auth_database \<Rightarrow> vxt_auth_database" where
  "set_rec i r db = db\<lparr>db_recs := (db_recs db)(i \<mapsto> r)\<rparr>"

definition free_rec :: "nat \<Rightarrow> vxt_auth_database \<Rightarrow> vxt_auth_database" where
  "free_rec i db = db\<lparr>db_recs := (db_recs db)(i := None)\<rparr>"

definition on_table :: "(links \<Rightarrow> links) \<Rightarrow> vxt_auth_database \<Rightarrow> vxt_auth_database" where
  "on_table f db = db\<lparr>hash_table := f (hash_table db)\<rparr>"

subsection \<open>Hashing and lookup\<close>

text \<open>
  The remaining bytes are taken one position too early, so that a name of one to three
  characters makes the code read outside of it.
\<close>

definition vxt_db_uuid_hash :: "string \<Rightarrow> nat option" where
  "vxt_db_uuid_hash uuid =
     (let bytes = length uuid; nwords = bytes div 4; rem = bytes - nwords * 4;
          accum = fold (\<lambda>i a. a XOR word_of_nat (le_value (take 4 (drop (4 * i) uuid)))) [0..<nwords] (0 :: u32)
      in if rem \<noteq> 0 \<and> bytes < rem + 1 then None
         else let accum = fold (\<lambda>i a. a XOR push_bit (i * 3)
                  (word_of_int (signed_take_bit 7 (of_char (uuid ! (bytes - (rem + 1) + i)))))) [0..<rem] accum
         in Some (unat accum mod VXT_HASH_TABLE_SIZE))"

text \<open>Whether a record is one of the target's, and whether the target is its client.\<close>

definition endpoint_match :: "string \<Rightarrow> string option \<Rightarrow> vxt_db_rec \<Rightarrow> bool option" where
  "endpoint_match uuid remote r =
     (if strn_eq 40 (client r) uuid then
        (if remote = None \<or> strn_eq 40 (server r) (the remote) then Some True else None)
      else if strn_eq 40 (server r) uuid then
        (if remote = None \<or> strn_eq 40 (client r) (the remote) then Some False else None)
      else None)"

partial_function (option) uuid_lookup_loop ::
    "vxt_auth_database \<Rightarrow> string \<Rightarrow> string option \<Rightarrow> nat \<Rightarrow> entry \<Rightarrow> (entry \<times> bool) option option" where
  "uuid_lookup_loop db uuid remote bucket e =
     (if e = Head bucket then Some None
      else do { r \<leftarrow> rec_at db e;
             case endpoint_match uuid remote r of
               Some is_client \<Rightarrow> Some (Some (e, is_client))
             | None \<Rightarrow> uuid_lookup_loop db uuid remote bucket (nxt (hash_table db) e) })"

definition vxt_db_uuid_lookup ::
    "vxt_auth_database \<Rightarrow> string \<Rightarrow> string option \<Rightarrow> (entry \<times> bool) option option" where
  "vxt_db_uuid_lookup db uuid remote =
     do { bucket \<leftarrow> vxt_db_uuid_hash uuid;
          uuid_lookup_loop db uuid remote bucket (nxt (hash_table db) (Head bucket)) }"

partial_function (option) lookup_next_loop ::
    "vxt_auth_database \<Rightarrow> string \<Rightarrow> nat \<Rightarrow> entry \<Rightarrow> entry option option" where
  "lookup_next_loop db uuid bucket e =
     (if e = Head bucket then Some None
      else do { r \<leftarrow> rec_at db e;
             if strn_eq 40 (client r) uuid then Some (Some e)
             else if strn_eq 40 (server r) uuid then Some (Some e)
             else lookup_next_loop db uuid bucket (nxt (hash_table db) e) })"

definition vxt_db_lookup_next :: "vxt_auth_database \<Rightarrow> string \<Rightarrow> entry \<Rightarrow> entry option option" where
  "vxt_db_lookup_next db uuid prev_rec_hash =
     do { bucket \<leftarrow> vxt_db_uuid_hash uuid;
          lookup_next_loop db uuid bucket (nxt (hash_table db) prev_rec_hash) }"

text \<open>The record of a pair of endpoints, looked up from either side.\<close>

definition find_pair :: "vxt_auth_database \<Rightarrow> string \<Rightarrow> string \<Rightarrow> nat option option" where
  "find_pair db c s =
     do { h \<leftarrow> vxt_db_uuid_lookup db c (Some s);
          h \<leftarrow> (case h of None \<Rightarrow> vxt_db_uuid_lookup db s (Some c) | Some x \<Rightarrow> Some (Some x));
          Some (case h of None \<Rightarrow> None | Some (e, _) \<Rightarrow> parent e) }"

subsection \<open>Device records\<close>

fun index_of :: "('a \<Rightarrow> bool) \<Rightarrow> 'a list \<Rightarrow> nat option" where
  "index_of P [] = None"
| "index_of P (x # xs) = (if P x then Some 0 else map_option Suc (index_of P xs))"

definition named :: "string \<Rightarrow> vxt_dev_rec \<Rightarrow> bool" where
  "named n d \<longleftrightarrow> strn_eq MAX_VXT_UNAME n (dev_name d)"

text \<open>The record written over a deleted one: only the flag and the first characters are set.\<close>

definition deleted_image :: "char list \<Rightarrow> char list" where
  "deleted_image bs =
     bs[0 := char_of (of_char (bs ! 0) div 2 * 2 :: nat), 8 := NUL, 48 := NUL, 88 := NUL]"

definition vxt_db_destroy_dev_rec :: "vxt_dev_rec \<Rightarrow> vxt_auth_database \<Rightarrow> vxt_status \<times> vxt_auth_database" where
  "vxt_db_destroy_dev_rec d db =
     (case vxt_file_write db (deleted_image (stale db)) file_rec_size (file_offset d) of
        (ret, _, db) \<Rightarrow>
          if ret = - 1 then (VXT_FAIL, db)
          else case vxt_kmalloc db of
            (False, db) \<Rightarrow> (VXT_NOMEM, db)
          | (True, db) \<Rightarrow> (VXT_SUCCESS, db\<lparr>free_file_rec_list := file_offset d # free_file_rec_list db\<rparr>))"

definition destroy_devs :: "vxt_dev_rec list \<Rightarrow> vxt_auth_database \<Rightarrow> vxt_auth_database" where
  "destroy_devs ds db = fold (\<lambda>d db. snd (vxt_db_destroy_dev_rec d db)) ds db"

subsection \<open>Insertion\<close>

text \<open>The offset a new device starts with, and the device itself.\<close>

definition start_offset :: "u32 \<Rightarrow> nat \<Rightarrow> nat" where
  "start_offset flags record_offset = (if flag_set flags VXT_DB_INSERT_FILE then 0 else record_offset)"

definition new_device :: "vxt_db_file_rec \<Rightarrow> u32 \<Rightarrow> nat \<Rightarrow> vxt_dev_rec" where
  "new_device record flags record_offset =
     \<lparr>file_offset = start_offset flags record_offset, dev_name = take MAX_VXT_UNAME (fr_dev_name record),
      class_name_length = fr_class_name_length record, label = fr_label record\<rparr>"

text \<open>
  The first half of an insertion: the device is found or added in the record of the pair, or
  a record with this device is made. The result is the record's address and the position of
  the device in its list.
\<close>

definition insert_into_rec ::
    "nat \<Rightarrow> vxt_db_rec \<Rightarrow> vxt_db_file_rec \<Rightarrow> u32 \<Rightarrow> nat \<Rightarrow> vxt_auth_database
      \<Rightarrow> (nat \<times> nat) option \<times> vxt_auth_database" where
  "insert_into_rec i r record flags record_offset db =
     (case index_of (named (fr_dev_name record)) (devices r) of
        Some n \<Rightarrow> (Some (i, n), db)
      | None \<Rightarrow>
          (case vxt_kmalloc db of
             (False, db) \<Rightarrow> (None, db)
           | (True, db) \<Rightarrow>
               (Some (i, 0), set_rec i (r\<lparr>devices := new_device record flags record_offset # devices r,
                                        device_count := device_count r + 1\<rparr>) db)))"

definition insert_new_rec ::
    "vxt_db_file_rec \<Rightarrow> u32 \<Rightarrow> nat \<Rightarrow> vxt_auth_database \<Rightarrow> (nat \<times> nat) option \<times> vxt_auth_database" where
  "insert_new_rec record flags record_offset db =
     (case vxt_kmalloc db of
        (False, db) \<Rightarrow> (None, db)
      | (True, db) \<Rightarrow>
          (case vxt_kmalloc db of
             (False, db) \<Rightarrow> (None, db)
           | (True, db) \<Rightarrow>
               (let i = next_rec db;
                    r = \<lparr>valid = fr_valid record, direct = fr_direct record,
                         client = take 40 (fr_client record), server = take 40 (fr_server record),
                         devices = [new_device record flags record_offset], device_count = 1\<rparr>
                in (Some (i, 0), on_table (link_self (Srv i) \<circ> link_self (Cli i))
                                   (set_rec i r (db\<lparr>next_rec := Suc i\<rparr>))))))"

text \<open>The second half: an entry that points at itself is linked in the bucket of the caller's name.\<close>

definition insert_hash :: "entry \<Rightarrow> string \<Rightarrow> vxt_auth_database \<Rightarrow> vxt_auth_database option" where
  "insert_hash e uuid db =
     (if nxt (hash_table db) e = e
      then do { bucket \<leftarrow> vxt_db_uuid_hash uuid; Some (on_table (link_first e bucket) db) }
      else Some db)"

definition insert_hashes ::
    "nat \<Rightarrow> vxt_db_file_rec \<Rightarrow> u32 \<Rightarrow> vxt_auth_database \<Rightarrow> vxt_auth_database option" where
  "insert_hashes i record flags db =
     do { db \<leftarrow> (if flag_set flags VXT_DB_INSERT_CLIENT then insert_hash (Cli i) (fr_client record) db else Some db);
          if flag_set flags VXT_DB_INSERT_SERVER then insert_hash (Srv i) (fr_server record) db else Some db }"

text \<open>
  The write of the new file record: every call starts again at the first byte of the
  record, at the position the previous call has reached.
\<close>

function write_loop :: "char list \<Rightarrow> nat \<Rightarrow> nat \<Rightarrow> 'a kernel_scheme \<Rightarrow> bool \<times> 'a kernel_scheme" where
  "write_loop buf remainder pos k =
     (if remainder = 0 then (True, k)
      else case vxt_file_write k buf remainder pos of
        (write_cnt, pos', k') \<Rightarrow>
          if write_cnt < 0 then (False, k')
          else write_loop buf (remainder - nat write_cnt) pos' k')"
  by pat_completeness auto
termination
  by (relation "measure (\<lambda>(_, remainder, _, k). remainder + length (writes k))")
    (auto simp: vxt_file_write_def Let_def EFAULT_def split: if_splits list.splits)

declare write_loop.simps [simp del]

definition set_offset :: "nat \<Rightarrow> nat \<Rightarrow> nat \<Rightarrow> vxt_auth_database \<Rightarrow> vxt_auth_database option" where
  "set_offset i n off db =
     do { r \<leftarrow> db_recs db i;
          if n < length (devices r)
          then Some (set_rec i (r\<lparr>devices := (devices r)[n := (devices r ! n)\<lparr>file_offset := off\<rparr>]\<rparr>) db)
          else None }"

definition insert_file ::
    "nat \<Rightarrow> nat \<Rightarrow> vxt_db_file_rec \<Rightarrow> vxt_auth_database \<Rightarrow> (vxt_status \<times> vxt_auth_database) option" where
  "insert_file i n record db =
     (let (offset, db) =
        (case free_file_rec_list db of
           off # rest \<Rightarrow> (off, db\<lparr>free_file_rec_list := rest\<rparr>)
         | [] \<Rightarrow> (database_end db, db\<lparr>database_end := database_end db + file_rec_size\<rparr>))
      in do { db \<leftarrow> set_offset i n offset db;
              case write_loop (rec_image record) file_rec_size offset db of
                (False, db) \<Rightarrow>
                  (case vxt_kmalloc db of
                     (False, db) \<Rightarrow> Some (VXT_ERROR, db)
                   | (True, db) \<Rightarrow>
                       Some (VXT_ERROR, db\<lparr>free_file_rec_list := offset # free_file_rec_list db\<rparr>))
              | (True, db) \<Rightarrow> do { db \<leftarrow> set_offset i n offset db; Some (VXT_SUCCESS, db) } })"

definition vxt_db_insert_internal ::
    "vxt_db_file_rec \<Rightarrow> u32 \<Rightarrow> nat \<Rightarrow> vxt_auth_database \<Rightarrow> (vxt_status \<times> vxt_auth_database) option" where
  "vxt_db_insert_internal record flags record_offset db =
     (if flags AND (VXT_DB_INSERT_CLIENT OR VXT_DB_INSERT_SERVER) = 0 then Some (VXT_PARM, db)
      else do {
        found \<leftarrow> find_pair db (fr_client record) (fr_server record);
        (dev, db) \<leftarrow> (case found of
            Some i \<Rightarrow> do { r \<leftarrow> db_recs db i; Some (insert_into_rec i r record flags record_offset db) }
          | None \<Rightarrow> Some (insert_new_rec record flags record_offset db));
        case dev of
          None \<Rightarrow> Some (VXT_NOMEM, db)
        | Some (i, n) \<Rightarrow> do {
            db \<leftarrow> insert_hashes i record flags db;
            r \<leftarrow> db_recs db i;
            if file_offset (devices r ! n) = 0 \<and> flag_set flags VXT_DB_INSERT_FILE
            then insert_file i n record db else Some (VXT_SUCCESS, db) } })"

definition vxt_db_insert ::
    "vxt_db_file_rec \<Rightarrow> u32 \<Rightarrow> vxt_auth_database \<Rightarrow> (vxt_status \<times> vxt_auth_database) option" where
  "vxt_db_insert record flags db = vxt_db_insert_internal record (flags OR VXT_DB_INSERT_FILE) 0 db"

subsection \<open>Deletion of a record\<close>

text \<open>A record without devices is unlinked from both lists and freed.\<close>

definition remove_rec :: "nat \<Rightarrow> vxt_auth_database \<Rightarrow> vxt_auth_database" where
  "remove_rec i db = free_rec i (on_table (unlink (Srv i) \<circ> unlink (Cli i)) db)"

definition drop_nth :: "nat \<Rightarrow> 'a list \<Rightarrow> 'a list" where
  "drop_nth n xs = take n xs @ drop (Suc n) xs"

definition vxt_db_delete_record ::
    "string \<Rightarrow> string \<Rightarrow> string option \<Rightarrow> vxt_auth_database \<Rightarrow> (vxt_status \<times> vxt_auth_database) option" where
  "vxt_db_delete_record c s device db =
     do { found \<leftarrow> find_pair db c s;
          case found of
            None \<Rightarrow> Some (VXT_PARM, db)
          | Some i \<Rightarrow> do {
              r \<leftarrow> db_recs db i;
              let (r', db) =
                (case device of
                   Some name \<Rightarrow>
                     (case index_of (named name) (devices r) of
                        None \<Rightarrow> (r, db)
                      | Some n \<Rightarrow>
                          let r' = r\<lparr>devices := drop_nth n (devices r), device_count := device_count r - 1\<rparr>
                          in (r', set_rec i r' (snd (vxt_db_destroy_dev_rec (devices r ! n) db))))
                 | None \<Rightarrow>
                     let r' = r\<lparr>devices := [], device_count := 0\<rparr>
                     in (r', set_rec i r' (destroy_devs (devices r) db)));
              Some (VXT_SUCCESS, if devices r' = [] then remove_rec i db else db) } }"

end
