(* ===== verification/Vxt_Db_Guest.thy ===== *)
theory Vxt_Db_Guest
  imports Vxt_Db
begin

text \<open>
  The remaining operations of \<^verbatim>\<open>kernel/vxtdb/common/vxt_db.c\<close>: the client's lookup, editing, the
  operations on all the records of a guest, and the creation and deletion of a database.
\<close>

subsection \<open>Lookup of a device by its client\<close>

record vxt_db_lookup_rec =
  lr_direct :: bool
  lr_client :: string
  lr_server :: string
  lr_dev_name :: string
  lr_client_dom :: u64
  lr_server_dom :: u64
  lr_label :: u64

text \<open>
  \<open>local_dom\<close> is \<^verbatim>\<open>vxt_uuid_to_local_dom\<close> with the domain name for the result 1, and
  \<open>str_to_long\<close> the kernel's conversion of a numeral.
\<close>

type_synonym resolver = "string \<Rightarrow> string option"

partial_function (option) lookup_client_walk ::
    "vxt_auth_database \<Rightarrow> string \<Rightarrow> bool \<Rightarrow> nat option \<Rightarrow> nat option option" where
  "lookup_client_walk db requester is_client cur =
     (if cur = None then Some None
      else do {
          i \<leftarrow> cur;
          r \<leftarrow> db_recs db i;
          if is_client then
            (if strn_eq 40 (client r) requester then Some (Some i)
             else lookup_client_walk db requester is_client (parent (nxt (hash_table db) (Cli i))))
          else
            (if strn_eq 40 (server r) requester then Some (Some i)
             else lookup_client_walk db requester is_client (parent (nxt (hash_table db) (Srv i)))) })"

definition device_grants :: "string \<Rightarrow> vxt_dev_rec \<Rightarrow> bool" where
  "device_grants name d \<longleftrightarrow>
     (if class_name_length d = 0 then strn_eq MAX_VXT_UNAME (dev_name d) name
      else strn_eq (unat (class_name_length d)) (dev_name d) name)"

text \<open>For the default endpoint as client the code clears the server's domain.\<close>

definition client_domain ::
    "resolver \<Rightarrow> (string \<Rightarrow> u64) \<Rightarrow> vxt_db_lookup_rec \<Rightarrow> vxt_db_lookup_rec" where
  "client_domain local_dom str_to_long record =
     (if strn_eq 40 (lr_client record) VXTDB_DOM0_ENDPOINT then record\<lparr>lr_server_dom := 0\<rparr>
      else case local_dom (lr_client record) of
        None \<Rightarrow> record\<lparr>lr_client_dom := - 1\<rparr>
      | Some domain \<Rightarrow> record\<lparr>lr_client_dom := str_to_long (drop 7 domain)\<rparr>)"

definition server_domain ::
    "resolver \<Rightarrow> (string \<Rightarrow> u64) \<Rightarrow> vxt_db_lookup_rec \<Rightarrow> vxt_db_lookup_rec" where
  "server_domain local_dom str_to_long record =
     (if strn_eq 40 (lr_server record) VXTDB_DOM0_ENDPOINT then record\<lparr>lr_server_dom := 0\<rparr>
      else case local_dom (lr_server record) of
        Some domain \<Rightarrow> record\<lparr>lr_server_dom := str_to_long (drop 7 domain)\<rparr>
      | None \<Rightarrow> record\<lparr>lr_server_dom := - 1\<rparr>)"

definition fill_lookup_rec ::
    "vxt_db_rec \<Rightarrow> vxt_dev_rec \<Rightarrow> string \<Rightarrow> string \<Rightarrow> vxt_db_lookup_rec \<Rightarrow> vxt_db_lookup_rec" where
  "fill_lookup_rec r d requester name record =
     record\<lparr>lr_direct := direct r, lr_client := take 40 requester, lr_server := take 40 (server r),
            lr_dev_name := take MAX_VXT_UNAME name, lr_label := label d\<rparr>"

definition vxt_db_lookup_client ::
    "resolver \<Rightarrow> (string \<Rightarrow> u64) \<Rightarrow> vxt_auth_database \<Rightarrow> string \<Rightarrow> string \<Rightarrow> vxt_db_lookup_rec
      \<Rightarrow> (vxt_status \<times> vxt_db_lookup_rec) option" where
  "vxt_db_lookup_client local_dom str_to_long db requester name record =
     do { h \<leftarrow> vxt_db_uuid_lookup db requester None;
          case h of
            None \<Rightarrow> Some (VXT_FAIL, record)
          | Some (e, is_client) \<Rightarrow> do {
              cur \<leftarrow> lookup_client_walk db requester is_client (parent e);
              case cur of
                None \<Rightarrow> Some (VXT_FAIL, record)
              | Some i \<Rightarrow> do {
                  r \<leftarrow> db_recs db i;
                  Some (case find (device_grants name) (devices r) of
                      None \<Rightarrow> (VXT_FAIL, record)
                    | Some d \<Rightarrow>
                        (VXT_SUCCESS, server_domain local_dom str_to_long
                           (client_domain local_dom str_to_long
                             (fill_lookup_rec r d requester name record)))) } } }"

subsection \<open>Editing\<close>

definition vxt_db_edit ::
    "string \<Rightarrow> string \<Rightarrow> string option \<Rightarrow> u32 \<Rightarrow> u64 \<Rightarrow> vxt_auth_database
      \<Rightarrow> (vxt_status \<times> vxt_auth_database) option" where
  "vxt_db_edit requester remote name flags lbl db =
     do { found \<leftarrow> find_pair db requester remote;
          case found of
            None \<Rightarrow> Some (VXT_PARM, db)
          | Some i \<Rightarrow> do {
              r \<leftarrow> db_recs db i;
              Some (case name of
                  None \<Rightarrow> (VXT_SUCCESS, set_rec i (r\<lparr>direct := flag_set flags VXT_DEV_DIRECT_CONNECT\<rparr>) db)
                | Some nm \<Rightarrow>
                    (case index_of (named nm) (devices r) of
                       None \<Rightarrow> (VXT_PARM, db)
                     | Some n \<Rightarrow>
                         (VXT_SUCCESS, set_rec i (r\<lparr>direct := flag_set flags VXT_DEV_DIRECT_CONNECT,
                            devices := (devices r)[n := (devices r ! n)\<lparr>label := lbl\<rparr>]\<rparr>) db))) } }"

subsection \<open>The records of a guest\<close>

definition dev_file_rec :: "vxt_db_rec \<Rightarrow> vxt_dev_rec \<Rightarrow> vxt_db_file_rec" where
  "dev_file_rec r d =
     \<lparr>fr_valid = True, fr_direct = direct r, fr_client = take 40 (client r), fr_server = take 40 (server r),
      fr_dev_name = take MAX_VXT_UNAME (dev_name d), fr_class_name_length = class_name_length d,
      fr_label = label d\<rparr>"

text \<open>A list element is allocated for every device and put in front of the list.\<close>

fun dump_devs_local ::
    "vxt_db_rec \<Rightarrow> vxt_dev_rec list \<Rightarrow> vxt_db_file_rec list \<Rightarrow> vxt_auth_database
      \<Rightarrow> vxt_db_file_rec list option \<times> vxt_auth_database" where
  "dump_devs_local r [] file_list db = (Some file_list, db)"
| "dump_devs_local r (d # ds) file_list db =
     (case vxt_kmalloc db of
        (False, db) \<Rightarrow> (None, db)
      | (True, db) \<Rightarrow> dump_devs_local r ds (dev_file_rec r d # file_list) db)"

partial_function (option) dump_guest_local_loop ::
    "string \<Rightarrow> entry option \<Rightarrow> vxt_db_file_rec list \<Rightarrow> vxt_auth_database
      \<Rightarrow> (vxt_db_file_rec list \<times> vxt_auth_database) option" where
  "dump_guest_local_loop guest rec_hash file_list db =
     (if rec_hash = None then Some (file_list, db)
      else do {
          e \<leftarrow> rec_hash;
          r \<leftarrow> rec_at db e;
          let res = dump_devs_local r (devices r) file_list db;
          case fst res of
            None \<Rightarrow> Some ([], snd res)
          | Some file_list' \<Rightarrow> do {
              rec_hash' \<leftarrow> vxt_db_lookup_next (snd res) guest e;
              dump_guest_local_loop guest rec_hash' file_list' (snd res) } })"

definition vxt_db_dump_guest_local ::
    "string \<Rightarrow> vxt_auth_database \<Rightarrow> (vxt_db_file_rec list \<times> vxt_auth_database) option" where
  "vxt_db_dump_guest_local guest db =
     do { h \<leftarrow> vxt_db_uuid_lookup db guest None;
          dump_guest_local_loop guest (map_option fst h) [] db }"

partial_function (option) dev_count_loop ::
    "vxt_auth_database \<Rightarrow> string \<Rightarrow> entry option \<Rightarrow> u32 \<Rightarrow> u32 option" where
  "dev_count_loop db guest rec_hash count =
     (if rec_hash = None then Some count
      else do {
          e \<leftarrow> rec_hash;
          r \<leftarrow> rec_at db e;
          rec_hash' \<leftarrow> vxt_db_lookup_next db guest e;
          dev_count_loop db guest rec_hash' (count + device_count r) })"

definition vxt_db_guest_dev_count :: "vxt_auth_database \<Rightarrow> string \<Rightarrow> (vxt_status \<times> u32) option" where
  "vxt_db_guest_dev_count db guest =
     do { h \<leftarrow> vxt_db_uuid_lookup db guest None;
          count \<leftarrow> dev_count_loop db guest (map_option fst h) 0;
          Some (VXT_SUCCESS, count) }"

text \<open>
  The caller's array; a store outside of it is the value \<open>None\<close>. The result of the inner
  loop tells whether the size was reached.
\<close>

fun dump_devs ::
    "vxt_db_rec \<Rightarrow> vxt_dev_rec list \<Rightarrow> u32 \<Rightarrow> u32 \<Rightarrow> vxt_db_file_rec list
      \<Rightarrow> (bool \<times> u32 \<times> vxt_db_file_rec list) option" where
  "dump_devs r [] sz rec_ele buffer = Some (False, rec_ele, buffer)"
| "dump_devs r (d # ds) sz rec_ele buffer =
     (if sz \<le> rec_ele then Some (True, rec_ele, buffer)
      else if unat rec_ele < length buffer
      then dump_devs r ds sz (rec_ele + 1) (buffer[unat rec_ele := dev_file_rec r d])
      else None)"

record dump_result =
  dr_buffer :: "vxt_db_file_rec list"
  dr_size :: u32
  dr_overrun :: bool

partial_function (option) dump_guest_loop ::
    "vxt_auth_database \<Rightarrow> string \<Rightarrow> entry option \<Rightarrow> u32 \<Rightarrow> u32 \<Rightarrow> vxt_db_file_rec list
      \<Rightarrow> dump_result option" where
  "dump_guest_loop db guest rec_hash sz rec_ele buffer =
     (if rec_hash = None then Some \<lparr>dr_buffer = buffer, dr_size = rec_ele, dr_overrun = False\<rparr>
      else do {
          e \<leftarrow> rec_hash;
          r \<leftarrow> rec_at db e;
          res \<leftarrow> dump_devs r (devices r) sz rec_ele buffer;
          if fst res then Some \<lparr>dr_buffer = snd (snd res), dr_size = sz, dr_overrun = True\<rparr>
          else do {
            rec_hash' \<leftarrow> vxt_db_lookup_next db guest e;
            dump_guest_loop db guest rec_hash' sz (fst (snd res)) (snd (snd res)) } })"

definition vxt_db_dump_guest ::
    "vxt_auth_database \<Rightarrow> string \<Rightarrow> vxt_db_file_rec list \<Rightarrow> u32 \<Rightarrow> (vxt_status \<times> dump_result) option" where
  "vxt_db_dump_guest db guest buffer sz =
     do { h \<leftarrow> vxt_db_uuid_lookup db guest None;
          res \<leftarrow> dump_guest_loop db guest (map_option fst h) sz 0 buffer;
          Some (VXT_SUCCESS, res) }"

subsection \<open>Deletion of a guest\<close>

definition reset_entry :: "entry \<Rightarrow> links \<Rightarrow> links" where
  "reset_entry e s = link_self e (unlink e s)"

text \<open>The guest's own entry is unlinked, and the other one unless the guest is migrating.\<close>

definition detach_rec :: "nat \<Rightarrow> vxt_db_rec \<Rightarrow> string \<Rightarrow> bool \<Rightarrow> vxt_auth_database \<Rightarrow> vxt_auth_database" where
  "detach_rec i r endpoint migrate db =
     (if strn_eq 40 (client r) endpoint then
        (let db = on_table (reset_entry (Cli i)) db
         in if \<not> migrate \<or> strn_eq 40 (server r) VXTDB_DOM0_ENDPOINT
            then on_table (reset_entry (Srv i)) db else db)
      else
        (let db = on_table (reset_entry (Srv i)) db
         in if \<not> migrate \<or> strn_eq 40 (client r) VXTDB_DOM0_ENDPOINT
            then on_table (reset_entry (Cli i)) db else db))"

text \<open>A record that is on no list any more is freed with its devices.\<close>

definition release_rec :: "nat \<Rightarrow> vxt_db_rec \<Rightarrow> vxt_auth_database \<Rightarrow> vxt_auth_database" where
  "release_rec i r db =
     (if nxt (hash_table db) (Cli i) \<noteq> Cli i \<or> nxt (hash_table db) (Srv i) \<noteq> Srv i then db
      else free_rec i (destroy_devs (devices r) db))"

partial_function (option) vxt_db_delete_guest ::
    "string \<Rightarrow> bool \<Rightarrow> vxt_auth_database \<Rightarrow> (vxt_status \<times> vxt_auth_database) option" where
  "vxt_db_delete_guest endpoint migrate db =
     do { h \<leftarrow> vxt_db_uuid_lookup db endpoint None;
          case h of
            None \<Rightarrow> Some (VXT_SUCCESS, db)
          | Some x \<Rightarrow> do {
              i \<leftarrow> parent (fst x);
              r \<leftarrow> db_recs db i;
              vxt_db_delete_guest endpoint migrate
                (release_rec i r (detach_rec i r endpoint migrate db)) } }"

subsection \<open>Restoring a guest\<close>

text \<open>The list variant replaces the flag of the guest's side, the array variant adds to it.\<close>

definition restore_flags_local :: "string \<Rightarrow> vxt_db_file_rec \<Rightarrow> u32" where
  "restore_flags_local guest_uuid record =
     (if \<not> strn_eq 40 (fr_client record) guest_uuid then
        (if strn_eq 40 (fr_client record) VXTDB_DOM0_ENDPOINT then VXT_DB_INSERT_CLIENT
         else VXT_DB_INSERT_SERVER)
      else
        (if strn_eq 40 (fr_server record) VXTDB_DOM0_ENDPOINT then VXT_DB_INSERT_SERVER
         else VXT_DB_INSERT_CLIENT)) OR VXT_DB_INSERT_FILE"

definition restore_flags :: "string \<Rightarrow> vxt_db_file_rec \<Rightarrow> u32" where
  "restore_flags guest_uuid record =
     (if \<not> strn_eq 40 (fr_client record) guest_uuid then
        (if strn_eq 40 (fr_client record) VXTDB_DOM0_ENDPOINT
         then VXT_DB_INSERT_SERVER OR VXT_DB_INSERT_CLIENT else VXT_DB_INSERT_SERVER)
      else
        (if strn_eq 40 (fr_server record) VXTDB_DOM0_ENDPOINT
         then VXT_DB_INSERT_CLIENT OR VXT_DB_INSERT_SERVER else VXT_DB_INSERT_CLIENT)) OR VXT_DB_INSERT_FILE"

fun vxt_db_restore_guest_local ::
    "string \<Rightarrow> vxt_db_file_rec list \<Rightarrow> vxt_auth_database \<Rightarrow> (vxt_status \<times> vxt_auth_database) option" where
  "vxt_db_restore_guest_local guest_uuid [] db = Some (VXT_SUCCESS, db)"
| "vxt_db_restore_guest_local guest_uuid (record # file_list) db =
     do { (ret, db) \<leftarrow> vxt_db_insert record (restore_flags_local guest_uuid record) db;
          if ret \<noteq> VXT_SUCCESS then do {
            (_, db) \<leftarrow> vxt_db_delete_guest guest_uuid True db; Some (VXT_FAIL, db) }
          else vxt_db_restore_guest_local guest_uuid file_list db }"

fun vxt_db_restore_guest ::
    "string \<Rightarrow> vxt_db_file_rec list \<Rightarrow> vxt_auth_database \<Rightarrow> (vxt_status \<times> vxt_auth_database) option" where
  "vxt_db_restore_guest guest_uuid [] db = Some (VXT_SUCCESS, db)"
| "vxt_db_restore_guest guest_uuid (record # record_array) db =
     do { (ret, db) \<leftarrow> vxt_db_insert record (restore_flags guest_uuid record) db;
          if ret \<noteq> VXT_SUCCESS then do {
            (_, db) \<leftarrow> vxt_db_delete_guest guest_uuid True db; Some (VXT_FAIL, db) }
          else vxt_db_restore_guest guest_uuid record_array db }"

subsection \<open>Creation and deletion of a database\<close>

definition VXT_DB_PATH :: string where "VXT_DB_PATH = ''/opt/VRTSvxt/''"

definition empty_table :: links where
  "empty_table = \<lparr>nxt = \<lambda>e. e, prv = \<lambda>e. e\<rparr>"

definition fresh_database :: "kernel \<Rightarrow> string \<Rightarrow> vxt_auth_database" where
  "fresh_database k name =
     kernel.extend k \<lparr>free_file_rec_list = [], database_end = 0,
       db_file_name = take VXT_DB_NAME_MAX (VXT_DB_PATH @ take VXT_DB_NAME_MAX name),
       hash_table = empty_table, db_recs = Map.empty, next_rec = 0\<rparr>"

definition is_local :: "resolver \<Rightarrow> string \<Rightarrow> bool" where
  "is_local local_dom uuid \<longleftrightarrow> strn_eq 40 uuid VXTDB_DOM0_ENDPOINT \<or> local_dom uuid \<noteq> None"

definition recover_flags :: "resolver \<Rightarrow> vxt_db_file_rec \<Rightarrow> u32" where
  "recover_flags local_dom inrec =
     (if is_local local_dom (fr_client inrec) then VXT_DB_INSERT_CLIENT else 0)
     OR (if is_local local_dom (fr_server inrec) then VXT_DB_INSERT_SERVER else 0)"

text \<open>
  The scan of an existing file. \<open>buf\<close> is the record on the stack, which a short read fills
  only in part; the value \<open>Inl\<close> is a failed allocation.
\<close>

partial_function (option) recover_loop ::
    "resolver \<Rightarrow> char list \<Rightarrow> nat \<Rightarrow> vxt_auth_database \<Rightarrow> (vxt_auth_database + vxt_auth_database) option" where
  "recover_loop local_dom buf off db =
     (let res = vxt_file_read db buf file_rec_size off; inrec = image_rec (snd res)
      in if fst res \<le> 0 then Some (Inr (db\<lparr>database_end := off\<rparr>))
         else if \<not> fr_valid inrec then
           (let m = vxt_kmalloc db
            in if fst m then recover_loop local_dom (snd res) (off + file_rec_size)
                 ((snd m)\<lparr>free_file_rec_list := off # free_file_rec_list (snd m)\<rparr>)
               else Some (Inl (snd m)))
         else if recover_flags local_dom inrec \<noteq> 0 then do {
           x \<leftarrow> vxt_db_insert_internal inrec (recover_flags local_dom inrec) off db;
           recover_loop local_dom (snd res) (off + file_rec_size) (snd x) }
         else recover_loop local_dom (snd res) (off + file_rec_size) db)"

definition close_failed :: "vxt_auth_database \<Rightarrow> kernel" where
  "close_failed db = (kernel.truncate db)\<lparr>file_open := False\<rparr>"

definition create_existing ::
    "resolver \<Rightarrow> vxt_auth_database \<Rightarrow> (kernel + vxt_auth_database) option" where
  "create_existing local_dom db =
     (if length (dfile db) < header_size then Some (Inl (close_failed db))
      else do {
        let off = (if kernel_ds db then header_size else 0);
        res \<leftarrow> recover_loop local_dom (stale db) off db;
        Some (case res of Inl db \<Rightarrow> Inl (close_failed db) | Inr db \<Rightarrow> Inr db) })"

definition create_empty :: "vxt_auth_database \<Rightarrow> kernel + vxt_auth_database" where
  "create_empty db =
     (case vxt_file_write db (header_image (take 4 (stale db))) header_size 0 of
        (ret, _, db) \<Rightarrow>
          if ret < 0 then Inl (close_failed db) else Inr (db\<lparr>database_end := header_size\<rparr>))"

text \<open>\<open>openable\<close>: the file system opens or makes the file.\<close>

definition vxt_db_create ::
    "resolver \<Rightarrow> bool \<Rightarrow> string \<Rightarrow> kernel \<Rightarrow> (kernel + vxt_auth_database) option" where
  "vxt_db_create local_dom openable name k =
     (case vxt_kmalloc k of
        (False, k) \<Rightarrow> Some (Inl k)
      | (True, k) \<Rightarrow>
          if \<not> openable then Some (Inl k)
          else let db = fresh_database (k\<lparr>file_open := True, file_linked := True\<rparr>) name
            in if dfile db \<noteq> [] then create_existing local_dom db else Some (create_empty db))"

text \<open>The entries of a bucket, from the first one on, with the records they belong to.\<close>

partial_function (option) delete_bucket :: "nat \<Rightarrow> vxt_auth_database \<Rightarrow> vxt_auth_database option" where
  "delete_bucket b db =
     (let e = nxt (hash_table db) (Head b) in
      if e = Head b then Some db
      else do {
        i \<leftarrow> parent e;
        r \<leftarrow> db_recs db i;
        let db = on_table (unlink e) db;
        let other = (if e = Cli i then Srv i else Cli i);
        let db = (if nxt (hash_table db) other \<noteq> other then on_table (unlink other) db else db);
        delete_bucket b (free_rec i db) })"

fun delete_buckets :: "nat list \<Rightarrow> vxt_auth_database \<Rightarrow> vxt_auth_database option" where
  "delete_buckets [] db = Some db"
| "delete_buckets (b # bs) db = do { db \<leftarrow> delete_bucket b db; delete_buckets bs db }"

text \<open>The state just before the database itself is freed.\<close>

definition vxt_db_delete ::
    "bool \<Rightarrow> vxt_auth_database \<Rightarrow> (vxt_status \<times> vxt_auth_database) option" where
  "vxt_db_delete delete_db_file db =
     do { db \<leftarrow> delete_buckets [0..<VXT_HASH_TABLE_SIZE] db;
          let db = db\<lparr>free_file_rec_list := []\<rparr>;
          Some (VXT_SUCCESS, if delete_db_file then db\<lparr>file_linked := False\<rparr> else db\<lparr>file_open := False\<rparr>) }"

definition vxtdb_module_init :: "vxt_status \<times> vxt_auth_database option" where
  "vxtdb_module_init = (VXT_SUCCESS, None)"

definition vxtdb_module_shutdown ::
    "vxt_auth_database option \<Rightarrow> (vxt_status \<times> vxt_auth_database option) option" where
  "vxtdb_module_shutdown db_handle =
     (case db_handle of
        None \<Rightarrow> Some (VXT_SUCCESS, None)
      | Some db \<Rightarrow> do { (ret, db) \<leftarrow> vxt_db_delete False db; Some (ret, Some db) })"

end
