(* ===== verification/Vxt_Db_Inv.thy ===== *)
theory Vxt_Db_Inv
  imports Vxt_Db_Guest
begin

text \<open>
  The invariant of the authorization database and what the lookups compute under it. The
  ghost variable \<open>ch\<close> is the list of hash entries of every bucket, which the links realise
  by the contract \<open>hash_chains\<close>.
\<close>

subsection \<open>Names and hashes\<close>

definition uuid_ok :: "string \<Rightarrow> bool" where
  "uuid_ok u \<longleftrightarrow> 4 \<le> length u \<and> length u < 40 \<and> NUL \<notin> set u"

definition name_ok :: "string \<Rightarrow> bool" where
  "name_ok n \<longleftrightarrow> length n < 64 \<and> NUL \<notin> set n"

definition bucket_of :: "string \<Rightarrow> nat" where
  "bucket_of u = the (vxt_db_uuid_hash u)"

lemma hash_bucket: "uuid_ok u \<Longrightarrow> vxt_db_uuid_hash u = Some (bucket_of u)"
  by (auto simp: uuid_ok_def bucket_of_def vxt_db_uuid_hash_def Let_def)

lemma hash_less: "vxt_db_uuid_hash u = Some b \<Longrightarrow> b < VXT_HASH_TABLE_SIZE"
  by (auto simp: vxt_db_uuid_hash_def Let_def VXT_HASH_TABLE_SIZE_def split: if_splits)

lemma bucket_less: "uuid_ok u \<Longrightarrow> bucket_of u < VXT_HASH_TABLE_SIZE"
  using hash_bucket hash_less by blast

lemma strn_eq_uuid [simp]: "uuid_ok a \<Longrightarrow> uuid_ok b \<Longrightarrow> strn_eq 40 a b \<longleftrightarrow> a = b"
  by (simp add: strn_eq_def uuid_ok_def)

lemma strn_eq_name [simp]: "name_ok a \<Longrightarrow> name_ok b \<Longrightarrow> strn_eq MAX_VXT_UNAME a b \<longleftrightarrow> a = b"
  by (simp add: strn_eq_def name_ok_def MAX_VXT_UNAME_def)

lemma take_uuid [simp]: "uuid_ok u \<Longrightarrow> take 40 u = u"
  by (simp add: uuid_ok_def)

lemma take_name [simp]: "name_ok n \<Longrightarrow> take MAX_VXT_UNAME n = n"
  by (simp add: name_ok_def MAX_VXT_UNAME_def)

lemma named_ok [simp]: "name_ok n \<Longrightarrow> name_ok (dev_name d) \<Longrightarrow> named n d \<longleftrightarrow> dev_name d = n"
  by (auto simp: named_def)

lemma uuid_ok_dom0: "uuid_ok VXTDB_DOM0_ENDPOINT"
  by (simp add: uuid_ok_def VXTDB_DOM0_ENDPOINT_def NUL_def)

subsection \<open>The invariant\<close>

definition joins :: "string \<Rightarrow> string \<Rightarrow> vxt_db_rec \<Rightarrow> bool" where
  "joins c s r \<longleftrightarrow> {client r, server r} = {c, s}"

definition rec_ok :: "vxt_db_rec \<Rightarrow> bool" where
  "rec_ok r \<longleftrightarrow> uuid_ok (client r) \<and> uuid_ok (server r) \<and> devices r \<noteq> []
     \<and> distinct (map dev_name (devices r)) \<and> (\<forall>d \<in> set (devices r). name_ok (dev_name d))
     \<and> device_count r = word_of_nat (length (devices r))"

definition entries :: "vxt_auth_database \<Rightarrow> entry set" where
  "entries db = {e. rec_at db e \<noteq> None}"

text \<open>
  The records of \<open>X\<close> are allowed to be on no list, as a new record is before its hash entries
  are linked. At most one record joins two endpoints, in whichever order.
\<close>

definition db_holds :: "nat set \<Rightarrow> vxt_auth_database \<Rightarrow> (nat \<Rightarrow> entry list) \<Rightarrow> bool" where
  "db_holds X db ch \<longleftrightarrow> chains (entries db) (hash_table db) ch
     \<and> (\<forall>b. \<forall>e \<in> set (ch b). \<forall>r. rec_at db e = Some r \<longrightarrow> b \<in> {bucket_of (client r), bucket_of (server r)})
     \<and> (\<forall>i r. db_recs db i = Some r \<longrightarrow> rec_ok r)
     \<and> (\<forall>i r. db_recs db i = Some r \<longrightarrow> i \<notin> X \<longrightarrow> (\<exists>b. Cli i \<in> set (ch b) \<or> Srv i \<in> set (ch b)))
     \<and> (\<forall>i \<ge> next_rec db. db_recs db i = None)
     \<and> (\<forall>i j r q. db_recs db i = Some r \<longrightarrow> db_recs db j = Some q \<longrightarrow>
          joins (client r) (server r) q \<longrightarrow> i = j)"

definition vxt_db_ok :: "vxt_auth_database \<Rightarrow> bool" where
  "vxt_db_ok db \<longleftrightarrow> (\<exists>ch. db_holds {} db ch)"

lemma db_holds_chains: "db_holds X db ch \<Longrightarrow> chains (entries db) (hash_table db) ch"
  and db_holds_rec_ok: "db_holds X db ch \<Longrightarrow> db_recs db i = Some r \<Longrightarrow> rec_ok r"
  and db_holds_bucket: "db_holds X db ch \<Longrightarrow> e \<in> set (ch b) \<Longrightarrow> rec_at db e = Some r \<Longrightarrow>
      b \<in> {bucket_of (client r), bucket_of (server r)}"
  and db_holds_listed: "db_holds X db ch \<Longrightarrow> db_recs db i = Some r \<Longrightarrow> i \<notin> X \<Longrightarrow>
      \<exists>b. Cli i \<in> set (ch b) \<or> Srv i \<in> set (ch b)"
  and db_holds_fresh: "db_holds X db ch \<Longrightarrow> next_rec db \<le> i \<Longrightarrow> db_recs db i = None"
  and db_holds_pair: "db_holds X db ch \<Longrightarrow> db_recs db i = Some r \<Longrightarrow> db_recs db j = Some q \<Longrightarrow>
      joins (client r) (server r) q \<Longrightarrow> i = j"
  unfolding db_holds_def by blast+

lemma rec_at_simps [simp]:
  "rec_at db (Head b) = None" "rec_at db (Cli i) = db_recs db i" "rec_at db (Srv i) = db_recs db i"
  by (simp_all add: rec_at_def)

lemma rec_at_parent: "rec_at db e = Some r \<longleftrightarrow> (\<exists>i. parent e = Some i \<and> db_recs db i = Some r)"
  by (cases e) auto

lemma entries_iff [simp]:
  "Head b \<notin> entries db" "Cli i \<in> entries db \<longleftrightarrow> i \<in> dom (db_recs db)" "Srv i \<in> entries db \<longleftrightarrow> i \<in> dom (db_recs db)"
  by (auto simp: entries_def)

lemma db_holds_rec_at:
  assumes "db_holds X db ch" and "e \<in> set (ch b)"
  obtains i r where "parent e = Some i" "db_recs db i = Some r" "rec_at db e = Some r" "rec_ok r"
proof -
  have "e \<in> entries db" using chains_sub [OF db_holds_chains [OF assms(1)] assms(2)] .
  then obtain r where r: "rec_at db e = Some r" by (auto simp: entries_def)
  then obtain i where i: "parent e = Some i" "db_recs db i = Some r" by (auto simp: rec_at_parent)
  with that r db_holds_rec_ok [OF assms(1)] show ?thesis by blast
qed

subsection \<open>What the lookups compute\<close>

definition first_match :: "vxt_auth_database \<Rightarrow> string \<Rightarrow> string option \<Rightarrow> entry list \<Rightarrow> (entry \<times> bool) option" where
  "first_match db uuid remote es =
     map_option (\<lambda>e. (e, the (endpoint_match uuid remote (the (rec_at db e)))))
       (find (\<lambda>e. endpoint_match uuid remote (the (rec_at db e)) \<noteq> None) es)"

lemma lookup_loop_first_match:
  assumes h: "db_holds X db ch" and "ch b = us @ vs"
  shows "uuid_lookup_loop db uuid remote b (hd (vs @ [Head b])) = Some (first_match db uuid remote vs)"
  using assms(2)
proof (induction vs arbitrary: us)
  case Nil
  show ?case by (subst uuid_lookup_loop.simps) (simp add: first_match_def)
next
  case (Cons e vs)
  have "e \<in> set (ch b)" using Cons.prems by simp
  then obtain r where r: "rec_at db e = Some r" using db_holds_rec_at [OF h] by metis
  have "e \<noteq> Head b" using chains_head_out [OF db_holds_chains [OF h], of b b] Cons.prems by auto
  moreover have "nxt (hash_table db) e = hd (vs @ [Head b])"
    using db_chains.walk_next [OF db_holds_chains [OF h] Cons.prems] .
  ultimately show ?case
    using Cons.IH [of "us @ [e]"] Cons.prems r
    by (subst uuid_lookup_loop.simps) (auto simp: first_match_def split: option.splits)
qed

lemma uuid_lookup_first_match:
  assumes "db_holds X db ch" and "uuid_ok uuid"
  shows "vxt_db_uuid_lookup db uuid remote = Some (first_match db uuid remote (ch (bucket_of uuid)))"
  using lookup_loop_first_match [OF assms(1), of "bucket_of uuid" "[]"]
    db_chains.walk_first [OF db_holds_chains [OF assms(1)]] hash_bucket [OF assms(2)]
  by (simp add: vxt_db_uuid_lookup_def)

definition of_guest :: "vxt_auth_database \<Rightarrow> string \<Rightarrow> entry \<Rightarrow> bool" where
  "of_guest db g e \<longleftrightarrow> (\<exists>r. rec_at db e = Some r \<and> g \<in> {client r, server r})"

lemma lookup_next_find:
  assumes h: "db_holds X db ch" and u: "uuid_ok g" and "ch b = us @ vs"
  shows "lookup_next_loop db g b (hd (vs @ [Head b])) = Some (find (of_guest db g) vs)"
  using assms(3)
proof (induction vs arbitrary: us)
  case Nil
  show ?case by (subst lookup_next_loop.simps) simp
next
  case (Cons e vs)
  have "e \<in> set (ch b)" using Cons.prems by simp
  then obtain r where r: "rec_at db e = Some r" "rec_ok r" using db_holds_rec_at [OF h] by metis
  have "e \<noteq> Head b" using chains_head_out [OF db_holds_chains [OF h], of b b] Cons.prems by auto
  moreover have "nxt (hash_table db) e = hd (vs @ [Head b])"
    using db_chains.walk_next [OF db_holds_chains [OF h] Cons.prems] .
  moreover have "of_guest db g e \<longleftrightarrow> g \<in> {client r, server r}" using r by (simp add: of_guest_def)
  ultimately show ?case
    using Cons.IH [of "us @ [e]"] Cons.prems r u
    by (subst lookup_next_loop.simps) (auto simp: rec_ok_def)
qed

lemma endpoint_match_None:
  assumes "rec_ok r" and "uuid_ok g"
  shows "endpoint_match g None r = (if client r = g then Some True else if server r = g then Some False else None)"
  using assms by (simp add: endpoint_match_def rec_ok_def)

lemma endpoint_match_Some:
  assumes "rec_ok r" and "uuid_ok c" and "uuid_ok s"
  shows "endpoint_match c (Some s) r \<noteq> None \<longleftrightarrow> joins c s r"
  using assms by (auto simp: endpoint_match_def rec_ok_def joins_def doubleton_eq_iff)

lemma find_None: "find P xs = None \<longleftrightarrow> (\<forall>x \<in> set xs. \<not> P x)"
  by (induction xs) auto

lemma first_match_None:
  assumes "first_match db uuid remote es = None" and "e \<in> set es" and "rec_at db e = Some r"
  shows "endpoint_match uuid remote r = None"
  using assms by (auto simp: first_match_def find_None)

lemma first_match_Some:
  assumes "first_match db uuid remote es = Some (e, c)"
  shows "e \<in> set es" and "endpoint_match uuid remote (the (rec_at db e)) = Some c"
  using assms by (auto simp: first_match_def find_Some_iff)

lemma lookup_pair_found:
  assumes h: "db_holds X db ch" and u: "uuid_ok c" "uuid_ok s"
    and m: "first_match db c (Some s) (ch (bucket_of c)) = Some x"
  shows "\<exists>i r. parent (fst x) = Some i \<and> db_recs db i = Some r \<and> joins c s r"
proof -
  obtain e k where x: "x = (e, k)" by (cases x)
  note f = first_match_Some [OF m [unfolded x]]
  from db_holds_rec_at [OF h f(1)] obtain i r where
    "parent e = Some i" "db_recs db i = Some r" "rec_at db e = Some r" "rec_ok r" .
  moreover from this f(2) endpoint_match_Some [of r c s] u have "joins c s r" by auto
  ultimately show ?thesis using x by auto
qed

text \<open>A record is in the bucket of one of its endpoints, so that one of the two lookups sees it.\<close>

lemma find_pair_spec:
  assumes h: "db_holds {} db ch" and u: "uuid_ok c" "uuid_ok s"
  obtains (none) "find_pair db c s = Some None" "\<And>i r. db_recs db i = Some r \<Longrightarrow> \<not> joins c s r"
  | (found) i r where "find_pair db c s = Some (Some i)" "db_recs db i = Some r" "joins c s r"
proof -
  have sym: "joins s c r = joins c s r" for r by (auto simp: joins_def)
  note l = uuid_lookup_first_match [OF h u(1), of "Some s"] uuid_lookup_first_match [OF h u(2), of "Some c"]
  show thesis
  proof (cases "first_match db c (Some s) (ch (bucket_of c))")
    case (Some x)
    from lookup_pair_found [OF h u this] obtain i r
      where "parent (fst x) = Some i" "db_recs db i = Some r" "joins c s r" by blast
    with Some l found [of i r] show ?thesis by (simp add: find_pair_def case_prod_beta)
  next
    case n1: None
    show ?thesis
    proof (cases "first_match db s (Some c) (ch (bucket_of s))")
      case (Some x)
      from lookup_pair_found [OF h u(2,1) this] obtain i r
        where "parent (fst x) = Some i" "db_recs db i = Some r" "joins c s r" using sym by blast
      with n1 Some l found [of i r] show ?thesis by (simp add: find_pair_def case_prod_beta)
    next
      case n2: None
      have "\<not> joins c s r" if i: "db_recs db i = Some r" for i r
      proof
        assume j: "joins c s r"
        have ok: "rec_ok r" using db_holds_rec_ok [OF h i] .
        obtain b e where e: "e \<in> set (ch b)" "rec_at db e = Some r"
          using db_holds_listed [OF h i] i by auto
        then have "b = bucket_of c \<or> b = bucket_of s"
          using db_holds_bucket [OF h e] j by (auto simp: joins_def doubleton_eq_iff)
        then show False
          using first_match_None [OF n1 _ e(2)] first_match_None [OF n2 _ e(2)] e(1) j sym
            endpoint_match_Some [OF ok u] endpoint_match_Some [OF ok u(2,1)] by auto
      qed
      with n1 n2 l none show ?thesis by (simp add: find_pair_def)
    qed
  qed
qed

subsection \<open>What the kernel's operations leave alone\<close>

definition core :: "vxt_auth_database \<Rightarrow> (nat \<rightharpoonup> vxt_db_rec) \<times> links \<times> nat" where
  "core db = (db_recs db, hash_table db, next_rec db)"

lemma core_eqD:
  assumes "core db' = core db"
  shows "db_recs db' = db_recs db" and "hash_table db' = hash_table db" and "next_rec db' = next_rec db"
  using assms by (simp_all add: core_def)

lemma db_holds_core: "core db' = core db \<Longrightarrow> db_holds X db' ch = db_holds X db ch"
proof -
  assume "core db' = core db"
  note c = core_eqD [OF this]
  then have "rec_at db' = rec_at db" by (simp add: rec_at_def fun_eq_iff)
  with c show ?thesis by (simp add: db_holds_def entries_def)
qed

named_theorems same_core \<open>operations that change neither records nor links\<close>

lemma core_free_list [same_core]: "core (db\<lparr>free_file_rec_list := l\<rparr>) = core db"
  and core_database_end [same_core]: "core (db\<lparr>database_end := n\<rparr>) = core db"
  and core_dfile [same_core]: "core (db\<lparr>dfile := f\<rparr>) = core db"
  and core_writes [same_core]: "core (db\<lparr>writes := w\<rparr>) = core db"
  and core_mallocs [same_core]: "core (db\<lparr>mallocs := m\<rparr>) = core db"
  by (simp_all add: core_def)

lemma core_kmalloc [same_core]: "core (snd (vxt_kmalloc db)) = core db"
  by (simp add: vxt_kmalloc_def same_core split: list.split)

lemma core_file_write [same_core]: "core (snd (snd (vxt_file_write db buf n pos))) = core db"
  by (simp add: vxt_file_write_def Let_def same_core split: list.split)

lemma core_write_loop [same_core]: "core (snd (write_loop buf remainder pos db)) = core db"
proof (induction buf remainder pos db rule: write_loop.induct)
  case (1 buf remainder pos k)
  obtain c pos' k' where w: "vxt_file_write k buf remainder pos = (c, pos', k')" by (metis prod.exhaust)
  then have "core k' = core k" using core_file_write [of k buf remainder pos] by simp
  with 1 w show ?case by (subst write_loop.simps) auto
qed

lemma core_destroy [same_core]: "core (snd (vxt_db_destroy_dev_rec d db)) = core db"
proof -
  obtain ret pos' k where w: "vxt_file_write db (deleted_image (stale db)) file_rec_size (file_offset d) = (ret, pos', k)"
    by (metis prod.exhaust)
  obtain b k' where m: "vxt_kmalloc k = (b, k')" by fastforce
  have "core k = core db" using core_file_write [of db "deleted_image (stale db)" file_rec_size "file_offset d"] w by simp
  moreover have "core k' = core k" using core_kmalloc [of k] m by simp
  ultimately show ?thesis using w m by (cases b) (simp_all add: vxt_db_destroy_dev_rec_def same_core)
qed

lemma core_destroy_devs [same_core]: "core (destroy_devs ds db) = core db"
  unfolding destroy_devs_def by (induction ds arbitrary: db) (simp_all add: same_core)

lemma core_set_rec: "core (set_rec i r db) = ((db_recs db)(i \<mapsto> r), hash_table db, next_rec db)"
  by (simp add: core_def set_rec_def)

lemma set_rec_core: "core db' = core db \<Longrightarrow> core (set_rec i r db') = core (set_rec i r db)"
  by (simp add: core_set_rec) (simp add: core_def)

lemma db_simps [simp]:
  "db_recs (set_rec i r db) = (db_recs db)(i \<mapsto> r)" "hash_table (set_rec i r db) = hash_table db"
  "next_rec (set_rec i r db) = next_rec db"
  "db_recs (free_rec i db) = (db_recs db)(i := None)" "hash_table (free_rec i db) = hash_table db"
  "next_rec (free_rec i db) = next_rec db"
  "db_recs (on_table f db) = db_recs db" "hash_table (on_table f db) = f (hash_table db)"
  "next_rec (on_table f db) = next_rec db"
  by (simp_all add: set_rec_def free_rec_def on_table_def)

subsection \<open>Steps that keep the invariant\<close>

lemma rec_at_set_rec:
  "rec_at (set_rec i r db) e = (if parent e = Some i then Some r else rec_at db e)"
  by (cases e) auto

lemma entries_set_rec:
  "db_recs db i \<noteq> None \<Longrightarrow> entries (set_rec i r db) = entries db"
  "db_recs db i = None \<Longrightarrow> entries (set_rec i r db) = insert (Cli i) (insert (Srv i) (entries db))"
  by (auto simp: entries_def rec_at_set_rec rec_at_parent elim!: parent.elims split: if_splits)

lemma entries_free_rec: "entries (free_rec i db) = entries db - {Cli i, Srv i}"
proof (rule set_eqI)
  show "e \<in> entries (free_rec i db) \<longleftrightarrow> e \<in> entries db - {Cli i, Srv i}" for e by (cases e) auto
qed

lemma entries_on_table [simp]: "entries (on_table f db) = entries db"
  by (simp add: entries_def rec_at_def)

text \<open>A change of a record that keeps its endpoints.\<close>

lemma db_holds_set_rec:
  assumes h: "db_holds X db ch" and i: "db_recs db i = Some r"
    and r': "rec_ok r'" "client r' = client r" "server r' = server r"
  shows "db_holds X (set_rec i r' db) ch"
  unfolding db_holds_def
proof (intro conjI allI ballI impI)
  have es: "entries (set_rec i r' db) = entries db" using i entries_set_rec(1) by simp
  then show "chains (entries (set_rec i r' db)) (hash_table (set_rec i r' db)) ch"
    using db_holds_chains [OF h] by simp
  show "b \<in> {bucket_of (client q), bucket_of (server q)}"
    if e: "e \<in> set (ch b)" "rec_at (set_rec i r' db) e = Some q" for b e q
  proof (cases "parent e = Some i")
    case True
    then have "rec_at db e = Some r" using i by (simp add: rec_at_parent)
    with True e db_holds_bucket [OF h e(1)] r' show ?thesis by (auto simp: rec_at_set_rec)
  next
    case False
    with e db_holds_bucket [OF h e(1)] show ?thesis by (simp add: rec_at_set_rec)
  qed
  show "rec_ok q" if "db_recs (set_rec i r' db) j = Some q" for j q
    using that r'(1) db_holds_rec_ok [OF h] by (auto split: if_splits)
  show "\<exists>b. Cli j \<in> set (ch b) \<or> Srv j \<in> set (ch b)" if "db_recs (set_rec i r' db) j = Some q" "j \<notin> X" for j q
    using that i db_holds_listed [OF h] by (auto split: if_splits)
  show "db_recs (set_rec i r' db) j = None" if "next_rec (set_rec i r' db) \<le> j" for j
    using that db_holds_fresh [OF h, of j] i by auto
  show "j = k" if jk: "db_recs (set_rec i r' db) j = Some p" "db_recs (set_rec i r' db) k = Some q"
    "joins (client p) (server p) q" for j k p q
  proof -
    obtain p' where "db_recs db j = Some p'" "client p' = client p" "server p' = server p"
      using jk(1) i r' by (auto split: if_splits)
    moreover obtain q' where "db_recs db k = Some q'" "client q' = client q" "server q' = server q"
      using jk(2) i r' by (auto split: if_splits)
    ultimately show ?thesis using db_holds_pair [OF h] jk(3) by (simp add: joins_def)
  qed
qed

text \<open>A new record, which is on no list yet.\<close>

lemma db_holds_new_rec:
  assumes h: "db_holds {} db ch" and ok: "rec_ok r"
    and new: "\<And>i q. db_recs db i = Some q \<Longrightarrow> \<not> joins (client r) (server r) q"
    and n: "n = next_rec db"
  shows "db_holds {n} (on_table (link_self (Srv n) \<circ> link_self (Cli n)) (set_rec n r (db\<lparr>next_rec := Suc n\<rparr>))) ch"
    (is "db_holds _ ?db ch")
proof -
  have none: "db_recs db i = None" if "n \<le> i" for i using db_holds_fresh [OF h] that n by simp
  have c: "chains (entries db) (hash_table db) ch" using db_holds_chains [OF h] .
  have "Cli n \<notin> entries db" "Srv n \<notin> insert (Cli n) (entries db)" using none [of n] by auto
  then have "chains (insert (Srv n) (insert (Cli n) (entries db)))
      (link_self (Srv n) (link_self (Cli n) (hash_table db))) ch"
    using db_chains.fresh [OF db_chains.fresh [OF c]] by blast
  moreover have "entries ?db = insert (Srv n) (insert (Cli n) (entries db))"
    using entries_set_rec(2) [of "db\<lparr>next_rec := Suc n\<rparr>" n r] none [of n]
    by (auto simp: entries_def rec_at_def)
  ultimately have "chains (entries ?db) (hash_table ?db) ch" by simp
  moreover have "b \<in> {bucket_of (client q), bucket_of (server q)}"
    if e: "e \<in> set (ch b)" "rec_at ?db e = Some q" for b e q
  proof -
    have "e \<in> entries db" using chains_sub [OF c e(1)] .
    then have "parent e \<noteq> Some n" using none [of n] by (cases e) auto
    then have "rec_at db e = Some q" using e(2) by (cases e) auto
    then show ?thesis using db_holds_bucket [OF h e(1)] by simp
  qed
  moreover have "j = k" if "db_recs ?db j = Some p" "db_recs ?db k = Some q" "joins (client p) (server p) q" for j k p q
  proof -
    have "joins (client q) (server q) p" using that(3) by (auto simp: joins_def)
    then show ?thesis using that new db_holds_pair [OF h] by (auto split: if_splits)
  qed
  moreover have "rec_ok q" if "db_recs ?db j = Some q" for j q
    using that ok db_holds_rec_ok [OF h] by (auto split: if_splits)
  moreover have "\<exists>b. Cli j \<in> set (ch b) \<or> Srv j \<in> set (ch b)" if "db_recs ?db j = Some q" "j \<notin> {n}" for j q
    using that db_holds_listed [OF h, of j] by (auto split: if_splits)
  moreover have "db_recs ?db j = None" if "next_rec ?db \<le> j" for j
    using that none [of j] by auto
  ultimately show ?thesis unfolding db_holds_def by blast
qed

text \<open>Linking an entry that is on no list.\<close>

lemma rec_at_on_table [simp]: "rec_at (on_table f db) e = rec_at db e"
  by (simp add: rec_at_def)

lemma db_holds_link:
  assumes h: "db_holds X db ch" and i: "db_recs db i = Some r" and e: "parent e = Some i"
    and off: "nxt (hash_table db) e = e" and b: "b \<in> {bucket_of (client r), bucket_of (server r)}"
  shows "db_holds (X - {i}) (on_table (link_first e b) db) (ch(b := e # ch b))"
  unfolding db_holds_def
proof (intro conjI allI ballI impI)
  have c: "chains (entries db) (hash_table db) ch" using db_holds_chains [OF h] .
  have at: "rec_at db e = Some r" using e i by (simp add: rec_at_parent)
  then have live: "e \<in> entries db" by (simp add: entries_def)
  then have "\<And>b. e \<notin> set (ch b)" using off db_chains.off_chain [OF c] by blast
  with live show "chains (entries (on_table (link_first e b) db)) (hash_table (on_table (link_first e b) db)) (ch(b := e # ch b))"
    using db_chains.pushed [OF c] by simp
  show "b' \<in> {bucket_of (client q), bucket_of (server q)}"
    if "e' \<in> set ((ch(b := e # ch b)) b')" "rec_at (on_table (link_first e b) db) e' = Some q" for b' e' q
    using that at b db_holds_bucket [OF h, of e' b' q] by (auto split: if_splits)
  show "\<exists>b'. Cli j \<in> set ((ch(b := e # ch b)) b') \<or> Srv j \<in> set ((ch(b := e # ch b)) b')"
    if j: "db_recs (on_table (link_first e b) db) j = Some q" "j \<notin> X - {i}" for j q
  proof (cases "j = i")
    case True
    then show ?thesis using e by (intro exI [of _ b]) (cases e, auto)
  next
    case False
    then obtain b' where "Cli j \<in> set (ch b') \<or> Srv j \<in> set (ch b')"
      using db_holds_listed [OF h, of j] j by auto
    then show ?thesis by (intro exI [of _ b']) auto
  qed
  show "rec_ok q" if "db_recs (on_table (link_first e b) db) j = Some q" for j q
    using that db_holds_rec_ok [OF h] by simp
  show "db_recs (on_table (link_first e b) db) j = None" if "next_rec (on_table (link_first e b) db) \<le> j" for j
    using that db_holds_fresh [OF h] by simp
  show "j = k" if "db_recs (on_table (link_first e b) db) j = Some p"
    "db_recs (on_table (link_first e b) db) k = Some q" "joins (client p) (server p) q" for j k p q
    using that db_holds_pair [OF h] by simp
qed

text \<open>The lists without the entries of a record, and the database without it.\<close>

definition without :: "nat \<Rightarrow> (nat \<Rightarrow> entry list) \<Rightarrow> nat \<Rightarrow> entry list" where
  "without i ch b = filter (\<lambda>e. parent e \<noteq> Some i) (ch b)"

lemma without_remove1:
  assumes "chains A s ch"
  shows "(\<lambda>b. remove1 (Srv i) (remove1 (Cli i) (ch b))) = without i ch"
    and "(\<lambda>b. remove1 (Cli i) (remove1 (Srv i) (ch b))) = without i ch"
proof -
  have "filter (\<lambda>e. parent e \<noteq> Some i) xs = filter (\<lambda>e. Srv i \<noteq> e) (filter (\<lambda>e. Cli i \<noteq> e) xs)"
    if "set xs \<subseteq> A" for xs
  proof -
    have "parent e \<noteq> Some i \<longleftrightarrow> Cli i \<noteq> e \<and> Srv i \<noteq> e" for e by (cases e) auto
    then show ?thesis by (simp add: conj_commute)
  qed
  then have "filter (\<lambda>e. parent e \<noteq> Some i) (ch b) = filter (\<lambda>e. Srv i \<noteq> e) (filter (\<lambda>e. Cli i \<noteq> e) (ch b))" for b
    using chains_sub [OF assms] by blast
  moreover have "distinct (ch b)" for b using db_chains.distinct_chain [OF assms] .
  ultimately show "(\<lambda>b. remove1 (Srv i) (remove1 (Cli i) (ch b))) = without i ch"
    and "(\<lambda>b. remove1 (Cli i) (remove1 (Srv i) (ch b))) = without i ch"
    by (simp_all add: fun_eq_iff without_def distinct_remove1_removeAll removeAll_filter_not_eq conj_commute)
qed

lemma db_holds_without:
  assumes h: "db_holds X db ch" and c: "chains (entries db - {Cli i, Srv i}) s (without i ch)"
    and core: "core db' = ((db_recs db)(i := None), s, next_rec db)"
  shows "db_holds (X - {i}) db' (without i ch)"
  unfolding db_holds_def
proof (intro conjI allI ballI impI)
  have d: "db_recs db' = (db_recs db)(i := None)" "hash_table db' = s" "next_rec db' = next_rec db"
    using core by (simp_all add: core_def)
  have "entries db' = entries (free_rec i db)" using d by (simp add: entries_def rec_at_def)
  then show "chains (entries db') (hash_table db') (without i ch)" using c d by (simp add: entries_free_rec)
  show "b \<in> {bucket_of (client q), bucket_of (server q)}"
    if "e \<in> set (without i ch b)" "rec_at db' e = Some q" for b e q
  proof (rule db_holds_bucket [OF h])
    show "e \<in> set (ch b)" using that(1) by (simp add: without_def)
    show "rec_at db e = Some q" using that d by - (cases e, auto simp: without_def)
  qed
  show "\<exists>b. Cli j \<in> set (without i ch b) \<or> Srv j \<in> set (without i ch b)"
    if "db_recs db' j = Some q" "j \<notin> X - {i}" for j q
    using that db_holds_listed [OF h, of j q] d by (auto simp: without_def split: if_splits)
  show "rec_ok q" if "db_recs db' j = Some q" for j q
    using that db_holds_rec_ok [OF h] d by (auto split: if_splits)
  show "db_recs db' j = None" if "next_rec db' \<le> j" for j
    using that db_holds_fresh [OF h] d by simp
  show "j = k" if "db_recs db' j = Some p" "db_recs db' k = Some q" "joins (client p) (server p) q" for j k p q
    using that db_holds_pair [OF h] d by (auto split: if_splits)
qed

text \<open>Unlinking both entries, in either order, wherever they are.\<close>

lemma chains_unlink_both:
  assumes c: "chains A s ch" and "Cli i \<in> A" "Srv i \<in> A"
  shows "chains (A - {Cli i, Srv i}) (unlink (Srv i) (unlink (Cli i) s)) (without i ch)"
    and "chains (A - {Cli i, Srv i}) (unlink (Cli i) (unlink (Srv i) s)) (without i ch)"
proof -
  have "A - {Cli i} - {Srv i} = A - {Cli i, Srv i}" "A - {Srv i} - {Cli i} = A - {Cli i, Srv i}" by auto
  with without_remove1 [OF c] db_chains.detached [OF db_chains.detached [OF c, of "Cli i"], of "Srv i"]
    db_chains.detached [OF db_chains.detached [OF c, of "Srv i"], of "Cli i"] assms(2,3)
  show "chains (A - {Cli i, Srv i}) (unlink (Srv i) (unlink (Cli i) s)) (without i ch)"
    and "chains (A - {Cli i, Srv i}) (unlink (Cli i) (unlink (Srv i) s)) (without i ch)"
    by simp_all
qed

lemma db_holds_remove_rec:
  assumes h: "db_holds X db ch" and i: "db_recs db i = Some r"
  shows "db_holds (X - {i}) (remove_rec i db) (without i ch)"
proof (rule db_holds_without [OF h])
  show "chains (entries db - {Cli i, Srv i}) (unlink (Srv i) (unlink (Cli i) (hash_table db))) (without i ch)"
    using chains_unlink_both(1) [OF db_holds_chains [OF h]] i by auto
qed (simp add: remove_rec_def core_def)

end
