(* ===== verification/Vxt_Db_Props.thy ===== *)
theory Vxt_Db_Props
  imports Vxt_Db_Inv
begin

text \<open>
  Insertion and deletion of records against an abstract specification: the set of granted
  devices, each for an unordered pair of endpoints.
\<close>

subsection \<open>The abstract state\<close>

type_synonym grant = "string set \<times> string \<times> u64 \<times> u64"

definition rec_grants :: "vxt_db_rec \<Rightarrow> grant set" where
  "rec_grants r = (\<lambda>d. ({client r, server r}, dev_name d, class_name_length d, label d)) ` set (devices r)"

definition grants :: "vxt_auth_database \<Rightarrow> grant set" where
  "grants db = (\<Union>r \<in> ran (db_recs db). rec_grants r)"

definition grant_pair :: "string \<Rightarrow> string \<Rightarrow> string \<Rightarrow> u64 \<Rightarrow> u64 \<Rightarrow> grant set \<Rightarrow> grant set" where
  "grant_pair c s n cls lbl G = (if \<exists>a. ({c, s}, n, a) \<in> G then G else insert ({c, s}, n, cls, lbl) G)"

definition revoke_pair :: "string \<Rightarrow> string \<Rightarrow> string option \<Rightarrow> grant set \<Rightarrow> grant set" where
  "revoke_pair c s n G = {(p, m, a) \<in> G. \<not> (p = {c, s} \<and> (n = None \<or> n = Some m))}"

definition revoke_guest :: "string \<Rightarrow> grant set \<Rightarrow> grant set" where
  "revoke_guest g G = {(p, a) \<in> G. g \<notin> p}"

lemma grants_core: "core db' = core db \<Longrightarrow> grants db' = grants db"
  by (simp add: grants_def core_def)

lemma grants_on_table [simp]: "grants (on_table f db) = grants db"
  by (simp add: grants_def)

lemma rec_grants_fst: "(p, a) \<in> rec_grants r \<Longrightarrow> p = {client r, server r}"
  by (auto simp: rec_grants_def)

lemma rec_grants_pair: "g \<in> rec_grants r \<Longrightarrow> fst g = {client r, server r}"
  by (auto simp: rec_grants_def)

lemma joins_sym: "joins c s r \<longleftrightarrow> {c, s} = {client r, server r}"
  by (auto simp: joins_def)

lemma grants_of_pair:
  assumes h: "db_holds X db ch" and i: "db_recs db i = Some r"
  shows "({client r, server r}, a) \<in> grants db \<longleftrightarrow> ({client r, server r}, a) \<in> rec_grants r"
proof
  assume "({client r, server r}, a) \<in> grants db"
  then obtain j q where j: "db_recs db j = Some q" "({client r, server r}, a) \<in> rec_grants q"
    by (auto simp: grants_def ran_def)
  then have "joins (client r) (server r) q" using rec_grants_fst [OF j(2)] by (simp add: joins_def)
  with db_holds_pair [OF h i j(1)] i j show "({client r, server r}, a) \<in> rec_grants r" by simp
next
  assume "({client r, server r}, a) \<in> rec_grants r"
  then show "({client r, server r}, a) \<in> grants db" using i by (auto simp: grants_def ran_def)
qed

lemma grants_upd:
  assumes h: "db_holds X db ch" and i: "db_recs db i = Some r"
    and d: "db_recs db' = (db_recs db)(i := v)"
  shows "grants db' = {g \<in> grants db. fst g \<noteq> {client r, server r}} \<union> (case v of None \<Rightarrow> {} | Some r' \<Rightarrow> rec_grants r')"
proof -
  have "(\<exists>j q. j \<noteq> i \<and> db_recs db j = Some q \<and> g \<in> rec_grants q) \<longleftrightarrow>
      g \<in> grants db \<and> fst g \<noteq> {client r, server r}" for g
  proof
    assume "\<exists>j q. j \<noteq> i \<and> db_recs db j = Some q \<and> g \<in> rec_grants q"
    then obtain j q where j: "j \<noteq> i" "db_recs db j = Some q" "g \<in> rec_grants q" by blast
    then have "fst g = {client q, server q}" using rec_grants_pair by simp
    with j db_holds_pair [OF h i j(2)] show "g \<in> grants db \<and> fst g \<noteq> {client r, server r}"
      by (auto simp: grants_def ran_def joins_def)
  next
    assume g: "g \<in> grants db \<and> fst g \<noteq> {client r, server r}"
    then obtain j q where j: "db_recs db j = Some q" "g \<in> rec_grants q" by (auto simp: grants_def ran_def)
    moreover have "j \<noteq> i"
    proof
      assume "j = i"
      then have "q = r" using i j by simp
      then show False using rec_grants_pair [OF j(2)] g by simp
    qed
    ultimately show "\<exists>j q. j \<noteq> i \<and> db_recs db j = Some q \<and> g \<in> rec_grants q" by blast
  qed
  moreover have "g \<in> grants db' \<longleftrightarrow> (\<exists>j q. j \<noteq> i \<and> db_recs db j = Some q \<and> g \<in> rec_grants q)
      \<or> (\<exists>q. v = Some q \<and> g \<in> rec_grants q)" for g
    unfolding grants_def ran_def d by (auto split: if_splits)
  ultimately show ?thesis by (auto split: option.splits)
qed

lemma grants_rest:
  assumes h: "db_holds X db ch" and i: "db_recs db i = Some r"
  shows "{g \<in> grants db. fst g \<noteq> {client r, server r}} \<union> rec_grants r = grants db"
proof (rule set_eqI)
  fix g
  show "g \<in> {g \<in> grants db. fst g \<noteq> {client r, server r}} \<union> rec_grants r \<longleftrightarrow> g \<in> grants db"
  proof (cases "fst g = {client r, server r}")
    case True
    then have "g = ({client r, server r}, snd g)" by (simp add: prod_eq_iff)
    with grants_of_pair [OF h i, of "snd g"] True show ?thesis by simp
  next
    case False
    then have "g \<notin> rec_grants r" using rec_grants_pair by blast
    with False show ?thesis by simp
  qed
qed

lemma grants_new:
  assumes "db_recs db i = None" and "db_recs db' = (db_recs db)(i \<mapsto> r)"
  shows "grants db' = grants db \<union> rec_grants r"
  using assms by (auto simp: grants_def ran_map_upd)

subsection \<open>Insertion\<close>

text \<open>Names as the commands of the device pass them: terminated, at least four characters long.\<close>

definition file_rec_ok :: "vxt_db_file_rec \<Rightarrow> bool" where
  "file_rec_ok record \<longleftrightarrow> uuid_ok (fr_client record) \<and> uuid_ok (fr_server record) \<and> name_ok (fr_dev_name record)"

lemma index_of_None: "index_of P xs = None \<longleftrightarrow> (\<forall>x \<in> set xs. \<not> P x)"
  by (induction xs) auto

lemma index_of_Some: "index_of P xs = Some n \<Longrightarrow> n < length xs \<and> P (xs ! n)"
  by (induction xs arbitrary: n) (auto split: if_splits)

lemma kmalloc_core: "vxt_kmalloc db = (b, db') \<Longrightarrow> core db' = core db"
  using core_kmalloc [of db] by simp

abbreviation (input) granted :: "vxt_db_file_rec \<Rightarrow> grant set \<Rightarrow> grant set" where
  "granted record \<equiv> grant_pair (fr_client record) (fr_server record) (fr_dev_name record)
     (fr_class_name_length record) (fr_label record)"

text \<open>What the first half of an insertion leaves: the device is in the list of its record.\<close>

definition placed :: "vxt_db_file_rec \<Rightarrow> vxt_auth_database \<Rightarrow> (nat \<Rightarrow> entry list) \<Rightarrow> nat \<Rightarrow> nat \<Rightarrow> vxt_auth_database \<Rightarrow> bool" where
  "placed record db ch i n db' \<longleftrightarrow> (\<exists>X r. db_holds X db' ch \<and> X \<subseteq> {i} \<and> db_recs db' i = Some r
     \<and> joins (fr_client record) (fr_server record) r \<and> n < length (devices r)
     \<and> grants db' = granted record (grants db))"

lemma insert_into_rec_placed:
  assumes h: "db_holds {} db ch" and i: "db_recs db i = Some r"
    and j: "joins (fr_client record) (fr_server record) r" and ok: "file_rec_ok record"
    and ins: "insert_into_rec i r record flags off db = (res, db')"
  shows "(case res of None \<Rightarrow> core db' = core db | Some (k, n) \<Rightarrow> placed record db ch k n db')"
proof -
  note r = db_holds_rec_ok [OF h i]
  have pair: "{fr_client record, fr_server record} = {client r, server r}" using j by (simp add: joins_def)
  have g: "({client r, server r}, m, a) \<in> grants db \<longleftrightarrow>
      (\<exists>d \<in> set (devices r). dev_name d = m \<and> a = (class_name_length d, label d))" for m a
    using grants_of_pair [OF h i] by (auto simp: rec_grants_def)
  have nm: "named (fr_dev_name record) d \<longleftrightarrow> dev_name d = fr_dev_name record" if "d \<in> set (devices r)" for d
    using that r ok by (simp add: rec_ok_def file_rec_ok_def)
  show ?thesis
  proof (cases "index_of (named (fr_dev_name record)) (devices r)")
    case (Some n)
    with index_of_Some [OF Some] nm [of "devices r ! n"]
    have n: "n < length (devices r)" "dev_name (devices r ! n) = fr_dev_name record" by auto
    have "({client r, server r}, fr_dev_name record, class_name_length (devices r ! n), label (devices r ! n)) \<in> grants db"
      using n g nth_mem [OF n(1)] by blast
    then have "granted record (grants db) = grants db" unfolding grant_pair_def pair by auto
    with n h i j Some ins show ?thesis by (auto simp: insert_into_rec_def placed_def)
  next
    case None
    obtain b db1 where m: "vxt_kmalloc db = (b, db1)" by fastforce
    note c = kmalloc_core [OF m]
    show ?thesis
    proof (cases b)
      case False
      with None m c ins show ?thesis by (auto simp: insert_into_rec_def)
    next
      case True
      let ?r = "r\<lparr>devices := new_device record flags off # devices r, device_count := device_count r + 1\<rparr>"
      have res: "res = Some (i, 0)" "db' = set_rec i ?r db1"
        using None True m ins by (auto simp: insert_into_rec_def)
      have new: "dev_name d \<noteq> fr_dev_name record" if "d \<in> set (devices r)" for d
        using that None nm by (auto simp: index_of_None)
      then have "fr_dev_name record \<notin> dev_name ` set (devices r)" by (metis imageE)
      then have "rec_ok ?r" using r ok by (simp add: rec_ok_def file_rec_ok_def new_device_def)
      then have "db_holds {} db' ch"
        using db_holds_set_rec [of "{}" db1 ch i r ?r] h i core_eqD(1) [OF c] db_holds_core [OF c] by (simp add: res)
      moreover have "grants db' = granted record (grants db)"
      proof -
        have "grants db' = {g \<in> grants db. fst g \<noteq> {client r, server r}} \<union> rec_grants ?r"
          using grants_upd [OF h i, of db' "Some ?r"] core_eqD(1) [OF c] by (simp add: res)
        also have "rec_grants ?r = insert ({client r, server r}, fr_dev_name record, fr_class_name_length record,
            fr_label record) (rec_grants r)"
          using ok by (simp add: rec_grants_def new_device_def file_rec_ok_def)
        also have "{g \<in> grants db. fst g \<noteq> {client r, server r}} \<union> \<dots> =
            insert ({client r, server r}, fr_dev_name record, fr_class_name_length record, fr_label record) (grants db)"
          using grants_rest [OF h i] by blast
        finally show ?thesis using new g unfolding grant_pair_def pair by auto
      qed
      ultimately show ?thesis using j res by (auto simp: placed_def joins_def)
    qed
  qed
qed

lemma insert_new_rec_placed:
  assumes h: "db_holds {} db ch" and none: "\<And>i r. db_recs db i = Some r \<Longrightarrow> \<not> joins (fr_client record) (fr_server record) r"
    and ok: "file_rec_ok record"
    and ins: "insert_new_rec record flags off db = (res, db')"
  shows "(case res of None \<Rightarrow> core db' = core db | Some (k, n) \<Rightarrow> placed record db ch k n db')"
proof -
  obtain b1 db1 where m1: "vxt_kmalloc db = (b1, db1)" by fastforce
  obtain b2 db2 where m2: "vxt_kmalloc db1 = (b2, db2)" by fastforce
  note c1 = kmalloc_core [OF m1] and c2 = kmalloc_core [OF m2]
  have c: "core db2 = core db" using c1 c2 by simp
  show ?thesis
  proof (cases "b1 \<and> b2")
    case False
    with m1 m2 c1 c ins show ?thesis by (auto simp: insert_new_rec_def split: bool.splits)
  next
    case True
    let ?n = "next_rec db2"
    let ?r = "\<lparr>valid = fr_valid record, direct = fr_direct record, client = take 40 (fr_client record),
      server = take 40 (fr_server record), devices = [new_device record flags off], device_count = 1\<rparr>"
    have res: "res = Some (?n, 0)"
      "db' = on_table (link_self (Srv ?n) \<circ> link_self (Cli ?n)) (set_rec ?n ?r (db2\<lparr>next_rec := Suc ?n\<rparr>))"
      using True m1 m2 ins by (auto simp: insert_new_rec_def Let_def)
    have "rec_ok ?r" using ok by (simp add: rec_ok_def file_rec_ok_def new_device_def)
    moreover have "db_holds {} db2 ch" using h db_holds_core [OF c] by simp
    ultimately have "db_holds {?n} db' ch"
      unfolding res(2) using none ok core_eqD(1) [OF c] by (intro db_holds_new_rec) (auto simp: file_rec_ok_def)
    moreover have "grants db' = grants db \<union> rec_grants ?r"
      using grants_new [of db ?n db' ?r] db_holds_fresh [OF h, of ?n] core_eqD [OF c] by (simp add: res)
    moreover have "({fr_client record, fr_server record}, a) \<notin> grants db" for a
    proof
      assume "({fr_client record, fr_server record}, a) \<in> grants db"
      then obtain j q where "db_recs db j = Some q" "({fr_client record, fr_server record}, a) \<in> rec_grants q"
        by (auto simp: grants_def ran_def)
      with none [of j q] rec_grants_fst [of _ _ q] show False by (simp add: joins_def)
    qed
    then have "granted record (grants db) = grants db \<union> {({fr_client record, fr_server record},
        fr_dev_name record, fr_class_name_length record, fr_label record)}" by (simp add: grant_pair_def)
    moreover have "rec_grants ?r = {({fr_client record, fr_server record},
        fr_dev_name record, fr_class_name_length record, fr_label record)}"
      using ok by (simp add: rec_grants_def new_device_def file_rec_ok_def)
    ultimately show ?thesis using ok by (auto simp: res placed_def joins_def file_rec_ok_def)
  qed
qed

text \<open>The second half: the entries the flags ask for are linked, if they are not already.\<close>

lemma db_holds_listed_entry:
  assumes h: "db_holds X db ch" and e: "e \<in> set (ch b)" "parent e = Some i"
  shows "db_holds (X - {i}) db ch"
proof -
  have "\<exists>b. Cli i \<in> set (ch b) \<or> Srv i \<in> set (ch b)" using e by - (cases e, auto)
  with h show ?thesis unfolding db_holds_def by blast
qed

lemma insert_hash_holds:
  assumes h: "db_holds X db ch" and i: "db_recs db i = Some r" and e: "parent e = Some i"
    and u: "uuid_ok u" "u \<in> {client r, server r}"
  shows "\<exists>db' ch'. insert_hash e u db = Some db' \<and> db_holds (X - {i}) db' ch' \<and> db_recs db' = db_recs db"
proof (cases "nxt (hash_table db) e = e")
  case True
  have "bucket_of u \<in> {bucket_of (client r), bucket_of (server r)}" using u(2) by auto
  from db_holds_link [OF h i e True this] True show ?thesis
    by (auto simp: insert_hash_def hash_bucket [OF u(1)])
next
  case False
  have "e \<in> entries db" using e i by (cases e) auto
  with False obtain b where "e \<in> set (ch b)" using db_chains.off_chain [OF db_holds_chains [OF h]] by blast
  from db_holds_listed_entry [OF h this e] False show ?thesis by (auto simp: insert_hash_def)
qed

lemma insert_hashes_holds:
  assumes h: "db_holds X db ch" and i: "db_recs db i = Some r" and X: "X \<subseteq> {i}"
    and j: "joins (fr_client record) (fr_server record) r" and ok: "file_rec_ok record"
    and fl: "flag_set flags VXT_DB_INSERT_CLIENT \<or> flag_set flags VXT_DB_INSERT_SERVER"
  shows "\<exists>db' ch'. insert_hashes i record flags db = Some db' \<and> db_holds {} db' ch' \<and> db_recs db' = db_recs db"
proof -
  have u: "uuid_ok (fr_client record)" "fr_client record \<in> {client r, server r}"
    "uuid_ok (fr_server record)" "fr_server record \<in> {client r, server r}"
    using j ok by (auto simp: joins_def file_rec_ok_def)
  have e: "X - {i} = {}" using X by auto
  have "\<exists>db1 ch1. (if flag_set flags VXT_DB_INSERT_CLIENT then insert_hash (Cli i) (fr_client record) db else Some db)
      = Some db1 \<and> db_holds (if flag_set flags VXT_DB_INSERT_CLIENT then {} else X) db1 ch1 \<and> db_recs db1 = db_recs db"
    using insert_hash_holds [OF h i _ u(1,2), of "Cli i"] h e by auto
  then obtain db1 ch1 where s1: "(if flag_set flags VXT_DB_INSERT_CLIENT then insert_hash (Cli i) (fr_client record) db else Some db)
      = Some db1" and h1: "db_holds (if flag_set flags VXT_DB_INSERT_CLIENT then {} else X) db1 ch1"
    and d1: "db_recs db1 = db_recs db" by blast
  show ?thesis
  proof (cases "flag_set flags VXT_DB_INSERT_SERVER")
    case True
    have "db_recs db1 i = Some r" using i d1 by simp
    from insert_hash_holds [OF h1 this _ u(3,4), of "Srv i"] obtain db2 ch2 where
      "insert_hash (Srv i) (fr_server record) db1 = Some db2"
      "db_holds ((if flag_set flags VXT_DB_INSERT_CLIENT then {} else X) - {i}) db2 ch2" "db_recs db2 = db_recs db1"
      by auto
    moreover have "(if flag_set flags VXT_DB_INSERT_CLIENT then {} else X) - {i} = {}" using e by simp
    ultimately show ?thesis using True d1 unfolding insert_hashes_def s1 by auto
  next
    case False
    with fl s1 h1 d1 show ?thesis by (auto simp: insert_hashes_def)
  qed
qed

lemma set_offset_holds:
  assumes h: "db_holds X db ch" and i: "db_recs db i = Some r" and n: "n < length (devices r)"
  shows "\<exists>db' r'. set_offset i n off db = Some db' \<and> db_holds X db' ch \<and> grants db' = grants db
    \<and> db_recs db' i = Some r' \<and> length (devices r') = length (devices r)"
proof -
  let ?d = "(devices r ! n)\<lparr>file_offset := off\<rparr>"
  let ?r = "r\<lparr>devices := (devices r)[n := ?d]\<rparr>"
  note r = db_holds_rec_ok [OF h i]
  have names: "map f ((devices r)[n := ?d]) = map f (devices r)"
    if "f ?d = f (devices r ! n)" for f :: "vxt_dev_rec \<Rightarrow> 'x"
    using that n by (simp add: map_update list_update_same_conv)
  have "dev_name ` set ((devices r)[n := ?d]) = dev_name ` set (devices r)"
    using arg_cong [OF names [of dev_name], of set] by simp
  moreover have "(\<forall>d \<in> set ds. name_ok (dev_name d)) \<longleftrightarrow> (\<forall>m \<in> dev_name ` set ds. name_ok m)" for ds by simp
  ultimately have "(\<forall>d \<in> set ((devices r)[n := ?d]). name_ok (dev_name d)) \<longleftrightarrow> (\<forall>d \<in> set (devices r). name_ok (dev_name d))"
    by metis
  with r names [of dev_name] have "rec_ok ?r" by (auto simp: rec_ok_def)
  then have "db_holds X (set_rec i ?r db) ch" using db_holds_set_rec [OF h i] by simp
  moreover have "rec_grants ?r = rec_grants r"
    unfolding rec_grants_def
    using arg_cong [OF names [of "\<lambda>d. ({client r, server r}, dev_name d, class_name_length d, label d)"], of set]
    by simp
  then have "grants (set_rec i ?r db) = {g \<in> grants db. fst g \<noteq> {client r, server r}} \<union> rec_grants r"
    using grants_upd [OF h i, of "set_rec i ?r db" "Some ?r"] by simp
  then have "grants (set_rec i ?r db) = grants db"
    using grants_rest [OF h i] by simp
  ultimately show ?thesis using i n by (auto simp: set_offset_def)
qed

lemma insert_file_holds:
  assumes h: "db_holds {} db ch" and i: "db_recs db i = Some r" and n: "n < length (devices r)"
  shows "\<exists>st db'. insert_file i n record db = Some (st, db') \<and> db_holds {} db' ch \<and> grants db' = grants db
    \<and> st \<in> {VXT_SUCCESS, VXT_ERROR}"
proof -
  define off_db where "off_db = (case free_file_rec_list db of
      off # rest \<Rightarrow> (off, db\<lparr>free_file_rec_list := rest\<rparr>)
    | [] \<Rightarrow> (database_end db, db\<lparr>database_end := database_end db + file_rec_size\<rparr>))"
  obtain off db1 where od: "off_db = (off, db1)" by fastforce
  then have c1: "core db1 = core db" by (auto simp: off_db_def same_core split: list.splits)
  obtain db2 r2 where s2: "set_offset i n off db1 = Some db2" "db_holds {} db2 ch" "grants db2 = grants db1"
      "db_recs db2 i = Some r2" "length (devices r2) = length (devices r)"
    using set_offset_holds [of "{}" db1 ch i r n off] h i n db_holds_core [OF c1] core_eqD(1) [OF c1] by auto
  obtain ok db3 where w: "write_loop (rec_image record) file_rec_size off db2 = (ok, db3)" by fastforce
  then have c3: "core db3 = core db2" using core_write_loop [of "rec_image record" file_rec_size off db2] by simp
  obtain b db4 where m: "vxt_kmalloc db3 = (b, db4)" by fastforce
  have c4: "core db4 = core db2" "core (db4\<lparr>free_file_rec_list := l\<rparr>) = core db2" for l
    using kmalloc_core [OF m] c3 by (simp_all add: same_core)
  obtain db5 r5 where s5: "set_offset i n off db3 = Some db5" "db_holds {} db5 ch" "grants db5 = grants db3"
    using set_offset_holds [of "{}" db3 ch i r2 n off] s2 n db_holds_core [OF c3] core_eqD(1) [OF c3] by auto
  have ins: "insert_file i n record db =
      (if ok then Some (VXT_SUCCESS, db5)
       else Some (VXT_ERROR, if b then db4\<lparr>free_file_rec_list := off # free_file_rec_list db4\<rparr> else db4))"
    unfolding insert_file_def off_db_def [symmetric] od using s2(1) w m s5(1) by (auto split: bool.splits)
  show ?thesis
    unfolding ins using s2(2,3) s5(2,3) grants_core [OF c1] grants_core [OF c3]
      db_holds_core [OF c4(1)] db_holds_core [OF c4(2)] grants_core [OF c4(1)] grants_core [OF c4(2)] by auto
qed

lemma insert_internal_spec:
  assumes h: "db_holds {} db ch" and ok: "file_rec_ok record"
    and fl: "flag_set flags VXT_DB_INSERT_CLIENT \<or> flag_set flags VXT_DB_INSERT_SERVER"
  shows "\<exists>st db' ch'. vxt_db_insert_internal record flags off db = Some (st, db') \<and> db_holds {} db' ch'
    \<and> (if st = VXT_NOMEM then grants db' = grants db
       else st \<in> {VXT_SUCCESS, VXT_ERROR} \<and> grants db' = granted record (grants db))"
proof -
  have fl': "flags AND (VXT_DB_INSERT_CLIENT OR VXT_DB_INSERT_SERVER) \<noteq> 0"
    using fl by (auto simp: flag_set_def bit.conj_disj_distrib or_eq_0_iff)
  have u: "uuid_ok (fr_client record)" "uuid_ok (fr_server record)" using ok by (auto simp: file_rec_ok_def)
  define stage where "stage = (\<lambda>found. case found of
      Some i \<Rightarrow> do { r \<leftarrow> db_recs db i; Some (insert_into_rec i r record flags off db) }
    | None \<Rightarrow> Some (insert_new_rec record flags off db))"
  obtain found dev db1 where f: "find_pair db (fr_client record) (fr_server record) = Some found"
      and s: "stage found = Some (dev, db1)"
      and p: "case dev of None \<Rightarrow> core db1 = core db | Some (i, n) \<Rightarrow> placed record db ch i n db1"
  proof (cases rule: find_pair_spec [OF h u])
    case 1
    obtain dev db1 where "insert_new_rec record flags off db = (dev, db1)" by fastforce
    with insert_new_rec_placed [OF h 1(2) ok this] 1(1) that [of None dev db1] show ?thesis
      by (simp add: stage_def)
  next
    case (2 i r)
    obtain dev db1 where "insert_into_rec i r record flags off db = (dev, db1)" by fastforce
    with insert_into_rec_placed [OF h 2(2,3) ok this] 2(1,2) that [of "Some i" dev db1] show ?thesis
      by (simp add: stage_def)
  qed
  have eq: "vxt_db_insert_internal record flags off db = (case dev of
      None \<Rightarrow> Some (VXT_NOMEM, db1)
    | Some (i, n) \<Rightarrow> do {
        db \<leftarrow> insert_hashes i record flags db1;
        r \<leftarrow> db_recs db i;
        if file_offset (devices r ! n) = 0 \<and> flag_set flags VXT_DB_INSERT_FILE
        then insert_file i n record db else Some (VXT_SUCCESS, db) })"
    using fl' f s by (simp add: vxt_db_insert_internal_def stage_def)
  show ?thesis
  proof (cases dev)
    case None
    with p have c: "core db1 = core db" by simp
    with h db_holds_core [OF c] grants_core [OF c] None eq show ?thesis by auto
  next
    case (Some x)
    obtain i n where x: "x = (i, n)" by fastforce
    with Some p obtain X r where pl: "db_holds X db1 ch" "X \<subseteq> {i}" "db_recs db1 i = Some r"
        "joins (fr_client record) (fr_server record) r" "n < length (devices r)"
        "grants db1 = granted record (grants db)" by (auto simp: placed_def)
    from insert_hashes_holds [OF pl(1,3,2,4) ok fl] obtain db2 ch2 where
      h2: "insert_hashes i record flags db1 = Some db2" "db_holds {} db2 ch2" "db_recs db2 = db_recs db1" by blast
    have g2: "grants db2 = granted record (grants db)" using pl(6) h2(3) by (simp add: grants_def)
    from insert_file_holds [OF h2(2), of i r n "record"] pl(3,5) h2 g2 Some x eq show ?thesis by auto
  qed
qed

end
