(* ===== verification/Vxt_Db_Removal.thy ===== *)
theory Vxt_Db_Removal
  imports Vxt_Db_Props
begin

text \<open>
  The operations that remove records: one device or all devices of a pair, all records of a
  guest, and the whole database. Each keeps the invariant and ends.
\<close>

subsection \<open>Deleting a record\<close>

lemma drop_nth_props:
  assumes "distinct (map f xs)" and "n < length xs"
  shows "set (drop_nth n xs) = {x \<in> set xs. f x \<noteq> f (xs ! n)}" and "distinct (map f (drop_nth n xs))"
    and "length (drop_nth n xs) = length xs - 1"
proof -
  have xs: "xs = take n xs @ xs ! n # drop (Suc n) xs" using assms(2) by (rule id_take_nth_drop)
  have "distinct (map f (take n xs @ xs ! n # drop (Suc n) xs))" using assms(1) xs by simp
  then have d: "distinct (map f (take n xs @ drop (Suc n) xs))"
    "f (xs ! n) \<notin> f ` set (take n xs @ drop (Suc n) xs)" by auto
  have "set xs = insert (xs ! n) (set (take n xs @ drop (Suc n) xs))"
    using arg_cong [OF xs, of set] by simp
  moreover have "f x \<noteq> f (xs ! n)" if "x \<in> set (take n xs @ drop (Suc n) xs)" for x
    using that d(2) by (metis imageI)
  ultimately show "set (drop_nth n xs) = {x \<in> set xs. f x \<noteq> f (xs ! n)}" unfolding drop_nth_def by auto
  show "distinct (map f (drop_nth n xs))" using d(1) by (simp add: drop_nth_def)
  show "length (drop_nth n xs) = length xs - 1" using assms(2) by (simp add: drop_nth_def)
qed

lemma core_remove_rec:
  assumes "core db' = core (set_rec i r db)"
  shows "core (remove_rec i db') = core (remove_rec i db)"
  using assms by (simp add: core_def remove_rec_def)

lemma grants_remove_rec:
  assumes "db_holds X db ch" and "db_recs db i = Some r"
  shows "grants (remove_rec i db) = {g \<in> grants db. fst g \<noteq> {client r, server r}}"
  using grants_upd [OF assms, of "remove_rec i db" None] by (simp add: remove_rec_def)

lemma revoke_none: "(\<And>a. ({c, s}, a) \<notin> G) \<Longrightarrow> revoke_pair c s n G = G"
  by (auto simp: revoke_pair_def)

lemma no_record_no_grant:
  assumes "\<And>i r. db_recs db i = Some r \<Longrightarrow> \<not> joins c s r"
  shows "({c, s}, a) \<notin> grants db"
proof
  assume "({c, s}, a) \<in> grants db"
  then obtain i r where "db_recs db i = Some r" "({c, s}, a) \<in> rec_grants r"
    by (auto simp: grants_def ran_def)
  with assms [of i r] rec_grants_fst [of _ _ r] show False by (simp add: joins_def)
qed

text \<open>One device less: the record keeps its other devices, or is removed with the last one.\<close>

lemma delete_device_holds:
  assumes h: "db_holds {} db ch" and i: "db_recs db i = Some r" and n: "n < length (devices r)"
    and r': "r' = r\<lparr>devices := drop_nth n (devices r), device_count := device_count r - 1\<rparr>"
    and c1: "core db1 = core (set_rec i r' db)"
  shows "\<exists>ch'. db_holds {} (if devices r' = [] then remove_rec i db1 else db1) ch'"
    and "grants (if devices r' = [] then remove_rec i db1 else db1) =
      {(p, m, a) \<in> grants db. \<not> (p = {client r, server r} \<and> m = dev_name (devices r ! n))}"
proof -
  have ok: "rec_ok r" using db_holds_rec_ok [OF h i] .
  note dn = drop_nth_props [of dev_name "devices r" n]
  have rg: "rec_grants r' = {(p, m, a) \<in> rec_grants r. m \<noteq> dev_name (devices r ! n)}"
    using dn(1) ok n unfolding r' by (auto simp: rec_grants_def rec_ok_def)
  have eq: "{(p, m, a) \<in> grants db. \<not> (p = {client r, server r} \<and> m = dev_name (devices r ! n))}
      = {g \<in> grants db. fst g \<noteq> {client r, server r}} \<union> rec_grants r'"
  proof (rule set_eqI)
    fix g :: grant
    obtain p m a where g: "g = (p, m, a)" by (metis prod.exhaust)
    show "g \<in> {(p, m, a) \<in> grants db. \<not> (p = {client r, server r} \<and> m = dev_name (devices r ! n))} \<longleftrightarrow>
        g \<in> {g \<in> grants db. fst g \<noteq> {client r, server r}} \<union> rec_grants r'"
      using grants_of_pair [OF h i, of "(m, a)"] rec_grants_fst [of p "(m, a)" r]
      by (cases "p = {client r, server r}") (auto simp: g rg)
  qed
  have "(\<exists>ch'. db_holds {} (if devices r' = [] then remove_rec i db1 else db1) ch')
      \<and> grants (if devices r' = [] then remove_rec i db1 else db1) =
        {g \<in> grants db. fst g \<noteq> {client r, server r}} \<union> rec_grants r'"
  proof (cases "devices r' = []")
    case True
    then have "rec_grants r' = {}" by (simp add: rec_grants_def)
    moreover have c: "core (remove_rec i db1) = core (remove_rec i db)" using core_remove_rec [OF c1] .
    moreover have "db_holds {} (remove_rec i db1) (without i ch)"
      using db_holds_remove_rec [OF h i] db_holds_core [OF c] by simp
    ultimately show ?thesis using True grants_remove_rec [OF h i] grants_core [OF c] by auto
  next
    case False
    then have "length (devices r) \<noteq> 1" using dn(3) n ok unfolding r' rec_ok_def by auto
    then obtain k where k: "length (devices r) = Suc k" "k \<noteq> 0" using n by (cases "length (devices r)") auto
    have "rec_ok r'" using ok False dn n k unfolding rec_ok_def r' by auto
    then have "db_holds {} (set_rec i r' db) ch" using db_holds_set_rec [OF h i] r' by simp
    then have "db_holds {} db1 ch" using db_holds_core [OF c1] by simp
    moreover have "grants (set_rec i r' db) = {g \<in> grants db. fst g \<noteq> {client r, server r}} \<union> rec_grants r'"
      using grants_upd [OF h i, of "set_rec i r' db" "Some r'"] by simp
    ultimately show ?thesis using False grants_core [OF c1] by auto
  qed
  then show "\<exists>ch'. db_holds {} (if devices r' = [] then remove_rec i db1 else db1) ch'"
    and "grants (if devices r' = [] then remove_rec i db1 else db1) =
      {(p, m, a) \<in> grants db. \<not> (p = {client r, server r} \<and> m = dev_name (devices r ! n))}"
    unfolding eq by blast+
qed

lemma delete_record_spec:
  assumes h: "db_holds {} db ch" and u: "uuid_ok c" "uuid_ok s" and nm: "\<And>n. device = Some n \<Longrightarrow> name_ok n"
  shows "\<exists>st db' ch'. vxt_db_delete_record c s device db = Some (st, db') \<and> db_holds {} db' ch'
    \<and> grants db' = revoke_pair c s device (grants db)
    \<and> st = (if \<exists>i r. db_recs db i = Some r \<and> joins c s r then VXT_SUCCESS else VXT_PARM)"
proof (cases rule: find_pair_spec [OF h u])
  case 1
  then have "vxt_db_delete_record c s device db = Some (VXT_PARM, db)" by (simp add: vxt_db_delete_record_def)
  moreover have "revoke_pair c s device (grants db) = grants db"
    by (rule revoke_none, rule no_record_no_grant, rule 1(2))
  moreover have "\<not> (\<exists>i r. db_recs db i = Some r \<and> joins c s r)" using 1(2) by blast
  ultimately show ?thesis by (intro exI [of _ VXT_PARM] exI [of _ db] exI [of _ ch]) (simp add: h)
next
  case (2 i r)
  have ok: "rec_ok r" using db_holds_rec_ok [OF h 2(2)] .
  have pair: "{c, s} = {client r, server r}" using 2(3) by (simp add: joins_def)
  have ex: "\<exists>i r. db_recs db i = Some r \<and> joins c s r" using 2 by blast
  show ?thesis
  proof (cases device)
    case None
    let ?r = "r\<lparr>devices := [], device_count := 0\<rparr>"
    let ?db = "remove_rec i (set_rec i ?r (destroy_devs (devices r) db))"
    have del: "vxt_db_delete_record c s device db = Some (VXT_SUCCESS, ?db)"
      using None 2(1,2) by (simp add: vxt_db_delete_record_def Let_def)
    have "core (set_rec i ?r (destroy_devs (devices r) db)) = core (set_rec i ?r db)"
      by (rule set_rec_core) (simp add: same_core)
    then have c: "core ?db = core (remove_rec i db)" by (rule core_remove_rec)
    have "db_holds {} ?db (without i ch)"
      using db_holds_remove_rec [OF h 2(2)] db_holds_core [OF c] by simp
    moreover have "grants ?db = revoke_pair c s device (grants db)"
      using grants_remove_rec [OF h 2(2)] grants_core [OF c] None pair by (auto simp: revoke_pair_def)
    ultimately show ?thesis using del ex by auto
  next
    case (Some name)
    have named: "named name d \<longleftrightarrow> dev_name d = name" if "d \<in> set (devices r)" for d
      using that ok nm [OF Some] by (simp add: rec_ok_def)
    show ?thesis
    proof (cases "index_of (named name) (devices r)")
      case None
      then have "({c, s}, name, a) \<notin> grants db" for a
        unfolding pair using grants_of_pair [OF h 2(2)] named by (auto simp: rec_grants_def index_of_None)
      then have "revoke_pair c s device (grants db) = grants db" using Some by (auto simp: revoke_pair_def)
      moreover have "vxt_db_delete_record c s device db = Some (VXT_SUCCESS, db)"
        using Some None 2(1,2) ok by (simp add: vxt_db_delete_record_def rec_ok_def)
      ultimately show ?thesis using h ex by auto
    next
      case (Some n)
      from index_of_Some [OF Some] have n: "n < length (devices r)" "dev_name (devices r ! n) = name"
        using named by auto
      define r' where "r' = r\<lparr>devices := drop_nth n (devices r), device_count := device_count r - 1\<rparr>"
      define db1 where "db1 = set_rec i r' (snd (vxt_db_destroy_dev_rec (devices r ! n) db))"
      have "core db1 = core (set_rec i r' db)"
        unfolding db1_def by (rule set_rec_core) (simp add: same_core)
      note dd = delete_device_holds [OF h 2(2) n(1) r'_def this]
      have "vxt_db_delete_record c s device db =
          Some (VXT_SUCCESS, if devices r' = [] then remove_rec i db1 else db1)"
        using \<open>device = Some name\<close> Some 2(1,2)
        by (simp add: vxt_db_delete_record_def Let_def r'_def db1_def)
      moreover have "revoke_pair c s device (grants db) =
          {(p, m, a) \<in> grants db. \<not> (p = {client r, server r} \<and> m = dev_name (devices r ! n))}"
        unfolding revoke_pair_def pair n(2) \<open>device = Some name\<close> by auto
      ultimately show ?thesis using dd ex by auto
    qed
  qed
qed

subsection \<open>Deleting a guest\<close>

definition gone :: "entry \<Rightarrow> (nat \<Rightarrow> entry list) \<Rightarrow> nat \<Rightarrow> entry list" where
  "gone e ch b = filter (\<lambda>x. x \<noteq> e) (ch b)"

lemma gone_both: "gone (Srv i) (gone (Cli i) ch) = without i ch" "gone (Cli i) (gone (Srv i) ch) = without i ch"
proof -
  have "parent e = Some i \<longleftrightarrow> e = Cli i \<or> e = Srv i" for e by (cases e) auto
  then show "gone (Srv i) (gone (Cli i) ch) = without i ch" "gone (Cli i) (gone (Srv i) ch) = without i ch"
    by (auto simp: fun_eq_iff gone_def without_def conj_commute)
qed

lemma chains_reset:
  assumes "chains A s ch" and "e \<in> A"
  shows "chains A (reset_entry e s) (gone e ch)"
proof -
  have "(\<lambda>b. remove1 e (ch b)) = gone e ch"
    using db_chains.distinct_chain [OF assms(1)]
    by (auto simp: fun_eq_iff gone_def distinct_remove1_removeAll removeAll_filter_not_eq intro!: filter_cong)
  with db_chains.reset [OF assms] show ?thesis by (simp add: reset_entry_def)
qed

lemma db_holds_reset:
  assumes h: "db_holds X db ch" and i: "db_recs db i = Some r" and e: "parent e = Some i"
  shows "db_holds (insert i X) (on_table (reset_entry e) db) (gone e ch)"
  unfolding db_holds_def
proof (intro conjI allI ballI impI)
  have "e \<in> entries db" using i e by (cases e) auto
  from chains_reset [OF db_holds_chains [OF h] this]
  show "chains (entries (on_table (reset_entry e) db)) (hash_table (on_table (reset_entry e) db)) (gone e ch)" by simp
  show "b \<in> {bucket_of (client q), bucket_of (server q)}"
    if "x \<in> set (gone e ch b)" "rec_at (on_table (reset_entry e) db) x = Some q" for b x q
    using that db_holds_bucket [OF h, of x b q] by (simp add: gone_def)
  show "\<exists>b. Cli j \<in> set (gone e ch b) \<or> Srv j \<in> set (gone e ch b)"
    if j: "db_recs (on_table (reset_entry e) db) j = Some q" "j \<notin> insert i X" for j q
  proof -
    obtain b where "Cli j \<in> set (ch b) \<or> Srv j \<in> set (ch b)" using j db_holds_listed [OF h, of j q] by auto
    then show ?thesis using j(2) e by (intro exI [of _ b]) (auto simp: gone_def)
  qed
  show "rec_ok q" if "db_recs (on_table (reset_entry e) db) j = Some q" for j q
    using that db_holds_rec_ok [OF h] by simp
  show "db_recs (on_table (reset_entry e) db) j = None" if "next_rec (on_table (reset_entry e) db) \<le> j" for j
    using that db_holds_fresh [OF h] by simp
  show "j = k" if "db_recs (on_table (reset_entry e) db) j = Some p"
    "db_recs (on_table (reset_entry e) db) k = Some q" "joins (client p) (server p) q" for j k p q
    using that db_holds_pair [OF h] by simp
qed

lemma release_rec_holds:
  assumes h: "db_holds {i} db ch" and i: "db_recs db i = Some r"
  shows "db_holds {} (release_rec i r db) ch"
    and "db_recs (release_rec i r db) =
      (if \<exists>b. Cli i \<in> set (ch b) \<or> Srv i \<in> set (ch b) then db_recs db else (db_recs db)(i := None))"
proof -
  note c = db_holds_chains [OF h]
  have live: "Cli i \<in> entries db" "Srv i \<in> entries db" using i by auto
  have off: "nxt (hash_table db) (Cli i) \<noteq> Cli i \<or> nxt (hash_table db) (Srv i) \<noteq> Srv i \<longleftrightarrow>
      (\<exists>b. Cli i \<in> set (ch b) \<or> Srv i \<in> set (ch b))"
    using db_chains.off_chain [OF c live(1)] db_chains.off_chain [OF c live(2)] by blast
  have "db_holds {} (release_rec i r db) ch \<and> db_recs (release_rec i r db) =
      (if \<exists>b. Cli i \<in> set (ch b) \<or> Srv i \<in> set (ch b) then db_recs db else (db_recs db)(i := None))"
  proof (cases "\<exists>b. Cli i \<in> set (ch b) \<or> Srv i \<in> set (ch b)")
    case True
    then obtain b e where "e \<in> set (ch b)" "parent e = Some i" by auto
    from db_holds_listed_entry [OF h this] True off show ?thesis by (simp add: release_rec_def)
  next
    case False
    have out: "parent e \<noteq> Some i" if "e \<in> set (ch b)" for e b using that False by - (cases e, auto)
    then have w: "without i ch = ch" by (auto simp: fun_eq_iff without_def filter_id_conv)
    have sub: "set (ch b) \<subseteq> entries db - {Cli i, Srv i}" for b using chains_sub [OF c] False by blast
    have "chains (entries db - {Cli i, Srv i}) (hash_table db) (without i ch)"
      unfolding w by (rule db_chains.shrink [OF c Diff_subset sub])
    moreover have rel: "release_rec i r db = free_rec i (destroy_devs (devices r) db)"
      using False off by (simp add: release_rec_def)
    have cd: "core (destroy_devs (devices r) db) = core db" by (simp add: same_core)
    have cr: "core (release_rec i r db) = ((db_recs db)(i := None), hash_table db, next_rec db)"
      unfolding rel using core_eqD [OF cd] by (simp add: core_def)
    ultimately have "db_holds ({i} - {i}) (release_rec i r db) ch"
      using db_holds_without [OF h, of i "hash_table db" "release_rec i r db"] w by simp
    moreover have "db_recs (release_rec i r db) = (db_recs db)(i := None)" using cr by (simp add: core_def)
    ultimately show ?thesis using False by simp
  qed
  then show "db_holds {} (release_rec i r db) ch" and "db_recs (release_rec i r db) =
      (if \<exists>b. Cli i \<in> set (ch b) \<or> Srv i \<in> set (ch b) then db_recs db else (db_recs db)(i := None))"
    by blast+
qed

text \<open>The entries one round of the deletion takes out of their lists.\<close>

definition leaves_hub :: "vxt_db_rec \<Rightarrow> string \<Rightarrow> bool \<Rightarrow> bool" where
  "leaves_hub r g migrate \<longleftrightarrow>
     \<not> migrate \<or> (if client r = g then server r else client r) = VXTDB_DOM0_ENDPOINT"

definition chains_after :: "nat \<Rightarrow> vxt_db_rec \<Rightarrow> string \<Rightarrow> bool \<Rightarrow> (nat \<Rightarrow> entry list) \<Rightarrow> nat \<Rightarrow> entry list" where
  "chains_after i r g migrate ch =
     (if leaves_hub r g migrate then without i ch
      else gone (if client r = g then Cli i else Srv i) ch)"

lemma detach_rec_holds:
  assumes h: "db_holds {} db ch" and i: "db_recs db i = Some r" and g: "uuid_ok g"
  shows "db_holds {i} (detach_rec i r g migrate db) (chains_after i r g migrate ch)"
    and "db_recs (detach_rec i r g migrate db) = db_recs db"
proof -
  have ok: "uuid_ok (client r)" "uuid_ok (server r)" using db_holds_rec_ok [OF h i] by (simp_all add: rec_ok_def)
  note eqs = strn_eq_uuid [OF ok(1) g] strn_eq_uuid [OF ok(1) uuid_ok_dom0] strn_eq_uuid [OF ok(2) uuid_ok_dom0]
  have c: "db_holds {i} (on_table (reset_entry (Cli i)) db) (gone (Cli i) ch)"
    and s: "db_holds {i} (on_table (reset_entry (Srv i)) db) (gone (Srv i) ch)"
    using db_holds_reset [OF h i] by auto
  have cs: "db_holds {i} (on_table (reset_entry (Srv i)) (on_table (reset_entry (Cli i)) db)) (without i ch)"
    and sc: "db_holds {i} (on_table (reset_entry (Cli i)) (on_table (reset_entry (Srv i)) db)) (without i ch)"
    using db_holds_reset [OF c, of i r "Srv i"] db_holds_reset [OF s, of i r "Cli i"] i gone_both [of i ch] by simp_all
  show "db_holds {i} (detach_rec i r g migrate db) (chains_after i r g migrate ch)"
    using c s cs sc by (auto simp: detach_rec_def Let_def chains_after_def leaves_hub_def eqs)
  show "db_recs (detach_rec i r g migrate db) = db_recs db"
    by (simp add: detach_rec_def Let_def)
qed

lemma delete_guest_round:
  fixes migrate :: bool
  assumes h: "db_holds {} db ch" and i: "db_recs db i = Some r" and g: "uuid_ok g"
  defines "db' \<equiv> release_rec i r (detach_rec i r g migrate db)" and "ch' \<equiv> chains_after i r g migrate ch"
  shows "db_holds {} db' ch'"
    and "db_recs db' = (if \<exists>b. Cli i \<in> set (ch' b) \<or> Srv i \<in> set (ch' b) then db_recs db else (db_recs db)(i := None))"
  using release_rec_holds [OF detach_rec_holds(1) [OF h i g, of migrate], of r] detach_rec_holds(2) [OF h i g, of migrate] i
  unfolding db'_def ch'_def by simp_all

text \<open>What the lookup of a guest finds in its bucket.\<close>

lemma lookup_guest:
  assumes h: "db_holds {} db ch" and g: "uuid_ok g"
  obtains (none) "vxt_db_uuid_lookup db g None = Some None"
      "\<And>e. e \<in> set (ch (bucket_of g)) \<Longrightarrow> \<not> of_guest db g e"
  | (found) e i r where "vxt_db_uuid_lookup db g None = Some (Some (e, client r = g))" "e \<in> set (ch (bucket_of g))"
      "parent e = Some i" "db_recs db i = Some r" "g \<in> {client r, server r}"
proof -
  note l = uuid_lookup_first_match [OF h g, of None]
  show thesis
  proof (cases "first_match db g None (ch (bucket_of g))")
    case None
    have "\<not> of_guest db g e" if e: "e \<in> set (ch (bucket_of g))" for e
    proof -
      from db_holds_rec_at [OF h e] obtain r where r: "rec_at db e = Some r" "rec_ok r" by metis
      with first_match_None [OF None e r(1)] endpoint_match_None [OF r(2) g] show ?thesis
        by (auto simp: of_guest_def split: if_splits)
    qed
    with l None none show ?thesis by simp
  next
    case (Some x)
    obtain e c where x: "x = (e, c)" by fastforce
    note f = first_match_Some [OF Some [unfolded x]]
    from db_holds_rec_at [OF h f(1)] obtain i r where
      r: "parent e = Some i" "db_recs db i = Some r" "rec_at db e = Some r" "rec_ok r" .
    with f(2) endpoint_match_None [OF r(4) g] have "c = (client r = g)" "g \<in> {client r, server r}"
      by (auto split: if_splits)
    with l Some x f(1) r found [of e r i] show ?thesis by simp
  qed
qed

lemma finite_records:
  assumes "db_holds X db ch"
  shows "finite (dom (db_recs db))"
proof (rule finite_subset)
  show "dom (db_recs db) \<subseteq> {..<next_rec db}" using db_holds_fresh [OF assms] by (force simp: not_less [symmetric])
qed simp

lemma card_remove_rec:
  assumes "db_holds X db ch" and "db_recs db i = Some r"
  shows "card (dom ((db_recs db)(i := None))) < card (dom (db_recs db))"
  using finite_records [OF assms(1)] assms(2) by (auto intro!: psubset_card_mono)

lemma parent_iff: "parent e = Some i \<longleftrightarrow> e = Cli i \<or> e = Srv i"
  by (cases e) auto

lemma without_out: "Cli i \<notin> set (without i ch b)" "Srv i \<notin> set (without i ch b)"
  by (simp_all add: without_def)

text \<open>
  When every record of the guest goes with it, the deletion ends: each round removes a
  record, and the last one finds no entry of the guest.
\<close>

definition guest_leaves :: "vxt_auth_database \<Rightarrow> string \<Rightarrow> bool \<Rightarrow> bool" where
  "guest_leaves db g migrate \<longleftrightarrow>
     (\<forall>r \<in> ran (db_recs db). g \<in> {client r, server r} \<longrightarrow> leaves_hub r g migrate)"

text \<open>A record that a walk along the bucket of the guest's name meets.\<close>

definition met_for :: "vxt_auth_database \<Rightarrow> string \<Rightarrow> nat \<Rightarrow> bool" where
  "met_for db g i \<longleftrightarrow> (\<exists>n. ((nxt (hash_table db)) ^^ n) (Head (bucket_of g)) \<in> {Cli i, Srv i})"

lemma walk_in:
  assumes c: "chains (entries db) (hash_table db) ch"
  shows "((nxt (hash_table db)) ^^ n) (Head b) \<in> insert (Head b) (set (ch b))"
proof (induction n)
  case (Suc n)
  let ?e = "((nxt (hash_table db)) ^^ n) (Head b)"
  show ?case
  proof (cases "?e = Head b")
    case True
    then show ?thesis using db_chains.walk_first [OF c, of b] by (cases "ch b") simp_all
  next
    case False
    with Suc.IH obtain us vs where "ch b = us @ ?e # vs" by (auto simp: in_set_conv_decomp)
    then show ?thesis using db_chains.walk_next [OF c, of b us ?e vs] by (cases vs) auto
  qed
qed simp

lemma walk_all:
  assumes c: "chains (entries db) (hash_table db) ch"
  shows "ch b = us @ e # vs \<Longrightarrow> ((nxt (hash_table db)) ^^ Suc (length us)) (Head b) = e"
proof (induction us arbitrary: e vs rule: rev_induct)
  case Nil
  then show ?case using db_chains.walk_first [OF c, of b] by simp
next
  case (snoc u us)
  then have "((nxt (hash_table db)) ^^ Suc (length us)) (Head b) = u" by simp
  then show ?case using db_chains.walk_next [OF c, of b us u "e # vs"] snoc.prems by simp
qed

lemma met_for_chain:
  assumes "db_holds X db ch"
  shows "met_for db g i \<longleftrightarrow> Cli i \<in> set (ch (bucket_of g)) \<or> Srv i \<in> set (ch (bucket_of g))"
proof
  note c = db_holds_chains [OF assms]
  show "met_for db g i" if "Cli i \<in> set (ch (bucket_of g)) \<or> Srv i \<in> set (ch (bucket_of g))"
  proof -
    from that obtain e where e: "e \<in> {Cli i, Srv i}" "e \<in> set (ch (bucket_of g))" by blast
    then obtain us vs where "ch (bucket_of g) = us @ e # vs" by (auto simp: in_set_conv_decomp)
    from walk_all [OF c this] e(1) show ?thesis unfolding met_for_def by metis
  qed
  assume "met_for db g i"
  then obtain n where "((nxt (hash_table db)) ^^ n) (Head (bucket_of g)) \<in> {Cli i, Srv i}" by (auto simp: met_for_def)
  with walk_in [OF c, of n "bucket_of g"] show "Cli i \<in> set (ch (bucket_of g)) \<or> Srv i \<in> set (ch (bucket_of g))" by auto
qed

text \<open>The records of the guest that its own bucket leads to.\<close>

definition own_rec :: "vxt_auth_database \<Rightarrow> string \<Rightarrow> nat \<Rightarrow> bool" where
  "own_rec db g i \<longleftrightarrow> (\<exists>r. db_recs db i = Some r \<and> g \<in> {client r, server r}) \<and> met_for db g i"

lemma delete_guest_spec:
  assumes "db_holds {} db ch" and "uuid_ok g" and "guest_leaves db g migrate"
  shows "\<exists>db' ch'. vxt_db_delete_guest g migrate db = Some (VXT_SUCCESS, db') \<and> db_holds {} db' ch'
    \<and> vxt_db_uuid_lookup db' g None = Some None
    \<and> (\<forall>i. db_recs db' i = (if own_rec db g i then None else db_recs db i))"
  using assms
proof (induction "card (dom (db_recs db))" arbitrary: db ch rule: less_induct)
  case less
  note h = less.prems(1) and g = less.prems(2)
  show ?case
  proof (cases rule: lookup_guest [OF h g])
    case 1
    then have "vxt_db_delete_guest g migrate db = Some (VXT_SUCCESS, db)"
      by (subst vxt_db_delete_guest.simps) simp
    moreover have "\<not> own_rec db g i" for i
      using 1(2) [of "Cli i"] 1(2) [of "Srv i"] by (auto simp: own_rec_def met_for_chain [OF h] of_guest_def)
    ultimately show ?thesis using h 1(1) by auto
  next
    case (2 e i r)
    let ?db = "release_rec i r (detach_rec i r g migrate db)"
    have "leaves_hub r g migrate" using less.prems(3) 2(4,5) by (auto simp: guest_leaves_def ran_def)
    then have "chains_after i r g migrate ch = without i ch" by (simp add: chains_after_def)
    with delete_guest_round [OF h 2(4) g, of migrate] without_out [of i ch]
    have d: "db_holds {} ?db (without i ch)" "db_recs ?db = (db_recs db)(i := None)" by simp_all
    have "guest_leaves ?db g migrate"
      using less.prems(3) unfolding guest_leaves_def d(2) by (auto simp: ran_def split: if_splits)
    with less.hyps [OF _ d(1) g] card_remove_rec [OF h 2(4)] d(2) obtain db' ch' where
      r: "vxt_db_delete_guest g migrate ?db = Some (VXT_SUCCESS, db')" "db_holds {} db' ch'"
        "vxt_db_uuid_lookup db' g None = Some None"
        "\<forall>j. db_recs db' j = (if own_rec ?db g j then None else db_recs ?db j)" by auto
    have "vxt_db_delete_guest g migrate db = Some (VXT_SUCCESS, db')"
      using 2(1,3,4) r(1) by (subst vxt_db_delete_guest.simps) simp
    moreover have "db_recs db' j = (if own_rec db g j then None else db_recs db j)" for j
    proof (cases "j = i")
      case True
      have "own_rec db g i" using 2(2-5) by (auto simp: own_rec_def met_for_chain [OF h] parent_iff)
      with True r(4) d(2) show ?thesis by simp
    next
      case False
      then have "own_rec ?db g j = own_rec db g j"
        unfolding own_rec_def met_for_chain [OF h] met_for_chain [OF d(1)] d(2) by (auto simp: without_def)
      with False r(4) d(2) show ?thesis by simp
    qed
    ultimately show ?thesis using r(2,3) by blast
  qed
qed

text \<open>
  A migrating guest whose record stays in the guest's own bucket, because both of its
  endpoints hash alike, is found again in every round.
\<close>

definition stuck :: "string \<Rightarrow> vxt_auth_database \<Rightarrow> bool" where
  "stuck g db \<longleftrightarrow> (\<exists>ch i r. db_holds {} db ch \<and> db_recs db i = Some r \<and> client r = g \<and> server r \<noteq> g
     \<and> server r \<noteq> VXTDB_DOM0_ENDPOINT \<and> Srv i \<in> set (ch (bucket_of g)))"

lemma stuck_round:
  assumes "stuck g db" and g: "uuid_ok g"
  shows "\<exists>x i r. vxt_db_uuid_lookup db g None = Some (Some x) \<and> parent (fst x) = Some i \<and> db_recs db i = Some r
    \<and> stuck g (release_rec i r (detach_rec i r g True db))"
proof -
  from assms obtain ch i r where h: "db_holds {} db ch" and r: "db_recs db i = Some r" "client r = g" "server r \<noteq> g"
    "server r \<noteq> VXTDB_DOM0_ENDPOINT" "Srv i \<in> set (ch (bucket_of g))" by (auto simp: stuck_def)
  show ?thesis
  proof (cases rule: lookup_guest [OF h g])
    case 1
    have "of_guest db g (Srv i)" using r by (auto simp: of_guest_def)
    with 1(2) r(5) show ?thesis by blast
  next
    case (2 e j q)
    let ?db = "release_rec j q (detach_rec j q g True db)" and ?ch = "chains_after j q g True ch"
    note d = delete_guest_round [OF h 2(4) g, of True]
    have srv: "Srv i \<in> set (?ch (bucket_of g))"
    proof (cases "j = i")
      case True
      with 2(4) r have "q = r" by simp
      with True r show ?thesis by (simp add: chains_after_def leaves_hub_def gone_def)
    next
      case False
      with r(5) show ?thesis by (auto simp: chains_after_def without_def gone_def)
    qed
    then have "db_recs ?db i = Some r" using d(2) r(1) by auto
    with d(1) srv r have "stuck g ?db" unfolding stuck_def by blast
    with 2 show ?thesis by auto
  qed
qed

lemma stuck_diverges:
  assumes g: "uuid_ok g" and s: "stuck g db"
  shows "vxt_db_delete_guest g True db = None"
proof (rule ccontr)
  assume "vxt_db_delete_guest g True db \<noteq> None"
  then obtain y where y: "vxt_db_delete_guest g True db = Some y" by blast
  have "\<not> stuck g db"
  proof (rule vxt_db_delete_guest.raw_induct [where P = "\<lambda>g' m db _. g' = g \<longrightarrow> m \<longrightarrow> \<not> stuck g db", OF _ y, rule_format], goal_cases)
    case (1 del g' m db z)
    show ?case
    proof
      assume st: "stuck g db"
      from stuck_round [OF this g] obtain x i r where
        x: "vxt_db_uuid_lookup db g None = Some (Some x)" "parent (fst x) = Some i" "db_recs db i = Some r"
          "stuck g (release_rec i r (detach_rec i r g True db))" by blast
      with 1 show False by auto
    qed
  qed simp_all
  with s show False by simp
qed

subsection \<open>Deleting the database\<close>

lemma delete_bucket_round:
  assumes h: "db_holds {} db ch" and b: "ch b = e # es"
  obtains i r where "parent e = Some i" "db_recs db i = Some r"
    "delete_bucket b db = delete_bucket b (free_rec i (on_table (unlink (if e = Cli i then Srv i else Cli i) \<circ> unlink e) db))"
    "db_holds {} (free_rec i (on_table (unlink (if e = Cli i then Srv i else Cli i) \<circ> unlink e) db)) (without i ch)"
proof -
  have "e \<in> set (ch b)" using b by simp
  from db_holds_rec_at [OF h this] obtain i r where i: "parent e = Some i" "db_recs db i = Some r" by metis
  define other where "other = (if e = Cli i then Srv i else Cli i)"
  note c = db_holds_chains [OF h]
  have eo: "e = Cli i \<and> other = Srv i \<or> e = Srv i \<and> other = Cli i"
    using i(1) unfolding parent_iff other_def by auto
  have live: "e \<in> entries db" "other \<in> entries db - {e}" using eo i(2) by auto
  have c1: "chains (entries db - {e}) (unlink e (hash_table db)) (\<lambda>b. remove1 e (ch b))"
    using db_chains.detached [OF c live(1)] .
  have skip: "(if nxt (unlink e (hash_table db)) other \<noteq> other then on_table (unlink other) (on_table (unlink e) db)
      else on_table (unlink e) db) = on_table (unlink other \<circ> unlink e) db"
    using db_chains.off_chain [OF c1 live(2)] db_chains.pull_noop [OF c1 live(2)] by (auto simp: on_table_def)
  have "nxt (hash_table db) (Head b) = e" using db_chains.walk_first [OF c, of b] b by simp
  moreover have "e \<noteq> Head b" using i(1) by auto
  ultimately have step: "delete_bucket b db = delete_bucket b (free_rec i (on_table (unlink other \<circ> unlink e) db))"
    using i skip eo by (subst delete_bucket.simps) (elim disjE conjE; auto simp: Let_def split: if_splits)
  have "chains (entries db - {Cli i, Srv i}) (unlink other (unlink e (hash_table db))) (without i ch)"
    using chains_unlink_both [OF c, of i] eo i(2) by auto
  then have "db_holds ({} - {i}) (free_rec i (on_table (unlink other \<circ> unlink e) db)) (without i ch)"
    by (rule db_holds_without [OF h]) (simp add: core_def)
  with that [of i r] i step show ?thesis unfolding other_def by simp
qed

lemma delete_bucket_spec:
  assumes "db_holds {} db ch"
  shows "\<exists>db' ch'. delete_bucket b db = Some db' \<and> db_holds {} db' ch' \<and> ch' b = []
    \<and> (\<forall>b'. ch b' = [] \<longrightarrow> ch' b' = [])"
  using assms
proof (induction "card (dom (db_recs db))" arbitrary: db ch rule: less_induct)
  case less
  note h = less.prems
  show ?case
  proof (cases "ch b")
    case Nil
    then have "nxt (hash_table db) (Head b) = Head b"
      using db_chains.walk_first [OF db_holds_chains [OF h], of b] by simp
    then have "delete_bucket b db = Some db" by (subst delete_bucket.simps) simp
    with Nil h show ?thesis by blast
  next
    case (Cons e es)
    from delete_bucket_round [OF h Cons] obtain i r where
      i: "db_recs db i = Some r" and step: "delete_bucket b db =
        delete_bucket b (free_rec i (on_table (unlink (if e = Cli i then Srv i else Cli i) \<circ> unlink e) db))"
      and h': "db_holds {} (free_rec i (on_table (unlink (if e = Cli i then Srv i else Cli i) \<circ> unlink e) db)) (without i ch)"
      by metis
    have "without i ch b' = []" if "ch b' = []" for b' using that by (simp add: without_def)
    with less.hyps [OF _ h'] card_remove_rec [OF h i] step show ?thesis by fastforce
  qed
qed

lemma delete_buckets_spec:
  assumes "db_holds {} db ch"
  shows "\<exists>db' ch'. delete_buckets bs db = Some db' \<and> db_holds {} db' ch' \<and> (\<forall>b \<in> set bs. ch' b = [])
    \<and> (\<forall>b. ch b = [] \<longrightarrow> ch' b = [])"
  using assms
proof (induction bs arbitrary: db ch)
  case Nil
  then show ?case by auto
next
  case (Cons b bs)
  from delete_bucket_spec [OF Cons.prems, of b] obtain db1 ch1 where
    1: "delete_bucket b db = Some db1" "db_holds {} db1 ch1" "ch1 b = []" "\<forall>b'. ch b' = [] \<longrightarrow> ch1 b' = []" by blast
  from Cons.IH [OF 1(2)] obtain db2 ch2 where
    2: "delete_buckets bs db1 = Some db2" "db_holds {} db2 ch2" "\<forall>b \<in> set bs. ch2 b = []"
      "\<forall>b. ch1 b = [] \<longrightarrow> ch2 b = []" by blast
  with 1 show ?case by (intro exI [of _ db2] exI [of _ ch2]) auto
qed

text \<open>Every record is on a list of one of the buckets, so that none is left.\<close>

lemma vxt_db_delete_spec:
  assumes "db_holds {} db ch"
  shows "\<exists>db'. vxt_db_delete del db = Some (VXT_SUCCESS, db') \<and> db_recs db' = Map.empty \<and> free_file_rec_list db' = []"
proof -
  from delete_buckets_spec [OF assms, of "[0..<VXT_HASH_TABLE_SIZE]"] obtain db1 ch1 where
    1: "delete_buckets [0..<VXT_HASH_TABLE_SIZE] db = Some db1" "db_holds {} db1 ch1"
      "\<forall>b \<in> set [0..<VXT_HASH_TABLE_SIZE]. ch1 b = []" by blast
  have "db_recs db1 i = None" for i
  proof (rule ccontr)
    assume "db_recs db1 i \<noteq> None"
    then obtain r where r: "db_recs db1 i = Some r" by blast
    from db_holds_listed [OF 1(2) r] obtain b e where e: "e \<in> set (ch1 b)" "rec_at db1 e = Some r"
      using r by auto
    have "rec_ok r" using db_holds_rec_ok [OF 1(2) r] .
    then have "b < VXT_HASH_TABLE_SIZE" using db_holds_bucket [OF 1(2) e] bucket_less by (auto simp: rec_ok_def)
    with 1(3) e(1) show False by simp
  qed
  then have "db_recs db1 = Map.empty" by auto
  with 1(1) show ?thesis by (simp add: vxt_db_delete_def Let_def)
qed

end
