(* ===== verification/Vxt_Db_Dump.thy ===== *)
theory Vxt_Db_Dump
  imports Vxt_Db_Removal
begin

text \<open>
  Counting and dumping the records of a guest: the three walks visit the same entries of the
  guest's bucket in the same order.
\<close>

subsection \<open>The entries of a guest\<close>

definition entry_recs :: "vxt_auth_database \<Rightarrow> entry \<Rightarrow> vxt_db_file_rec list" where
  "entry_recs db e = (case rec_at db e of None \<Rightarrow> [] | Some r \<Rightarrow> map (dev_file_rec r) (devices r))"

definition dump_list :: "vxt_auth_database \<Rightarrow> string \<Rightarrow> entry list \<Rightarrow> vxt_db_file_rec list" where
  "dump_list db g es = concat (map (entry_recs db) (filter (of_guest db g) es))"

lemma dump_list_simps [simp]:
  "dump_list db g [] = []"
  "dump_list db g (e # es) = (if of_guest db g e then entry_recs db e @ dump_list db g es else dump_list db g es)"
  by (simp_all add: dump_list_def)

lemma lookup_guest_find:
  assumes h: "db_holds X db ch" and g: "uuid_ok g"
  shows "\<exists>x. vxt_db_uuid_lookup db g None = Some x \<and> map_option fst x = find (of_guest db g) (ch (bucket_of g))"
proof -
  have "map_option fst (first_match db g None es) = find (of_guest db g) es" if "set es \<subseteq> set (ch b)" for es b
    using that
  proof (induction es)
    case (Cons e es)
    then have "e \<in> set (ch b)" by simp
    from db_holds_rec_at [OF h this] obtain r where r: "rec_at db e = Some r" "rec_ok r" by metis
    with Cons endpoint_match_None [OF r(2) g] show ?case by (auto simp: first_match_def of_guest_def)
  qed (simp add: first_match_def)
  with uuid_lookup_first_match [OF h g, of None] show ?thesis by blast
qed

lemma next_guest:
  assumes h: "db_holds X db ch" and g: "uuid_ok g" and "ch (bucket_of g) = us @ e # vs"
  shows "vxt_db_lookup_next db g e = Some (find (of_guest db g) vs)"
  using lookup_next_find [OF h g, of "bucket_of g" "us @ [e]" vs] assms(3) hash_bucket [OF g]
    db_chains.walk_next [OF db_holds_chains [OF h] assms(3)]
  by (simp add: vxt_db_lookup_next_def)

text \<open>Induction along a bucket from one entry of the guest to the next.\<close>

lemma guest_walk_induct [consumes 3, case_names stop skip visit]:
  assumes h: "db_holds X db ch" and g: "uuid_ok g" and "ch (bucket_of g) = us @ vs"
    and stop: "P []"
    and skip: "\<And>e vs. \<not> of_guest db g e \<Longrightarrow> P vs \<Longrightarrow> P (e # vs)"
    and visit: "\<And>e vs r. rec_at db e = Some r \<Longrightarrow> rec_ok r \<Longrightarrow> of_guest db g e \<Longrightarrow>
        vxt_db_lookup_next db g e = Some (find (of_guest db g) vs) \<Longrightarrow> P vs \<Longrightarrow> P (e # vs)"
  shows "P vs"
  using assms(3)
proof (induction vs arbitrary: us)
  case Nil
  show ?case by (rule stop)
next
  case (Cons e vs)
  have IH: "P vs" using Cons.IH [of "us @ [e]"] Cons.prems by simp
  show ?case
  proof (cases "of_guest db g e")
    case True
    have "e \<in> set (ch (bucket_of g))" using Cons.prems by simp
    from db_holds_rec_at [OF h this] obtain r where "rec_at db e = Some r" "rec_ok r" by metis
    from visit [OF this True next_guest [OF h g Cons.prems] IH] show ?thesis .
  qed (rule skip [OF _ IH])
qed

subsection \<open>Counting\<close>

lemma dev_count_walk:
  assumes "db_holds X db ch" and "uuid_ok g" and "ch (bucket_of g) = us @ vs"
  shows "\<forall>n. dev_count_loop db g (find (of_guest db g) vs) n = Some (n + word_of_nat (length (dump_list db g vs)))"
  using assms
proof (induction rule: guest_walk_induct)
  case stop
  show ?case by (simp add: dev_count_loop.simps)
next
  case (skip e vs)
  then show ?case by simp
next
  case (visit e vs r)
  then show ?case
    by (simp add: dev_count_loop.simps [of _ _ "Some e"] entry_recs_def rec_ok_def add.assoc)
qed

subsection \<open>Dumping into the caller's array\<close>

text \<open>The records \<open>new\<close> have been stored from the position \<open>k\<close> on, as far as the size allows.\<close>

definition stored :: "nat \<Rightarrow> nat \<Rightarrow> 'a list \<Rightarrow> 'a list \<Rightarrow> 'a list \<Rightarrow> bool" where
  "stored sz k new buf buf' \<longleftrightarrow> length buf' = length buf
     \<and> take (min sz (k + length new)) buf' = take (min sz (k + length new)) (take k buf @ new)
     \<and> drop (min sz (k + length new)) buf' = drop (min sz (k + length new)) buf"

lemma stored_Nil: "k \<le> sz \<Longrightarrow> stored sz k [] buf buf"
  by (simp add: stored_def)

lemma stored_append:
  assumes "stored sz k xs buf buf1" and "stored sz (k + length xs) ys buf1 buf2" and "k + length xs \<le> sz" and "sz \<le> length buf"
  shows "stored sz k (xs @ ys) buf buf2"
proof -
  have m: "min sz (k + length xs) = k + length xs" using assms(3) by simp
  have t1: "take (k + length xs) buf1 = take k buf @ xs" and d1: "drop (k + length xs) buf1 = drop (k + length xs) buf"
      and l1: "length buf1 = length buf"
    using assms by (auto simp: stored_def m)
  let ?n = "min sz (k + length xs + length ys)"
  have n: "k + length xs \<le> ?n" using assms(3) by simp
  then have "drop ?n buf1 = drop ?n buf"
    using arg_cong [OF d1, of "drop (?n - (k + length xs))"] by simp
  with assms(2) l1 t1 show ?thesis by (simp add: stored_def add.assoc)
qed

lemma stored_update:
  assumes "k < sz" and "sz \<le> length buf"
  shows "stored sz k [x] buf (buf[k := x])"
proof -
  have m: "min sz (k + 1) = Suc k" using assms by simp
  have "take (Suc k) (buf[k := x]) = take k buf @ [x]" using assms by (simp add: take_Suc_conv_app_nth)
  then show ?thesis using assms by (simp add: stored_def)
qed

lemma unat_add_less: "unat (a :: 'a::len word) + n \<le> unat (b :: 'a word) \<Longrightarrow> unat (a + word_of_nat n) = unat a + n"
proof -
  assume le: "unat a + n \<le> unat b"
  have "unat b < 2 ^ LENGTH('a)" by simp
  with le have "unat a + n < 2 ^ LENGTH('a)" "n < 2 ^ LENGTH('a)" by linarith+
  then show ?thesis by (simp add: unat_word_ariths unsigned_of_nat take_bit_nat_eq_self)
qed

lemma dump_devs_spec:
  assumes "k \<le> sz" and "unat sz \<le> length buf"
  shows "\<exists>buf'. dump_devs r ds sz k buf =
      Some (unat sz < unat k + length ds, if unat sz < unat k + length ds then sz else k + word_of_nat (length ds), buf')
    \<and> stored (unat sz) (unat k) (map (dev_file_rec r) ds) buf buf'"
  using assms
proof (induction ds arbitrary: k buf)
  case Nil
  then show ?case by (simp add: stored_Nil word_le_nat_alt not_less)
next
  case (Cons d ds)
  show ?case
  proof (cases "k = sz")
    case True
    with Cons.prems show ?thesis by (auto simp: stored_def)
  next
    case False
    with Cons.prems have less: "k < sz" by simp
    then have k1: "unat (k + 1) = Suc (unat k)" by (rule unat_Suc_less)
    have less': "unat k < unat sz" using less by (simp add: word_less_nat_alt)
    have le: "k + 1 \<le> sz" using k1 less' by (simp add: word_le_nat_alt)
    let ?b = "buf[unat k := dev_file_rec r d]"
    from Cons.IH [OF le, of ?b] Cons.prems obtain buf' where
      IH: "dump_devs r ds sz (k + 1) ?b = Some (unat sz < unat (k + 1) + length ds,
          if unat sz < unat (k + 1) + length ds then sz else k + 1 + word_of_nat (length ds), buf')"
        "stored (unat sz) (unat (k + 1)) (map (dev_file_rec r) ds) ?b buf'" by auto
    have "stored (unat sz) (unat k) ([dev_file_rec r d] @ map (dev_file_rec r) ds) buf buf'"
      by (rule stored_append [OF stored_update [OF less' Cons.prems(2)]]) (use IH(2) k1 less' Cons.prems in auto)
    moreover have "dump_devs r (d # ds) sz k buf = dump_devs r ds sz (k + 1) ?b"
      using less' Cons.prems by (simp add: word_le_nat_alt)
    ultimately show ?thesis using IH(1) k1 by (simp add: add.assoc)
  qed
qed

lemma dump_walk:
  assumes "db_holds X db ch" and "uuid_ok g" and "ch (bucket_of g) = us @ vs"
  shows "\<forall>k buf. k \<le> sz \<longrightarrow> unat sz \<le> length buf \<longrightarrow>
    (\<exists>buf'. dump_guest_loop db g (find (of_guest db g) vs) sz k buf =
        Some \<lparr>dr_buffer = buf',
              dr_size = if unat sz < unat k + length (dump_list db g vs) then sz
                        else k + word_of_nat (length (dump_list db g vs)),
              dr_overrun = unat sz < unat k + length (dump_list db g vs)\<rparr>
      \<and> stored (unat sz) (unat k) (dump_list db g vs) buf buf')"
  using assms
proof (induction rule: guest_walk_induct)
  case stop
  show ?case by (simp add: dump_guest_loop.simps stored_Nil word_le_nat_alt not_less)
next
  case (skip e vs)
  then have "find (of_guest db g) (e # vs) = find (of_guest db g) vs" "dump_list db g (e # vs) = dump_list db g vs"
    by simp_all
  with skip(2) show ?case by (simp only:)
next
  case (visit e vs r)
  show ?case
  proof (intro allI impI)
    fix k buf assume k: "k \<le> sz" and sz: "unat sz \<le> length (buf :: vxt_db_file_rec list)"
    let ?n = "length (devices r)"
    from dump_devs_spec [OF k sz, of r "devices r"] obtain buf1 where
      d: "dump_devs r (devices r) sz k buf =
          Some (unat sz < unat k + ?n, if unat sz < unat k + ?n then sz else k + word_of_nat ?n, buf1)"
        "stored (unat sz) (unat k) (map (dev_file_rec r) (devices r)) buf buf1" by blast
    have dl: "dump_list db g (e # vs) = map (dev_file_rec r) (devices r) @ dump_list db g vs"
      using visit by (simp add: entry_recs_def)
    have l1: "length buf1 = length buf" using d(2) by (simp add: stored_def)
    show "\<exists>buf'. dump_guest_loop db g (find (of_guest db g) (e # vs)) sz k buf =
        Some \<lparr>dr_buffer = buf',
              dr_size = if unat sz < unat k + length (dump_list db g (e # vs)) then sz
                        else k + word_of_nat (length (dump_list db g (e # vs))),
              dr_overrun = unat sz < unat k + length (dump_list db g (e # vs))\<rparr>
      \<and> stored (unat sz) (unat k) (dump_list db g (e # vs)) buf buf'"
    proof (cases "unat sz < unat k + ?n")
      case True
      then have "dump_guest_loop db g (find (of_guest db g) (e # vs)) sz k buf =
          Some \<lparr>dr_buffer = buf1, dr_size = sz, dr_overrun = True\<rparr>"
        using visit d(1) by (simp add: dump_guest_loop.simps [of _ _ "Some e"])
      moreover have "stored (unat sz) (unat k) (dump_list db g (e # vs)) buf buf1"
        using d(2) True k sz unfolding dl by (auto simp: stored_def word_le_nat_alt)
      ultimately show ?thesis using True unfolding dl by simp
    next
      case False
      then have u: "unat (k + word_of_nat ?n) = unat k + ?n" by (intro unat_add_less [of _ _ sz]) simp
      then have le: "k + word_of_nat ?n \<le> sz" using False by (simp add: word_le_nat_alt)
      from visit(5) [rule_format, OF le, of buf1] sz l1 obtain buf2 where
        i: "dump_guest_loop db g (find (of_guest db g) vs) sz (k + word_of_nat ?n) buf1 =
            Some \<lparr>dr_buffer = buf2,
              dr_size = if unat sz < unat k + ?n + length (dump_list db g vs) then sz
                        else k + word_of_nat ?n + word_of_nat (length (dump_list db g vs)),
              dr_overrun = unat sz < unat k + ?n + length (dump_list db g vs)\<rparr>"
          "stored (unat sz) (unat k + ?n) (dump_list db g vs) buf1 buf2" unfolding u by auto
      have "dump_guest_loop db g (find (of_guest db g) (e # vs)) sz k buf =
          dump_guest_loop db g (find (of_guest db g) vs) sz (k + word_of_nat ?n) buf1"
        using visit d(1) False by (simp add: dump_guest_loop.simps [of _ _ "Some e"])
      moreover have "stored (unat sz) (unat k) (dump_list db g (e # vs)) buf buf2"
        unfolding dl by (rule stored_append [OF d(2)]) (use i(2) False sz in auto)
      ultimately show ?thesis using i(1) unfolding dl by (simp add: add.assoc)
    qed
  qed
qed

subsection \<open>Dumping into a list\<close>

lemma dump_devs_local_spec:
  assumes "mallocs db = []"
  shows "dump_devs_local r ds l db = (Some (rev (map (dev_file_rec r) ds) @ l), db)"
  using assms by (induction ds arbitrary: l) (simp_all add: vxt_kmalloc_def)

lemma dump_local_walk:
  assumes "db_holds X db ch" and "uuid_ok g" and "ch (bucket_of g) = us @ vs" and m: "mallocs db = []"
  shows "\<forall>l. dump_guest_local_loop g (find (of_guest db g) vs) l db = Some (rev (dump_list db g vs) @ l, db)"
  using assms(1-3)
proof (induction rule: guest_walk_induct)
  case stop
  show ?case by (simp add: dump_guest_local_loop.simps)
next
  case (skip e vs)
  then show ?case by simp
next
  case (visit e vs r)
  then show ?case
    by (simp add: dump_guest_local_loop.simps [of _ "Some e"] dump_devs_local_spec [OF m] entry_recs_def)
qed

subsection \<open>The three operations\<close>

lemma dump_guest_spec:
  assumes h: "db_holds {} db ch" and g: "uuid_ok g"
  defines "l \<equiv> dump_list db g (ch (bucket_of g))"
  shows "vxt_db_guest_dev_count db g = Some (VXT_SUCCESS, word_of_nat (length l))"
    and "mallocs db = [] \<Longrightarrow> vxt_db_dump_guest_local g db = Some (rev l, db)"
    and "unat sz \<le> length buf \<Longrightarrow> \<exists>buf'. vxt_db_dump_guest db g buf sz =
      Some (VXT_SUCCESS, \<lparr>dr_buffer = buf', dr_size = if unat sz < length l then sz else word_of_nat (length l),
        dr_overrun = unat sz < length l\<rparr>) \<and> stored (unat sz) 0 l buf buf'"
proof -
  obtain x where x: "vxt_db_uuid_lookup db g None = Some x" "map_option fst x = find (of_guest db g) (ch (bucket_of g))"
    using lookup_guest_find [OF h g] by blast
  show "vxt_db_guest_dev_count db g = Some (VXT_SUCCESS, word_of_nat (length l))"
    using dev_count_walk [OF h g, of "[]" "ch (bucket_of g)"] x by (simp add: vxt_db_guest_dev_count_def l_def)
  show "vxt_db_dump_guest_local g db = Some (rev l, db)" if "mallocs db = []"
    using dump_local_walk [OF h g, of "[]" "ch (bucket_of g)"] x that by (simp add: vxt_db_dump_guest_local_def l_def)
  show "\<exists>buf'. vxt_db_dump_guest db g buf sz =
      Some (VXT_SUCCESS, \<lparr>dr_buffer = buf', dr_size = if unat sz < length l then sz else word_of_nat (length l),
        dr_overrun = unat sz < length l\<rparr>) \<and> stored (unat sz) 0 l buf buf'" if "unat sz \<le> length buf"
  proof -
    from dump_walk [OF h g, of "[]" "ch (bucket_of g)" sz, rule_format, of 0 buf] that obtain buf' where
      "dump_guest_loop db g (find (of_guest db g) (ch (bucket_of g))) sz 0 buf =
        Some \<lparr>dr_buffer = buf', dr_size = if unat sz < length l then sz else word_of_nat (length l),
          dr_overrun = unat sz < length l\<rparr>" "stored (unat sz) 0 l buf buf'"
      unfolding l_def by auto
    with x show ?thesis by (simp add: vxt_db_dump_guest_def)
  qed
qed

end
