(* ===== verification/Vxt_Db_File.thy ===== *)
theory Vxt_Db_File
  imports Vxt_Db_Removal
begin

text \<open>
  The database file: the layout of its records, and the agreement between the file and the
  records in memory that insertion and deletion keep while the file system does not fail.
\<close>

subsection \<open>The layout of a record\<close>

lemma length_le_bytes [simp]: "length (le_bytes n v) = n"
  by (induction n arbitrary: v) auto

lemma le_value_bytes: "le_value (le_bytes n v) = v mod 256 ^ n"
proof (induction n arbitrary: v)
  case (Suc n)
  have "v mod 256 + 256 * (v div 256 mod 256 ^ n) = v mod (256 * 256 ^ n)"
    by (simp add: mod_mult2_eq)
  with Suc show ?case by simp
qed simp

lemma length_c_field [simp]: "length (c_field n s) = n"
  by (simp add: c_field_def)

lemma c_string_field: "length s \<le> n \<Longrightarrow> NUL \<notin> set s \<Longrightarrow> c_string (c_field n s) = s"
proof -
  assume s: "length s \<le> n" "NUL \<notin> set s"
  then have "takeWhile (\<lambda>c. c \<noteq> NUL) (s @ replicate (n - length s) NUL) = s"
    by (cases "n - length s") (auto simp: takeWhile_append takeWhile_eq_all_conv)
  with s show ?thesis by (simp add: c_string_def c_field_def)
qed

lemma length_rec_image [simp]: "length (rec_image r) = file_rec_size"
  by (simp add: rec_image_def file_rec_size_def MAX_VXT_UNAME_def)

lemma image_rec_image:
  assumes "file_rec_ok r"
  shows "image_rec (rec_image r) = r"
proof -
  have f: "of_bool (fr_valid r) + 2 * of_bool (fr_direct r) < (256 :: nat) ^ 8"
    by (cases "fr_valid r"; cases "fr_direct r") simp_all
  have n: "unat x mod 18446744073709551616 = unat x" for x :: u64
  proof -
    have "unat x < 2 ^ LENGTH(64)" by (rule unsigned_less)
    then show ?thesis by simp
  qed
  have "c_string (c_field 40 (fr_client r)) = fr_client r" "c_string (c_field 40 (fr_server r)) = fr_server r"
    "c_string (c_field 64 (fr_dev_name r)) = fr_dev_name r"
    using assms by (simp_all add: file_rec_ok_def uuid_ok_def name_ok_def c_string_field)
  then show ?thesis
    using f by (simp add: image_rec_def rec_image_def MAX_VXT_UNAME_def le_value_bytes n)
qed

lemma image_rec_take: "image_rec (take file_rec_size bs) = image_rec bs"
  by (simp add: image_rec_def file_rec_size_def drop_take)

lemma deleted_image_invalid:
  assumes "length bs = file_rec_size"
  shows "\<not> fr_valid (image_rec (deleted_image bs))"
proof -
  obtain b tl where bs: "deleted_image bs = b # tl" "b = char_of (of_char (bs ! 0) div 2 * 2 :: nat)"
    using assms by (cases bs) (auto simp: deleted_image_def file_rec_size_def)
  have lt: "of_char (bs ! 0) < (256 :: nat)"
    using of_char_mod_256 [of "bs ! 0", where 'a = nat] by (metis mod_less_divisor zero_less_numeral)
  have "of_char (bs ! 0) div 2 * 2 < (256 :: nat)" using lt by linarith
  then have "even (of_char b :: nat)" using bs(2) by simp
  then have "even (le_value (take 8 (deleted_image bs)))" using bs(1) by simp
  then show ?thesis by (simp add: image_rec_def)
qed

lemma length_deleted [simp]: "length (deleted_image bs) = length bs"
  by (simp add: deleted_image_def)

subsection \<open>Slots\<close>

definition aligned :: "nat \<Rightarrow> bool" where
  "aligned off \<longleftrightarrow> (\<exists>j. off = header_size + file_rec_size * j)"

definition slot :: "char list \<Rightarrow> nat \<Rightarrow> vxt_db_file_rec" where
  "slot f off = image_rec (drop off f)"

lemma aligned_apart:
  assumes "aligned a" and "aligned b" and "a \<noteq> b"
  shows "a + file_rec_size \<le> b \<or> b + file_rec_size \<le> a"
proof -
  obtain j k where a: "a = header_size + file_rec_size * j" and b: "b = header_size + file_rec_size * k"
    using assms by (auto simp: aligned_def)
  with assms(3) have "j < k \<or> k < j" by auto
  then have "Suc j \<le> k \<or> Suc k \<le> j" by auto
  then have "file_rec_size * Suc j \<le> file_rec_size * k \<or> file_rec_size * Suc k \<le> file_rec_size * j"
    by (meson mult_le_mono2)
  then show ?thesis unfolding a b by auto
qed

lemma aligned_Suc: "aligned off \<Longrightarrow> aligned (off + file_rec_size)"
  unfolding aligned_def by (metis add.assoc mult_Suc_right add.commute)

lemma aligned_fits: "aligned off \<Longrightarrow> aligned n \<Longrightarrow> off < n \<Longrightarrow> off + file_rec_size \<le> n"
  using aligned_apart [of off n] by auto

lemma length_file_put:
  assumes "length bs = file_rec_size" and "off \<le> length f"
  shows "length (file_put f off bs) = max (length f) (off + file_rec_size)"
  using assms by (auto simp: file_put_def)

lemma slot_put_same:
  assumes "length bs = file_rec_size" and "off \<le> length f"
  shows "slot (file_put f off bs) off = image_rec bs"
proof -
  have "bs \<noteq> []" using assms(1) by (auto simp: file_rec_size_def)
  then have "drop off (file_put f off bs) = bs @ drop (off + length bs) f"
    using assms(2) by (simp add: file_put_def)
  then have "image_rec (take file_rec_size (drop off (file_put f off bs))) = image_rec bs"
    using assms(1) by simp
  then show ?thesis by (simp add: slot_def image_rec_take)
qed

lemma slot_put_other:
  assumes bs: "length bs = file_rec_size" and off: "off \<le> length f" and al: "aligned off" "aligned a" "a \<noteq> off"
    and a: "a + file_rec_size \<le> length f"
  shows "slot (file_put f off bs) a = slot f a"
proof -
  have ne: "bs \<noteq> []" using bs by (auto simp: file_rec_size_def)
  have "take file_rec_size (drop a (file_put f off bs)) = take file_rec_size (drop a f)"
  proof (cases "a + file_rec_size \<le> off")
    case True
    then have "take (file_rec_size + a) (file_put f off bs) = take (file_rec_size + a) f"
      using ne off by (simp add: file_put_def)
    then show ?thesis by (simp only: take_drop)
  next
    case False
    then have "off + file_rec_size \<le> a" using aligned_apart [OF al(2,1,3)] by auto
    then show ?thesis using ne off bs by (simp add: file_put_def)
  qed
  then show ?thesis unfolding slot_def by (metis image_rec_take)
qed

subsection \<open>Agreement of file and memory\<close>

definition dev_set :: "vxt_auth_database \<Rightarrow> (string set \<times> vxt_dev_rec) set" where
  "dev_set db = {({client r, server r}, d) | r d. r \<in> ran (db_recs db) \<and> d \<in> set (devices r)}"

definition dev_grant :: "string set \<times> vxt_dev_rec \<Rightarrow> grant" where
  "dev_grant x = (fst x, dev_name (snd x), class_name_length (snd x), label (snd x))"

definition file_grant :: "vxt_db_file_rec \<Rightarrow> grant" where
  "file_grant record = ({fr_client record, fr_server record}, fr_dev_name record, fr_class_name_length record, fr_label record)"

lemma grants_dev_set: "grants db = dev_grant ` dev_set db"
  by (force simp: grants_def dev_set_def dev_grant_def rec_grants_def)

text \<open>
  \<open>mirror f e free D\<close>: the valid slots of the file \<open>f\<close> of length \<open>e\<close> are those of the devices \<open>D\<close>, each
  with the device's grant, and the list \<open>free\<close> holds slots that are not valid.
\<close>

definition mirror :: "char list \<Rightarrow> nat \<Rightarrow> nat list \<Rightarrow> (string set \<times> vxt_dev_rec) set \<Rightarrow> bool" where
  "mirror f e free D \<longleftrightarrow> length f = e \<and> aligned e
     \<and> (\<forall>x \<in> D. aligned (file_offset (snd x)) \<and> file_offset (snd x) < e
          \<and> fr_valid (slot f (file_offset (snd x))) \<and> file_rec_ok (slot f (file_offset (snd x)))
          \<and> file_grant (slot f (file_offset (snd x))) = dev_grant x)
     \<and> (\<forall>off < e. aligned off \<longrightarrow> fr_valid (slot f off) \<longrightarrow> (\<exists>x \<in> D. file_offset (snd x) = off))
     \<and> distinct free \<and> (\<forall>off \<in> set free. aligned off \<and> off < e \<and> \<not> fr_valid (slot f off))"

definition reliable :: "'a kernel_scheme \<Rightarrow> bool" where
  "reliable k \<longleftrightarrow> kernel_ds k \<and> mallocs k = [] \<and> writes k = [] \<and> length (stale k) = file_rec_size"

definition mirrored :: "vxt_auth_database \<Rightarrow> bool" where
  "mirrored db \<longleftrightarrow> reliable db \<and> mirror (dfile db) (database_end db) (free_file_rec_list db) (dev_set db)"

lemma mirror_slotD:
  assumes "mirror f e free D" and "x \<in> D"
  shows "aligned (file_offset (snd x))" and "file_offset (snd x) < e" and "fr_valid (slot f (file_offset (snd x)))"
    and "file_rec_ok (slot f (file_offset (snd x)))" and "file_grant (slot f (file_offset (snd x))) = dev_grant x"
  using assms unfolding mirror_def by blast+

lemma mirror_inj:
  assumes m: "mirror f e free D" and x: "x \<in> D" "y \<in> D" and eq: "file_offset (snd x) = file_offset (snd y)"
  shows "x = y"
proof -
  have "dev_grant x = dev_grant y" using mirror_slotD(5) [OF m] x eq by metis
  with eq show ?thesis by (auto simp: dev_grant_def prod_eq_iff)
qed

lemma mirror_add:
  assumes m: "mirror f e free D" and ok: "file_rec_ok record" and v: "fr_valid record"
    and g: "dev_grant x = file_grant record"
    and off: "free = file_offset (snd x) # free' \<and> e' = e
      \<or> free = [] \<and> free' = [] \<and> file_offset (snd x) = e \<and> e' = e + file_rec_size"
  shows "mirror (file_put f (file_offset (snd x)) (rec_image record)) e' free' (insert x D)"
proof -
  define pos where "pos = file_offset (snd x)"
  let ?f = "file_put f pos (rec_image record)"
  have len: "length f = e" and al: "aligned e" using m by (auto simp: mirror_def)
  have pos: "aligned pos" "pos \<le> e"
    and free': "\<And>a. a \<in> set free' \<Longrightarrow> a \<in> set free \<and> a \<noteq> pos" and dist: "distinct free'"
    using off m al unfolding pos_def mirror_def by (auto dest: less_imp_le)
  have fresh: "file_offset (snd y) \<noteq> pos" if "y \<in> D" for y
    using off m mirror_slotD(2,3) [OF m that] unfolding pos_def mirror_def by auto
  have le: "e \<le> e'" and fits: "pos + file_rec_size \<le> e'" and pos_less: "pos < e'"
    using off pos aligned_fits [OF pos(1) al] m unfolding pos_def mirror_def by (auto simp: file_rec_size_def)
  have "length ?f = e'"
    using length_file_put [of "rec_image record" pos f] pos len off al aligned_fits [OF pos(1) al] m
    unfolding pos_def mirror_def by (auto simp: max_def)
  moreover have "aligned e'" using off al aligned_Suc by auto
  moreover have here: "slot ?f pos = record" using slot_put_same [of "rec_image record" pos f] pos len image_rec_image [OF ok] by simp
  moreover have there: "slot ?f a = slot f a" if "aligned a" "a < e" "a \<noteq> pos" for a
    using slot_put_other [of "rec_image record" pos f a] that pos len aligned_fits [OF that(1) al] by simp
  moreover have "aligned (file_offset (snd y)) \<and> file_offset (snd y) < e' \<and> fr_valid (slot ?f (file_offset (snd y)))
      \<and> file_rec_ok (slot ?f (file_offset (snd y))) \<and> file_grant (slot ?f (file_offset (snd y))) = dev_grant y"
    if "y \<in> insert x D" for y
  proof (cases "y = x")
    case True
    then show ?thesis using here pos(1) pos_less ok v g by (simp flip: pos_def)
  next
    case False
    with that have y: "y \<in> D" by simp
    note s = mirror_slotD [OF m y]
    with there [OF s(1,2) fresh [OF y]] le show ?thesis by auto
  qed
  moreover have "\<exists>y \<in> insert x D. file_offset (snd y) = a" if a: "a < e'" "aligned a" "fr_valid (slot ?f a)" for a
  proof (cases "a = pos")
    case False
    have "a < e" using a off False aligned_apart [OF a(2) pos(1) False] unfolding pos_def by auto
    with a there [OF a(2) _ False] m show ?thesis unfolding mirror_def by auto
  qed (auto simp: pos_def)
  moreover have "aligned a \<and> a < e' \<and> \<not> fr_valid (slot ?f a)" if "a \<in> set free'" for a
    using free' [OF that] m there [of a] le unfolding mirror_def by auto
  ultimately show ?thesis using dist unfolding mirror_def pos_def by blast
qed

lemma mirror_remove:
  assumes m: "mirror f e free D" and x: "x \<in> D" and st: "length st = file_rec_size"
  shows "mirror (file_put f (file_offset (snd x)) (deleted_image st)) e (file_offset (snd x) # free) (D - {x})"
proof -
  define pos where "pos = file_offset (snd x)"
  let ?f = "file_put f pos (deleted_image st)"
  have len: "length f = e" and al: "aligned e" using m by (auto simp: mirror_def)
  note sx = mirror_slotD [OF m x, folded pos_def]
  have here: "\<not> fr_valid (slot ?f pos)"
    using slot_put_same [of "deleted_image st" pos f] sx len st deleted_image_invalid [OF st] by simp
  have there: "slot ?f a = slot f a" if "aligned a" "a < e" "a \<noteq> pos" for a
    using slot_put_other [of "deleted_image st" pos f a] that sx len st aligned_fits [OF that(1) al] by simp
  have "length ?f = e"
    using length_file_put [of "deleted_image st" pos f] sx len st aligned_fits [OF sx(1) al] by simp
  moreover have "file_offset (snd y) \<noteq> pos" if "y \<in> D - {x}" for y
    using mirror_inj [OF m, of y x] that x unfolding pos_def by auto
  then have "aligned (file_offset (snd y)) \<and> file_offset (snd y) < e \<and> fr_valid (slot ?f (file_offset (snd y)))
      \<and> file_rec_ok (slot ?f (file_offset (snd y))) \<and> file_grant (slot ?f (file_offset (snd y))) = dev_grant y"
    if "y \<in> D - {x}" for y
    using that mirror_slotD [OF m, of y] there [of "file_offset (snd y)"] by auto
  moreover have "\<exists>y \<in> D - {x}. file_offset (snd y) = a" if a: "a < e" "aligned a" "fr_valid (slot ?f a)" for a
  proof -
    have ne: "a \<noteq> pos" using here a(3) by auto
    with a there [OF a(2,1)] m obtain y where "y \<in> D" "file_offset (snd y) = a" unfolding mirror_def by auto
    with ne show ?thesis unfolding pos_def by auto
  qed
  moreover have "pos \<notin> set free" using m sx(3) unfolding mirror_def by auto
  moreover have "aligned a \<and> a < e \<and> \<not> fr_valid (slot ?f a)" if "a \<in> set (pos # free)" for a
    using that m here sx there [of a] unfolding mirror_def by (cases "a = pos") auto
  ultimately show ?thesis using m al unfolding mirror_def pos_def by auto
qed

end
