(* ===== verification/Vxt_Db_Recovery.thy ===== *)
theory Vxt_Db_Recovery
  imports Vxt_Db_File
begin

text \<open>
  Insertion and deletion keep the database file in agreement with memory, and the scan of
  the file by \<^verbatim>\<open>vxt_db_create\<close> rebuilds the grants of the database that wrote it.
\<close>

subsection \<open>The kernel when nothing fails\<close>

lemma reliable_kmalloc: "reliable k \<Longrightarrow> vxt_kmalloc k = (True, k)"
  by (simp add: reliable_def vxt_kmalloc_def)

lemma reliable_write:
  assumes "reliable k"
  shows "vxt_file_write k buf n pos = (int n, pos + n, k\<lparr>dfile := file_put (dfile k) pos (take n buf)\<rparr>)"
  using assms by (simp add: reliable_def vxt_file_write_def)

lemma reliable_write_loop:
  assumes "reliable k" and "length buf = file_rec_size"
  shows "write_loop buf file_rec_size pos k = (True, k\<lparr>dfile := file_put (dfile k) pos buf\<rparr>)"
  using assms by (subst write_loop.simps) (simp add: reliable_write write_loop.simps [of _ 0] file_rec_size_def)

lemma reliable_destroy:
  assumes "reliable db"
  shows "vxt_db_destroy_dev_rec d db = (VXT_SUCCESS,
    db\<lparr>dfile := file_put (dfile db) (file_offset d) (deleted_image (stale db)),
       free_file_rec_list := file_offset d # free_file_rec_list db\<rparr>)"
proof -
  have "length (stale db) = file_rec_size" using assms by (simp add: reliable_def)
  moreover have "reliable (db\<lparr>dfile := f\<rparr>)" for f using assms by (simp add: reliable_def)
  ultimately show ?thesis using assms
    by (simp add: vxt_db_destroy_dev_rec_def reliable_write reliable_kmalloc)
qed

text \<open>The fields a step of the database leaves alone.\<close>

definition same_files :: "vxt_auth_database \<Rightarrow> vxt_auth_database \<Rightarrow> bool" where
  "same_files db db' \<longleftrightarrow> dfile db' = dfile db \<and> database_end db' = database_end db
     \<and> free_file_rec_list db' = free_file_rec_list db \<and> reliable db' = reliable db"

lemma same_files_simps [simp]:
  "same_files db db" "same_files db (set_rec i r db') = same_files db db'"
  "same_files db (free_rec i db') = same_files db db'" "same_files db (on_table f db') = same_files db db'"
  "same_files db (db'\<lparr>next_rec := n\<rparr>) = same_files db db'"
  by (simp_all add: same_files_def set_rec_def free_rec_def on_table_def reliable_def)

lemma same_files_trans: "same_files a b \<Longrightarrow> same_files b c \<Longrightarrow> same_files a c"
  by (simp add: same_files_def)

lemma mirrored_same: "same_files db db' \<Longrightarrow> dev_set db' = dev_set db \<Longrightarrow> mirrored db' = mirrored db"
  by (simp add: same_files_def mirrored_def)

lemma dev_set_recs: "db_recs db' = db_recs db \<Longrightarrow> dev_set db' = dev_set db"
  by (simp add: dev_set_def)

subsection \<open>Deleting devices\<close>

lemma destroy_devs_mirror:
  assumes "reliable db" and "mirror (dfile db) (database_end db) (free_file_rec_list db) D"
    and "distinct ds" and "(\<lambda>d. (p, d)) ` set ds \<subseteq> D"
  shows "reliable (destroy_devs ds db) \<and> mirror (dfile (destroy_devs ds db)) (database_end (destroy_devs ds db))
    (free_file_rec_list (destroy_devs ds db)) (D - (\<lambda>d. (p, d)) ` set ds)"
  using assms
proof (induction ds arbitrary: db D)
  case Nil
  then show ?case by (simp add: destroy_devs_def)
next
  case (Cons d ds)
  let ?db = "snd (vxt_db_destroy_dev_rec d db)"
  have d: "?db = db\<lparr>dfile := file_put (dfile db) (file_offset d) (deleted_image (stale db)),
       free_file_rec_list := file_offset d # free_file_rec_list db\<rparr>"
    using reliable_destroy [OF Cons.prems(1)] by simp
  have "reliable ?db" using Cons.prems(1) unfolding d by (simp add: reliable_def)
  moreover have "mirror (dfile ?db) (database_end ?db) (free_file_rec_list ?db) (D - {(p, d)})"
    using mirror_remove [OF Cons.prems(2), of "(p, d)" "stale db"] Cons.prems(1,4) unfolding d
    by (simp add: reliable_def)
  moreover have "distinct ds" "(\<lambda>d. (p, d)) ` set ds \<subseteq> D - {(p, d)}" using Cons.prems(3,4) by auto
  moreover have "destroy_devs (d # ds) db = destroy_devs ds ?db" by (simp add: destroy_devs_def)
  moreover have "D - {(p, d)} - (\<lambda>d. (p, d)) ` set ds = D - (\<lambda>d. (p, d)) ` set (d # ds)" by auto
  ultimately show ?case using Cons.IH [of ?db "D - {(p, d)}"] by simp
qed

lemma dev_set_upd:
  assumes h: "db_holds X db ch" and i: "db_recs db i = Some r" and d: "db_recs db' = (db_recs db)(i := v)"
  shows "dev_set db' = {x \<in> dev_set db. fst x \<noteq> {client r, server r}}
    \<union> (case v of None \<Rightarrow> {} | Some r' \<Rightarrow> (\<lambda>d. ({client r', server r'}, d)) ` set (devices r'))"
proof -
  have other: "{client q, server q} \<noteq> {client r, server r}" if "db_recs db j = Some q" "j \<noteq> i" for j q
    using db_holds_pair [OF h i that(1)] that(2) by (auto simp: joins_def)
  have mem': "x \<in> dev_set db' \<longleftrightarrow> (\<exists>j q. j \<noteq> i \<and> db_recs db j = Some q \<and> x \<in> (\<lambda>d. ({client q, server q}, d)) ` set (devices q))
      \<or> (\<exists>q. v = Some q \<and> x \<in> (\<lambda>d. ({client q, server q}, d)) ` set (devices q))" for x
    unfolding dev_set_def ran_def d by (force split: if_splits)
  have mem: "x \<in> dev_set db \<longleftrightarrow> (\<exists>j q. db_recs db j = Some q \<and> x \<in> (\<lambda>d. ({client q, server q}, d)) ` set (devices q))" for x
    unfolding dev_set_def ran_def by force
  have rest: "(\<exists>j q. j \<noteq> i \<and> db_recs db j = Some q \<and> x \<in> (\<lambda>d. ({client q, server q}, d)) ` set (devices q)) \<longleftrightarrow>
      x \<in> dev_set db \<and> fst x \<noteq> {client r, server r}" for x
  proof
    assume "\<exists>j q. j \<noteq> i \<and> db_recs db j = Some q \<and> x \<in> (\<lambda>d. ({client q, server q}, d)) ` set (devices q)"
    then obtain j q d where j: "j \<noteq> i" "db_recs db j = Some q" "x = ({client q, server q}, d)" "d \<in> set (devices q)"
      by blast
    with other [OF j(2,1)] show "x \<in> dev_set db \<and> fst x \<noteq> {client r, server r}" unfolding mem by auto
  next
    assume x: "x \<in> dev_set db \<and> fst x \<noteq> {client r, server r}"
    then obtain j q where "db_recs db j = Some q" "x \<in> (\<lambda>d. ({client q, server q}, d)) ` set (devices q)"
      unfolding mem by blast
    moreover from this x i have "j \<noteq> i" by auto
    ultimately show "\<exists>j q. j \<noteq> i \<and> db_recs db j = Some q \<and> x \<in> (\<lambda>d. ({client q, server q}, d)) ` set (devices q)" by blast
  qed
  show ?thesis
  proof (rule set_eqI)
    fix x
    show "x \<in> dev_set db' \<longleftrightarrow> x \<in> {x \<in> dev_set db. fst x \<noteq> {client r, server r}}
        \<union> (case v of None \<Rightarrow> {} | Some r' \<Rightarrow> (\<lambda>d. ({client r', server r'}, d)) ` set (devices r'))"
      unfolding mem' rest by (cases v) simp_all
  qed
qed

lemma dev_set_union: "dev_set db = (\<Union>r \<in> ran (db_recs db). (\<lambda>d. ({client r, server r}, d)) ` set (devices r))"
  by (auto simp: dev_set_def)

lemma dev_set_rec: "db_recs db i = Some r \<Longrightarrow> d \<in> set (devices r) \<Longrightarrow> ({client r, server r}, d) \<in> dev_set db"
  by (auto simp: dev_set_def ran_def)

lemma dev_set_pair:
  assumes h: "db_holds X db ch" and i: "db_recs db i = Some r"
  shows "dev_set db = {x \<in> dev_set db. fst x \<noteq> {client r, server r}} \<union> (\<lambda>d. ({client r, server r}, d)) ` set (devices r)"
  using dev_set_upd [OF h i, of db "Some r"] i by (simp add: fun_upd_idem)

lemma rec_devices_distinct: "rec_ok r \<Longrightarrow> distinct (devices r)"
  by (auto simp: rec_ok_def distinct_map)

lemma delete_record_mirrored:
  assumes h: "db_holds {} db ch" and m: "mirrored db" and u: "uuid_ok c" "uuid_ok s"
    and del: "vxt_db_delete_record c s device db = Some (st, db')"
  shows "mirrored db'"
proof (cases rule: find_pair_spec [OF h u])
  case 1
  with del m show ?thesis by (simp add: vxt_db_delete_record_def)
next
  case (2 i r)
  let ?P = "{client r, server r}"
  have rel: "reliable db" and mir: "mirror (dfile db) (database_end db) (free_file_rec_list db) (dev_set db)"
    using m by (auto simp: mirrored_def)
  have ok: "rec_ok r" using db_holds_rec_ok [OF h 2(2)] .
  text \<open>Destroying some of the devices and leaving the record with the others.\<close>
  have step: "mirrored (if devices r' = [] then remove_rec i (set_rec i r' (destroy_devs ds db))
      else set_rec i r' (destroy_devs ds db))"
    if ds: "distinct ds" "set ds \<subseteq> set (devices r)" and r': "set (devices r') = set (devices r) - set ds"
      "client r' = client r" "server r' = server r" for ds r'
  proof -
    let ?db1 = "destroy_devs ds db"
    let ?db2 = "if devices r' = [] then remove_rec i (set_rec i r' ?db1) else set_rec i r' ?db1"
    have "(\<lambda>d. (?P, d)) ` set ds \<subseteq> dev_set db" using ds(2) dev_set_rec [OF 2(2)] by auto
    note dm = destroy_devs_mirror [OF rel mir ds(1) this]
    have "core ?db1 = core db" by (simp add: same_core)
    then have recs: "db_recs ?db1 = db_recs db" by (rule core_eqD)
    have "db_recs ?db2 = (db_recs db)(i := if devices r' = [] then None else Some r')"
      by (simp add: remove_rec_def recs)
    from dev_set_upd [OF h 2(2) this] r'
    have "dev_set ?db2 = {x \<in> dev_set db. fst x \<noteq> ?P} \<union> (\<lambda>d. (?P, d)) ` (set (devices r) - set ds)"
      by (auto split: if_splits)
    also have "\<dots> = dev_set db - (\<lambda>d. (?P, d)) ` set ds"
      by (subst (2) dev_set_pair [OF h 2(2)]) auto
    finally have "dev_set ?db2 = dev_set db - (\<lambda>d. (?P, d)) ` set ds" .
    moreover have "same_files ?db1 ?db2" by (simp add: remove_rec_def)
    ultimately show ?thesis using dm by (simp add: mirrored_def same_files_def)
  qed
  show ?thesis
  proof (cases device)
    case None
    have "db' = remove_rec i (set_rec i (r\<lparr>devices := [], device_count := 0\<rparr>) (destroy_devs (devices r) db))"
      using None 2(1,2) del by (simp add: vxt_db_delete_record_def Let_def)
    with step [of "devices r" "r\<lparr>devices := [], device_count := 0\<rparr>"] rec_devices_distinct [OF ok] show ?thesis by simp
  next
    case (Some name)
    show ?thesis
    proof (cases "index_of (named name) (devices r)")
      case None
      with Some 2(1,2) ok del m show ?thesis by (simp add: vxt_db_delete_record_def rec_ok_def)
    next
      case (Some n)
      then have n: "n < length (devices r)" by (simp add: index_of_Some)
      let ?r = "r\<lparr>devices := drop_nth n (devices r), device_count := device_count r - 1\<rparr>"
      have "db' = (if devices ?r = [] then remove_rec i (set_rec i ?r (destroy_devs [devices r ! n] db))
          else set_rec i ?r (destroy_devs [devices r ! n] db))"
        using \<open>device = Some name\<close> Some 2(1,2) del
        by (auto simp: vxt_db_delete_record_def Let_def destroy_devs_def split: if_splits)
      moreover have "set (devices ?r) = set (devices r) - set [devices r ! n]"
        using drop_nth_props(1) [of id "devices r" n] rec_devices_distinct [OF ok] n by auto
      ultimately show ?thesis using step [of "[devices r ! n]" ?r] n by simp
    qed
  qed
qed

lemma delete_guest_round_mirrored:
  assumes h: "db_holds {} db ch" and i: "db_recs db i = Some r" and g: "uuid_ok g" and m: "mirrored db"
  shows "mirrored (release_rec i r (detach_rec i r g migrate db))"
proof -
  let ?db1 = "detach_rec i r g migrate db"
  let ?P = "{client r, server r}"
  have sf: "same_files db ?db1"
    by (simp add: detach_rec_def Let_def)
  have recs: "db_recs ?db1 = db_recs db" using detach_rec_holds(2) [OF h i g] .
  have m1: "mirrored ?db1" using mirrored_same [OF sf dev_set_recs [OF recs]] m by simp
  show ?thesis
  proof (cases "release_rec i r ?db1 = ?db1")
    case True
    with m1 show ?thesis by simp
  next
    case False
    then have rel: "release_rec i r ?db1 = free_rec i (destroy_devs (devices r) ?db1)"
      by (auto simp: release_rec_def split: if_splits)
    have sub: "(\<lambda>d. (?P, d)) ` set (devices r) \<subseteq> dev_set ?db1" using dev_set_rec [of ?db1 i r] recs i by auto
    have "reliable ?db1" "mirror (dfile ?db1) (database_end ?db1) (free_file_rec_list ?db1) (dev_set ?db1)"
      using m1 by (auto simp: mirrored_def)
    note dm = destroy_devs_mirror [OF this rec_devices_distinct [OF db_holds_rec_ok [OF h i]] sub]
    have cd: "core (destroy_devs (devices r) ?db1) = core ?db1" by (simp add: same_core)
    have "db_recs (release_rec i r ?db1) = (db_recs db)(i := None)"
      unfolding rel using core_eqD(1) [OF cd] recs by simp
    from dev_set_upd [OF h i this] have "dev_set (release_rec i r ?db1) = {x \<in> dev_set db. fst x \<noteq> ?P}" by simp
    also have "\<dots> = dev_set ?db1 - (\<lambda>d. (?P, d)) ` set (devices r)"
      unfolding dev_set_recs [OF recs] by (subst (2) dev_set_pair [OF h i]) auto
    finally have "dev_set (release_rec i r ?db1) = dev_set ?db1 - (\<lambda>d. (?P, d)) ` set (devices r)" .
    moreover have "same_files (destroy_devs (devices r) ?db1) (release_rec i r ?db1)" unfolding rel by simp
    ultimately show ?thesis using dm by (simp add: mirrored_def same_files_def)
  qed
qed

lemma delete_guest_keeps:
  assumes ret: "vxt_db_delete_guest g migrate db = Some x" and g: "uuid_ok g"
    and h: "vxt_db_ok db"
  shows "vxt_db_ok (snd x) \<and> (mirrored db \<longrightarrow> mirrored (snd x))"
proof -
  have "g' = g \<longrightarrow> vxt_db_ok db \<longrightarrow> vxt_db_ok (snd x) \<and> (mirrored db \<longrightarrow> mirrored (snd x))" if "g' = g" for g'
  proof (rule vxt_db_delete_guest.raw_induct [where P = "\<lambda>g' m db x. g' = g \<longrightarrow> vxt_db_ok db \<longrightarrow>
        vxt_db_ok (snd x) \<and> (mirrored db \<longrightarrow> mirrored (snd x))", OF _ ret [folded that]], goal_cases)
    case (1 del g' m db z)
    show ?case
    proof (intro impI)
      assume eq: "g' = g" and ok: "vxt_db_ok db"
      then obtain ch where h: "db_holds {} db ch" by (auto simp: vxt_db_ok_def)
      show "vxt_db_ok (snd z) \<and> (mirrored db \<longrightarrow> mirrored (snd z))"
      proof (cases rule: lookup_guest [OF h g])
        case a: 1
        with 1(2) eq ok show ?thesis by auto
      next
        case (2 e i r)
        with 1(2) eq have "del g m (release_rec i r (detach_rec i r g m db)) = Some z" by simp
        from 1(1) [OF this] delete_guest_round(1) [OF h 2(4) g, of m] delete_guest_round_mirrored [OF h 2(4) g]
        show ?thesis by (auto simp: vxt_db_ok_def)
      qed
    qed
  qed
  with h show ?thesis by blast
qed

subsection \<open>Inserting a device\<close>

lemma insert_hashes_files:
  assumes "insert_hashes i record flags db = Some db'"
  shows "same_files db db'" and "db_recs db' = db_recs db"
  using assms
  by (auto simp: insert_hashes_def insert_hash_def split: if_splits bind_splits)

text \<open>The slot the file gives to a new record.\<close>

definition next_slot :: "vxt_auth_database \<Rightarrow> nat" where
  "next_slot db = (case free_file_rec_list db of off # _ \<Rightarrow> off | [] \<Rightarrow> database_end db)"

lemma insert_file_reliable:
  assumes rel: "reliable db" and i: "db_recs db i = Some r" and d: "devices r = d # ds"
  shows "\<exists>db'. insert_file i 0 record db = Some (VXT_SUCCESS, db') \<and> reliable db'
    \<and> db_recs db' = (db_recs db)(i \<mapsto> r\<lparr>devices := d\<lparr>file_offset := next_slot db\<rparr> # ds\<rparr>)
    \<and> dfile db' = file_put (dfile db) (next_slot db) (rec_image record)
    \<and> free_file_rec_list db' = tl (free_file_rec_list db)
    \<and> database_end db' = (if free_file_rec_list db = [] then database_end db + file_rec_size else database_end db)"
proof -
  let ?r = "r\<lparr>devices := d\<lparr>file_offset := next_slot db\<rparr> # ds\<rparr>"
  define db1 where "db1 = (if free_file_rec_list db = [] then db\<lparr>database_end := database_end db + file_rec_size\<rparr>
    else db\<lparr>free_file_rec_list := tl (free_file_rec_list db)\<rparr>)"
  have od: "(case free_file_rec_list db of off # rest \<Rightarrow> (off, db\<lparr>free_file_rec_list := rest\<rparr>)
      | [] \<Rightarrow> (database_end db, db\<lparr>database_end := database_end db + file_rec_size\<rparr>)) = (next_slot db, db1)"
    by (simp add: db1_def next_slot_def split: list.splits)
  have r1: "reliable db1" and recs1: "db_recs db1 i = Some r" using rel i by (auto simp: db1_def reliable_def)
  define db2 where "db2 = set_rec i ?r db1"
  define db3 where "db3 = db2\<lparr>dfile := file_put (dfile db2) (next_slot db) (rec_image record)\<rparr>"
  have s1: "set_offset i 0 (next_slot db) db1 = Some db2" using recs1 d by (simp add: set_offset_def db2_def)
  have r2: "reliable db2" using r1 by (simp add: db2_def set_rec_def reliable_def)
  then have w: "write_loop (rec_image record) file_rec_size (next_slot db) db2 = (True, db3)"
    by (simp add: reliable_write_loop db3_def)
  have "db_recs db3 i = Some ?r" by (simp add: db3_def db2_def)
  then have s3: "set_offset i 0 (next_slot db) db3 = Some (set_rec i ?r db3)" by (simp add: set_offset_def)
  have "insert_file i 0 record db = Some (VXT_SUCCESS, set_rec i ?r db3)"
    unfolding insert_file_def od using s1 w s3 by simp
  moreover have "reliable (set_rec i ?r db3)" using r2 by (simp add: db3_def set_rec_def reliable_def)
  ultimately show ?thesis by (auto simp: db3_def db2_def db1_def set_rec_def)
qed

lemma new_device_grant:
  assumes "file_rec_ok record"
  shows "dev_grant ({fr_client record, fr_server record}, new_device record flags 0\<lparr>file_offset := off\<rparr>) = file_grant record"
  using assms by (simp add: dev_grant_def file_grant_def new_device_def file_rec_ok_def)

text \<open>The first half of an insertion, when the device is new: it is the first of its record.\<close>

definition adds_device :: "vxt_db_file_rec \<Rightarrow> u32 \<Rightarrow> nat \<Rightarrow> vxt_auth_database \<Rightarrow> vxt_auth_database \<Rightarrow> bool" where
  "adds_device record flags i db db1 \<longleftrightarrow> same_files db db1 \<and> (\<exists>r ds. db_recs db1 i = Some r
     \<and> devices r = new_device record flags 0 # ds \<and> joins (fr_client record) (fr_server record) r
     \<and> (\<forall>db2 d. db_recs db2 = (db_recs db1)(i \<mapsto> r\<lparr>devices := d # ds\<rparr>) \<longrightarrow>
          dev_set db2 = insert ({client r, server r}, d) (dev_set db)))"

lemma insert_into_rec_reliable:
  assumes h: "db_holds {} db ch" and rel: "reliable db" and i: "db_recs db i = Some r"
    and j: "joins (fr_client record) (fr_server record) r"
    and ins: "insert_into_rec i r record flags 0 db = (res, db1)"
  shows "(\<exists>n < length (devices r). res = Some (i, n) \<and> db1 = db) \<or> res = Some (i, 0) \<and> adds_device record flags i db db1"
proof (cases "index_of (named (fr_dev_name record)) (devices r)")
  case (Some n)
  with index_of_Some [OF Some] ins show ?thesis by (auto simp: insert_into_rec_def)
next
  case None
  let ?r = "r\<lparr>devices := new_device record flags 0 # devices r, device_count := device_count r + 1\<rparr>"
  have res: "res = Some (i, 0)" "db1 = set_rec i ?r db"
    using ins None rel by (auto simp: insert_into_rec_def reliable_kmalloc)
  have "dev_set db2 = insert ({client r, server r}, d) (dev_set db)"
    if "db_recs db2 = (db_recs db1)(i \<mapsto> ?r\<lparr>devices := d # devices r\<rparr>)" for db2 d
  proof -
    have "db_recs db2 = (db_recs db)(i := Some (?r\<lparr>devices := d # devices r\<rparr>))" using that res by simp
    from dev_set_upd [OF h i this]
    have "dev_set db2 = insert ({client r, server r}, d) ({x \<in> dev_set db. fst x \<noteq> {client r, server r}}
        \<union> (\<lambda>d. ({client r, server r}, d)) ` set (devices r))" by simp
    then show ?thesis using dev_set_pair [OF h i] by simp
  qed
  then show ?thesis using res j unfolding adds_device_def by (auto simp: joins_def)
qed

lemma insert_new_rec_reliable:
  assumes h: "db_holds {} db ch" and rel: "reliable db" and ok: "file_rec_ok record"
    and ins: "insert_new_rec record flags 0 db = (res, db1)"
  shows "\<exists>i. res = Some (i, 0) \<and> adds_device record flags i db db1"
proof -
  let ?n = "next_rec db"
  let ?r = "\<lparr>valid = fr_valid record, direct = fr_direct record, client = take 40 (fr_client record),
    server = take 40 (fr_server record), devices = [new_device record flags 0], device_count = 1\<rparr>"
  have res: "res = Some (?n, 0)"
    "db1 = on_table (link_self (Srv ?n) \<circ> link_self (Cli ?n)) (set_rec ?n ?r (db\<lparr>next_rec := Suc ?n\<rparr>))"
    using ins rel by (auto simp: insert_new_rec_def reliable_kmalloc Let_def)
  have none: "db_recs db ?n = None" using db_holds_fresh [OF h] by simp
  have "dev_set db2 = insert ({client ?r, server ?r}, d) (dev_set db)"
    if "db_recs db2 = (db_recs db1)(?n \<mapsto> ?r\<lparr>devices := d # []\<rparr>)" for db2 d
  proof -
    have "ran (db_recs db2) = insert (?r\<lparr>devices := [d]\<rparr>) (ran (db_recs db))"
      using that res none by (simp add: ran_map_upd)
    then show ?thesis by (simp add: dev_set_union)
  qed
  moreover have "same_files db db1" by (simp add: res)
  ultimately have "adds_device record flags ?n db db1"
    using ok unfolding adds_device_def by (intro conjI exI [of _ ?r] exI [of _ "[]"]) (simp_all add: res joins_def file_rec_ok_def)
  with res show ?thesis by simp
qed

lemma insert_mirrored:
  assumes h: "db_holds {} db ch" and m: "mirrored db" and ok: "file_rec_ok record" and v: "fr_valid record"
    and fl: "flag_set flags VXT_DB_INSERT_CLIENT \<or> flag_set flags VXT_DB_INSERT_SERVER" "flag_set flags VXT_DB_INSERT_FILE"
    and ret: "vxt_db_insert_internal record flags 0 db = Some (st, db')"
  shows "st = VXT_SUCCESS \<and> mirrored db'"
proof -
  have rel: "reliable db" and mir: "mirror (dfile db) (database_end db) (free_file_rec_list db) (dev_set db)"
    using m by (auto simp: mirrored_def)
  have fl': "flags AND (VXT_DB_INSERT_CLIENT OR VXT_DB_INSERT_SERVER) \<noteq> 0"
    using fl by (auto simp: flag_set_def bit.conj_disj_distrib or_eq_0_iff)
  have u: "uuid_ok (fr_client record)" "uuid_ok (fr_server record)" using ok by (auto simp: file_rec_ok_def)
  define rest where "rest = (\<lambda>i n db1. do {
        db2 \<leftarrow> insert_hashes i record flags db1;
        r \<leftarrow> db_recs db2 i;
        if file_offset (devices r ! n) = 0 \<and> flag_set flags VXT_DB_INSERT_FILE
        then insert_file i n record db2 else Some (VXT_SUCCESS, db2) })"
  have old: ?thesis if r: "db_recs db i = Some r" "n < length (devices r)" "rest i n db = Some (st, db')" for i n r
  proof -
    from r(3) obtain db2 where hs: "insert_hashes i record flags db = Some db2" by (auto simp: rest_def split: bind_splits)
    note f = insert_hashes_files [OF hs]
    have "aligned (file_offset (devices r ! n))"
      using mirror_slotD(1) [OF mir dev_set_rec [OF r(1) nth_mem [OF r(2)]]] by simp
    then have "file_offset (devices r ! n) \<noteq> 0" by (auto simp: aligned_def header_size_def)
    with r hs f(2) have "st = VXT_SUCCESS" "db' = db2" by (simp_all add: rest_def)
    with mirrored_same [OF f(1) dev_set_recs [OF f(2)]] m show ?thesis by simp
  qed
  have new: ?thesis if ad: "adds_device record flags i db db1" and r: "rest i 0 db1 = Some (st, db')" for i db1
  proof -
    from ad obtain r ds where a: "same_files db db1" "db_recs db1 i = Some r" "devices r = new_device record flags 0 # ds"
      "joins (fr_client record) (fr_server record) r"
      "\<And>db2 d. db_recs db2 = (db_recs db1)(i \<mapsto> r\<lparr>devices := d # ds\<rparr>) \<Longrightarrow>
          dev_set db2 = insert ({client r, server r}, d) (dev_set db)" by (auto simp: adds_device_def)
    from r obtain db2 where hs: "insert_hashes i record flags db1 = Some db2" by (auto simp: rest_def split: bind_splits)
    note f = insert_hashes_files [OF hs]
    have sf: "same_files db db2" using same_files_trans [OF a(1) f(1)] .
    have rel2: "reliable db2" "db_recs db2 i = Some r" using sf rel f(2) a(2) by (auto simp: same_files_def)
    have "file_offset (new_device record flags 0) = 0" by (simp add: new_device_def start_offset_def)
    with r hs rel2 a(3) fl have ins: "insert_file i 0 record db2 = Some (st, db')" by (simp add: rest_def)
    let ?d = "new_device record flags 0\<lparr>file_offset := next_slot db2\<rparr>"
    from insert_file_reliable [OF rel2 a(3), of "record"] ins have e: "st = VXT_SUCCESS" "reliable db'"
      "db_recs db' = (db_recs db2)(i \<mapsto> r\<lparr>devices := ?d # ds\<rparr>)"
      "dfile db' = file_put (dfile db2) (next_slot db2) (rec_image record)"
      "free_file_rec_list db' = tl (free_file_rec_list db2)"
      "database_end db' = (if free_file_rec_list db2 = [] then database_end db2 + file_rec_size else database_end db2)"
      by auto
    have ds: "dev_set db' = insert ({client r, server r}, ?d) (dev_set db)" using a(5) e(3) f(2) by simp
    have g: "dev_grant ({client r, server r}, ?d) = file_grant record"
      using new_device_grant [OF ok] a(4) by (simp add: joins_def)
    have "mirror (file_put (dfile db) (file_offset (snd ({client r, server r}, ?d))) (rec_image record))
        (database_end db') (free_file_rec_list db') (insert ({client r, server r}, ?d) (dev_set db))"
      using sf e(5,6) by (intro mirror_add [OF mir ok v g]) (auto simp: same_files_def next_slot_def split: list.splits)
    with e sf ds show ?thesis by (simp add: mirrored_def same_files_def)
  qed
  show ?thesis
  proof (cases rule: find_pair_spec [OF h u])
    case 1
    obtain res db1 where ins: "insert_new_rec record flags 0 db = (res, db1)" by fastforce
    from insert_new_rec_reliable [OF h rel ok ins] obtain i where i: "res = Some (i, 0)" "adds_device record flags i db db1" by blast
    have "rest i 0 db1 = Some (st, db')"
      using ret fl' 1(1) ins i(1) by (simp add: vxt_db_insert_internal_def rest_def)
    with new [OF i(2)] show ?thesis .
  next
    case (2 i r)
    obtain res db1 where ins: "insert_into_rec i r record flags 0 db = (res, db1)" by fastforce
    have "rest i n db1 = Some (st, db')" if "res = Some (i, n)" for n
      using ret fl' 2(1,2) ins that by (simp add: vxt_db_insert_internal_def rest_def)
    with insert_into_rec_reliable [OF h rel 2(2,3) ins] old [OF 2(2)] new show ?thesis by blast
  qed
qed

subsection \<open>Scanning the file\<close>

definition valid_below :: "char list \<Rightarrow> nat \<Rightarrow> nat set" where
  "valid_below f n = {off. aligned off \<and> off < n \<and> fr_valid (slot f off)}"

text \<open>At most one valid slot for each device of a pair.\<close>

definition file_ok :: "char list \<Rightarrow> bool" where
  "file_ok f \<longleftrightarrow> aligned (length f) \<and> (\<forall>a \<in> valid_below f (length f). file_rec_ok (slot f a))
     \<and> (\<forall>a \<in> valid_below f (length f). \<forall>b \<in> valid_below f (length f).
          {fr_client (slot f a), fr_server (slot f a)} = {fr_client (slot f b), fr_server (slot f b)} \<longrightarrow>
          fr_dev_name (slot f a) = fr_dev_name (slot f b) \<longrightarrow> a = b)"

definition recovered :: "resolver \<Rightarrow> char list \<Rightarrow> nat \<Rightarrow> grant set" where
  "recovered local_dom f n = (\<lambda>a. file_grant (slot f a)) ` {a \<in> valid_below f n. recover_flags local_dom (slot f a) \<noteq> 0}"

lemma valid_below_Suc:
  assumes "aligned off"
  shows "valid_below f (off + file_rec_size) = (if fr_valid (slot f off) then insert off (valid_below f off) else valid_below f off)"
proof -
  have "a < off + file_rec_size \<longleftrightarrow> a < off \<or> a = off" if "aligned a" for a
    using aligned_apart [OF that assms] by (auto simp: file_rec_size_def)
  then show ?thesis using assms by (auto simp: valid_below_def)
qed

lemma recover_flags_cases:
  assumes "recover_flags local_dom r \<noteq> 0"
  shows "flag_set (recover_flags local_dom r) VXT_DB_INSERT_CLIENT \<or> flag_set (recover_flags local_dom r) VXT_DB_INSERT_SERVER"
    and "\<not> flag_set (recover_flags local_dom r) VXT_DB_INSERT_FILE"
  using assms
  by (auto simp: recover_flags_def flag_set_def split: if_splits simp: VXT_DB_INSERT_CLIENT_def VXT_DB_INSERT_SERVER_def VXT_DB_INSERT_FILE_def)

lemma insert_memory_only:
  assumes rel: "reliable db" and fl: "\<not> flag_set flags VXT_DB_INSERT_FILE"
    "flags AND (VXT_DB_INSERT_CLIENT OR VXT_DB_INSERT_SERVER) \<noteq> 0"
    and ret: "vxt_db_insert_internal record flags off db = Some (st, db')"
  shows "st = VXT_SUCCESS \<and> same_files db db'"
proof -
  have into: "fst (insert_into_rec i r record flags off db) \<noteq> None \<and> same_files db (snd (insert_into_rec i r record flags off db))" for i r
    using rel by (simp add: insert_into_rec_def reliable_kmalloc split: option.split)
  have new: "fst (insert_new_rec record flags off db) \<noteq> None \<and> same_files db (snd (insert_new_rec record flags off db))"
    using rel by (simp add: insert_new_rec_def reliable_kmalloc Let_def)
  define stage where "stage = (\<lambda>found. case found of
      Some i \<Rightarrow> do { r \<leftarrow> db_recs db i; Some (insert_into_rec i r record flags off db) }
    | None \<Rightarrow> Some (insert_new_rec record flags off db))"
  from ret fl(2) obtain found where f: "find_pair db (fr_client record) (fr_server record) = Some found"
    by (auto simp: vxt_db_insert_internal_def split: bind_splits)
  have ret': "(do { (dev, db1) \<leftarrow> stage found; case dev of
          None \<Rightarrow> Some (VXT_NOMEM, db1)
        | Some (i, n) \<Rightarrow> do {
            db2 \<leftarrow> insert_hashes i record flags db1;
            r \<leftarrow> db_recs db2 i;
            if file_offset (devices r ! n) = 0 \<and> flag_set flags VXT_DB_INSERT_FILE
            then insert_file i n record db2 else Some (VXT_SUCCESS, db2) } }) = Some (st, db')"
    using ret fl(2) f by (simp add: vxt_db_insert_internal_def stage_def)
  then obtain dev db1 where sg: "stage found = Some (dev, db1)" by (cases "stage found") auto
  have "dev \<noteq> None \<and> same_files db db1"
  proof (cases found)
    case None
    with sg new show ?thesis by (simp add: stage_def)
  next
    case (Some i)
    with sg obtain r where "insert_into_rec i r record flags off db = (dev, db1)"
      by (auto simp: stage_def split: bind_splits)
    with into [of i r] show ?thesis by simp
  qed
  then obtain i n where d: "dev = Some (i, n)" "same_files db db1" by auto
  with ret' sg fl(1) obtain db2 where hs: "insert_hashes i record flags db1 = Some db2" and e: "st = VXT_SUCCESS" "db' = db2"
    by (auto split: bind_splits)
  from same_files_trans [OF d(2) insert_hashes_files(1) [OF hs]] e show ?thesis by simp
qed

lemma granted_new:
  assumes f: "file_ok f" and off: "off \<in> valid_below f (length f)"
  shows "grant_pair (fr_client (slot f off)) (fr_server (slot f off)) (fr_dev_name (slot f off))
     (fr_class_name_length (slot f off)) (fr_label (slot f off)) (recovered local_dom f off) =
   insert (file_grant (slot f off)) (recovered local_dom f off)"
proof -
  have "({fr_client (slot f off), fr_server (slot f off)}, fr_dev_name (slot f off), x) \<notin> recovered local_dom f off" for x
  proof
    assume "({fr_client (slot f off), fr_server (slot f off)}, fr_dev_name (slot f off), x) \<in> recovered local_dom f off"
    then obtain a where a: "a \<in> valid_below f off"
      "{fr_client (slot f a), fr_server (slot f a)} = {fr_client (slot f off), fr_server (slot f off)}"
      "fr_dev_name (slot f a) = fr_dev_name (slot f off)"
      unfolding recovered_def file_grant_def by (auto simp only: prod.inject image_iff mem_Collect_eq)
    moreover have "a \<in> valid_below f (length f)" "a \<noteq> off" using a(1) off by (auto simp: valid_below_def)
    ultimately show False using f off unfolding file_ok_def by blast
  qed
  then show ?thesis by (simp add: grant_pair_def file_grant_def)
qed

lemma recover_loop_spec:
  assumes f: "file_ok f" and "db_holds {} db ch" and "dfile db = f" and "reliable db"
    and "aligned off" and "off \<le> length f" and "length buf = file_rec_size"
    and "grants db = recovered local_dom f off"
  shows "\<exists>db' ch'. recover_loop local_dom buf off db = Some (Inr db') \<and> db_holds {} db' ch'
    \<and> grants db' = recovered local_dom f (length f)"
  using assms(2-)
proof (induction "length f - off" arbitrary: off db ch buf rule: less_induct)
  case less
  note h = less.prems(1) and rel = less.prems(3) and al = less.prems(4)
  have ds: "kernel_ds db" using rel by (simp add: reliable_def)
  show ?case
  proof (cases "off = length f")
    case True
    then have "recover_loop local_dom buf off db = Some (Inr (db\<lparr>database_end := off\<rparr>))"
      using ds less.prems(2) by (subst recover_loop.simps) (simp add: vxt_file_read_def Let_def)
    moreover have c: "core (db\<lparr>database_end := off\<rparr>) = core db" by (simp add: same_core)
    ultimately show ?thesis using h db_holds_core [OF c] grants_core [OF c] less.prems(7) True by auto
  next
    case False
    then have lt: "off < length f" using less.prems(5) by simp
    have fits: "off + file_rec_size \<le> length f" using aligned_fits [OF al _ lt] f by (simp add: file_ok_def)
    let ?bs = "take file_rec_size (drop off f)"
    have len: "length ?bs = file_rec_size" using fits by simp
    have rd: "vxt_file_read db buf file_rec_size off = (int file_rec_size, ?bs)"
      using ds less.prems(2,6) len by (simp add: vxt_file_read_def Let_def)
    have img: "image_rec ?bs = slot f off" by (simp add: image_rec_take slot_def)
    have pos: "file_rec_size \<noteq> 0" by (simp add: file_rec_size_def)
    have dec: "length f - (off + file_rec_size) < length f - off" using lt by (simp add: file_rec_size_def)
    note IH = less.hyps [OF dec _ _ _ aligned_Suc [OF al] fits len]
    note nxt_off = valid_below_Suc [OF al, of f]
    show ?thesis
    proof (cases "fr_valid (slot f off) \<and> recover_flags local_dom (slot f off) \<noteq> 0")
      case True
      have vb: "off \<in> valid_below f (length f)" using True al lt by (simp add: valid_below_def)
      then have ok: "file_rec_ok (slot f off)" using f by (auto simp: file_ok_def)
      note rf = recover_flags_cases [OF conjunct2 [OF True]]
      from insert_internal_spec [OF h ok rf(1), of off] obtain st db1 ch1 where
        i: "vxt_db_insert_internal (slot f off) (recover_flags local_dom (slot f off)) off db = Some (st, db1)"
          "db_holds {} db1 ch1" "st \<noteq> VXT_NOMEM \<Longrightarrow> grants db1 = grant_pair (fr_client (slot f off)) (fr_server (slot f off))
            (fr_dev_name (slot f off)) (fr_class_name_length (slot f off)) (fr_label (slot f off)) (grants db)" by auto
      have fl: "recover_flags local_dom (slot f off) AND (VXT_DB_INSERT_CLIENT OR VXT_DB_INSERT_SERVER) \<noteq> 0"
        using rf(1) by (auto simp: flag_set_def bit.conj_disj_distrib or_eq_0_iff)
      have s: "st = VXT_SUCCESS" "same_files db db1" using insert_memory_only [OF rel rf(2) fl i(1)] by auto
      have "recovered local_dom f (off + file_rec_size) = insert (file_grant (slot f off)) (recovered local_dom f off)"
        using True unfolding recovered_def nxt_off by auto
      then have "grants db1 = recovered local_dom f (off + file_rec_size)"
        using i(3) s(1) granted_new [OF f vb] less.prems(7) by simp
      moreover have "recover_loop local_dom buf off db = recover_loop local_dom ?bs (off + file_rec_size) db1"
        using True i(1) by (subst recover_loop.simps) (simp add: rd img pos Let_def)
      ultimately show ?thesis using IH [OF i(2)] s(2) rel less.prems(2) by (simp add: same_files_def)
    next
      case skip: False
      then have g: "recovered local_dom f (off + file_rec_size) = recovered local_dom f off"
        unfolding recovered_def nxt_off by auto
      let ?db = "if fr_valid (slot f off) then db else db\<lparr>free_file_rec_list := off # free_file_rec_list db\<rparr>"
      have c: "core ?db = core db" by (simp add: same_core)
      have "recover_loop local_dom buf off db = recover_loop local_dom ?bs (off + file_rec_size) ?db"
        using skip reliable_kmalloc [OF rel] by (subst recover_loop.simps) (auto simp: rd img pos Let_def)
      moreover have "dfile ?db = f" "reliable ?db" using less.prems(2) rel by (auto simp: reliable_def)
      ultimately show ?thesis
        using IH [of ?db ch] h db_holds_core [OF c] grants_core [OF c] less.prems(7) g by simp
    qed
  qed
qed

subsection \<open>Creating a database\<close>

lemma fresh_database_holds: "db_holds {} (fresh_database k name) (\<lambda>_. [])"
  by (auto simp: db_holds_def fresh_database_def kernel.extend_def empty_table_def chains_def ring_at_Nil
      entries_def rec_at_def split: bind_splits)

lemma fresh_database_simps [simp]:
  "dfile (fresh_database k name) = dfile k" "stale (fresh_database k name) = stale k"
  "reliable (fresh_database k name) = reliable k" "grants (fresh_database k name) = {}"
  "kernel_ds (fresh_database k name) = kernel_ds k"
  by (simp_all add: fresh_database_def kernel.extend_def reliable_def grants_def)

lemma reliable_open [simp]: "reliable (k\<lparr>file_open := a, file_linked := b\<rparr>) = reliable k"
  by (simp add: reliable_def)

lemma valid_below_header: "valid_below f header_size = {}"
  by (auto simp: valid_below_def aligned_def)

lemma aligned_header: "aligned header_size"
  by (auto simp: aligned_def)

lemma create_recovers:
  assumes rel: "reliable k" and f: "file_ok (dfile k)"
  shows "\<exists>db ch. vxt_db_create local_dom True name k = Some (Inr db) \<and> db_holds {} db ch
    \<and> grants db = recovered local_dom (dfile k) (length (dfile k))"
proof -
  let ?db = "fresh_database (k\<lparr>file_open := True, file_linked := True\<rparr>) name"
  have len: "header_size \<le> length (dfile k)" using f by (auto simp: file_ok_def aligned_def)
  then have ne: "dfile k \<noteq> []" by (auto simp: header_size_def)
  have "grants ?db = recovered local_dom (dfile k) header_size"
    by (simp add: recovered_def valid_below_header)
  moreover have "length (stale k) = file_rec_size" using rel by (simp add: reliable_def)
  moreover note recover_loop_spec [OF f fresh_database_holds, of "k\<lparr>file_open := True, file_linked := True\<rparr>" name header_size
      "stale k" local_dom]
  ultimately obtain db ch where "recover_loop local_dom (stale k) header_size ?db = Some (Inr db)" "db_holds {} db ch"
      "grants db = recovered local_dom (dfile k) (length (dfile k))" using rel len aligned_header by auto
  with rel ne len show ?thesis
    by (auto simp: vxt_db_create_def reliable_kmalloc create_existing_def Let_def reliable_def)
qed

lemma mirrored_file_ok:
  assumes h: "db_holds {} db ch" and m: "mirrored db"
  shows "file_ok (dfile db)"
proof -
  have mir: "mirror (dfile db) (database_end db) (free_file_rec_list db) (dev_set db)"
    using m by (simp add: mirrored_def)
  then have len: "length (dfile db) = database_end db" and al: "aligned (database_end db)" by (auto simp: mirror_def)
  let ?f = "dfile db"
  have dev: "\<exists>r \<in> ran (db_recs db). \<exists>d \<in> set (devices r). file_offset d = a \<and> file_rec_ok (slot ?f a)
      \<and> {fr_client (slot ?f a), fr_server (slot ?f a)} = {client r, server r} \<and> fr_dev_name (slot ?f a) = dev_name d"
    if "a \<in> valid_below ?f (length ?f)" for a
  proof -
    from that mir len obtain x where x: "x \<in> dev_set db" "file_offset (snd x) = a"
      by (auto simp: valid_below_def mirror_def)
    then obtain r d where "r \<in> ran (db_recs db)" "d \<in> set (devices r)" "x = ({client r, server r}, d)"
      by (auto simp: dev_set_def)
    with mirror_slotD(4,5) [OF mir x(1)] x(2) show ?thesis
      by (intro bexI [of _ r] bexI [of _ d]) (simp_all add: file_grant_def dev_grant_def)
  qed
  have "a = b" if a: "a \<in> valid_below ?f (length ?f)" and b: "b \<in> valid_below ?f (length ?f)"
    and p: "{fr_client (slot ?f a), fr_server (slot ?f a)} = {fr_client (slot ?f b), fr_server (slot ?f b)}"
    and n: "fr_dev_name (slot ?f a) = fr_dev_name (slot ?f b)" for a b
  proof -
    from dev [OF a] obtain i r d where 1: "db_recs db i = Some r" "d \<in> set (devices r)" "file_offset d = a"
      "{fr_client (slot ?f a), fr_server (slot ?f a)} = {client r, server r}" "fr_dev_name (slot ?f a) = dev_name d"
      by (auto simp: ran_def)
    from dev [OF b] obtain j q e where 2: "db_recs db j = Some q" "e \<in> set (devices q)" "file_offset e = b"
      "{fr_client (slot ?f b), fr_server (slot ?f b)} = {client q, server q}" "fr_dev_name (slot ?f b) = dev_name e"
      by (auto simp: ran_def)
    have "joins (client r) (server r) q" unfolding joins_def using 1(4) 2(4) p by simp
    then have "r = q" using db_holds_pair [OF h 1(1) 2(1)] 1(1) 2(1) by simp
    moreover have "dev_name d = dev_name e" using 1(5) 2(5) n by simp
    ultimately have "d = e" using 1(2) 2(2) db_holds_rec_ok [OF h 1(1)]
      by (auto simp: rec_ok_def distinct_map dest: inj_onD)
    with 1(3) 2(3) show ?thesis by simp
  qed
  moreover have "aligned (length ?f)" using al len by simp
  moreover have "file_rec_ok (slot ?f a)" if "a \<in> valid_below ?f (length ?f)" for a using dev [OF that] by blast
  ultimately show ?thesis unfolding file_ok_def by blast
qed

lemma recovered_mirrored:
  assumes m: "mirrored db" and loc: "\<And>r. r \<in> ran (db_recs db) \<Longrightarrow> is_local local_dom (client r) \<or> is_local local_dom (server r)"
  shows "recovered local_dom (dfile db) (length (dfile db)) = grants db"
proof -
  let ?f = "dfile db"
  have mir: "mirror ?f (database_end db) (free_file_rec_list db) (dev_set db)" using m by (simp add: mirrored_def)
  then have len: "length ?f = database_end db" by (simp add: mirror_def)
  have flags: "recover_flags local_dom (slot ?f (file_offset (snd x))) \<noteq> 0" if "x \<in> dev_set db" for x
  proof -
    from that obtain r d where r: "r \<in> ran (db_recs db)" "x = ({client r, server r}, d)" by (auto simp: dev_set_def)
    with mirror_slotD(5) [OF mir that]
    have "{fr_client (slot ?f (file_offset (snd x))), fr_server (slot ?f (file_offset (snd x)))} = {client r, server r}"
      by (simp add: file_grant_def dev_grant_def)
    with loc [OF r(1)] have "is_local local_dom (fr_client (slot ?f (file_offset (snd x))))
        \<or> is_local local_dom (fr_server (slot ?f (file_offset (snd x))))" by (auto simp: doubleton_eq_iff)
    then show ?thesis
      by (auto simp: recover_flags_def VXT_DB_INSERT_CLIENT_def VXT_DB_INSERT_SERVER_def)
  qed
  have "{a \<in> valid_below ?f (length ?f). recover_flags local_dom (slot ?f a) \<noteq> 0} = (\<lambda>x. file_offset (snd x)) ` dev_set db"
  proof (rule set_eqI)
    fix a
    show "a \<in> {a \<in> valid_below ?f (length ?f). recover_flags local_dom (slot ?f a) \<noteq> 0} \<longleftrightarrow>
        a \<in> (\<lambda>x. file_offset (snd x)) ` dev_set db"
    proof
      assume "a \<in> {a \<in> valid_below ?f (length ?f). recover_flags local_dom (slot ?f a) \<noteq> 0}"
      then show "a \<in> (\<lambda>x. file_offset (snd x)) ` dev_set db" using mir len by (auto simp: valid_below_def mirror_def)
    next
      assume "a \<in> (\<lambda>x. file_offset (snd x)) ` dev_set db"
      then obtain x where x: "x \<in> dev_set db" "a = file_offset (snd x)" by blast
      with mirror_slotD(1-3) [OF mir x(1)] flags [OF x(1)] len
      show "a \<in> {a \<in> valid_below ?f (length ?f). recover_flags local_dom (slot ?f a) \<noteq> 0}"
        by (simp add: valid_below_def)
    qed
  qed
  then have "recovered local_dom ?f (length ?f) = (\<lambda>x. file_grant (slot ?f (file_offset (snd x)))) ` dev_set db"
    unfolding recovered_def by (simp add: image_image)
  also have "\<dots> = dev_grant ` dev_set db" using mirror_slotD(5) [OF mir] by (auto intro!: image_cong)
  finally show ?thesis by (simp add: grants_dev_set)
qed

end
