(* ===== verification/Vxt_Db_Claims.thy ===== *)
theory Vxt_Db_Claims
  imports Vxt_Db_Dump Vxt_Db_Recovery
begin

text \<open>
  What the authorization database promises: the contract of a store of grants, which the
  database provides, and the properties of its operations.
\<close>

subsection \<open>The contract of a store of grants\<close>

locale auth_store =
  fixes ok :: "'s \<Rightarrow> bool" and abs :: "'s \<Rightarrow> grant set"
    and ins :: "vxt_db_file_rec \<Rightarrow> u32 \<Rightarrow> 's \<Rightarrow> (vxt_status \<times> 's) option"
    and del :: "string \<Rightarrow> string \<Rightarrow> string option \<Rightarrow> 's \<Rightarrow> (vxt_status \<times> 's) option"
  assumes ins_ok: "ok s \<Longrightarrow> file_rec_ok record \<Longrightarrow> \<exists>st s'. ins record flags s = Some (st, s') \<and> ok s'
      \<and> abs s' = (if st \<in> {VXT_PARM, VXT_NOMEM} then abs s
          else grant_pair (fr_client record) (fr_server record) (fr_dev_name record)
            (fr_class_name_length record) (fr_label record) (abs s))
      \<and> st \<in> {VXT_SUCCESS, VXT_PARM, VXT_NOMEM, VXT_ERROR}"
    and del_ok: "ok s \<Longrightarrow> uuid_ok c \<Longrightarrow> uuid_ok sv \<Longrightarrow> (\<And>n. dev = Some n \<Longrightarrow> name_ok n) \<Longrightarrow>
      \<exists>st s'. del c sv dev s = Some (st, s') \<and> ok s' \<and> abs s' = revoke_pair c sv dev (abs s)
      \<and> st \<in> {VXT_SUCCESS, VXT_PARM}"
begin

text \<open>A grant that was not there is gone again after the deletion of its device.\<close>

lemma insert_then_delete:
  assumes "ok s" and r: "file_rec_ok record" and i: "ins record flags s = Some (VXT_SUCCESS, s1)"
    and new: "\<And>a. ({fr_client record, fr_server record}, fr_dev_name record, a) \<notin> abs s"
  shows "\<exists>st s2. del (fr_client record) (fr_server record) (Some (fr_dev_name record)) s1 = Some (st, s2)
    \<and> ok s2 \<and> abs s2 = abs s"
proof -
  have g: "ok s1" "abs s1 = insert ({fr_client record, fr_server record}, fr_dev_name record,
      fr_class_name_length record, fr_label record) (abs s)"
    using ins_ok [OF assms(1) r, of flags] i new by (auto simp: grant_pair_def)
  have "revoke_pair (fr_client record) (fr_server record) (Some (fr_dev_name record)) (abs s1) = abs s"
    using new unfolding g(2) revoke_pair_def by fastforce
  with del_ok [OF g(1), of "fr_client record" "fr_server record" "Some (fr_dev_name record)"] r
  show ?thesis by (auto simp: file_rec_ok_def)
qed

text \<open>After a revocation nothing is granted, whatever was inserted before.\<close>

lemma revoked:
  assumes "ok s" "uuid_ok c" "uuid_ok sv" "name_ok n" and "del c sv (Some n) s = Some (st, s')"
  shows "({c, sv}, n, a) \<notin> abs s'"
  using del_ok [OF assms(1-3), of "Some n"] assms(4,5) by (auto simp: revoke_pair_def)

end

lemma insert_store:
  assumes "vxt_db_ok db" and ok: "file_rec_ok record"
  shows "\<exists>st db'. vxt_db_insert record flags db = Some (st, db') \<and> vxt_db_ok db'
    \<and> grants db' = (if st \<in> {VXT_PARM, VXT_NOMEM} then grants db else granted record (grants db))
    \<and> st \<in> {VXT_SUCCESS, VXT_PARM, VXT_NOMEM, VXT_ERROR}"
proof -
  obtain ch where h: "db_holds {} db ch" using assms(1) by (auto simp: vxt_db_ok_def)
  let ?fl = "flags OR VXT_DB_INSERT_FILE"
  show ?thesis
  proof (cases "?fl AND (VXT_DB_INSERT_CLIENT OR VXT_DB_INSERT_SERVER) = 0")
    case True
    then show ?thesis using assms(1) by (simp add: vxt_db_insert_def vxt_db_insert_internal_def)
  next
    case False
    then have "flag_set ?fl VXT_DB_INSERT_CLIENT \<or> flag_set ?fl VXT_DB_INSERT_SERVER"
      by (auto simp: flag_set_def bit.conj_disj_distrib or_eq_0_iff)
    from insert_internal_spec [OF h ok this, of 0] show ?thesis
      by (auto simp: vxt_db_insert_def vxt_db_ok_def split: if_splits)
  qed
qed

lemma delete_record_store:
  assumes "vxt_db_ok db" and "uuid_ok c" and "uuid_ok s" and "\<And>n. device = Some n \<Longrightarrow> name_ok n"
  shows "\<exists>st db'. vxt_db_delete_record c s device db = Some (st, db') \<and> vxt_db_ok db'
    \<and> grants db' = revoke_pair c s device (grants db) \<and> st \<in> {VXT_SUCCESS, VXT_PARM}"
proof -
  obtain ch where h: "db_holds {} db ch" using assms(1) by (auto simp: vxt_db_ok_def)
  obtain st db' ch' where "vxt_db_delete_record c s device db = Some (st, db')" "db_holds {} db' ch'"
      "grants db' = revoke_pair c s device (grants db)"
      "st = (if \<exists>i r. db_recs db i = Some r \<and> joins c s r then VXT_SUCCESS else VXT_PARM)"
    using delete_record_spec [OF h assms(2,3), of device] assms(4) by blast
  then show ?thesis by (intro exI [of _ st] exI [of _ db']) (auto simp: vxt_db_ok_def)
qed

interpretation db_store: auth_store vxt_db_ok grants vxt_db_insert vxt_db_delete_record
proof unfold_locales
  fix db :: vxt_auth_database and r :: vxt_db_file_rec and flags
  assume "vxt_db_ok db" "file_rec_ok r"
  from insert_store [OF this] show "\<exists>st s'. vxt_db_insert r flags db = Some (st, s') \<and> vxt_db_ok s'
      \<and> grants s' = (if st \<in> {VXT_PARM, VXT_NOMEM} then grants db
          else grant_pair (fr_client r) (fr_server r) (fr_dev_name r) (fr_class_name_length r) (fr_label r) (grants db))
      \<and> st \<in> {VXT_SUCCESS, VXT_PARM, VXT_NOMEM, VXT_ERROR}" .
next
  fix db :: vxt_auth_database and c sv and dev :: "string option"
  assume "vxt_db_ok db" "uuid_ok c" "uuid_ok sv" "\<And>n. dev = Some n \<Longrightarrow> name_ok n"
  from delete_record_store [OF this] show "\<exists>st s'. vxt_db_delete_record c sv dev db = Some (st, s') \<and> vxt_db_ok s'
      \<and> grants s' = revoke_pair c sv dev (grants db) \<and> st \<in> {VXT_SUCCESS, VXT_PARM}" .
qed

subsection \<open>Runs of the database\<close>

text \<open>
  A database over a kernel that does not fail, made on an empty file and changed by
  insertions and deletions.
\<close>

inductive db_run :: "vxt_auth_database \<Rightarrow> bool" where
  created: "reliable k \<Longrightarrow> dfile k = [] \<Longrightarrow> vxt_db_create local_dom True name k = Some (Inr db) \<Longrightarrow> db_run db"
| inserted: "db_run db \<Longrightarrow> file_rec_ok record \<Longrightarrow> fr_valid record \<Longrightarrow>
    vxt_db_insert record flags db = Some (st, db') \<Longrightarrow> db_run db'"
| deleted: "db_run db \<Longrightarrow> uuid_ok c \<Longrightarrow> uuid_ok s \<Longrightarrow> (\<And>n. device = Some n \<Longrightarrow> name_ok n) \<Longrightarrow>
    vxt_db_delete_record c s device db = Some (st, db') \<Longrightarrow> db_run db'"
| guest_deleted: "db_run db \<Longrightarrow> uuid_ok g \<Longrightarrow> vxt_db_delete_guest g migrate db = Some (st, db') \<Longrightarrow> db_run db'"

lemma create_empty_ok:
  assumes rel: "reliable k" and f: "dfile k = []" and c: "vxt_db_create local_dom True name k = Some (Inr db)"
  shows "vxt_db_ok db \<and> mirrored db \<and> grants db = {}"
proof -
  let ?db = "fresh_database (k\<lparr>file_open := True, file_linked := True\<rparr>) name"
  have rel': "reliable ?db" using rel by simp
  have hl: "length (header_image (take 4 (stale k))) = header_size"
    using rel by (simp add: header_image_def reliable_def header_size_def VXT_DB_NAME_MAX_def file_rec_size_def)
  then have ne: "header_image (take 4 (stale k)) \<noteq> []" by (auto simp: header_size_def)
  have db: "db = ?db\<lparr>dfile := header_image (take 4 (stale k)), database_end := header_size\<rparr>"
    using c rel f hl ne
    by (simp add: vxt_db_create_def reliable_kmalloc create_empty_def reliable_write [OF rel'] file_put_def header_size_def)
  have core: "core db = core ?db" unfolding db by (simp add: same_core)
  have "db_holds {} db (\<lambda>_. [])" unfolding db_holds_core [OF core] by (rule fresh_database_holds)
  then have "vxt_db_ok db" by (auto simp: vxt_db_ok_def)
  moreover have "dev_set db = {}" unfolding db by (simp add: dev_set_def fresh_database_def kernel.extend_def)
  then have "mirrored db"
    using rel hl aligned_header unfolding db
    by (auto simp: mirrored_def mirror_def reliable_def fresh_database_def kernel.extend_def aligned_def)
  ultimately show ?thesis using grants_core [OF core] by simp
qed

lemma insert_keeps_mirror:
  assumes "vxt_db_ok db" and "mirrored db" and "file_rec_ok record" and "fr_valid record"
    and ret: "vxt_db_insert record flags db = Some (st, db')"
  shows "mirrored db'"
proof -
  obtain ch where h: "db_holds {} db ch" using assms(1) by (auto simp: vxt_db_ok_def)
  let ?fl = "flags OR VXT_DB_INSERT_FILE"
  have ff: "flag_set ?fl VXT_DB_INSERT_FILE"
  proof -
    have "?fl AND VXT_DB_INSERT_FILE = VXT_DB_INSERT_FILE" by (simp add: bit.conj_disj_distrib2)
    then show ?thesis by (simp add: flag_set_def VXT_DB_INSERT_FILE_def)
  qed
  show ?thesis
  proof (cases "?fl AND (VXT_DB_INSERT_CLIENT OR VXT_DB_INSERT_SERVER) = 0")
    case True
    with ret assms(2) show ?thesis by (simp add: vxt_db_insert_def vxt_db_insert_internal_def)
  next
    case False
    then have "flag_set ?fl VXT_DB_INSERT_CLIENT \<or> flag_set ?fl VXT_DB_INSERT_SERVER"
      by (auto simp: flag_set_def bit.conj_disj_distrib or_eq_0_iff)
    from insert_mirrored [OF h assms(2-4) this ff] ret show ?thesis by (simp add: vxt_db_insert_def)
  qed
qed

lemma db_run_invariant: "db_run db \<Longrightarrow> vxt_db_ok db \<and> mirrored db"
proof (induction rule: db_run.induct)
  case (created k local_dom name db)
  then show ?case using create_empty_ok by blast
next
  case (inserted db r flags st db')
  then show ?case using insert_keeps_mirror [of db r flags st db'] db_store.ins_ok [of db r flags] by auto
next
  case (deleted db c s device st db')
  obtain ch where h: "db_holds {} db ch" using deleted.IH by (auto simp: vxt_db_ok_def)
  have "mirrored db'" using delete_record_mirrored [OF h] deleted by blast
  moreover have "vxt_db_ok db'" using db_store.del_ok [of db c s device] deleted by auto
  ultimately show ?case by simp
next
  case (guest_deleted db g migrate st db')
  then show ?case using delete_guest_keeps [of g migrate db "(st, db')"] by auto
qed

subsection \<open>A small database\<close>

text \<open>The two names of the sample hash to the same bucket.\<close>

definition sample_kernel :: kernel where
  "sample_kernel = \<lparr>dfile = [], file_open = False, file_linked = False, mallocs = [], writes = [],
     kernel_ds = True, stale = replicate 168 NUL\<rparr>"

definition sample_file_rec :: vxt_db_file_rec where
  "sample_file_rec = \<lparr>fr_valid = True, fr_direct = False, fr_client = ''faaa'', fr_server = ''adaa'',
     fr_dev_name = ''disk'', fr_class_name_length = 0, fr_label = 7\<rparr>"

definition sample_db0 :: vxt_auth_database where
  "sample_db0 = (fresh_database (sample_kernel\<lparr>file_open := True, file_linked := True\<rparr>) ''vxt'')
     \<lparr>dfile := header_image (take 4 (stale sample_kernel)), database_end := header_size\<rparr>"

definition sample_links :: links where
  "sample_links = link_first (Srv 0) 90 (link_first (Cli 0) 90 (link_self (Srv 0) (link_self (Cli 0) empty_table)))"

definition sample_dev :: "nat \<Rightarrow> vxt_dev_rec" where
  "sample_dev off = \<lparr>file_offset = off, dev_name = ''disk'', class_name_length = 0, label = 7\<rparr>"

definition sample_rec :: vxt_db_rec where
  "sample_rec = \<lparr>valid = True, direct = False, client = ''faaa'', server = ''adaa'',
     devices = [sample_dev 264], device_count = 1\<rparr>"

definition sample_db1 :: vxt_auth_database where
  "sample_db1 = sample_db0\<lparr>dfile := dfile sample_db0 @ rec_image sample_file_rec, database_end := 432,
     hash_table := sample_links, db_recs := [0 \<mapsto> sample_rec], next_rec := 1\<rparr>"

lemma sample_hash [simp]: "vxt_db_uuid_hash ''faaa'' = Some 90" "vxt_db_uuid_hash ''adaa'' = Some 90"
  by (simp_all add: vxt_db_uuid_hash_def VXT_HASH_TABLE_SIZE_def)

lemmas sample_flags = flag_set_def VXT_DB_INSERT_CLIENT_def VXT_DB_INSERT_SERVER_def VXT_DB_INSERT_FILE_def

lemma sample_db0_fields:
  "next_rec sample_db0 = 0" "free_file_rec_list sample_db0 = []" "database_end sample_db0 = 264"
  "hash_table sample_db0 = empty_table" "db_recs sample_db0 = Map.empty" "length (dfile sample_db0) = 264"
  "mallocs sample_db0 = []" "kernel_ds sample_db0" "writes sample_db0 = []" "stale sample_db0 = replicate 168 NUL"
  by (simp_all add: sample_db0_def fresh_database_def kernel.extend_def header_size_def header_image_def
      VXT_DB_NAME_MAX_def sample_kernel_def)

lemma rec_image_ne [simp]: "rec_image r \<noteq> []"
proof
  assume "rec_image r = []"
  then have "length (rec_image r) = 0" by (simp only: list.size)
  then show False by (simp add: file_rec_size_def)
qed

text \<open>The insertion of the sample up to the write, whatever the writes do.\<close>

definition sample_db_mem :: "int list \<Rightarrow> vxt_auth_database" where
  "sample_db_mem ws = sample_db0\<lparr>writes := ws, hash_table := sample_links,
     db_recs := [0 \<mapsto> sample_rec\<lparr>devices := [sample_dev 0]\<rparr>], next_rec := 1\<rparr>"

lemma sample_insert_write:
  "vxt_db_insert sample_file_rec 3 (sample_db0\<lparr>writes := ws\<rparr>) = insert_file 0 0 sample_file_rec (sample_db_mem ws)"
proof -
  let ?db = "sample_db0\<lparr>writes := ws\<rparr>"
  define db1 where "db1 = ?db\<lparr>hash_table := link_self (Srv 0) (link_self (Cli 0) empty_table),
    db_recs := [0 \<mapsto> sample_rec\<lparr>devices := [sample_dev 0]\<rparr>], next_rec := 1\<rparr>"
  have f: "(3 :: u32) OR VXT_DB_INSERT_FILE = 0x1000003" by (simp add: VXT_DB_INSERT_FILE_def)
  have 0: "find_pair ?db ''faaa'' ''adaa'' = Some None"
    by (simp add: find_pair_def vxt_db_uuid_lookup_def uuid_lookup_loop.simps sample_db0_fields empty_table_def)
  have 1: "insert_new_rec sample_file_rec 0x1000003 0 ?db = (Some (0, 0), db1)"
    by (simp add: insert_new_rec_def vxt_kmalloc_def Let_def sample_file_rec_def db1_def new_device_def
        start_offset_def on_table_def set_rec_def sample_rec_def sample_dev_def MAX_VXT_UNAME_def
        sample_flags sample_db0_fields)
  have 2: "insert_hashes 0 sample_file_rec 0x1000003 db1 = Some (sample_db_mem ws)"
    by (simp add: insert_hashes_def insert_hash_def sample_flags sample_file_rec_def sample_db_mem_def db1_def
        on_table_def sample_links_def link_self_def link_first_def Let_def empty_table_def)
  show ?thesis
    using 0 1 2 by (simp add: vxt_db_insert_def f vxt_db_insert_internal_def sample_file_rec_def sample_flags
        sample_db_mem_def sample_rec_def sample_dev_def)
qed

lemmas sample_file_defs = insert_file_def sample_db_mem_def set_offset_def set_rec_def sample_rec_def sample_dev_def
  reliable_def file_put_def file_rec_size_def sample_db1_def sample_db0_fields

lemma sample_insert: "vxt_db_insert sample_file_rec 3 sample_db0 = Some (VXT_SUCCESS, sample_db1)"
proof -
  have "sample_db0 = sample_db0\<lparr>writes := []\<rparr>" using sample_db0_fields(9) by simp
  moreover have "insert_file 0 0 sample_file_rec (sample_db_mem []) = Some (VXT_SUCCESS, sample_db1)"
    by (simp add: reliable_write_loop [unfolded file_rec_size_def] sample_file_defs)
  ultimately show ?thesis using sample_insert_write [of "[]"] by simp
qed

definition sample_db_failed :: vxt_auth_database where
  "sample_db_failed = sample_db1\<lparr>dfile := dfile sample_db0, free_file_rec_list := [264]\<rparr>"

lemma sample_insert_failed:
  "vxt_db_insert sample_file_rec 3 (sample_db0\<lparr>writes := [- 5]\<rparr>) = Some (VXT_ERROR, sample_db_failed)"
  unfolding sample_insert_write
  by (simp add: sample_file_defs write_loop.simps [of _ 168] vxt_file_write_def vxt_kmalloc_def sample_db_failed_def)

lemma sample_created: "vxt_db_create (\<lambda>_. None) True ''vxt'' sample_kernel = Some (Inr sample_db0)"
  by (simp add: vxt_db_create_def vxt_kmalloc_def sample_kernel_def fresh_database_def kernel.extend_def create_empty_def
      vxt_file_write_def sample_db0_def file_put_def header_image_def VXT_DB_NAME_MAX_def header_size_def c_field_def VXT_BANNER_def)

lemma sample_rec_ok: "file_rec_ok sample_file_rec" "fr_valid sample_file_rec"
  by (simp_all add: file_rec_ok_def sample_file_rec_def uuid_ok_def name_ok_def NUL_def)

lemma sample_run0: "db_run sample_db0"
  by (rule db_run.created [OF _ _ sample_created]) (simp_all add: sample_kernel_def reliable_def file_rec_size_def)

lemma sample_run1: "db_run sample_db1"
  by (rule db_run.inserted [OF sample_run0 sample_rec_ok sample_insert])

subsection \<open>Lookup\<close>

text \<open>
  The hash of an endpoint name is a bucket of the table, unless the name has one to three
  characters: for these the code reads outside of the string.
\<close>

theorem uuid_hash_in_table:
  "case vxt_db_uuid_hash u of None \<Rightarrow> length u \<in> {1, 2, 3} | Some b \<Rightarrow> length u \<notin> {1, 2, 3} \<and> b < VXT_HASH_TABLE_SIZE"
proof (cases "vxt_db_uuid_hash u")
  case None
  then have "length u - length u div 4 * 4 \<noteq> 0" "length u < length u - length u div 4 * 4 + 1"
    by (auto simp: vxt_db_uuid_hash_def Let_def split: if_splits)
  then have "length u div 4 = 0" "length u \<noteq> 0" by linarith+
  then have "length u = 1 \<or> length u = 2 \<or> length u = 3" by linarith
  with None show ?thesis by auto
next
  case (Some b)
  then have "length u \<notin> {1, 2, 3}" by (auto simp: vxt_db_uuid_hash_def Let_def split: if_splits)
  with Some hash_less [OF Some] show ?thesis by simp
qed

text \<open>
  C25: The lookup of a pair of endpoints returns, and it finds a record exactly when the
  record joins the two, in whichever order; a pair has at most one record.
\<close>

theorem find_pair_complete:
  assumes "vxt_db_ok db" and "uuid_ok c" and "uuid_ok s"
  shows "\<exists>found. find_pair db c s = Some found \<and> (\<forall>i. found = Some i \<longleftrightarrow> (\<exists>r. db_recs db i = Some r \<and> joins c s r))"
proof -
  obtain ch where h: "db_holds {} db ch" using assms(1) by (auto simp: vxt_db_ok_def)
  show ?thesis
  proof (cases rule: find_pair_spec [OF h assms(2,3)])
    case 1
    then have "\<not> (\<exists>r. db_recs db i = Some r \<and> joins c s r)" for i by blast
    with 1(1) show ?thesis by (intro exI [of _ None]) simp
  next
    case (2 i r)
    have uniq: "j = i" if "db_recs db j = Some q" "joins c s q" for j q
      using db_holds_pair [OF h that(1) 2(2)] that(2) 2(3) by (simp add: joins_def)
    have "Some i = Some j \<longleftrightarrow> (\<exists>q. db_recs db j = Some q \<and> joins c s q)" for j
    proof
      assume "Some i = Some j"
      with 2(2,3) show "\<exists>q. db_recs db j = Some q \<and> joins c s q" by blast
    next
      assume "\<exists>q. db_recs db j = Some q \<and> joins c s q"
      with uniq show "Some i = Some j" by blast
    qed
    with 2(1) show ?thesis by (intro exI [of _ "Some i"]) blast
  qed
qed

theorem find_pair_complete_witness:
  "vxt_db_ok sample_db1 \<and> uuid_ok ''adaa'' \<and> uuid_ok ''faaa''
   \<and> (\<exists>found. find_pair sample_db1 ''adaa'' ''faaa'' = Some found \<and>
        (\<forall>i. found = Some i \<longleftrightarrow> (\<exists>r. db_recs sample_db1 i = Some r \<and> joins ''adaa'' ''faaa'' r)))"
proof -
  have "vxt_db_ok sample_db1" using db_run_invariant [OF sample_run1] by simp
  moreover have "uuid_ok ''adaa''" "uuid_ok ''faaa''" by (simp_all add: uuid_ok_def NUL_def)
  ultimately show ?thesis using find_pair_complete by blast
qed

text \<open>
  The lookup of a client's device searches the devices of one record only, the first in
  the client's bucket that names the requester on either side; the devices of the requester's
  other records are not considered.
\<close>

theorem lookup_client_first_record:
  assumes "vxt_db_ok db" and "uuid_ok g" and "vxt_db_uuid_lookup db g None = Some (Some (e, is_client))"
    and "rec_at db e = Some r"
  shows "vxt_db_lookup_client local_dom str_to_long db g name buf =
    Some (case find (device_grants name) (devices r) of
        None \<Rightarrow> (VXT_FAIL, buf)
      | Some d \<Rightarrow> (VXT_SUCCESS, server_domain local_dom str_to_long
          (client_domain local_dom str_to_long (fill_lookup_rec r d g name buf))))"
proof -
  obtain ch where h: "db_holds {} db ch" using assms(1) by (auto simp: vxt_db_ok_def)
  show ?thesis
  proof (cases rule: lookup_guest [OF h assms(2)])
    case 1
    with assms(3) show ?thesis by simp
  next
    case (2 e' i q)
    with assms(3,4) have eq: "e' = e" "is_client = (client r = g)" "q = r" by (auto simp: rec_at_parent)
    have "rec_ok r" using db_holds_rec_ok [OF h 2(4)] eq by simp
    then have "lookup_client_walk db g is_client (Some i) = Some (Some i)"
      using 2(4,5) eq assms(2) by (subst lookup_client_walk.simps) (auto simp: rec_ok_def)
    with 2 eq assms(3) show ?thesis by (simp add: vxt_db_lookup_client_def)
  qed
qed

theorem lookup_client_first_record_witness:
  "vxt_db_uuid_lookup sample_db1 ''faaa'' None = Some (Some (Srv 0, True))
   \<and> (\<forall>buf. \<exists>x. vxt_db_lookup_client (\<lambda>_. None) (\<lambda>_. 0) sample_db1 ''faaa'' ''disk'' buf = Some (VXT_SUCCESS, x))"
proof -
  have ok: "vxt_db_ok sample_db1" using db_run_invariant [OF sample_run1] by simp
  have u: "uuid_ok ''faaa''" by (simp add: uuid_ok_def NUL_def)
  have l: "vxt_db_uuid_lookup sample_db1 ''faaa'' None = Some (Some (Srv 0, True))"
    by (simp add: vxt_db_uuid_lookup_def uuid_lookup_loop.simps sample_db1_def sample_links_def link_first_def
        link_self_def Let_def empty_table_def endpoint_match_def sample_rec_def strn_eq_def)
  have r: "rec_at sample_db1 (Srv 0) = Some sample_rec" by (simp add: sample_db1_def)
  from lookup_client_first_record [OF ok u l r] l show ?thesis
    by (simp add: sample_rec_def sample_dev_def device_grants_def strn_eq_def)
qed

subsection \<open>Insertion and deletion\<close>

lemma sample_ok: "vxt_db_ok sample_db0" "vxt_db_ok sample_db1" "mirrored sample_db1"
  using db_run_invariant [OF sample_run0] db_run_invariant [OF sample_run1] by simp_all

text \<open>
  C10: An insertion returns, keeps the invariant and implements the abstract grant: after any
  status but the two that refuse, the device is granted to the pair, with the class and label
  it had before when it was granted already.
\<close>

theorem insert_refines:
  assumes "vxt_db_ok db" and "file_rec_ok record"
  shows "\<exists>st db'. vxt_db_insert record flags db = Some (st, db') \<and> vxt_db_ok db'
    \<and> grants db' = (if st \<in> {VXT_PARM, VXT_NOMEM} then grants db
        else grant_pair (fr_client record) (fr_server record) (fr_dev_name record)
          (fr_class_name_length record) (fr_label record) (grants db))
    \<and> st \<in> {VXT_SUCCESS, VXT_PARM, VXT_NOMEM, VXT_ERROR}"
  by (rule db_store.ins_ok [OF assms])

theorem insert_refines_witness:
  "vxt_db_ok sample_db0 \<and> file_rec_ok sample_file_rec \<and> vxt_db_insert sample_file_rec 3 sample_db0 = Some (VXT_SUCCESS, sample_db1)
   \<and> grants sample_db1 = grant_pair ''faaa'' ''adaa'' ''disk'' 0 7 (grants sample_db0)"
  using insert_refines [OF sample_ok(1) sample_rec_ok(1), of 3] sample_insert sample_ok(1) sample_rec_ok(1)
  by (simp add: sample_file_rec_def)

text \<open>
  C11: Deleting a device of a pair, or all of its devices, returns, keeps the invariant and
  implements the abstract revocation.
\<close>

theorem delete_record_refines:
  assumes "vxt_db_ok db" and "uuid_ok c" and "uuid_ok s" and "\<And>n. device = Some n \<Longrightarrow> name_ok n"
  shows "\<exists>st db'. vxt_db_delete_record c s device db = Some (st, db') \<and> vxt_db_ok db'
    \<and> grants db' = revoke_pair c s device (grants db) \<and> st \<in> {VXT_SUCCESS, VXT_PARM}"
  by (rule db_store.del_ok [OF assms])

theorem delete_record_refines_witness:
  "vxt_db_ok sample_db1 \<and> (\<exists>st db'. vxt_db_delete_record ''adaa'' ''faaa'' (Some ''disk'') sample_db1 = Some (st, db')
     \<and> vxt_db_ok db' \<and> grants db' = revoke_pair ''adaa'' ''faaa'' (Some ''disk'') (grants sample_db1)
     \<and> st \<in> {VXT_SUCCESS, VXT_PARM})"
proof -
  have "uuid_ok ''adaa''" "uuid_ok ''faaa''" "name_ok ''disk''" by (simp_all add: uuid_ok_def name_ok_def NUL_def)
  with delete_record_refines [OF sample_ok(2), of "''adaa''" "''faaa''" "Some ''disk''"] sample_ok(2) show ?thesis by simp
qed

text \<open>
  Deleting a device right after its insertion restores the grants there were before it.
\<close>

theorem insert_delete_roundtrip:
  assumes "vxt_db_ok db" and "file_rec_ok record" and "vxt_db_insert record flags db = Some (VXT_SUCCESS, db1)"
    and "\<And>a. ({fr_client record, fr_server record}, fr_dev_name record, a) \<notin> grants db"
  shows "\<exists>st db2. vxt_db_delete_record (fr_client record) (fr_server record) (Some (fr_dev_name record)) db1 = Some (st, db2)
    \<and> vxt_db_ok db2 \<and> grants db2 = grants db"
  by (rule db_store.insert_then_delete [OF assms])

lemma sample_grants0: "grants sample_db0 = {}"
  using sample_db0_fields(5) by (simp add: grants_def)

theorem insert_delete_roundtrip_witness:
  "\<exists>st db2. vxt_db_delete_record ''faaa'' ''adaa'' (Some ''disk'') sample_db1 = Some (st, db2)
    \<and> vxt_db_ok db2 \<and> grants db2 = {}"
  using insert_delete_roundtrip [OF sample_ok(1) sample_rec_ok(1) sample_insert] sample_grants0
  by (simp add: sample_file_rec_def)

text \<open>
  An insertion whose write fails reports an error and yet leaves the device granted in
  memory.
\<close>

theorem failed_insert_grants:
  assumes "vxt_db_ok db" and "file_rec_ok record" and "vxt_db_insert record flags db = Some (VXT_ERROR, db')"
  shows "\<exists>a. ({fr_client record, fr_server record}, fr_dev_name record, a) \<in> grants db'"
  using db_store.ins_ok [OF assms(1,2), of flags] assms(3) by (auto simp: grant_pair_def split: if_splits)

lemma sample_ok_writes: "vxt_db_ok (sample_db0\<lparr>writes := ws\<rparr>)"
proof -
  have c: "core (sample_db0\<lparr>writes := ws\<rparr>) = core sample_db0" by (simp add: same_core)
  obtain ch where "db_holds {} sample_db0 ch" using sample_ok(1) by (auto simp: vxt_db_ok_def)
  then have "db_holds {} (sample_db0\<lparr>writes := ws\<rparr>) ch" unfolding db_holds_core [OF c] .
  then show ?thesis by (auto simp: vxt_db_ok_def)
qed

theorem failed_insert_grants_witness:
  "vxt_db_insert sample_file_rec 3 (sample_db0\<lparr>writes := [- 5]\<rparr>) = Some (VXT_ERROR, sample_db_failed)
   \<and> (\<exists>a. ({''faaa'', ''adaa''}, ''disk'', a) \<in> grants sample_db_failed)"
  using failed_insert_grants [OF sample_ok_writes sample_rec_ok(1) sample_insert_failed] sample_insert_failed
  by (simp add: sample_file_rec_def)

subsection \<open>Guests\<close>

lemma sample_met: "met_for sample_db1 ''adaa'' 0" "met_for sample_db1 ''faaa'' 0"
proof -
  have "((nxt (hash_table sample_db1)) ^^ 1) (Head 90) \<in> {Cli 0, Srv 0}"
    by (simp add: sample_db1_def sample_links_def link_first_def link_self_def Let_def empty_table_def)
  then show "met_for sample_db1 ''adaa'' 0" "met_for sample_db1 ''faaa'' 0"
    unfolding met_for_def bucket_of_def sample_hash option.sel by blast+
qed

text \<open>
  C35: Deleting a guest that is not migrating, or whose other endpoints are all the default
  hub, ends. It removes exactly the records of the guest that a walk along the bucket of its own name
  meets, keeps every other record as it was, and leaves none of the guest's that a lookup finds. A record that is linked under its other
  endpoint only is not met, and stays.
\<close>

theorem delete_guest_terminates:
  assumes "vxt_db_ok db" and "uuid_ok g" and "guest_leaves db g migrate"
  shows "\<exists>db'. vxt_db_delete_guest g migrate db = Some (VXT_SUCCESS, db') \<and> vxt_db_ok db'
    \<and> vxt_db_uuid_lookup db' g None = Some None
    \<and> (\<forall>i. db_recs db' i = (if (\<exists>r. db_recs db i = Some r \<and> g \<in> {client r, server r}) \<and> met_for db g i then None else db_recs db i))"
proof -
  obtain ch where "db_holds {} db ch" using assms(1) by (auto simp: vxt_db_ok_def)
  from delete_guest_spec [OF this assms(2,3)] show ?thesis unfolding vxt_db_ok_def own_rec_def by blast
qed

theorem delete_guest_terminates_witness:
  "vxt_db_ok sample_db1 \<and> guest_leaves sample_db1 ''adaa'' False \<and> db_recs sample_db1 0 = Some sample_rec
   \<and> (\<exists>db'. vxt_db_delete_guest ''adaa'' False sample_db1 = Some (VXT_SUCCESS, db') \<and> vxt_db_ok db'
        \<and> vxt_db_uuid_lookup db' ''adaa'' None = Some None \<and> db_recs db' 0 = None)"
proof -
  have "uuid_ok ''adaa''" by (simp add: uuid_ok_def NUL_def)
  moreover have "guest_leaves sample_db1 ''adaa'' False" by (simp add: guest_leaves_def leaves_hub_def)
  moreover have r: "db_recs sample_db1 0 = Some sample_rec" "''adaa'' \<in> {client sample_rec, server sample_rec}"
    by (simp_all add: sample_db1_def sample_rec_def)
  moreover have "met_for sample_db1 ''adaa'' 0" by (rule sample_met)
  moreover obtain db' where d: "vxt_db_delete_guest ''adaa'' False sample_db1 = Some (VXT_SUCCESS, db')" "vxt_db_ok db'"
      "vxt_db_uuid_lookup db' ''adaa'' None = Some None"
      "\<forall>i. db_recs db' i = (if (\<exists>r. db_recs sample_db1 i = Some r \<and> ''adaa'' \<in> {client r, server r}) \<and> met_for sample_db1 ''adaa'' i
         then None else db_recs sample_db1 i)"
    using delete_guest_terminates [OF sample_ok(2) calculation(1,2)] by blast
  ultimately have "db_recs db' 0 = None" using d(4) [rule_format, of 0] by auto
  with d(1-3) r(1) \<open>guest_leaves sample_db1 ''adaa'' False\<close> sample_ok(2) show ?thesis by blast
qed

text \<open>
  The deletion of a migrating client never returns when the server of one of its records,
  not the default hub, is hashed in the client's own bucket.
\<close>

theorem delete_guest_migrate_diverges:
  assumes "vxt_db_ok db" and "uuid_ok g" and "db_recs db i = Some r" and "client r = g" and "server r \<noteq> g"
    and "server r \<noteq> VXTDB_DOM0_ENDPOINT" and "vxt_db_uuid_hash (server r) = vxt_db_uuid_hash g"
    and "nxt (hash_table db) (Srv i) \<noteq> Srv i"
  shows "vxt_db_delete_guest g True db = None"
proof -
  obtain ch where h: "db_holds {} db ch" using assms(1) by (auto simp: vxt_db_ok_def)
  have "Srv i \<in> entries db" using assms(3) by auto
  with assms(8) obtain b where b: "Srv i \<in> set (ch b)" using db_chains.off_chain [OF db_holds_chains [OF h]] by blast
  have "rec_at db (Srv i) = Some r" using assms(3) by simp
  from db_holds_bucket [OF h b this] have "b = bucket_of g" using assms(4,7) by (auto simp: bucket_of_def)
  with h b assms have "stuck g db" unfolding stuck_def by blast
  then show ?thesis by (rule stuck_diverges [OF assms(2)])
qed

theorem delete_guest_migrate_diverges_witness:
  "vxt_db_ok sample_db1 \<and> vxt_db_uuid_hash ''adaa'' = vxt_db_uuid_hash ''faaa'' \<and> vxt_db_delete_guest ''faaa'' True sample_db1 = None"
proof -
  have "uuid_ok ''faaa''" by (simp add: uuid_ok_def NUL_def)
  moreover have "db_recs sample_db1 0 = Some sample_rec" by (simp add: sample_db1_def)
  moreover have "nxt (hash_table sample_db1) (Srv 0) \<noteq> Srv 0"
    by (simp add: sample_db1_def sample_links_def link_first_def link_self_def Let_def empty_table_def)
  ultimately have "vxt_db_delete_guest ''faaa'' True sample_db1 = None"
    using sample_ok(2) by (intro delete_guest_migrate_diverges) (auto simp: sample_rec_def VXTDB_DOM0_ENDPOINT_def)
  with sample_ok(2) show ?thesis by simp
qed

text \<open>
  C37: A dump never stores outside of the caller's array: it holds the guest's records as far
  as they fit, the rest of the array is unchanged, and the overrun flag tells whether the
  array was too small for the number that the device count reports.
\<close>

theorem dump_guest_in_bounds:
  assumes "vxt_db_ok db" and "uuid_ok g" and "unat sz \<le> length buffer"
  shows "\<exists>l res. vxt_db_guest_dev_count db g = Some (VXT_SUCCESS, word_of_nat (length l))
    \<and> vxt_db_dump_guest db g buffer sz = Some (VXT_SUCCESS, res)
    \<and> dr_overrun res = (unat sz < length l) \<and> length (dr_buffer res) = length buffer
    \<and> take (min (unat sz) (length l)) (dr_buffer res) = take (min (unat sz) (length l)) l
    \<and> drop (min (unat sz) (length l)) (dr_buffer res) = drop (min (unat sz) (length l)) buffer
    \<and> (\<forall>x \<in> set l. file_grant x \<in> grants db \<and> g \<in> {fr_client x, fr_server x})"
proof -
  obtain ch where h: "db_holds {} db ch" using assms(1) by (auto simp: vxt_db_ok_def)
  let ?l = "dump_list db g (ch (bucket_of g))"
  have "file_grant x \<in> grants db \<and> g \<in> {fr_client x, fr_server x}" if "x \<in> set ?l" for x
  proof -
    from that obtain e where e: "e \<in> set (ch (bucket_of g))" "of_guest db g e" "x \<in> set (entry_recs db e)"
      by (auto simp: dump_list_def)
    from db_holds_rec_at [OF h e(1)] obtain i r where r: "db_recs db i = Some r" "rec_at db e = Some r" "rec_ok r" by metis
    with e obtain d where d: "d \<in> set (devices r)" "x = dev_file_rec r d" "g \<in> {client r, server r}"
      by (auto simp: entry_recs_def of_guest_def)
    then have "file_grant x = ({client r, server r}, dev_name d, class_name_length d, label d)"
      using r(3) by (simp add: file_grant_def dev_file_rec_def rec_ok_def)
    with d r show ?thesis by (auto simp: grants_def ran_def rec_grants_def dev_file_rec_def rec_ok_def)
  qed
  moreover from dump_guest_spec(3) [OF h assms(2,3)] obtain buf' where
    "vxt_db_dump_guest db g buffer sz = Some (VXT_SUCCESS, \<lparr>dr_buffer = buf',
        dr_size = if unat sz < length ?l then sz else word_of_nat (length ?l), dr_overrun = unat sz < length ?l\<rparr>)"
    "stored (unat sz) 0 ?l buffer buf'" by blast
  ultimately show ?thesis using dump_guest_spec(1) [OF h assms(2)]
    by (intro exI [of _ ?l]) (auto simp: stored_def)
qed

theorem dump_guest_in_bounds_witness:
  "vxt_db_ok sample_db1 \<and> (\<exists>res. vxt_db_dump_guest sample_db1 ''faaa'' [sample_file_rec] 1 = Some (VXT_SUCCESS, res) \<and> length (dr_buffer res) = 1)"
proof -
  have "uuid_ok ''faaa''" by (simp add: uuid_ok_def NUL_def)
  with dump_guest_in_bounds [OF sample_ok(2) this, of 1 "[sample_file_rec]"] sample_ok(2) show ?thesis by auto
qed

text \<open>
  The two dumps of a guest agree: the list that is allocated holds the records of the
  array in the opposite order.
\<close>

theorem dumps_agree:
  assumes "vxt_db_ok db" and "uuid_ok g" and "mallocs db = []" and "unat sz \<le> length buffer"
    and "vxt_db_dump_guest db g buffer sz = Some (VXT_SUCCESS, res)" and "\<not> dr_overrun res"
  shows "vxt_db_dump_guest_local g db = Some (rev (take (unat (dr_size res)) (dr_buffer res)), db)"
proof -
  obtain ch where h: "db_holds {} db ch" using assms(1) by (auto simp: vxt_db_ok_def)
  let ?l = "dump_list db g (ch (bucket_of g))"
  from dump_guest_spec(3) [OF h assms(2,4)] assms(5,6) have
    r: "dr_size res = word_of_nat (length ?l)" "length ?l \<le> unat sz" "stored (unat sz) 0 ?l buffer (dr_buffer res)"
    by auto
  have "unat sz < 2 ^ 32" using unsigned_less [of sz] by simp
  then have "unat (dr_size res) = length ?l" using r(1,2) by (simp add: unsigned_of_nat take_bit_nat_eq_self)
  then have "take (unat (dr_size res)) (dr_buffer res) = ?l" using r(2,3) by (simp add: stored_def min_absorb2)
  with dump_guest_spec(2) [OF h assms(2,3)] show ?thesis by simp
qed

lemma sample_dump:
  "vxt_db_dump_guest sample_db1 ''faaa'' [sample_file_rec, sample_file_rec] 2 =
    Some (VXT_SUCCESS, \<lparr>dr_buffer = [dev_file_rec sample_rec (sample_dev 264), dev_file_rec sample_rec (sample_dev 264)],
      dr_size = 2, dr_overrun = False\<rparr>)"
  by (simp add: vxt_db_dump_guest_def vxt_db_uuid_lookup_def uuid_lookup_loop.simps sample_db1_def sample_links_def
      link_first_def link_self_def Let_def empty_table_def endpoint_match_def sample_rec_def strn_eq_def
      dump_guest_loop.simps vxt_db_lookup_next_def lookup_next_loop.simps dev_file_rec_def word_le_nat_alt)

theorem dumps_agree_witness:
  "vxt_db_dump_guest_local ''faaa'' sample_db1 =
    Some (rev [dev_file_rec sample_rec (sample_dev 264), dev_file_rec sample_rec (sample_dev 264)], sample_db1)"
proof -
  have "uuid_ok ''faaa''" by (simp add: uuid_ok_def NUL_def)
  moreover have "mallocs sample_db1 = []" by (simp add: sample_db1_def sample_db0_fields)
  ultimately show ?thesis using dumps_agree [OF sample_ok(2) _ _ _ sample_dump] by simp
qed

text \<open>
  The deletion of a database ends, frees every record and every element of the list of
  free slots.
\<close>

theorem delete_frees_all:
  assumes "vxt_db_ok db"
  shows "\<exists>db'. vxt_db_delete delete_db_file db = Some (VXT_SUCCESS, db') \<and> db_recs db' = Map.empty \<and> free_file_rec_list db' = []"
proof -
  obtain ch where "db_holds {} db ch" using assms by (auto simp: vxt_db_ok_def)
  then show ?thesis by (rule vxt_db_delete_spec)
qed

theorem delete_frees_all_witness:
  "\<exists>db'. vxt_db_delete True sample_db1 = Some (VXT_SUCCESS, db') \<and> db_recs db' = Map.empty \<and> free_file_rec_list db' = []"
  by (rule delete_frees_all [OF sample_ok(2)])

subsection \<open>The file\<close>

text \<open>
  A record written to the file is read back as it was.
\<close>

theorem file_rec_roundtrip:
  assumes "file_rec_ok r"
  shows "image_rec (rec_image r) = r"
  by (rule image_rec_image [OF assms])

theorem file_rec_roundtrip_witness: "image_rec (rec_image sample_file_rec) = sample_file_rec"
  by (rule file_rec_roundtrip [OF sample_rec_ok(1)])

text \<open>
  C2: Every database that is made on an empty file and changed by insertions and deletions,
  while the file system does not fail, keeps its invariant and agrees with its file: each
  device has its own valid slot with its grant, and every other slot is free.
\<close>

theorem database_mirrors_file:
  assumes "db_run db"
  shows "vxt_db_ok db \<and> mirrored db"
  by (rule db_run_invariant [OF assms])

theorem database_mirrors_file_witness: "db_run sample_db1 \<and> vxt_db_ok sample_db1 \<and> mirrored sample_db1"
  using database_mirrors_file [OF sample_run1] sample_run1 by simp

text \<open>
  C9: A database is recovered from its file: after any such run, creating a database from
  the file gives one with the same grants, when one endpoint of every record is local.
\<close>

theorem create_recovers_grants:
  assumes "db_run db" and "\<And>r. r \<in> ran (db_recs db) \<Longrightarrow> is_local local_dom (client r) \<or> is_local local_dom (server r)"
  shows "\<exists>db'. vxt_db_create local_dom True name (kernel.truncate db) = Some (Inr db') \<and> vxt_db_ok db' \<and> grants db' = grants db"
proof -
  have ok: "vxt_db_ok db" "mirrored db" using db_run_invariant [OF assms(1)] by auto
  then obtain ch where h: "db_holds {} db ch" by (auto simp: vxt_db_ok_def)
  let ?k = "kernel.truncate db"
  have k: "dfile ?k = dfile db" "reliable ?k" using ok(2) by (auto simp: kernel.truncate_def mirrored_def reliable_def)
  from create_recovers [OF k(2), of local_dom name] mirrored_file_ok [OF h ok(2)] k(1)
  obtain db' ch' where "vxt_db_create local_dom True name ?k = Some (Inr db')" "db_holds {} db' ch'"
    "grants db' = recovered local_dom (dfile db) (length (dfile db))" by auto
  with recovered_mirrored [OF ok(2) assms(2)] show ?thesis by (auto simp: vxt_db_ok_def)
qed

theorem create_recovers_grants_witness:
  "\<exists>db'. vxt_db_create (\<lambda>_. Some ''Domain-1'') True ''vxt'' (kernel.truncate sample_db1) = Some (Inr db')
    \<and> vxt_db_ok db' \<and> grants db' = grants sample_db1"
  by (rule create_recovers_grants [OF sample_run1]) (simp add: is_local_def)

subsection \<open>Editing\<close>

definition relabel :: "string \<Rightarrow> string \<Rightarrow> string \<Rightarrow> u64 \<Rightarrow> grant \<Rightarrow> grant" where
  "relabel c s n lbl g = (case g of (p, m, cls, l) \<Rightarrow> (p, m, cls, if p = {c, s} \<and> m = n then lbl else l))"

lemma update_as_map:
  assumes "distinct (map f xs)" and "k < length xs"
  shows "xs[k := h (xs ! k)] = map (\<lambda>x. if f x = f (xs ! k) then h x else x) xs"
proof (rule nth_equalityI)
  fix j assume "j < length (xs[k := h (xs ! k)])"
  then have j: "j < length xs" by simp
  have "f (xs ! j) = f (xs ! k) \<longleftrightarrow> j = k"
    using nth_eq_iff_index_eq [OF assms(1), of j k] j assms(2) by simp
  with j assms(2) show "xs[k := h (xs ! k)] ! j = map (\<lambda>x. if f x = f (xs ! k) then h x else x) xs ! j"
    by (auto simp: nth_list_update)
qed simp

text \<open>A change of the labels of a record's devices shows in the grants of its pair only.\<close>

lemma edit_device_holds:
  assumes h: "db_holds {} db ch" and i: "db_recs db i = Some r" and j: "joins c s r" and k: "k < length (devices r)"
    and r': "r' = r\<lparr>direct := b, devices := (devices r)[k := (devices r ! k)\<lparr>label := lbl\<rparr>]\<rparr>"
  shows "db_holds {} (set_rec i r' db) ch"
    and "grants (set_rec i r' db) = relabel c s (dev_name (devices r ! k)) lbl ` grants db"
proof -
  have ok: "rec_ok r" using db_holds_rec_ok [OF h i] .
  let ?n = "dev_name (devices r ! k)"
  have ds: "devices r' = map (\<lambda>d. if dev_name d = ?n then d\<lparr>label := lbl\<rparr> else d) (devices r)"
    using update_as_map [of dev_name "devices r" k "\<lambda>d. d\<lparr>label := lbl\<rparr>"] ok k by (simp add: r' rec_ok_def)
  have "map dev_name (devices r') = map dev_name (devices r)" unfolding ds by simp
  moreover have cs: "client r' = client r" "server r' = server r" "device_count r' = device_count r" by (simp_all add: r')
  moreover have "length (devices r') = length (devices r)" "\<forall>d \<in> set (devices r'). name_ok (dev_name d)" "devices r' \<noteq> []"
    using ok unfolding ds by (auto simp: rec_ok_def)
  ultimately have "rec_ok r'" using ok by (simp add: rec_ok_def)
  then show "db_holds {} (set_rec i r' db) ch" using db_holds_set_rec [OF h i] by (simp add: r')
  have pair: "{c, s} = {client r, server r}" using j by (simp add: joins_def)
  let ?rest = "{g \<in> grants db. fst g \<noteq> {client r, server r}}"
  have own: "rec_grants r' = relabel c s ?n lbl ` rec_grants r"
    unfolding rec_grants_def ds relabel_def pair cs set_map image_image by (rule image_cong) auto
  have "relabel c s ?n lbl g = g" if "fst g \<noteq> {client r, server r}" for g
    using that unfolding relabel_def pair by (cases g) simp
  then have rest: "?rest = relabel c s ?n lbl ` ?rest" by (simp add: image_def)
  have "grants (set_rec i r' db) = ?rest \<union> rec_grants r'"
    using grants_upd [OF h i, of "set_rec i r' db" "Some r'"] by simp
  also have "\<dots> = relabel c s ?n lbl ` ?rest \<union> relabel c s ?n lbl ` rec_grants r"
    using rest own by (rule arg_cong2)
  also have "\<dots> = relabel c s ?n lbl ` grants db" unfolding image_Un [symmetric] grants_rest [OF h i] ..
  finally show "grants (set_rec i r' db) = relabel c s ?n lbl ` grants db" .
qed

text \<open>
  An edit keeps the invariant and changes at most the label of the device it names and
  the direct flag of its record; the file keeps what it had, so that an edit does not
  outlive the database.
\<close>

theorem edit_in_memory_only:
  assumes "vxt_db_ok db" and "uuid_ok c" and "uuid_ok s" and "name_ok n"
  shows "\<exists>st db'. vxt_db_edit c s (Some n) flags lbl db = Some (st, db') \<and> vxt_db_ok db' \<and> dfile db' = dfile db
    \<and> grants db' = (if st = VXT_SUCCESS then relabel c s n lbl ` grants db else grants db)"
proof -
  obtain ch where h: "db_holds {} db ch" using assms(1) by (auto simp: vxt_db_ok_def)
  show ?thesis
  proof (cases rule: find_pair_spec [OF h assms(2,3)])
    case 1
    then show ?thesis using assms(1) by (simp add: vxt_db_edit_def)
  next
    case (2 i r)
    have nm: "named n d \<longleftrightarrow> dev_name d = n" if "d \<in> set (devices r)" for d
      using that db_holds_rec_ok [OF h 2(2)] assms(4) by (simp add: rec_ok_def)
    show ?thesis
    proof (cases "index_of (named n) (devices r)")
      case None
      with 2 assms(1) show ?thesis by (simp add: vxt_db_edit_def)
    next
      case (Some k)
      from index_of_Some [OF Some] nm have k: "k < length (devices r)" "dev_name (devices r ! k) = n" by auto
      from edit_device_holds [OF h 2(2,3) k(1) refl, where b = "flag_set flags VXT_DEV_DIRECT_CONNECT" and lbl = lbl] k(2) 2 Some
      show ?thesis by (simp add: vxt_db_edit_def vxt_db_ok_def set_rec_def) blast
    qed
  qed
qed

theorem edit_in_memory_only_witness:
  "vxt_db_ok sample_db1 \<and> (\<exists>st db'. vxt_db_edit ''adaa'' ''faaa'' (Some ''disk'') 1 9 sample_db1 = Some (st, db')
     \<and> vxt_db_ok db' \<and> dfile db' = dfile sample_db1)"
proof -
  have "uuid_ok ''adaa''" "uuid_ok ''faaa''" "name_ok ''disk''" by (simp_all add: uuid_ok_def name_ok_def NUL_def)
  with edit_in_memory_only [OF sample_ok(2) this, of 1 9] sample_ok(2) show ?thesis by blast
qed

subsection \<open>Migration\<close>

lemma restore_insert:
  assumes ok: "vxt_db_ok db" "mirrored db" and r: "file_rec_ok r" "fr_valid r"
  shows "\<exists>db'. vxt_db_insert r (restore_flags g r) db = Some (VXT_SUCCESS, db') \<and> vxt_db_ok db' \<and> mirrored db'
    \<and> grants db' = granted r (grants db)"
proof -
  obtain st db' where i: "vxt_db_insert r (restore_flags g r) db = Some (st, db')" "vxt_db_ok db'"
      "grants db' = (if st \<in> {VXT_PARM, VXT_NOMEM} then grants db else granted r (grants db))"
    using db_store.ins_ok [OF ok(1) r(1)] by blast
  obtain ch where h: "db_holds {} db ch" using ok(1) by (auto simp: vxt_db_ok_def)
  have "flag_set (restore_flags g r OR VXT_DB_INSERT_FILE) VXT_DB_INSERT_CLIENT
      \<or> flag_set (restore_flags g r OR VXT_DB_INSERT_FILE) VXT_DB_INSERT_SERVER"
    "flag_set (restore_flags g r OR VXT_DB_INSERT_FILE) VXT_DB_INSERT_FILE"
    by (simp_all add: restore_flags_def sample_flags)
  from insert_mirrored [OF h ok(2) r this] i(1) have "st = VXT_SUCCESS" "mirrored db'" by (auto simp: vxt_db_insert_def)
  with i show ?thesis by simp
qed

lemma restore_guest_spec:
  assumes "vxt_db_ok db" "mirrored db" and "\<And>r. r \<in> set rs \<Longrightarrow> file_rec_ok r \<and> fr_valid r"
  shows "\<exists>db'. vxt_db_restore_guest g rs db = Some (VXT_SUCCESS, db') \<and> vxt_db_ok db' \<and> mirrored db'
    \<and> grants db' = fold granted rs (grants db)"
  using assms
proof (induction rs arbitrary: db)
  case (Cons r rs)
  from Cons.prems(3) [of r] obtain db1 where
    "vxt_db_insert r (restore_flags g r) db = Some (VXT_SUCCESS, db1)" "vxt_db_ok db1" "mirrored db1"
    "grants db1 = granted r (grants db)" using restore_insert [OF Cons.prems(1,2), of r g] by auto
  with Cons.IH [of db1] Cons.prems(3) show ?case by auto
qed simp

text \<open>Grants that a database has already keep their class and label.\<close>

definition missing :: "grant set \<Rightarrow> grant set \<Rightarrow> grant set" where
  "missing G H = {(p, n, a) \<in> H. \<forall>b. (p, n, b) \<notin> G}"

lemma fold_granted:
  assumes "\<And>p n a b. (p, n, a) \<in> file_grant ` set rs \<Longrightarrow> (p, n, b) \<in> file_grant ` set rs \<Longrightarrow> a = b"
  shows "fold granted rs G = G \<union> missing G (file_grant ` set rs)"
  using assms
proof (induction rs arbitrary: G)
  case (Cons r rs)
  let ?p = "{fr_client r, fr_server r}" and ?n = "fr_dev_name r" and ?a = "(fr_class_name_length r, fr_label r)"
  have f: "file_grant r = (?p, ?n, ?a)" by (simp add: file_grant_def)
  have step: "granted r G = (if \<exists>a. (?p, ?n, a) \<in> G then G else insert (?p, ?n, ?a) G)"
    by (simp add: grant_pair_def)
  have "fold granted rs (granted r G) = granted r G \<union> missing (granted r G) (file_grant ` set rs)"
    by (rule Cons.IH, rule Cons.prems) (auto intro: rev_image_eqI)
  also have "\<dots> = G \<union> missing G (file_grant ` set (r # rs))"
  proof (cases "\<exists>a. (?p, ?n, a) \<in> G")
    case True
    then have "missing G (file_grant ` set (r # rs)) = missing G (file_grant ` set rs)" by (auto simp: missing_def f)
    with True show ?thesis by (simp only: step if_True)
  next
    case False
    have same: "a = ?a" if "(?p, ?n, a) \<in> file_grant ` set rs" for a
      by (rule Cons.prems [of ?p ?n]) (use that in \<open>auto simp: f\<close>)
    have "insert (?p, ?n, ?a) G \<union> missing (insert (?p, ?n, ?a) G) (file_grant ` set rs) = G \<union> missing G (file_grant ` set (r # rs))"
      using False same unfolding missing_def set_simps image_insert f by (auto simp del: insert_iff) (auto, blast?)
    with False show ?thesis by (simp only: step if_False)
  qed
  finally show ?case by simp
qed (auto simp: missing_def)

lemma grants_functional:
  assumes h: "db_holds X db ch" and a: "(p, n, a) \<in> grants db" and b: "(p, n, b) \<in> grants db"
  shows "a = b"
proof -
  from a obtain i r where r: "db_recs db i = Some r" "(p, n, a) \<in> rec_grants r" by (auto simp: grants_def ran_def)
  then have p: "p = {client r, server r}" using rec_grants_fst by blast
  then have "(p, n, b) \<in> rec_grants r" using b grants_of_pair [OF h r(1)] by simp
  with r(2) db_holds_rec_ok [OF h r(1)] show ?thesis
    by (auto simp: rec_grants_def rec_ok_def distinct_map dest: inj_onD)
qed

text \<open>The grants of a guest.\<close>

definition grants_of :: "string \<Rightarrow> vxt_auth_database \<Rightarrow> grant set" where
  "grants_of g db = {(p, n, a) \<in> grants db. g \<in> p}"

lemma dump_complete:
  assumes h: "db_holds {} db ch" and met: "\<And>i r. db_recs db i = Some r \<Longrightarrow> g \<in> {client r, server r} \<Longrightarrow> met_for db g i"
  shows "file_grant ` set (dump_list db g (ch (bucket_of g))) = grants_of g db"
    and "x \<in> set (dump_list db g (ch (bucket_of g))) \<Longrightarrow> file_rec_ok x \<and> fr_valid x"
proof -
  let ?l = "dump_list db g (ch (bucket_of g))"
  have entry: "file_rec_ok (dev_file_rec r d) \<and> fr_valid (dev_file_rec r d)
      \<and> file_grant (dev_file_rec r d) = ({client r, server r}, dev_name d, class_name_length d, label d)"
    if "rec_ok r" "d \<in> set (devices r)" for r d
    using that by (auto simp: file_rec_ok_def dev_file_rec_def file_grant_def rec_ok_def)
  have "\<exists>i r d. db_recs db i = Some r \<and> rec_ok r \<and> d \<in> set (devices r) \<and> x = dev_file_rec r d \<and> g \<in> {client r, server r}"
    if "x \<in> set ?l" for x
  proof -
    from that obtain e where e: "e \<in> set (ch (bucket_of g))" "of_guest db g e" "x \<in> set (entry_recs db e)"
      by (auto simp: dump_list_def)
    from db_holds_rec_at [OF h e(1)] obtain i r where "db_recs db i = Some r" "rec_at db e = Some r" "rec_ok r" by metis
    with e show ?thesis by (auto simp: entry_recs_def of_guest_def)
  qed
  note listed = this
  show "file_rec_ok x \<and> fr_valid x" if "x \<in> set ?l" using listed [OF that] entry by blast
  show "file_grant ` set ?l = grants_of g db"
  proof (intro equalityI subsetI)
    fix y assume "y \<in> file_grant ` set ?l"
    then obtain x where "x \<in> set ?l" "y = file_grant x" by blast
    with listed obtain i r d where "db_recs db i = Some r" "rec_ok r" "d \<in> set (devices r)" "y = file_grant (dev_file_rec r d)"
      "g \<in> {client r, server r}" by metis
    with entry show "y \<in> grants_of g db" by (auto simp: grants_of_def grants_def ran_def rec_grants_def)
  next
    fix y assume "y \<in> grants_of g db"
    then obtain i r d where r: "db_recs db i = Some r" "d \<in> set (devices r)"
        "y = ({client r, server r}, dev_name d, class_name_length d, label d)" and g: "g \<in> {client r, server r}"
      by (auto simp: grants_of_def grants_def ran_def rec_grants_def)
    have "Cli i \<in> set (ch (bucket_of g)) \<or> Srv i \<in> set (ch (bucket_of g))"
      using met [OF r(1) g] by (simp add: met_for_chain [OF h])
    then obtain e where e: "parent e = Some i" "e \<in> set (ch (bucket_of g))"
      using parent.simps(2,3) by blast
    then have "rec_at db e = Some r" using r(1) by (simp add: rec_at_def)
    with e(2) r g have "dev_file_rec r d \<in> set ?l" by (auto simp: dump_list_def of_guest_def entry_recs_def)
    moreover have "y = file_grant (dev_file_rec r d)" using entry [OF db_holds_rec_ok [OF h r(1)] r(2)] r(3) by simp
    ultimately show "y \<in> file_grant ` set ?l" by blast
  qed
qed

text \<open>
  C36: A guest moves with its grants. When every record of the guest is linked in the bucket of its own name and
  the array is large enough, the dump holds all grants of the guest; restored on another machine, whatever
  that has granted before, they are all granted there, and nothing else is added. A device that is
  granted to the same pair there already keeps its class and label.
\<close>

theorem migration_moves_grants:
  assumes "vxt_db_ok src" and "uuid_ok g" and "\<And>i r. db_recs src i = Some r \<Longrightarrow> g \<in> {client r, server r} \<Longrightarrow> met_for src g i"
    and "unat sz \<le> length buffer" and "vxt_db_dump_guest src g buffer sz = Some (VXT_SUCCESS, res)" and "\<not> dr_overrun res"
    and "vxt_db_ok dst" and "mirrored dst"
  shows "\<exists>dst'. vxt_db_restore_guest g (take (unat (dr_size res)) (dr_buffer res)) dst = Some (VXT_SUCCESS, dst')
    \<and> vxt_db_ok dst' \<and> mirrored dst' \<and> grants dst' = grants dst \<union> {(p, n, a) \<in> grants src. g \<in> p \<and> (\<forall>b. (p, n, b) \<notin> grants dst)}"
proof -
  obtain ch where h: "db_holds {} src ch" using assms(1) by (auto simp: vxt_db_ok_def)
  let ?l = "dump_list src g (ch (bucket_of g))"
  from dump_guest_spec(3) [OF h assms(2,4)] assms(5,6) have
    r: "dr_size res = word_of_nat (length ?l)" "length ?l \<le> unat sz" "stored (unat sz) 0 ?l buffer (dr_buffer res)" by auto
  have "unat sz < 2 ^ 32" using unsigned_less [of sz] by simp
  then have "unat (dr_size res) = length ?l" using r(1,2) by (simp add: unsigned_of_nat take_bit_nat_eq_self)
  then have l: "take (unat (dr_size res)) (dr_buffer res) = ?l" using r(2,3) by (simp add: stored_def min_absorb2)
  have set: "file_grant ` set ?l = grants_of g src" by (rule dump_complete(1) [OF h assms(3)])
  have ok: "file_rec_ok x \<and> fr_valid x" if "x \<in> set ?l" for x by (rule dump_complete(2) [OF h assms(3) that])
  have "fold granted ?l (grants dst) = grants dst \<union> missing (grants dst) (file_grant ` set ?l)"
    by (rule fold_granted) (use grants_functional [OF h] in \<open>auto simp: set grants_of_def\<close>)
  moreover have "missing (grants dst) (grants_of g src) = {(p, n, a) \<in> grants src. g \<in> p \<and> (\<forall>b. (p, n, b) \<notin> grants dst)}"
    by (auto simp: missing_def grants_of_def)
  ultimately show ?thesis using restore_guest_spec [OF assms(7,8), of ?l g] ok by (simp add: l set)
qed

theorem migration_moves_grants_witness:
  "vxt_db_ok sample_db1 \<and> vxt_db_ok sample_db0 \<and> grants sample_db0 = {}
   \<and> (\<exists>res dst'. vxt_db_dump_guest sample_db1 ''faaa'' [sample_file_rec, sample_file_rec] 2 = Some (VXT_SUCCESS, res)
      \<and> vxt_db_restore_guest ''faaa'' (take 2 (dr_buffer res)) sample_db0 = Some (VXT_SUCCESS, dst')
      \<and> grants dst' = {(p, n, a) \<in> grants sample_db1. ''faaa'' \<in> p})"
proof -
  have u: "uuid_ok ''faaa''" by (simp add: uuid_ok_def NUL_def)
  have mir: "mirrored sample_db0" using db_run_invariant [OF sample_run0] by simp
  have met: "met_for sample_db1 ''faaa'' i" if "db_recs sample_db1 i = Some r" "''faaa'' \<in> {client r, server r}" for i r
    using that(1) sample_met by (auto simp: sample_db1_def split: if_splits)
  let ?res = "\<lparr>dr_buffer = [dev_file_rec sample_rec (sample_dev 264), dev_file_rec sample_rec (sample_dev 264)], dr_size = 2, dr_overrun = False\<rparr>"
  have two: "unat (dr_size ?res) = 2" "\<not> dr_overrun ?res" "unat (2 :: u32) \<le> length [sample_file_rec, sample_file_rec]" by simp_all
  obtain dst' where "vxt_db_restore_guest ''faaa'' (take (unat (dr_size ?res)) (dr_buffer ?res)) sample_db0 = Some (VXT_SUCCESS, dst')"
      "grants dst' = grants sample_db0 \<union> {(p, n, a) \<in> grants sample_db1. ''faaa'' \<in> p \<and> (\<forall>b. (p, n, b) \<notin> grants sample_db0)}"
    using migration_moves_grants [OF sample_ok(2) u _ two(3) sample_dump two(2) sample_ok(1) mir] met by blast
  then have "vxt_db_restore_guest ''faaa'' (take 2 (dr_buffer ?res)) sample_db0 = Some (VXT_SUCCESS, dst')"
      "grants dst' = {(p, n, a) \<in> grants sample_db1. ''faaa'' \<in> p}"
    unfolding two(1) sample_grants0 by simp_all
  with sample_dump sample_ok sample_grants0 show ?thesis by blast
qed

end
