(* ===== verification/Vxt_Dbmod.thy ===== *)
theory Vxt_Dbmod
  imports Vxt_Db_Guest
begin

text \<open>
  The Linux module around the authorization database, \<^verbatim>\<open>kernel/vxtdb/linux/vxtdb_mod.c\<close>, with the
  lookups of \<^verbatim>\<open>kernel/vxtcard/linux/vxt_auth.c\<close>: the commands of the device file, the calls for other
  modules, loading and unloading. The hypervisor's store is the record \<open>xen\<close> of parameters; a list of
  outcomes says which copies from and to user space succeed. A call that does not return, or that
  uses a database there is none of, has the value \<open>None\<close>.
\<close>

subsection \<open>The hypervisor's store\<close>

record xen =
  is_initial_xendomain :: bool
  xenbus_scanf :: "string \<Rightarrow> string \<Rightarrow> string option"
  xenbus_directory :: "string \<Rightarrow> string \<Rightarrow> string list option"
  simple_strtol :: "string \<Rightarrow> u64"

definition vxt_auth_db_lookup :: "xen \<Rightarrow> string \<Rightarrow> string \<Rightarrow> string option" where
  "vxt_auth_db_lookup x key field = xenbus_scanf x key field"

definition vxt_auth_db_multi_look :: "xen \<Rightarrow> string \<Rightarrow> string \<Rightarrow> vxt_status \<times> string list" where
  "vxt_auth_db_multi_look x key field =
     (case xenbus_directory x key field of None \<Rightarrow> (VXT_FAIL, []) | Some records \<Rightarrow> (VXT_SUCCESS, records))"

text \<open>The domain whose virtual machine path, without its first four characters, is the name.\<close>

fun find_domain :: "xen \<Rightarrow> string \<Rightarrow> string list \<Rightarrow> string option" where
  "find_domain x uuid [] = None"
| "find_domain x uuid (d # ds) =
     (case vxt_auth_db_lookup x (''/local/domain/'' @ d) ''vm'' of
        Some vm \<Rightarrow> (if strn_eq 40 uuid (drop 4 vm) then Some (''Domain-'' @ d) else find_domain x uuid ds)
      | None \<Rightarrow> find_domain x uuid ds)"

definition vxt_uuid_to_local_dom :: "xen \<Rightarrow> resolver" where
  "vxt_uuid_to_local_dom x uuid =
     (if \<not> is_initial_xendomain x then Some ''NONE''
      else case vxt_auth_db_multi_look x ''/local/domain'' '''' of
        (ret, records) \<Rightarrow> if ret = VXT_SUCCESS then find_domain x uuid records else None)"

text \<open>The status and what the caller's array holds afterwards.\<close>

definition vxt_get_local_uuid :: "xen \<Rightarrow> string \<Rightarrow> vxt_status \<times> string" where
  "vxt_get_local_uuid x uuid =
     (if is_initial_xendomain x then (VXT_SUCCESS, ''00000000-0000-0000-0000-000000000000'')
      else case vxt_auth_db_lookup x ''vm'' '''' of
        Some vm \<Rightarrow> (VXT_SUCCESS, take (MAX_VXT_UUID - 4) (drop 4 vm))
      | None \<Rightarrow> (VXT_FAIL, uuid))"

subsection \<open>The state of the module\<close>

text \<open>
  \<open>idle\<close> is the kernel while there is no database, afterwards it is part of the database;
  \<open>fs\<close> tells whether the calling task's address limit is \<^verbatim>\<open>KERNEL_DS\<close>; \<open>heap_rec\<close> and \<open>stack_uuid\<close> are
  what fresh memory and an uninitialised array hold.
\<close>

record vxtdb_mod =
  xen_of :: xen
  openable :: bool
  idle :: kernel
  vxt_database_running :: bool
  db_handle :: "vxt_auth_database option"
  request_lock :: bool
  fs :: bool
  copies :: "bool list"
  heap_rec :: vxt_db_file_rec
  stack_uuid :: string
  stack_lookup :: vxt_db_lookup_rec

definition vxt_munlock :: "vxtdb_mod \<Rightarrow> vxtdb_mod" where
  "vxt_munlock m = m\<lparr>request_lock := False\<rparr>"

definition copy_user :: "vxtdb_mod \<Rightarrow> bool \<times> vxtdb_mod" where
  "copy_user m = (case copies m of [] \<Rightarrow> (True, m) | b # bs \<Rightarrow> (b, m\<lparr>copies := bs\<rparr>))"

definition with_db ::
    "(vxt_auth_database \<Rightarrow> ('a \<times> vxt_auth_database) option) \<Rightarrow> vxtdb_mod \<Rightarrow> ('a \<times> vxtdb_mod) option" where
  "with_db f m =
     do { db \<leftarrow> db_handle m;
          (a, db) \<leftarrow> f (db\<lparr>kernel_ds := fs m\<rparr>);
          Some (a, m\<lparr>db_handle := Some db\<rparr>) }"

text \<open>A call between the two switches of the address limit.\<close>

definition in_kernel_ds ::
    "(vxt_auth_database \<Rightarrow> ('a \<times> vxt_auth_database) option) \<Rightarrow> vxtdb_mod \<Rightarrow> ('a \<times> vxtdb_mod) option" where
  "in_kernel_ds f m =
     do { (a, m') \<leftarrow> with_db f (m\<lparr>fs := True\<rparr>); Some (a, m'\<lparr>fs := fs m\<rparr>) }"

definition read_only :: "(vxt_auth_database \<Rightarrow> 'a option) \<Rightarrow> vxt_auth_database \<Rightarrow> ('a \<times> vxt_auth_database) option" where
  "read_only f db = do { a \<leftarrow> f db; Some (a, db) }"

subsection \<open>The commands of the device\<close>

record dump_args =
  da_guest :: string
  da_buf_size :: u32
  da_overrun :: bool
  da_delete :: bool
  da_migrate :: bool

datatype reply = Lookup_reply vxt_db_lookup_rec | Dump_records "vxt_db_file_rec list" | Dump_args dump_args
  | Query_reply bool | Uuid_reply string

type_synonym answer = "(int \<times> reply list \<times> vxtdb_mod) option"

definition ioctl_insert :: "vxt_db_file_rec \<Rightarrow> u32 \<Rightarrow> vxtdb_mod \<Rightarrow> answer" where
  "ioctl_insert record flags m =
     (case copy_user m of
        (False, m) \<Rightarrow> Some (- EFAULT, [], vxt_munlock m)
      | (True, m) \<Rightarrow> do {
          (ret, m) \<leftarrow> in_kernel_ds (vxt_db_insert record flags) m;
          if ret \<noteq> VXT_SUCCESS then Some (- EFAULT, [], vxt_munlock m) else Some (0, [], vxt_munlock m) })"

definition ioctl_client_lookup :: "string \<Rightarrow> string \<Rightarrow> vxtdb_mod \<Rightarrow> answer" where
  "ioctl_client_lookup requester name m =
     (case copy_user m of
        (False, m) \<Rightarrow> Some (- EFAULT, [], vxt_munlock m)
      | (True, m) \<Rightarrow>
          (case copy_user m of
             (False, m) \<Rightarrow> Some (- EFAULT, [], vxt_munlock m)
           | (True, m) \<Rightarrow> do {
               ((ret, record), m) \<leftarrow> with_db (read_only (\<lambda>db. vxt_db_lookup_client
                  (vxt_uuid_to_local_dom (xen_of m)) (simple_strtol (xen_of m)) db requester name (stack_lookup m))) m;
               if ret \<noteq> VXT_SUCCESS then Some (- ENXIO, [], vxt_munlock m)
               else case copy_user m of
                 (False, m) \<Rightarrow> Some (- EFAULT, [], vxt_munlock m)
               | (True, m) \<Rightarrow> Some (0, [Lookup_reply record], vxt_munlock m) }))"

definition ioctl_delete_rec :: "string \<Rightarrow> string \<Rightarrow> string \<Rightarrow> vxtdb_mod \<Rightarrow> answer" where
  "ioctl_delete_rec c s name m =
     (case copy_user m of
        (False, m) \<Rightarrow> Some (- EFAULT, [], vxt_munlock m)
      | (True, m) \<Rightarrow> do {
          (ret, m) \<leftarrow> in_kernel_ds (vxt_db_delete_record c s (Some name)) m;
          if ret \<noteq> VXT_SUCCESS then Some (- ENXIO, [], vxt_munlock m) else Some (0, [], vxt_munlock m) })"

text \<open>
  A dump: the count is compared with the caller's size, the records go through a buffer of
  the kernel, and a requested deletion runs after the address limit has been put back.
\<close>

definition dump_limit :: "dump_args \<Rightarrow> u32 \<Rightarrow> dump_args \<times> u32" where
  "dump_limit args in_memory_records =
     (if in_memory_records < da_buf_size args
      then (args\<lparr>da_buf_size := in_memory_records, da_overrun := False\<rparr>, in_memory_records)
      else (args\<lparr>da_delete := False, da_overrun := True\<rparr>, da_buf_size args))"

definition dump_reply :: "dump_args \<Rightarrow> reply list \<Rightarrow> vxtdb_mod \<Rightarrow> answer" where
  "dump_reply args out m =
     (case copy_user m of
        (False, m) \<Rightarrow> Some (- EFAULT, out, vxt_munlock m)
      | (True, m) \<Rightarrow> Some (0, out @ [Dump_args args], vxt_munlock m))"

definition dump_delete :: "dump_args \<Rightarrow> reply list \<Rightarrow> vxtdb_mod \<Rightarrow> answer" where
  "dump_delete args out m =
     (if da_delete args then do {
        (ret, m) \<leftarrow> with_db (vxt_db_delete_guest (da_guest args) (da_migrate args)) m;
        dump_reply (if ret \<noteq> VXT_SUCCESS then args\<lparr>da_delete := False\<rparr> else args) out m }
      else dump_reply args out m)"

definition dump_copy :: "dump_args \<Rightarrow> u32 \<Rightarrow> vxtdb_mod \<Rightarrow> answer" where
  "dump_copy args n m =
     do { (ok, m) \<leftarrow> with_db (\<lambda>db. Some (vxt_kmalloc db)) m;
          if \<not> ok then Some (- ENOSPC, [], vxt_munlock m)
          else do {
            ((ret, res), m) \<leftarrow> in_kernel_ds (read_only (\<lambda>db.
               vxt_db_dump_guest db (da_guest args) (replicate (unat n) (heap_rec m)) n)) m;
            if ret \<noteq> VXT_SUCCESS then Some (- EINVAL, [], vxt_munlock m)
            else case copy_user m of
              (False, m) \<Rightarrow> Some (- EFAULT, [], vxt_munlock m)
            | (True, m) \<Rightarrow> dump_delete args [Dump_records (take (unat (dr_size res)) (dr_buffer res))] m } }"

definition ioctl_dump_guest :: "dump_args \<Rightarrow> vxtdb_mod \<Rightarrow> answer" where
  "ioctl_dump_guest args m =
     (case copy_user m of
        (False, m) \<Rightarrow> Some (- EFAULT, [], vxt_munlock m)
      | (True, m) \<Rightarrow> do {
          ((ret, count), m) \<leftarrow> with_db (read_only (\<lambda>db. vxt_db_guest_dev_count db (da_guest args))) m;
          if ret \<noteq> VXT_SUCCESS then Some (- EFAULT, [], vxt_munlock m)
          else let (args, n) = dump_limit args count
            in if n = 0 then dump_reply args [] m else dump_copy args n m })"

definition ioctl_restore_guest :: "string \<Rightarrow> vxt_db_file_rec list \<Rightarrow> u32 \<Rightarrow> vxtdb_mod \<Rightarrow> answer" where
  "ioctl_restore_guest guest user_recs buf_size m =
     (case copy_user m of
        (False, m) \<Rightarrow> Some (- EFAULT, [], vxt_munlock m)
      | (True, m) \<Rightarrow> do {
          (ok, m) \<leftarrow> with_db (\<lambda>db. Some (vxt_kmalloc db)) m;
          if \<not> ok then Some (- ENOSPC, [], vxt_munlock m)
          else case copy_user m of
            (False, m) \<Rightarrow> Some (- EFAULT, [], vxt_munlock m)
          | (True, m) \<Rightarrow> do {
              (ret, m) \<leftarrow> in_kernel_ds (vxt_db_restore_guest guest (take (unat buf_size) user_recs)) m;
              if ret \<noteq> VXT_SUCCESS then Some (- EINVAL, [], vxt_munlock m)
              else Some (0, [], vxt_munlock m) } })"

definition ioctl_query :: "vxtdb_mod \<Rightarrow> answer" where
  "ioctl_query m =
     (let m = vxt_munlock m; hub = is_initial_xendomain (xen_of m)
      in case copy_user m of
        (False, m) \<Rightarrow> Some (- EFAULT, [], m)
      | (True, m) \<Rightarrow> Some (0, [Query_reply hub], m))"

text \<open>Starting the database: the address limit stays wide when the creation fails.\<close>

definition start_db :: "string \<Rightarrow> vxtdb_mod \<Rightarrow> answer" where
  "start_db name m =
     (if vxt_database_running m \<or> db_handle m \<noteq> None then Some (- EBUSY, [], vxt_munlock m)
      else do {
        res \<leftarrow> vxt_db_create (vxt_uuid_to_local_dom (xen_of m)) (openable m) name ((idle m)\<lparr>kernel_ds := True\<rparr>);
        case res of
          Inl k \<Rightarrow> Some (- ENODEV, [], vxt_munlock (m\<lparr>idle := k, fs := True\<rparr>))
        | Inr db \<Rightarrow> Some (0, [], vxt_munlock (m\<lparr>db_handle := Some db, vxt_database_running := True\<rparr>)) })"

definition ioctl_start :: "string \<Rightarrow> vxtdb_mod \<Rightarrow> answer" where
  "ioctl_start name m =
     (case copy_user m of
        (False, m) \<Rightarrow> Some (- EFAULT, [], vxt_munlock m)
      | (True, m) \<Rightarrow> start_db name m)"

definition ioctl_get_local_uuid :: "vxtdb_mod \<Rightarrow> answer" where
  "ioctl_get_local_uuid m =
     (let uuid = snd (vxt_get_local_uuid (xen_of m) (stack_uuid m))
      in case copy_user m of
        (False, m) \<Rightarrow> Some (- EFAULT, [], vxt_munlock m)
      | (True, m) \<Rightarrow> Some (0, [Uuid_reply uuid], vxt_munlock m))"

datatype command =
    VXT_AUTH_DB_INSERT vxt_db_file_rec u32
  | VXT_AUTH_DB_CLIENT_LOOKUP string string
  | VXT_AUTH_DB_DELETE_REC string string string
  | VXT_AUTH_DB_DUMP_GUEST dump_args
  | VXT_AUTH_DB_RESTORE_GUEST string "vxt_db_file_rec list" u32
  | VXT_AUTH_DB_QUERY
  | VXT_AUTH_DB_START string
  | VXT_AUTH_GET_LOCAL_UUID
  | Unknown_command

fun needs_database :: "command \<Rightarrow> bool" where
  "needs_database (VXT_AUTH_DB_START _) = False"
| "needs_database VXT_AUTH_GET_LOCAL_UUID = False"
| "needs_database _ = True"

fun run_command :: "command \<Rightarrow> vxtdb_mod \<Rightarrow> answer" where
  "run_command (VXT_AUTH_DB_INSERT record flags) m = ioctl_insert record flags m"
| "run_command (VXT_AUTH_DB_CLIENT_LOOKUP requester name) m = ioctl_client_lookup requester name m"
| "run_command (VXT_AUTH_DB_DELETE_REC c s name) m = ioctl_delete_rec c s name m"
| "run_command (VXT_AUTH_DB_DUMP_GUEST args) m = ioctl_dump_guest args m"
| "run_command (VXT_AUTH_DB_RESTORE_GUEST guest recs n) m = ioctl_restore_guest guest recs n m"
| "run_command VXT_AUTH_DB_QUERY m = ioctl_query m"
| "run_command (VXT_AUTH_DB_START name) m = ioctl_start name m"
| "run_command VXT_AUTH_GET_LOCAL_UUID m = ioctl_get_local_uuid m"
| "run_command Unknown_command m = Some (0, [], vxt_munlock m)"

definition vxtdb_dev_ioctl :: "command \<Rightarrow> vxtdb_mod \<Rightarrow> answer" where
  "vxtdb_dev_ioctl c m =
     (let m = m\<lparr>request_lock := True\<rparr>
      in if \<not> vxt_database_running m \<and> needs_database c then Some (- EBUSY, [], vxt_munlock m)
         else run_command c m)"

subsection \<open>Calls of other modules\<close>

definition vxtdb_start_database :: "string \<Rightarrow> vxtdb_mod \<Rightarrow> answer" where
  "vxtdb_start_database name m = start_db name (m\<lparr>request_lock := True\<rparr>)"

definition vxtdb_client_lookup ::
    "string \<Rightarrow> string \<Rightarrow> vxt_db_lookup_rec \<Rightarrow> vxtdb_mod \<Rightarrow> (vxt_status \<times> vxt_db_lookup_rec \<times> vxtdb_mod) option" where
  "vxtdb_client_lookup requester name record m =
     (if \<not> vxt_database_running m then Some (VXT_DOWN, record, m)
      else let m = m\<lparr>request_lock := True\<rparr> in do {
        ((ret, record), m) \<leftarrow> with_db (read_only (\<lambda>db. vxt_db_lookup_client
           (vxt_uuid_to_local_dom (xen_of m)) (simple_strtol (xen_of m)) db requester name record)) m;
        Some (ret, record, vxt_munlock m) })"

definition vxtdb_client_record_delete ::
    "string \<Rightarrow> string \<Rightarrow> string option \<Rightarrow> vxtdb_mod \<Rightarrow> (vxt_status \<times> vxtdb_mod) option" where
  "vxtdb_client_record_delete c s name m =
     (if \<not> vxt_database_running m then Some (VXT_DOWN, m)
      else do {
        (ret, m) \<leftarrow> in_kernel_ds (vxt_db_delete_record c s name) (m\<lparr>request_lock := True\<rparr>);
        Some (ret, vxt_munlock m) })"

text \<open>\<open>decimal\<close> is the kernel's formatting of a number.\<close>

definition vxtdb_hub_lookup_spoke ::
    "(int \<Rightarrow> string) \<Rightarrow> int \<Rightarrow> string \<Rightarrow> vxtdb_mod \<Rightarrow> vxt_status \<times> string" where
  "vxtdb_hub_lookup_spoke decimal spoke remote_uuid m =
     (if \<not> vxt_database_running m then (VXT_DOWN, remote_uuid)
      else case vxt_auth_db_lookup (xen_of m) (''/local/domain/'' @ decimal spoke) ''vm'' of
        None \<Rightarrow> (VXT_FAIL, remote_uuid)
      | Some vm \<Rightarrow> (VXT_SUCCESS, take (MAX_VXT_UUID - 1) (drop 4 vm)))"

subsection \<open>Loading and unloading\<close>

text \<open>\<open>register_chrdev\<close> gives the device number or a negative error.\<close>

definition vxtdb_os_register_device_file :: "int \<Rightarrow> vxt_status" where
  "vxtdb_os_register_device_file register_chrdev = (if register_chrdev < 0 then VXT_FAIL else VXT_SUCCESS)"

definition vxtdb_auth_init :: "int \<Rightarrow> vxtdb_mod \<Rightarrow> (int \<times> vxtdb_mod) option" where
  "vxtdb_auth_init register_chrdev m =
     (let m = m\<lparr>request_lock := False\<rparr>;
          (ret, handle) = vxtdb_module_init;
          m = m\<lparr>db_handle := handle\<rparr>
      in if ret \<noteq> VXT_SUCCESS then Some (- ENODEV, m)
         else if vxtdb_os_register_device_file register_chrdev \<noteq> VXT_SUCCESS
         then do { _ \<leftarrow> vxtdb_module_shutdown (db_handle m); Some (0, m) }
         else Some (0, m))"

definition vxtdb_auth_cleanup :: "vxtdb_mod \<Rightarrow> vxtdb_mod option" where
  "vxtdb_auth_cleanup m =
     do { (_, handle) \<leftarrow> vxtdb_module_shutdown (db_handle m);
          Some (vxt_munlock (m\<lparr>db_handle := handle\<rparr>)) }"

end
