(* ===== verification/Vxt_Dbmod_Props.thy ===== *)
theory Vxt_Dbmod_Props
  imports Vxt_Dbmod Vxt_Db_Claims
begin

text \<open>
  The device of the authorization database: every command releases the request lock, the
  address limit of the caller comes back on every path but one, and the commands keep the
  invariant of the database.
\<close>

subsection \<open>What the steps of a command keep\<close>

definition frame :: "vxtdb_mod \<Rightarrow> vxtdb_mod \<Rightarrow> bool" where
  "frame m m' \<longleftrightarrow> fs m' = fs m \<and> vxt_database_running m' = vxt_database_running m"

definition mod_ok :: "vxtdb_mod \<Rightarrow> bool" where
  "mod_ok m \<longleftrightarrow> (vxt_database_running m \<longrightarrow> db_handle m \<noteq> None) \<and> (\<forall>db. db_handle m = Some db \<longrightarrow> vxt_db_ok db)"

lemma frame_refl [simp]: "frame m m"
  by (simp add: frame_def)

lemma frame_trans: "frame a b \<Longrightarrow> frame b c \<Longrightarrow> frame a c"
  by (simp add: frame_def)

lemma vxt_db_ok_kernel_ds [simp]: "vxt_db_ok (db\<lparr>kernel_ds := b\<rparr>) = vxt_db_ok db"
proof -
  have c: "core (db\<lparr>kernel_ds := b\<rparr>) = core db" by (simp add: core_def)
  show ?thesis unfolding vxt_db_ok_def db_holds_core [OF c] ..
qed

lemma vxt_db_ok_kmalloc: "vxt_kmalloc db = (b, db') \<Longrightarrow> vxt_db_ok db \<Longrightarrow> vxt_db_ok db'"
  unfolding vxt_db_ok_def using db_holds_core [OF kmalloc_core] by blast

lemma copy_user_keeps:
  assumes "copy_user m = (b, m')"
  shows "frame m m'" and "mod_ok m' = mod_ok m" and "db_handle m' = db_handle m" and "xen_of m' = xen_of m"
  using assms by (auto simp: copy_user_def frame_def mod_ok_def split: list.splits)

lemma munlock_keeps [simp]:
  "frame m (vxt_munlock m')= frame m m'" "mod_ok (vxt_munlock m) = mod_ok m" "\<not> request_lock (vxt_munlock m)"
  "db_handle (vxt_munlock m) = db_handle m" "fs (vxt_munlock m) = fs m"
  "vxt_database_running (vxt_munlock m) = vxt_database_running m"
  by (simp_all add: vxt_munlock_def frame_def mod_ok_def)

lemma with_db_keeps:
  assumes "with_db f m = Some (a, m')"
  shows "frame m m'" and "xen_of m' = xen_of m"
  using assms by (auto simp: with_db_def frame_def split: bind_splits)

lemma with_db_ok:
  assumes ret: "with_db f m = Some (a, m')" and ok: "mod_ok m"
    and f: "\<And>db db'. vxt_db_ok db \<Longrightarrow> f db = Some (a, db') \<Longrightarrow> vxt_db_ok db'"
  shows "mod_ok m'"
proof -
  from ret obtain db db' where d: "db_handle m = Some db" "f (db\<lparr>kernel_ds := fs m\<rparr>) = Some (a, db')"
    "m' = m\<lparr>db_handle := Some db'\<rparr>" by (auto simp: with_db_def split: bind_splits)
  have "vxt_db_ok (db\<lparr>kernel_ds := fs m\<rparr>)" using ok d(1) by (simp add: mod_ok_def)
  from f [OF this d(2)] d(3) show ?thesis by (simp add: mod_ok_def)
qed

lemma in_kernel_ds_keeps:
  assumes "in_kernel_ds f m = Some (a, m')"
  shows "frame m m'" and "xen_of m' = xen_of m"
  using assms by (auto simp: in_kernel_ds_def with_db_def frame_def split: bind_splits)

lemma in_kernel_ds_ok:
  assumes ret: "in_kernel_ds f m = Some (a, m')" and ok: "mod_ok m"
    and f: "\<And>db db'. vxt_db_ok db \<Longrightarrow> f db = Some (a, db') \<Longrightarrow> vxt_db_ok db'"
  shows "mod_ok m'"
proof -
  from ret obtain m1 where m1: "with_db f (m\<lparr>fs := True\<rparr>) = Some (a, m1)" "m' = m1\<lparr>fs := fs m\<rparr>"
    by (auto simp: in_kernel_ds_def split: bind_splits)
  have "mod_ok (m\<lparr>fs := True\<rparr>)" using ok by (simp add: mod_ok_def)
  from with_db_ok [OF m1(1) this f] m1(2) show ?thesis by (simp add: mod_ok_def)
qed

lemma read_only_ok: "read_only f db = Some (a, db') \<Longrightarrow> db' = db"
  by (auto simp: read_only_def split: bind_splits)

lemma read_only_keeps: "read_only f db = Some (a, db') \<Longrightarrow> vxt_db_ok db \<Longrightarrow> vxt_db_ok db'"
  using read_only_ok by metis

subsection \<open>Locks and address limits\<close>

text \<open>A finished command: the lock is free, the caller's address limit is back.\<close>

definition finished :: "vxtdb_mod \<Rightarrow> answer \<Rightarrow> bool" where
  "finished m a \<longleftrightarrow> (case a of None \<Rightarrow> True | Some (ret, out, m') \<Rightarrow> \<not> request_lock m' \<and> frame m m')"

lemma finished_bind:
  assumes "\<And>a m'. x = Some (a, m') \<Longrightarrow> frame m m'" and "\<And>a m'. x = Some (a, m') \<Longrightarrow> finished m' (k (a, m'))"
  shows "finished m (x \<bind> k)"
proof (cases x)
  case (Some y)
  obtain a m' where y: "y = (a, m')" by fastforce
  with Some assms(1) [of a m'] assms(2) [of a m'] show ?thesis
    by (auto simp: finished_def split: option.splits intro: frame_trans)
qed (simp add: finished_def)

lemma finished_with:
  assumes "\<And>a m'. finished m' (k (a, m'))"
  shows "finished m (with_db f m \<bind> k)" and "finished m (in_kernel_ds f m \<bind> k)"
proof -
  show "finished m (with_db f m \<bind> k)" by (rule finished_bind, erule with_db_keeps(1), rule assms)
  show "finished m (in_kernel_ds f m \<bind> k)" by (rule finished_bind, erule in_kernel_ds_keeps(1), rule assms)
qed

lemma finished_copy_cases:
  assumes "\<And>m'. frame m m' \<Longrightarrow> finished m' (no m')" and "\<And>m'. frame m m' \<Longrightarrow> finished m' (yes m')"
  shows "finished m (case copy_user m of (False, m') \<Rightarrow> no m' | (True, m') \<Rightarrow> yes m')"
proof -
  obtain b m' where c: "copy_user m = (b, m')" by fastforce
  note f = copy_user_keeps(1) [OF c]
  have "finished m' (if b then yes m' else no m')" using assms f by simp
  then have "finished m (if b then yes m' else no m')"
    using f by (auto simp: finished_def split: option.splits intro: frame_trans)
  then show ?thesis using c by (cases b) simp_all
qed

lemma finished_unlock [simp]: "finished m (Some (r, out, vxt_munlock m))"
  by (simp add: finished_def)

lemma finished_dump_reply: "finished m (dump_reply args out m)"
  unfolding dump_reply_def by (rule finished_copy_cases) simp_all

lemma finished_dump_delete: "finished m (dump_delete args out m)"
  unfolding dump_delete_def by (auto simp: finished_dump_reply intro!: finished_with)

lemma finished_dump_copy: "finished m (dump_copy args n m)"
  unfolding dump_copy_def by (auto simp: finished_dump_delete intro!: finished_with finished_copy_cases)

lemma finished_dump_rest:
  "finished m (case dump_limit args count of (args, n) \<Rightarrow> if n = 0 then dump_reply args [] m else dump_copy args n m)"
  by (simp add: finished_dump_reply finished_dump_copy Let_def split: prod.split)

lemma finished_run_command:
  assumes "\<And>name. c \<noteq> VXT_AUTH_DB_START name"
  shows "finished m (run_command c m)"
proof (cases c)
  case (VXT_AUTH_DB_INSERT r flags)
  then show ?thesis by (auto simp: ioctl_insert_def intro!: finished_with finished_copy_cases)
next
  case (VXT_AUTH_DB_CLIENT_LOOKUP requester name)
  then show ?thesis by (auto simp: ioctl_client_lookup_def intro!: finished_with finished_copy_cases)
next
  case (VXT_AUTH_DB_DELETE_REC c s name)
  then show ?thesis by (auto simp: ioctl_delete_rec_def intro!: finished_with finished_copy_cases)
next
  case (VXT_AUTH_DB_DUMP_GUEST args)
  then show ?thesis
    by (auto simp: ioctl_dump_guest_def finished_dump_rest intro!: finished_with finished_copy_cases)
next
  case (VXT_AUTH_DB_RESTORE_GUEST guest recs n)
  then show ?thesis by (auto simp: ioctl_restore_guest_def intro!: finished_with finished_copy_cases)
next
  case VXT_AUTH_DB_QUERY
  obtain b m' where c: "copy_user (vxt_munlock m) = (b, m')" by fastforce
  then have "\<not> request_lock m'" "frame m m'"
    by (auto simp: copy_user_def vxt_munlock_def frame_def split: list.splits)
  with c VXT_AUTH_DB_QUERY show ?thesis by (cases b) (simp_all add: ioctl_query_def Let_def finished_def)
next
  case (VXT_AUTH_DB_START name)
  with assms show ?thesis by blast
next
  case VXT_AUTH_GET_LOCAL_UUID
  then show ?thesis by (auto simp: ioctl_get_local_uuid_def Let_def intro!: finished_copy_cases)
qed simp

lemma start_db_effect:
  assumes "start_db name m = Some (ret, out, m')"
  shows "\<not> request_lock m' \<and> (fs m' = fs m \<or> ret = - ENODEV \<and> fs m')"
  using assms by (auto simp: start_db_def split: if_splits bind_splits sum.splits)

lemma ioctl_start_effect:
  assumes "ioctl_start name m = Some (ret, out, m')"
  shows "\<not> request_lock m' \<and> (fs m' = fs m \<or> ret = - ENODEV \<and> fs m')"
proof -
  obtain b m1 where c: "copy_user m = (b, m1)" by fastforce
  have "fs m1 = fs m" using copy_user_keeps(1) [OF c] by (simp add: frame_def)
  with assms c start_db_effect [of name m1 ret out m'] show ?thesis by (cases b) (auto simp: ioctl_start_def)
qed

subsection \<open>The invariant of the database\<close>

text \<open>Commands whose names are terminated and long enough to be hashed.\<close>

fun command_ok :: "command \<Rightarrow> bool" where
  "command_ok (VXT_AUTH_DB_INSERT r flags) \<longleftrightarrow> file_rec_ok r"
| "command_ok (VXT_AUTH_DB_CLIENT_LOOKUP requester name) \<longleftrightarrow> uuid_ok requester"
| "command_ok (VXT_AUTH_DB_DELETE_REC c s name) \<longleftrightarrow> uuid_ok c \<and> uuid_ok s \<and> name_ok name"
| "command_ok (VXT_AUTH_DB_DUMP_GUEST args) \<longleftrightarrow> uuid_ok (da_guest args)"
| "command_ok (VXT_AUTH_DB_RESTORE_GUEST guest recs n) \<longleftrightarrow> uuid_ok guest \<and> (\<forall>r \<in> set recs. file_rec_ok r)"
| "command_ok (VXT_AUTH_DB_START name) \<longleftrightarrow> False"
| "command_ok _ \<longleftrightarrow> True"

definition keeps :: "vxtdb_mod \<Rightarrow> answer \<Rightarrow> bool" where
  "keeps m a \<longleftrightarrow> (mod_ok m \<longrightarrow> (case a of None \<Rightarrow> True | Some (ret, out, m') \<Rightarrow> mod_ok m'))"

lemma keeps_with:
  assumes "\<And>a m'. keeps m' (k (a, m'))"
    and "\<And>db a db'. vxt_db_ok db \<Longrightarrow> f db = Some (a, db') \<Longrightarrow> vxt_db_ok db'"
  shows "keeps m (with_db f m \<bind> k)" and "keeps m (in_kernel_ds f m \<bind> k)"
proof -
  have "keeps m (x \<bind> k)" if "\<And>a m'. mod_ok m \<Longrightarrow> x = Some (a, m') \<Longrightarrow> mod_ok m'" for x
  proof (cases x)
    case (Some y)
    obtain a m' where y: "y = (a, m')" by fastforce
    show ?thesis
    proof (cases "mod_ok m")
      case True
      with that [of a m'] Some y have "mod_ok m'" by simp
      with assms(1) [of m' a] Some y show ?thesis by (simp add: keeps_def)
    qed (simp add: keeps_def)
  qed (simp add: keeps_def)
  from this [of "with_db f m"] this [of "in_kernel_ds f m"] with_db_ok [of f m] in_kernel_ds_ok [of f m] assms(2)
  show "keeps m (with_db f m \<bind> k)" and "keeps m (in_kernel_ds f m \<bind> k)" by blast+
qed

lemma keeps_copy_cases:
  assumes "\<And>m'. keeps m' (no m')" and "\<And>m'. keeps m' (yes m')"
  shows "keeps m (case copy_user m of (False, m') \<Rightarrow> no m' | (True, m') \<Rightarrow> yes m')"
proof -
  obtain b m' where c: "copy_user m = (b, m')" by fastforce
  have "keeps m' (if b then yes m' else no m')" using assms by simp
  then have "keeps m (if b then yes m' else no m')" using copy_user_keeps(2) [OF c] by (simp add: keeps_def)
  then show ?thesis using c by (cases b) simp_all
qed

lemma keeps_unlock [simp]: "keeps m (Some (r, out, vxt_munlock m))"
  by (simp add: keeps_def)

lemma insert_ok: "vxt_db_ok db \<Longrightarrow> file_rec_ok r \<Longrightarrow> vxt_db_insert r flags db = Some (st, db') \<Longrightarrow> vxt_db_ok db'"
  using db_store.ins_ok [of db r flags] by auto

lemma delete_ok:
  "vxt_db_ok db \<Longrightarrow> uuid_ok c \<Longrightarrow> uuid_ok s \<Longrightarrow> name_ok n \<Longrightarrow>
    vxt_db_delete_record c s (Some n) db = Some (st, db') \<Longrightarrow> vxt_db_ok db'"
  using db_store.del_ok [of db c s "Some n"] by auto

lemma delete_guest_ok:
  "vxt_db_ok db \<Longrightarrow> uuid_ok g \<Longrightarrow> vxt_db_delete_guest g migrate db = Some (st, db') \<Longrightarrow> vxt_db_ok db'"
  using delete_guest_keeps [of g migrate db "(st, db')"] by simp

lemma restore_ok:
  assumes "vxt_db_ok db" and "uuid_ok g" and "\<And>r. r \<in> set recs \<Longrightarrow> file_rec_ok r"
    and "vxt_db_restore_guest g recs db = Some (st, db')"
  shows "vxt_db_ok db'"
  using assms
proof (induction recs arbitrary: db)
  case (Cons r recs)
  from db_store.ins_ok [OF Cons.prems(1), of r "restore_flags g r"] Cons.prems(3) obtain st1 db1 where
    i: "vxt_db_insert r (restore_flags g r) db = Some (st1, db1)" "vxt_db_ok db1" by auto
  show ?case
  proof (cases "st1 = VXT_SUCCESS")
    case True
    with i Cons show ?thesis by simp
  next
    case False
    with i Cons.prems(4) obtain st2 where "vxt_db_delete_guest g True db1 = Some (st2, db')"
      by (auto split: bind_splits)
    with delete_guest_ok [OF i(2) Cons.prems(2)] show ?thesis by blast
  qed
qed simp

lemma keeps_dump_reply: "keeps m (dump_reply args out m)"
  unfolding dump_reply_def by (rule keeps_copy_cases) simp_all

lemma keeps_dump_delete: "uuid_ok (da_guest args) \<Longrightarrow> keeps m (dump_delete args out m)"
  unfolding dump_delete_def
  by (auto simp: keeps_dump_reply intro!: keeps_with dest: delete_guest_ok)

lemma keeps_dump_copy: "uuid_ok (da_guest args) \<Longrightarrow> keeps m (dump_copy args n m)"
  unfolding dump_copy_def
  by (auto simp: keeps_dump_delete intro!: keeps_with keeps_copy_cases dest: vxt_db_ok_kmalloc)
    (erule (1) read_only_keeps)

lemma keeps_dump_rest:
  assumes "uuid_ok (da_guest args)"
  shows "keeps m (case dump_limit args count of (args, n) \<Rightarrow> if n = 0 then dump_reply args [] m else dump_copy args n m)"
proof -
  have "uuid_ok (da_guest (fst (dump_limit args count)))" using assms by (simp add: dump_limit_def)
  then show ?thesis by (auto simp: keeps_dump_reply keeps_dump_copy Let_def split: prod.split)
qed

lemma keeps_run_command:
  assumes "command_ok c"
  shows "keeps m (run_command c m)"
proof (cases c)
  case (VXT_AUTH_DB_INSERT r flags)
  with assms show ?thesis by (auto simp: ioctl_insert_def intro!: keeps_with keeps_copy_cases dest: insert_ok)
next
  case (VXT_AUTH_DB_CLIENT_LOOKUP requester name)
  with assms show ?thesis
    by (auto simp: ioctl_client_lookup_def intro!: keeps_with keeps_copy_cases intro: read_only_keeps)
next
  case (VXT_AUTH_DB_DELETE_REC c s name)
  with assms show ?thesis by (auto simp: ioctl_delete_rec_def intro!: keeps_with keeps_copy_cases dest: delete_ok)
next
  case (VXT_AUTH_DB_DUMP_GUEST args)
  with assms show ?thesis
    by (auto simp: ioctl_dump_guest_def keeps_dump_rest intro!: keeps_with keeps_copy_cases dest: read_only_keeps)
next
  case (VXT_AUTH_DB_RESTORE_GUEST guest recs n)
  with assms show ?thesis
    by (auto simp: ioctl_restore_guest_def intro!: keeps_with keeps_copy_cases dest: vxt_db_ok_kmalloc)
      (erule (1) restore_ok, auto dest: in_set_takeD)
next
  case VXT_AUTH_DB_QUERY
  obtain b m' where c: "copy_user (vxt_munlock m) = (b, m')" by fastforce
  from copy_user_keeps(2) [OF c] c VXT_AUTH_DB_QUERY show ?thesis
    by (cases b) (simp_all add: ioctl_query_def Let_def keeps_def)
next
  case VXT_AUTH_GET_LOCAL_UUID
  then show ?thesis by (auto simp: ioctl_get_local_uuid_def Let_def intro!: keeps_copy_cases)
qed (use assms in simp_all)

subsection \<open>Deletion outside of the kernel's address limit\<close>

lemma destroy_user_ds:
  assumes "\<not> kernel_ds db"
  shows "dfile (snd (vxt_db_destroy_dev_rec d db)) = dfile db \<and> \<not> kernel_ds (snd (vxt_db_destroy_dev_rec d db))"
proof -
  obtain b db1 where m: "vxt_kmalloc db = (b, db1)" by fastforce
  then have "dfile db1 = dfile db" "kernel_ds db1 = kernel_ds db" by (auto simp: vxt_kmalloc_def split: list.splits)
  with assms m show ?thesis by (cases b) (simp_all add: vxt_db_destroy_dev_rec_def vxt_file_write_def EFAULT_def)
qed

lemma destroy_devs_user_ds:
  "\<not> kernel_ds db \<Longrightarrow> dfile (destroy_devs ds db) = dfile db \<and> \<not> kernel_ds (destroy_devs ds db)"
  unfolding destroy_devs_def by (induction ds arbitrary: db) (simp_all add: destroy_user_ds)

lemma detach_rec_user_ds:
  "dfile (detach_rec i r g migrate db) = dfile db \<and> kernel_ds (detach_rec i r g migrate db) = kernel_ds db"
  by (simp add: detach_rec_def Let_def on_table_def)

lemma release_rec_user_ds:
  "\<not> kernel_ds db \<Longrightarrow> dfile (release_rec i r db) = dfile db \<and> \<not> kernel_ds (release_rec i r db)"
  using destroy_devs_user_ds [of db "devices r"] by (simp add: release_rec_def free_rec_def)

lemma delete_guest_user_ds:
  assumes ret: "vxt_db_delete_guest g migrate db = Some x" and ds: "\<not> kernel_ds db"
  shows "dfile (snd x) = dfile db"
proof -
  have "\<not> kernel_ds db \<longrightarrow> dfile (snd x) = dfile db"
  proof (rule vxt_db_delete_guest.raw_induct [where P = "\<lambda>_ _ db x. \<not> kernel_ds db \<longrightarrow> dfile (snd x) = dfile db", OF _ ret], goal_cases)
    case (1 del g m db z)
    show ?case
    proof
      assume ds: "\<not> kernel_ds db"
      obtain h where h: "vxt_db_uuid_lookup db g None = Some h"
        using 1(2) by (cases "vxt_db_uuid_lookup db g None") auto
      show "dfile (snd z) = dfile db"
      proof (cases h)
        case None
        with 1(2) h show ?thesis by auto
      next
        case (Some y)
        with 1(2) h obtain i where i: "parent (fst y) = Some i" by (cases "parent (fst y)") auto
        with 1(2) h Some obtain r where r: "db_recs db i = Some r" by (cases "db_recs db i") auto
        from 1(2) h Some i r have "del g m (release_rec i r (detach_rec i r g m db)) = Some z" by simp
        from 1(1) [OF this] release_rec_user_ds [of "detach_rec i r g m db" i r] detach_rec_user_ds [of i r g m db] ds
        show ?thesis by simp
      qed
    qed
  qed
  with ds show ?thesis by simp
qed

text \<open>A step that neither replaces the database nor changes its file.\<close>

definition same_disk :: "vxt_auth_database \<Rightarrow> answer \<Rightarrow> bool" where
  "same_disk db a \<longleftrightarrow> (case a of None \<Rightarrow> True | Some (ret, out, m') \<Rightarrow> \<exists>db'. db_handle m' = Some db' \<and> dfile db' = dfile db)"

lemma kmalloc_dfile: "vxt_kmalloc k = (b, k') \<Longrightarrow> dfile k' = dfile k"
  by (auto simp: vxt_kmalloc_def split: list.splits)

lemma same_disk_copy_cases:
  assumes "\<And>m'. frame m m' \<Longrightarrow> db_handle m' = db_handle m \<Longrightarrow> same_disk db (no m')"
    and "\<And>m'. frame m m' \<Longrightarrow> db_handle m' = db_handle m \<Longrightarrow> same_disk db (yes m')"
  shows "same_disk db (case copy_user m of (False, m') \<Rightarrow> no m' | (True, m') \<Rightarrow> yes m')"
proof -
  obtain b m' where c: "copy_user m = (b, m')" by fastforce
  with assms [of m'] copy_user_keeps(1,3) [OF c] show ?thesis by (cases b) simp_all
qed

lemma same_disk_unlock:
  "db_handle m = Some db1 \<Longrightarrow> dfile db1 = dfile db \<Longrightarrow> same_disk db (Some (r, out, vxt_munlock m))"
  by (simp add: same_disk_def)

lemma dump_reply_disk: "db_handle m = Some db1 \<Longrightarrow> dfile db1 = dfile db \<Longrightarrow> same_disk db (dump_reply args out m)"
  unfolding dump_reply_def by (rule same_disk_copy_cases) (auto simp: same_disk_def)

lemma dump_delete_disk:
  assumes "db_handle m = Some db1" and "dfile db1 = dfile db" and "\<not> fs m"
  shows "same_disk db (dump_delete args out m)"
proof (cases "da_delete args")
  case True
  show ?thesis
  proof (cases "vxt_db_delete_guest (da_guest args) (da_migrate args) (db1\<lparr>kernel_ds := False\<rparr>)")
    case None
    with True assms show ?thesis by (simp add: dump_delete_def with_db_def same_disk_def)
  next
    case (Some x)
    obtain st db2 where x: "x = (st, db2)" by fastforce
    have "dfile db2 = dfile db" using delete_guest_user_ds [OF Some] x assms(2) by simp
    with True Some x assms(1,3) show ?thesis
      by (auto simp: dump_delete_def with_db_def intro!: dump_reply_disk)
  qed
qed (use dump_reply_disk [OF assms(1,2)] in \<open>simp add: dump_delete_def\<close>)

lemma dump_copy_disk:
  assumes "db_handle m = Some db1" and "dfile db1 = dfile db" and "\<not> fs m"
  shows "same_disk db (dump_copy args n m)"
proof -
  obtain b db2 where k: "vxt_kmalloc (db1\<lparr>kernel_ds := False\<rparr>) = (b, db2)" by fastforce
  have d2: "dfile db2 = dfile db" using kmalloc_dfile [OF k] assms(2) by simp
  let ?m = "m\<lparr>db_handle := Some db2\<rparr>"
  have w: "with_db (\<lambda>db. Some (vxt_kmalloc db)) m = Some (b, ?m)" using assms k by (simp add: with_db_def)
  have copy: "same_disk db (case copy_user m2 of (False, m) \<Rightarrow> Some (- EFAULT, [], vxt_munlock m)
      | (True, m) \<Rightarrow> dump_delete args out m)"
    if "db_handle m2 = Some db3" "dfile db3 = dfile db" "\<not> fs m2" for m2 db3 out
    by (rule same_disk_copy_cases) (use that in \<open>auto simp: frame_def intro!: dump_delete_disk same_disk_unlock\<close>)
  show ?thesis
    unfolding dump_copy_def w using d2 assms(3)
    by (auto simp: in_kernel_ds_def with_db_def read_only_def same_disk_def [of _ None]
        intro!: copy same_disk_unlock split: bind_split)
qed

subsection \<open>The device\<close>

definition sample_xen :: xen where
  "sample_xen = \<lparr>is_initial_xendomain = True, xenbus_scanf = (\<lambda>_ _. None), xenbus_directory = (\<lambda>_ _. None),
     simple_strtol = (\<lambda>_. 0)\<rparr>"

definition sample_lookup_rec :: vxt_db_lookup_rec where
  "sample_lookup_rec = \<lparr>lr_direct = False, lr_client = [], lr_server = [], lr_dev_name = [], lr_client_dom = 0,
     lr_server_dom = 0, lr_label = 0\<rparr>"

text \<open>A module whose database file cannot be opened, and one with a running database.\<close>

definition sample_mod_down :: vxtdb_mod where
  "sample_mod_down = \<lparr>xen_of = sample_xen, openable = False, idle = sample_kernel, vxt_database_running = False,
     db_handle = None, request_lock = False, fs = False, copies = [], heap_rec = sample_file_rec, stack_uuid = [],
     stack_lookup = sample_lookup_rec\<rparr>"

definition sample_mod :: vxtdb_mod where
  "sample_mod = sample_mod_down\<lparr>vxt_database_running := True, db_handle := Some sample_db1\<rparr>"

definition sample_dump_args :: dump_args where
  "sample_dump_args = \<lparr>da_guest = ''faaa'', da_buf_size = 3, da_overrun = False, da_delete = True, da_migrate = False\<rparr>"

text \<open>
  C38: A command of the device that returns has released the request lock and put the
  caller's address limit back, except that a start of the database that fails leaves the
  limit of the kernel.
\<close>

theorem ioctl_releases_lock:
  assumes "vxtdb_dev_ioctl c m = Some (ret, out, m')"
  shows "\<not> request_lock m' \<and> (fs m' = fs m \<or> (\<exists>name. c = VXT_AUTH_DB_START name) \<and> ret = - ENODEV \<and> fs m')"
proof -
  let ?m = "m\<lparr>request_lock := True\<rparr>"
  consider (down) "\<not> vxt_database_running m" "needs_database c"
    | (start) name where "c = VXT_AUTH_DB_START name" "ioctl_start name ?m = Some (ret, out, m')"
    | (other) "\<And>name. c \<noteq> VXT_AUTH_DB_START name" "run_command c ?m = Some (ret, out, m')"
    using assms by (cases "\<exists>name. c = VXT_AUTH_DB_START name") (auto simp: vxtdb_dev_ioctl_def Let_def split: if_splits)
  then show ?thesis
  proof cases
    case down
    with assms show ?thesis by (auto simp: vxtdb_dev_ioctl_def Let_def)
  next
    case start
    with ioctl_start_effect [OF start(2)] show ?thesis by auto
  next
    case other
    with finished_run_command [of c ?m] show ?thesis by (auto simp: finished_def frame_def)
  qed
qed

theorem ioctl_releases_lock_witness:
  "\<exists>m'. vxtdb_dev_ioctl (VXT_AUTH_DB_START ''db'') sample_mod_down = Some (- ENODEV, [], m') \<and> \<not> request_lock m'
    \<and> \<not> fs sample_mod_down \<and> fs m'"
proof -
  have "\<exists>m'. vxtdb_dev_ioctl (VXT_AUTH_DB_START ''db'') sample_mod_down = Some (- ENODEV, [], m') \<and> fs m'"
    by (simp add: vxtdb_dev_ioctl_def Let_def sample_mod_down_def ioctl_start_def copy_user_def start_db_def
        vxt_db_create_def vxt_kmalloc_def sample_kernel_def vxt_munlock_def)
  moreover have "\<not> fs sample_mod_down" by (simp add: sample_mod_down_def)
  ultimately show ?thesis using ioctl_releases_lock by blast
qed

text \<open>
  C24: Every command of the device but the start keeps the invariant of the database, whatever
  copies to and from the caller, allocations and writes fail.
\<close>

theorem ioctl_keeps_database:
  assumes "mod_ok m" and "command_ok c" and "vxtdb_dev_ioctl c m = Some (ret, out, m')"
  shows "mod_ok m'"
proof -
  let ?m = "m\<lparr>request_lock := True\<rparr>"
  have "mod_ok ?m" using assms(1) by (simp add: mod_ok_def)
  then show ?thesis
    using keeps_run_command [OF assms(2), of ?m] assms(3)
    by (auto simp: vxtdb_dev_ioctl_def Let_def keeps_def split: if_splits)
qed

lemma sample_mod_ok: "mod_ok sample_mod"
  using sample_ok(2) by (simp add: mod_ok_def sample_mod_def)

theorem ioctl_keeps_database_witness:
  "mod_ok sample_mod \<and> (\<exists>ret out m'.
     vxtdb_dev_ioctl (VXT_AUTH_DB_DELETE_REC ''faaa'' ''adaa'' ''disk'') sample_mod = Some (ret, out, m') \<and> mod_ok m')"
proof -
  have n: "uuid_ok ''faaa''" "uuid_ok ''adaa''" "name_ok ''disk''" by (simp_all add: uuid_ok_def name_ok_def NUL_def)
  have "vxt_db_ok (sample_db1\<lparr>kernel_ds := True\<rparr>)" using sample_ok(2) by simp
  from db_store.del_ok [OF this n(1,2), of "Some ''disk''"] n(3) obtain st db' where
    "vxt_db_delete_record ''faaa'' ''adaa'' (Some ''disk'') (sample_db1\<lparr>kernel_ds := True\<rparr>) = Some (st, db')" by auto
  then have "\<exists>ret out m'. vxtdb_dev_ioctl (VXT_AUTH_DB_DELETE_REC ''faaa'' ''adaa'' ''disk'') sample_mod = Some (ret, out, m')"
    by (simp add: vxtdb_dev_ioctl_def sample_mod_def sample_mod_down_def ioctl_delete_rec_def copy_user_def
        in_kernel_ds_def with_db_def)
  with ioctl_keeps_database [OF sample_mod_ok, of "VXT_AUTH_DB_DELETE_REC ''faaa'' ''adaa'' ''disk''"] n sample_mod_ok
  show ?thesis by auto
qed

text \<open>
  A dump with deletion takes the guest out of the database in memory only: the deletion
  runs outside of the kernel's address limit, so that its writes fail and the file keeps the
  guest's records.
\<close>

theorem dump_delete_leaves_file:
  assumes "\<not> fs m" and "db_handle m = Some db"
    and "vxtdb_dev_ioctl (VXT_AUTH_DB_DUMP_GUEST args) m = Some (ret, out, m')"
  shows "\<exists>db'. db_handle m' = Some db' \<and> dfile db' = dfile db"
proof -
  let ?m = "m\<lparr>request_lock := True\<rparr>"
  have rest: "same_disk db (case dump_limit args count of (args, n) \<Rightarrow> if n = 0 then dump_reply args [] m1 else dump_copy args n m1)"
    if "db_handle m1 = Some db1" "dfile db1 = dfile db" "\<not> fs m1" for m1 db1 count
    using dump_reply_disk [OF that(1,2)] dump_copy_disk [OF that] by (auto split: prod.split)
  have "same_disk db (ioctl_dump_guest args ?m)"
    unfolding ioctl_dump_guest_def
  proof (rule same_disk_copy_cases, goal_cases)
    case (1 m1)
    with assms(2) show ?case by (auto intro!: same_disk_unlock)
  next
    case (2 m1)
    with assms(1,2) show ?case
      by (auto simp: frame_def with_db_def read_only_def same_disk_def [of _ None] intro!: rest same_disk_unlock split: bind_split)
  qed
  moreover have "same_disk db (Some (r, out, vxt_munlock ?m))" for r out using assms(2) by (simp add: same_disk_def)
  ultimately show ?thesis using assms(3) by (auto simp: vxtdb_dev_ioctl_def Let_def same_disk_def split: if_splits)
qed

lemma sample_dump_ioctl:
  "\<exists>out m' db'. vxtdb_dev_ioctl (VXT_AUTH_DB_DUMP_GUEST sample_dump_args) sample_mod = Some (0, out, m')
    \<and> db_handle m' = Some db' \<and> vxt_db_uuid_lookup db' ''faaa'' None = Some None"
proof -
  let ?db = "sample_db1\<lparr>kernel_ds := False\<rparr>"
  have u: "uuid_ok ''faaa''" by (simp add: uuid_ok_def NUL_def)
  have "guest_leaves ?db ''faaa'' False" by (simp add: guest_leaves_def leaves_hub_def)
  moreover have "vxt_db_ok ?db" using sample_ok(2) by simp
  then obtain ch where "db_holds {} ?db ch" by (auto simp: vxt_db_ok_def)
  ultimately obtain db' where d: "vxt_db_delete_guest ''faaa'' False ?db = Some (VXT_SUCCESS, db')"
    "vxt_db_uuid_lookup db' ''faaa'' None = Some None" using delete_guest_spec [of ?db ch "''faaa''" False] u by blast
  note walk = vxt_db_uuid_lookup_def uuid_lookup_loop.simps sample_db1_def sample_links_def
      link_first_def link_self_def Let_def empty_table_def endpoint_match_def sample_rec_def strn_eq_def
      vxt_db_lookup_next_def lookup_next_loop.simps
  have count: "vxt_db_guest_dev_count ?db ''faaa'' = Some (VXT_SUCCESS, 2)"
    by (simp add: vxt_db_guest_dev_count_def dev_count_loop.simps walk)
  obtain res where dump: "vxt_db_dump_guest (sample_db1\<lparr>kernel_ds := True\<rparr>) ''faaa'' [sample_file_rec, sample_file_rec] 2
      = Some (VXT_SUCCESS, res)" by (simp add: vxt_db_dump_guest_def dump_guest_loop.simps dev_file_rec_def word_le_nat_alt walk)
  have m: "mallocs sample_db1 = []" by (simp add: sample_db1_def sample_db0_fields)
  have r: "replicate 2 sample_file_rec = [sample_file_rec, sample_file_rec]" by (simp add: numeral_2_eq_2)
  show ?thesis
    using d count dump
    by (simp add: vxtdb_dev_ioctl_def sample_mod_def sample_mod_down_def sample_dump_args_def ioctl_dump_guest_def
        copy_user_def with_db_def read_only_def dump_limit_def dump_copy_def vxt_kmalloc_def m r in_kernel_ds_def
        dump_delete_def dump_reply_def vxt_munlock_def)
qed

theorem dump_delete_leaves_file_witness:
  "\<exists>out m' db'. vxtdb_dev_ioctl (VXT_AUTH_DB_DUMP_GUEST sample_dump_args) sample_mod = Some (0, out, m')
    \<and> db_handle m' = Some db' \<and> vxt_db_uuid_lookup db' ''faaa'' None = Some None \<and> dfile db' = dfile sample_db1"
proof -
  obtain out m' db' where d: "vxtdb_dev_ioctl (VXT_AUTH_DB_DUMP_GUEST sample_dump_args) sample_mod = Some (0, out, m')"
    "db_handle m' = Some db'" "vxt_db_uuid_lookup db' ''faaa'' None = Some None" using sample_dump_ioctl by blast
  have "\<not> fs sample_mod" "db_handle sample_mod = Some sample_db1" by (simp_all add: sample_mod_def sample_mod_down_def)
  from dump_delete_leaves_file [OF this d(1)] d show ?thesis by auto
qed

end
