(* ===== verification/Vxt_Conn.thy ===== *)
theory Vxt_Conn
  imports Vxt_Msg
begin

text \<open>
  The devices of \<^verbatim>\<open>lib/vxtlib/common/vxt_msg.c\<close>: adding, connecting and disconnecting a message
  device, waiting, and the queries. The calls of the operating system (\<^verbatim>\<open>open\<close>, \<^verbatim>\<open>close\<close>, the commands
  of the controller's \<^verbatim>\<open>ioctl\<close>, \<^verbatim>\<open>mmap\<close>, \<^verbatim>\<open>poll\<close>) are the record \<open>os\<close> of functions on a state of the
  kernel, of any type. The state of the library holds the descriptors that are open, the allocated
  device structures and the mapped regions. A use of a pointer that was freed or never assigned, a
  failed mapping and a name that does not fit its array are the value \<open>None\<close>.
\<close>

subsection \<open>The structures of the controller's commands\<close>

definition VXTCOM_MAX_DEV_FILE_NAME :: nat where "VXTCOM_MAX_DEV_FILE_NAME = 36"
definition VXT_DEV_DIR :: string where "VXT_DEV_DIR = ''/dev/''"
definition VXT_COM_DEV_NAME :: string where "VXT_COM_DEV_NAME = ''/dev/vxtctrlr0''"
definition VXT_COM_BUS_NAME :: string where "VXT_COM_BUS_NAME = ''/dev/vxtctrlr-bus''"
definition VXTCTRLR_LOOKUP_NAME :: u32 where "VXTCTRLR_LOOKUP_NAME = 0x1"
definition VXTCTRLR_GLOBAL_LOOKUP :: u32 where "VXTCTRLR_GLOBAL_LOOKUP = 0x2"
definition VXTCTRLR_CTRLR_LOOKUP :: u32 where "VXTCTRLR_CTRLR_LOOKUP = 0x4"
definition VXTCTRLR_GLOBAL_DEV_NAME :: u32 where "VXTCTRLR_GLOBAL_DEV_NAME = 0x1"
definition VXTCTRLR_NULL_DEV :: u64 where "VXTCTRLR_NULL_DEV = 0"
definition VXTCTRLR_MSG_DEV :: u64 where "VXTCTRLR_MSG_DEV = 1"
definition VXT_UNIVERSAL :: u64 where "VXT_UNIVERSAL = 0xFFFFFFFF"
definition VXT_CLOSE_REMOTE :: u32 where "VXT_CLOSE_REMOTE = 0x1"
definition VXT_CLOSE_LOCAL :: u32 where "VXT_CLOSE_LOCAL = 0x2"
definition VXT_CLOSE_FORCE :: u32 where "VXT_CLOSE_FORCE = 0x4"
definition VXT_MSG_DEV_CONNECTED :: int where "VXT_MSG_DEV_CONNECTED = 2"
definition VXT_MSG_DEV_ERROR :: int where "VXT_MSG_DEV_ERROR = 3"
definition VXT_MSG_ATTACH_SUCCESS :: int where "VXT_MSG_ATTACH_SUCCESS = 1"
definition VXT_MSG_ATTACH_BUSY :: int where "VXT_MSG_ATTACH_BUSY = 2"
definition VXT_MSG_DEV_VERSION :: int where "VXT_MSG_DEV_VERSION = 0x100"
definition VXT_INVALID_DEV_OBJ :: int where "VXT_INVALID_DEV_OBJ = - 1"
definition VXTSIG_HUP :: u16 where "VXTSIG_HUP = 0x10"
definition POLLVXT :: u16 where "POLLVXT = 0x2000"
definition POLLVXT_DEV :: u16 where "POLLVXT_DEV = 0x4000"
definition POLLVXT_CTRLR :: u16 where "POLLVXT_CTRLR = 0x8000"

record vxt_dev_addr =
  ep_id :: string
  uname :: string

record vxt_query_controller_struct =
  qc_uname :: string
  qc_name_match_length :: u32
  qc_ep_id :: string
  qc_remote_domain :: u32
  qc_controller :: u32
  qc_ctrlr_name :: string

record vxt_query_bus_struct =
  qb_function :: u32
  qb_option :: u32
  qb_ep_id :: string
  qb_uname :: string
  qb_name_match_length :: u32
  qb_dev_name :: u64
  qb_vxt_bus_id :: u64
  qb_controller :: u32
  qb_ctrlr_name :: string

record vxt_query_sys_struct =
  qs_uname :: string
  qs_ep_id :: string
  qs_domain :: u32
  qs_controller :: u32
  qs_ctrlr_name :: string

record vxt_msg_dev_info =
  di_version :: int
  di_dev_name :: string
  di_dev_handle :: u64
  di_sendq :: u64
  di_sendq_size :: int
  di_sendq_bufcnt :: int
  di_rcvq :: u64
  di_rcvq_size :: int
  di_rcvq_bufcnt :: int
  di_state :: int
  di_remote_dom :: int

record vxt_msg_create_info =
  ci_sendq_len :: u32
  ci_rcvq_len :: u32
  ci_sendq_bufcnt :: u32
  ci_rcvq_bufcnt :: u32

record vxt_msg_buf_parms =
  recv_buf_size :: u32
  recv_sub_buf_cnt :: u32
  send_buf_size :: u32
  send_sub_buf_cnt :: u32

text \<open>\<^verbatim>\<open>vxtcom_strncpy\<close> into an array of \<open>n\<close> characters, the last one always the terminator.\<close>

definition vxtcom_strncpy :: "nat \<Rightarrow> string \<Rightarrow> string" where
  "vxtcom_strncpy n s = take (n - 1) s"

subsection \<open>The state of the library\<close>

text \<open>
  A device: what \<^verbatim>\<open>vxt_msg_send\<close> and \<^verbatim>\<open>vxt_msg_rcv\<close> use, and the rest of the structure. The flags
  \<open>sendq_set\<close> and \<open>rcvq_set\<close> tell whether the two pointers to queues have been assigned.
\<close>

record msg_device = vxt_msg_dev_instance +
  sendq_set :: bool
  rcvq_set :: bool
  dtype :: u64
  dev_slot :: u64
  ctrlr_id :: u64
  ctrlr_fd :: int
  dev_fd :: int
  send_buf :: "nat option"
  sendq_token :: u64
  sendq_size :: int
  sendq_bufcnt :: int
  send_sub_size :: int
  rcv_buf :: "nat option"
  rcvq_token :: u64
  rcvq_size :: int
  rcvq_bufcnt :: int
  rcv_sub_size :: int
  remote_dom :: int
  dev_ep_id :: string
  dev_uname :: string
  file_name :: string
  dev_handle :: u64

text \<open>
  The operating system. An \<open>io\<close> function gives 0 or the error number, the structure that the command
  fills in, and the next state. A mapping gives its address, the sub-buffers and the cookie that the
  memory holds. A poll gives the number of ready entries and their events, or an error.
\<close>

record 'k os =
  os_open :: "string \<Rightarrow> 'k \<Rightarrow> int \<times> 'k"
  os_close :: "int \<Rightarrow> 'k \<Rightarrow> 'k"
  os_mknod :: "string \<Rightarrow> u64 \<Rightarrow> 'k \<Rightarrow> 'k"
  io_lookup :: "int \<Rightarrow> vxt_query_controller_struct \<Rightarrow> 'k \<Rightarrow> int \<times> vxt_query_controller_struct \<times> 'k"
  io_query_bus :: "int \<Rightarrow> vxt_query_bus_struct \<Rightarrow> 'k \<Rightarrow> int \<times> vxt_query_bus_struct \<times> 'k"
  io_dev_create :: "int \<Rightarrow> string \<times> u64 \<times> vxt_msg_create_info \<Rightarrow> 'k \<Rightarrow> int \<times> u64 \<times> 'k"
  io_attach :: "int \<Rightarrow> u64 \<Rightarrow> 'k \<Rightarrow> int \<times> int \<times> 'k"
  io_detach :: "int \<Rightarrow> u64 \<Rightarrow> 'k \<Rightarrow> int \<times> int \<times> 'k"
  io_query_dev :: "int \<Rightarrow> u64 \<Rightarrow> 'k \<Rightarrow> int \<times> vxt_msg_dev_info \<times> 'k"
  io_dev_remove :: "int \<Rightarrow> u64 \<Rightarrow> 'k \<Rightarrow> int \<times> unit \<times> 'k"
  io_poll_focus :: "int \<Rightarrow> u64 \<Rightarrow> 'k \<Rightarrow> int \<times> unit \<times> 'k"
  os_mmap :: "int \<Rightarrow> u64 \<Rightarrow> int \<Rightarrow> 'k \<Rightarrow> (nat \<times> (nat \<Rightarrow> vxtq_sbuf_header) \<times> string) option \<times> 'k"
  os_munmap :: "nat \<Rightarrow> int \<Rightarrow> 'k \<Rightarrow> 'k"
  os_poll :: "(int \<times> u16) list \<Rightarrow> int \<Rightarrow> 'k \<Rightarrow> (int + int \<times> u16 list) \<times> 'k"

text \<open>
  The fields from \<open>heap_dev\<close> on are what fresh memory and uninitialised variables hold; a list of
  outcomes tells which allocations succeed.
\<close>

record 'k lib =
  os :: "'k os"
  kst :: 'k
  errno :: int
  vxtctrlr_fd :: int
  open_fds :: "int list"
  devs :: "nat \<rightharpoonup> msg_device"
  live_connections :: "nat list"
  regions :: "nat \<rightharpoonup> shm"
  cookies :: "nat \<Rightarrow> string"
  next_addr :: nat
  allocs :: "bool list"
  heap_dev :: msg_device
  stack_ctrlr :: vxt_query_controller_struct
  stack_bus :: vxt_query_bus_struct

subsection \<open>Wrappers of the system calls\<close>

definition vxt_msg_open_com :: "string \<Rightarrow> ('k, 'a) lib_scheme \<Rightarrow> int \<times> ('k, 'a) lib_scheme" where
  "vxt_msg_open_com name s =
     (case os_open (os s) name (kst s) of
        (fd, k) \<Rightarrow> (fd, s\<lparr>kst := k, open_fds := (if fd = VXT_INVALID_DEV_OBJ then open_fds s else fd # open_fds s)\<rparr>))"

definition vxt_msg_close_com :: "int \<Rightarrow> ('k, 'a) lib_scheme \<Rightarrow> ('k, 'a) lib_scheme" where
  "vxt_msg_close_com fd s = s\<lparr>kst := os_close (os s) fd (kst s), open_fds := remove1 fd (open_fds s)\<rparr>"

definition vxt_msg_ioctl ::
    "('k os \<Rightarrow> int \<Rightarrow> 'r \<Rightarrow> 'k \<Rightarrow> int \<times> 'b \<times> 'k) \<Rightarrow> int \<Rightarrow> 'r \<Rightarrow> ('k, 'a) lib_scheme
      \<Rightarrow> int \<times> 'b \<times> ('k, 'a) lib_scheme" where
  "vxt_msg_ioctl command fd data s =
     (case command (os s) fd data (kst s) of
        (ret, res, k) \<Rightarrow> (ret, res, s\<lparr>kst := k, errno := (if ret \<noteq> 0 then ret else errno s)\<rparr>))"

definition vxt_msg_open_dev :: "string \<Rightarrow> u64 \<Rightarrow> ('k, 'a) lib_scheme \<Rightarrow> int \<times> ('k, 'a) lib_scheme" where
  "vxt_msg_open_dev name handle s =
     (case vxt_msg_open_com name s of
        (fd, s) \<Rightarrow>
          if fd = VXT_INVALID_DEV_OBJ
          then vxt_msg_open_com name (s\<lparr>kst := os_mknod (os s) name handle (kst s)\<rparr>) else (fd, s))"

definition vxt_malloc :: "('k, 'a) lib_scheme \<Rightarrow> bool \<times> ('k, 'a) lib_scheme" where
  "vxt_malloc s = (case allocs s of [] \<Rightarrow> (True, s) | b # bs \<Rightarrow> (b, s\<lparr>allocs := bs\<rparr>))"


text \<open>What the two callers of \<^verbatim>\<open>poll\<close> make of its errors; the other ones pass for success.\<close>

definition poll_status :: "int \<Rightarrow> vxt_status" where
  "poll_status e =
     (if e = EBADF \<or> e = EFAULT then VXT_PARM else if e = EINTR then VXT_ABORT
      else if e = EINVAL then VXT_PARM else if e = ENOMEM then VXT_NOMEM else VXT_SUCCESS)"

text \<open>The status and the events, when they are stored.\<close>

definition vxt_msg_event_wait ::
    "int \<Rightarrow> int \<Rightarrow> ('k, 'a) lib_scheme \<Rightarrow> vxt_status \<times> u16 option \<times> ('k, 'a) lib_scheme" where
  "vxt_msg_event_wait fd timeout s =
     (case os_poll (os s) [(fd, 0xff)] timeout (kst s) of
        (Inl e, k) \<Rightarrow>
          (poll_status e, if poll_status e = VXT_SUCCESS then Some 0 else None, s\<lparr>kst := k, errno := e\<rparr>)
      | (Inr (n, revents), k) \<Rightarrow> (VXT_SUCCESS, Some (hd revents), s\<lparr>kst := k\<rparr>))"

subsection \<open>Waiting for controllers\<close>

definition vxt_msg_init :: "('k, 'a) lib_scheme \<Rightarrow> vxt_status \<times> ('k, 'a) lib_scheme" where
  "vxt_msg_init s =
     (case vxt_msg_open_com VXT_COM_BUS_NAME s of
        (fd, s) \<Rightarrow> (if fd = VXT_INVALID_DEV_OBJ then VXT_FAIL else VXT_SUCCESS, s\<lparr>vxtctrlr_fd := fd\<rparr>))"

definition vxt_msg_ctrlr_plug_event ::
    "int \<Rightarrow> ('k, 'a) lib_scheme \<Rightarrow> vxt_status \<times> u16 option \<times> ('k, 'a) lib_scheme" where
  "vxt_msg_ctrlr_plug_event timeout s = vxt_msg_event_wait (vxtctrlr_fd s) timeout s"

text \<open>With a connection the code waits on the bus, not on the connection's controller.\<close>

definition vxt_msg_poll_ctrlr ::
    "bool \<Rightarrow> int \<Rightarrow> ('k, 'a) lib_scheme \<Rightarrow> vxt_status \<times> u16 option \<times> ('k, 'a) lib_scheme" where
  "vxt_msg_poll_ctrlr connected timeout s =
     (if connected then vxt_msg_event_wait (vxtctrlr_fd s) timeout s
      else case vxt_msg_ioctl io_query_bus (vxtctrlr_fd s)
          ((stack_bus s)\<lparr>qb_function := VXTCTRLR_CTRLR_LOOKUP, qb_controller := 0, qb_ctrlr_name := []\<rparr>) s of
        (ret, query, s) \<Rightarrow>
          if ret \<noteq> 0 then (VXT_DOWN, None, s)
          else if qb_controller query = 0 then (VXT_DOWN, None, s)
          else case vxt_msg_open_com (VXT_DEV_DIR @ qb_ctrlr_name query) s of
            (fd, s) \<Rightarrow>
              if fd = VXT_INVALID_DEV_OBJ then (VXT_PARM, None, s)
              else case vxt_msg_ioctl io_poll_focus fd VXT_UNIVERSAL s of
                (ret, _, s) \<Rightarrow>
                  if ret \<noteq> 0 then (VXT_FAIL, None, vxt_msg_close_com fd s)
                  else case vxt_msg_event_wait fd timeout s of
                    (ret, revent, s) \<Rightarrow> (ret, revent, vxt_msg_close_com fd s))"

definition vxt_msg_ctrlr_wait ::
    "nat option \<Rightarrow> ('k, 'a) lib_scheme \<Rightarrow> (vxt_status \<times> ('k, 'a) lib_scheme) option" where
  "vxt_msg_ctrlr_wait connection s =
     (case connection of
        None \<Rightarrow> (case vxt_msg_event_wait (vxtctrlr_fd s) (- 1) s of (ret, _, s) \<Rightarrow> Some (ret, s))
      | Some a \<Rightarrow>
          (case devs s a of
             None \<Rightarrow> None
           | Some d \<Rightarrow> (case vxt_msg_event_wait (ctrlr_fd d) (- 1) s of (ret, _, s) \<Rightarrow> Some (ret, s))))"

subsection \<open>Shutdown and disconnect\<close>

text \<open>The shutdown returns at once; the rest of its body is switched off.\<close>

definition vxt_msg_shutdown :: vxt_status where
  "vxt_msg_shutdown = VXT_SUCCESS"

definition unmap :: "nat option \<Rightarrow> int \<Rightarrow> ('k, 'a) lib_scheme \<Rightarrow> ('k, 'a) lib_scheme" where
  "unmap buf sz s =
     (case buf of
        None \<Rightarrow> s
      | Some b \<Rightarrow> s\<lparr>kst := os_munmap (os s) b sz (kst s), regions := (regions s)(b := None)\<rparr>)"

definition close_device :: "nat \<Rightarrow> msg_device \<Rightarrow> ('k, 'a) lib_scheme \<Rightarrow> ('k, 'a) lib_scheme" where
  "close_device a d s =
     (let s = vxt_msg_close_com (ctrlr_fd d) s;
          s = (if dev_fd d \<noteq> VXT_INVALID_DEV_OBJ then vxt_msg_close_com (dev_fd d) s else s)
      in s\<lparr>devs := (devs s)(a := None)\<rparr>)"

text \<open>The two queues are freed first, whether or not the pointers have been assigned.\<close>

definition vxt_msg_disconnect ::
    "nat option \<Rightarrow> u32 \<Rightarrow> ('k, 'a) lib_scheme \<Rightarrow> (vxt_status \<times> ('k, 'a) lib_scheme) option" where
  "vxt_msg_disconnect connection options s =
     (case connection of
        None \<Rightarrow> Some (VXT_PARM, s)
      | Some a \<Rightarrow>
          if a \<notin> set (live_connections s) then Some (VXT_PARM, s)
          else let s = s\<lparr>live_connections := remove1 a (live_connections s)\<rparr>
          in case devs s a of
            None \<Rightarrow> None
          | Some d \<Rightarrow>
              if \<not> sendq_set d \<or> \<not> rcvq_set d then None
              else let s = unmap (rcv_buf d) (rcvq_size d) (unmap (send_buf d) (sendq_size d) s)
              in case vxt_msg_ioctl io_detach (ctrlr_fd d) (dev_slot d) s of
                (ret, status, s) \<Rightarrow>
                  if ret \<noteq> 0 \<or> status \<noteq> VXT_MSG_ATTACH_SUCCESS then Some (VXT_PARM, close_device a d s)
                  else let s = (if flag_set options VXT_CLOSE_REMOTE
                                then snd (snd (vxt_msg_ioctl io_dev_remove (ctrlr_fd d) (dev_slot d) s)) else s)
                  in Some (VXT_SUCCESS, close_device a d s))"

subsection \<open>Adding a device\<close>

text \<open>The controller that reaches the endpoint, or the default one.\<close>

definition add_lookup ::
    "vxt_dev_addr \<Rightarrow> ('k, 'a) lib_scheme \<Rightarrow> string \<times> vxt_query_controller_struct \<times> ('k, 'a) lib_scheme" where
  "add_lookup endpoint s =
     (case vxt_msg_ioctl io_lookup (vxtctrlr_fd s)
         ((stack_ctrlr s)\<lparr>qc_uname := vxtcom_strncpy MAX_VXT_UNAME (uname endpoint),
            qc_ep_id := vxtcom_strncpy MAX_VXT_UUID (ep_id endpoint), qc_name_match_length := 0, qc_remote_domain := 0\<rparr>) s of
        (ret, request, s) \<Rightarrow>
          (if ret \<noteq> 0 then VXT_COM_DEV_NAME else VXT_DEV_DIR @ qc_ctrlr_name request, request, s))"

definition add_query :: "u64 \<Rightarrow> vxt_dev_addr \<Rightarrow> vxt_query_bus_struct \<Rightarrow> vxt_query_bus_struct" where
  "add_query dev endpoint query =
     query\<lparr>qb_function := VXTCTRLR_LOOKUP_NAME, qb_ep_id := vxtcom_strncpy MAX_VXT_UUID (ep_id endpoint),
       qb_name_match_length := 0, qb_uname := vxtcom_strncpy MAX_VXT_UNAME (uname endpoint),
       qb_dev_name := dev, qb_vxt_bus_id := VXTCTRLR_NULL_DEV\<rparr>"

definition create_info :: "vxt_msg_buf_parms \<Rightarrow> vxt_msg_create_info" where
  "create_info parms =
     \<lparr>ci_sendq_len = send_buf_size parms, ci_rcvq_len = recv_buf_size parms,
      ci_sendq_bufcnt = send_sub_buf_cnt parms, ci_rcvq_bufcnt = recv_sub_buf_cnt parms\<rparr>"

text \<open>The fields of a new device; the pointers to the queues keep what the fresh memory holds.\<close>

definition fill_device ::
    "bool \<Rightarrow> u64 \<Rightarrow> vxt_dev_addr \<Rightarrow> u32 \<Rightarrow> int \<Rightarrow> u64 \<Rightarrow> vxt_msg_dev_info \<Rightarrow> msg_device \<Rightarrow> msg_device" where
  "fill_device connecting dev endpoint controller fd bus_id info d =
     d\<lparr>is_new := connecting, partial_send := None, partial_rcv := None, sendq_set := False, rcvq_set := False,
       dtype := dev, dev_slot := bus_id, ctrlr_id := ucast controller, ctrlr_fd := fd, dev_fd := VXT_INVALID_DEV_OBJ,
       send_buf := None, rcv_buf := None, sendq_token := di_sendq info, sendq_size := di_sendq_size info,
       sendq_bufcnt := di_sendq_bufcnt info, rcvq_token := di_rcvq info, rcvq_size := di_rcvq_size info,
       rcvq_bufcnt := di_rcvq_bufcnt info, dev_ep_id := vxtcom_strncpy MAX_VXT_UUID (ep_id endpoint),
       dev_uname := vxtcom_strncpy MAX_VXT_UNAME (uname endpoint),
       file_name := vxtcom_strncpy VXTCOM_MAX_DEV_FILE_NAME (di_dev_name info),
       dev_handle := di_dev_handle info, remote_dom := di_remote_dom info\<rparr>"

definition set_dev :: "nat \<Rightarrow> msg_device \<Rightarrow> ('k, 'a) lib_scheme \<Rightarrow> ('k, 'a) lib_scheme" where
  "set_dev a d s = s\<lparr>devs := (devs s)(a \<mapsto> d)\<rparr>"

text \<open>The initialisation of a queue in a mapped region, with the allocation it makes.\<close>

definition init_queue ::
    "(nat \<Rightarrow> vxtq_sbuf_header) \<Rightarrow> nat \<Rightarrow> int \<Rightarrow> int \<Rightarrow> u32 \<Rightarrow> ('k, 'a) lib_scheme
      \<Rightarrow> (vxt_status + (int \<times> vxtq_queue)) \<times> ('k, 'a) lib_scheme" where
  "init_queue raw buf sz cnt flags s =
     (let hdr_len = int sizeof_vxtq_control + int vxtmsg_cookie_size
      in case vxtq_init_buf True raw buf sz hdr_len cnt 0 0 flags of
           Inl e \<Rightarrow> (Inl e, s)
         | Inr (sub_size, q, m) \<Rightarrow>
             (case vxt_malloc s of
                (False, s) \<Rightarrow> (Inl VXT_NOMEM, s)
              | (True, s) \<Rightarrow> (Inr (sub_size, q), s\<lparr>regions := (regions s)(buf \<mapsto> m)\<rparr>)))"

text \<open>The mapping of the two regions; every later use of one that failed is a fault.\<close>

definition map_queues ::
    "int \<Rightarrow> msg_device \<Rightarrow> ('k, 'a) lib_scheme
      \<Rightarrow> ((nat \<times> (nat \<Rightarrow> vxtq_sbuf_header)) \<times> (nat \<times> (nat \<Rightarrow> vxtq_sbuf_header)) \<times> ('k, 'a) lib_scheme) option" where
  "map_queues fd d s =
     (case os_mmap (os s) fd (sendq_token d) (sendq_size d) (kst s) of
        (snd_map, k) \<Rightarrow>
          (case os_mmap (os s) fd (rcvq_token d) (rcvq_size d) k of
             (rcv_map, k) \<Rightarrow>
               (case (snd_map, rcv_map) of
                  (Some (sb, sraw, sc), Some (rb, rraw, rc)) \<Rightarrow>
                    Some ((sb, sraw), (rb, rraw), s\<lparr>kst := k, cookies := (cookies s)(sb := sc, rb := rc)\<rparr>)
                | _ \<Rightarrow> None)))"

text \<open>
  The end of an addition. The statuses of the two initialisations are not looked at.
\<close>

definition add_queues :: "nat \<Rightarrow> msg_device \<Rightarrow> int \<Rightarrow> ('k, 'a) lib_scheme \<Rightarrow> ('k, 'a) lib_scheme option" where
  "add_queues a d fd s =
     (case map_queues fd d s of
        None \<Rightarrow> None
      | Some ((sb, sraw), (rb, rraw), s) \<Rightarrow>
          let d = d\<lparr>send_buf := Some sb, rcv_buf := Some rb\<rparr>;
              (res, s) = init_queue sraw sb (sendq_size d) (sendq_bufcnt d) VXTQ_LOCAL_IS_PRODUCER s;
              d = (case res of Inl _ \<Rightarrow> d | Inr (sub, q) \<Rightarrow> d\<lparr>send_sub_size := sub, sendq := q, sendq_set := True\<rparr>);
              (res, s) = init_queue rraw rb (rcvq_size d) (rcvq_bufcnt d) 0 s;
              d = (case res of Inl _ \<Rightarrow> d | Inr (sub, q) \<Rightarrow> d\<lparr>rcv_sub_size := sub, rcvq := q, rcvq_set := True\<rparr>)
          in Some ((set_dev a d s)\<lparr>cookies := (cookies s)(sb := vxtmsg_queue_cookie, rb := vxtmsg_queue_cookie),
                     live_connections := a # live_connections s\<rparr>))"

text \<open>A failure after the allocation of the structure: it is freed and the controller closed.\<close>

definition drop_device :: "nat \<Rightarrow> int \<Rightarrow> ('k, 'a) lib_scheme \<Rightarrow> ('k, 'a) lib_scheme" where
  "drop_device a fd s = (let s = vxt_msg_close_com fd s in s\<lparr>devs := (devs s)(a := None)\<rparr>)"

definition alloc_device :: "('k, 'a) lib_scheme \<Rightarrow> nat option \<times> ('k, 'a) lib_scheme" where
  "alloc_device s =
     (case vxt_malloc s of
        (False, s) \<Rightarrow> (None, s)
      | (True, s) \<Rightarrow> (Some (next_addr s), (set_dev (next_addr s) (heap_dev s) s)\<lparr>next_addr := Suc (next_addr s)\<rparr>))"

text \<open>The part that sets the poll focus and the queues; a failed focus disconnects the device.\<close>

definition add_finish ::
    "nat \<Rightarrow> msg_device \<Rightarrow> u64 \<Rightarrow> int \<Rightarrow> ('k, 'a) lib_scheme
      \<Rightarrow> (vxt_status \<times> nat option \<times> ('k, 'a) lib_scheme) option" where
  "add_finish a d dev fd s =
     (case vxt_msg_ioctl io_poll_focus fd dev (set_dev a d s) of
        (ret, _, s) \<Rightarrow>
          if ret \<noteq> 0 then
            (case vxt_msg_disconnect (Some a) VXT_CLOSE_REMOTE (s\<lparr>live_connections := a # live_connections s\<rparr>) of
               None \<Rightarrow> None | Some (_, s) \<Rightarrow> Some (VXT_FAIL, None, s\<lparr>errno := ret\<rparr>))
          else case add_queues a d fd s of None \<Rightarrow> None | Some s \<Rightarrow> Some (VXT_SUCCESS, Some a, s))"

definition add_attach ::
    "u64 \<Rightarrow> vxt_dev_addr \<Rightarrow> u32 \<Rightarrow> int \<Rightarrow> u64 \<Rightarrow> nat \<Rightarrow> ('k, 'a) lib_scheme
      \<Rightarrow> (vxt_status \<times> nat option \<times> ('k, 'a) lib_scheme) option" where
  "add_attach dev endpoint controller fd bus_id a s =
     (case vxt_msg_ioctl io_attach fd bus_id s of
        (ret, status, s) \<Rightarrow>
          if ret \<noteq> 0 \<or> status \<noteq> VXT_MSG_ATTACH_SUCCESS then Some (VXT_FAIL, None, drop_device a fd s)
          else case vxt_msg_ioctl io_query_dev fd bus_id s of
            (ret, info, s) \<Rightarrow>
              if ret \<noteq> 0 then Some (VXT_FAIL, None, drop_device a fd s)
              else if di_state info = VXT_MSG_DEV_ERROR then Some (VXT_BUSY, None, drop_device a fd s)
              else add_finish a (fill_device False dev endpoint controller fd bus_id info (heap_dev s)) dev fd s)"

definition vxt_msg_add ::
    "u64 \<Rightarrow> vxt_dev_addr \<Rightarrow> vxt_msg_buf_parms \<Rightarrow> ('k, 'a) lib_scheme
      \<Rightarrow> (vxt_status \<times> nat option \<times> ('k, 'a) lib_scheme) option" where
  "vxt_msg_add dev endpoint parms s =
     (if vxtctrlr_fd s = VXT_INVALID_DEV_OBJ then Some (VXT_DOWN, None, s)
      else case add_lookup endpoint s of
        (name, request, s) \<Rightarrow>
          (case vxt_msg_open_com name s of
             (fd, s) \<Rightarrow>
               if fd = VXT_INVALID_DEV_OBJ then Some (VXT_PARM, None, s)
               else case vxt_msg_ioctl io_query_bus fd (add_query dev endpoint (stack_bus s)) s of
                 (ret, query, s) \<Rightarrow>
                   if ret \<noteq> 0 then Some (VXT_DOWN, None, vxt_msg_close_com fd s)
                   else if qb_vxt_bus_id query \<noteq> VXTCTRLR_NULL_DEV then Some (VXT_BUSY, None, vxt_msg_close_com fd s)
                   else case vxt_msg_ioctl io_dev_create fd
                       (vxtcom_strncpy MAX_VXT_UNAME (uname endpoint), dev, create_info parms) s of
                     (ret, bus_id, s) \<Rightarrow>
                       if ret \<noteq> 0 then Some (VXT_FAIL, None, vxt_msg_close_com fd s)
                       else case alloc_device s of
                         (None, s) \<Rightarrow> Some (VXT_NOMEM, None, vxt_msg_close_com fd s)
                       | (Some a, s) \<Rightarrow> add_attach dev endpoint (qc_controller request) fd bus_id a s))"

subsection \<open>Connecting to a device\<close>

definition connect_ctrlr ::
    "vxt_dev_addr \<Rightarrow> string \<Rightarrow> ('k, 'a) lib_scheme \<Rightarrow> string \<times> u32 \<times> ('k, 'a) lib_scheme" where
  "connect_ctrlr endpoint target_ctrlr s =
     (if target_ctrlr = [] then
        (case vxt_msg_ioctl io_lookup (vxtctrlr_fd s)
            ((stack_ctrlr s)\<lparr>qc_uname := vxtcom_strncpy MAX_VXT_UNAME (uname endpoint), qc_name_match_length := 0,
               qc_remote_domain := 0\<rparr>) s of
           (ret, request, s) \<Rightarrow>
             (if ret \<noteq> 0 then VXT_COM_DEV_NAME else VXT_DEV_DIR @ qc_ctrlr_name request, VXTCTRLR_GLOBAL_LOOKUP, s))
      else (VXT_DEV_DIR @ target_ctrlr, VXTCTRLR_LOOKUP_NAME, s))"

definition connect_query :: "u64 \<Rightarrow> vxt_dev_addr \<Rightarrow> u32 \<Rightarrow> vxt_query_bus_struct \<Rightarrow> vxt_query_bus_struct" where
  "connect_query dev endpoint function query =
     query\<lparr>qb_function := function, qb_option := VXTCTRLR_GLOBAL_DEV_NAME,
       qb_ep_id := vxtcom_strncpy MAX_VXT_UUID (ep_id endpoint), qb_uname := vxtcom_strncpy MAX_VXT_UNAME (uname endpoint),
       qb_name_match_length := 0, qb_dev_name := dev, qb_vxt_bus_id := VXTCTRLR_NULL_DEV\<rparr>"

text \<open>
  The end of a connection. After a failed initialisation the device is disconnected, which frees
  it, and then used.
\<close>

definition connect_queues ::
    "nat \<Rightarrow> msg_device \<Rightarrow> int \<Rightarrow> ('k, 'a) lib_scheme \<Rightarrow> (vxt_msg_buf_parms \<times> ('k, 'a) lib_scheme) option" where
  "connect_queues a d fd s =
     (case map_queues fd d s of
        None \<Rightarrow> None
      | Some ((sb, sraw), (rb, rraw), s) \<Rightarrow>
          let d = d\<lparr>send_buf := Some sb, rcv_buf := Some rb\<rparr>
          in case init_queue sraw sb (sendq_size d) (sendq_bufcnt d)
                 (VXTQ_BUFFER_INITIALIZED OR VXTQ_LOCAL_IS_PRODUCER) s of
            (Inl _, s) \<Rightarrow> None
          | (Inr (sub, q), s) \<Rightarrow>
              let d = d\<lparr>send_sub_size := sub, sendq := q, sendq_set := True\<rparr>
              in case init_queue rraw rb (rcvq_size d) (rcvq_bufcnt d) VXTQ_BUFFER_INITIALIZED s of
                (Inl _, s) \<Rightarrow> None
              | (Inr (sub, q), s) \<Rightarrow>
                  let d = d\<lparr>rcv_sub_size := sub, rcvq := q, rcvq_set := True\<rparr>
                  in Some (\<lparr>recv_buf_size = word_of_int (rcvq_size d), recv_sub_buf_cnt = word_of_int (rcvq_bufcnt d),
                            send_buf_size = word_of_int (sendq_size d), send_sub_buf_cnt = word_of_int (sendq_bufcnt d)\<rparr>,
                           (set_dev a d s)\<lparr>live_connections := a # live_connections s\<rparr>))"

text \<open>The attachment: the status that the device reports is not looked at.\<close>

definition connect_attach ::
    "u64 \<Rightarrow> vxt_dev_addr \<Rightarrow> vxt_query_bus_struct \<Rightarrow> vxt_msg_dev_info \<Rightarrow> vxt_msg_buf_parms \<Rightarrow> int \<Rightarrow> nat \<Rightarrow> ('k, 'a) lib_scheme
      \<Rightarrow> (vxt_status \<times> nat option \<times> vxt_msg_buf_parms \<times> ('k, 'a) lib_scheme) option" where
  "connect_attach dev endpoint query info parms fd a s =
     (case vxt_msg_ioctl io_attach fd (qb_vxt_bus_id query) s of
        (ret, status, s) \<Rightarrow>
          if ret \<noteq> 0 then Some (VXT_FAIL, None, parms, drop_device a fd s)
          else let d = fill_device True dev endpoint (qb_controller query) fd (qb_vxt_bus_id query) info (heap_dev s)
          in case vxt_msg_ioctl io_poll_focus fd dev (set_dev a d s) of
            (ret, _, s) \<Rightarrow>
              if ret \<noteq> 0 then
                (case vxt_msg_disconnect (Some a) 0 (s\<lparr>live_connections := a # live_connections s\<rparr>) of
                   None \<Rightarrow> None | Some (_, s) \<Rightarrow> Some (VXT_FAIL, None, parms, s\<lparr>errno := ret\<rparr>))
              else (case connect_queues a d fd s of
                      None \<Rightarrow> None | Some (parms, s) \<Rightarrow> Some (VXT_SUCCESS, Some a, parms, s)))"

definition connect_open ::
    "u64 \<Rightarrow> vxt_dev_addr \<Rightarrow> vxt_query_bus_struct \<Rightarrow> vxt_msg_buf_parms \<Rightarrow> int \<Rightarrow> ('k, 'a) lib_scheme
      \<Rightarrow> (vxt_status \<times> nat option \<times> vxt_msg_buf_parms \<times> ('k, 'a) lib_scheme) option" where
  "connect_open dev endpoint query parms fd s =
     (case vxt_msg_ioctl io_query_dev fd (qb_vxt_bus_id query) s of
        (ret, info, s) \<Rightarrow>
          if ret \<noteq> 0 then Some (VXT_FAIL, None, parms, vxt_msg_close_com fd s)
          else if di_state info = VXT_MSG_DEV_CONNECTED \<or> di_state info = VXT_MSG_DEV_ERROR
          then Some (VXT_BUSY, None, parms, vxt_msg_close_com fd s)
          else if di_version info \<noteq> VXT_MSG_DEV_VERSION then Some (VXT_FAIL, None, parms, vxt_msg_close_com fd s)
          else case alloc_device s of
            (None, s) \<Rightarrow> Some (VXT_NOMEM, None, parms, vxt_msg_close_com fd s)
          | (Some a, s) \<Rightarrow> connect_attach dev endpoint query info parms fd a s)"

definition vxt_msg_connect ::
    "u64 \<Rightarrow> vxt_dev_addr \<Rightarrow> string \<Rightarrow> vxt_msg_buf_parms \<Rightarrow> ('k, 'a) lib_scheme
      \<Rightarrow> (vxt_status \<times> nat option \<times> vxt_msg_buf_parms \<times> ('k, 'a) lib_scheme) option" where
  "vxt_msg_connect dev endpoint target_ctrlr parms s =
     (if vxtctrlr_fd s = VXT_INVALID_DEV_OBJ then Some (VXT_DOWN, None, parms, s)
      else case connect_ctrlr endpoint target_ctrlr s of
        (name, function, s) \<Rightarrow>
          (case vxt_msg_open_com name s of
             (fd, s) \<Rightarrow>
               if fd = VXT_INVALID_DEV_OBJ then Some (VXT_PARM, None, parms, s)
               else case vxt_msg_ioctl io_query_bus fd (connect_query dev endpoint function (stack_bus s)) s of
                 (ret, query, s) \<Rightarrow>
                   if ret \<noteq> 0 then Some (VXT_DOWN, None, parms, vxt_msg_close_com fd s)
                   else if qb_vxt_bus_id query = VXTCTRLR_NULL_DEV \<or> qb_dev_name query \<noteq> dev then
                     (case vxt_msg_add dev endpoint parms (vxt_msg_close_com fd s) of
                        None \<Rightarrow> None | Some (ret, c, s) \<Rightarrow> Some (ret, c, parms, s))
                   else connect_open dev endpoint query parms fd s))"

subsection \<open>Waiting for data\<close>

text \<open>
  An entry of the array that is passed to \<^verbatim>\<open>poll\<close>: a descriptor of 32 bits, which also carries the
  address of a device, and two fields of 16 bits.
\<close>

record poll_entry =
  pe_fd :: int
  pe_events :: u16
  pe_revents :: u16

definition vxt_write_event_wait :: "int \<Rightarrow> u16 \<Rightarrow> u16 \<Rightarrow> poll_entry" where
  "vxt_write_event_wait object events revents = \<lparr>pe_fd = int32 object, pe_events = events, pe_revents = revents\<rparr>"

text \<open>
  One entry: the entry for \<^verbatim>\<open>poll\<close> (\<open>Inr\<close>), or the entry and the status with which the call ends.
\<close>

definition wait_entry ::
    "poll_entry \<Rightarrow> ('k, 'a) lib_scheme \<Rightarrow> ((poll_entry \<times> vxt_status + poll_entry) \<times> ('k, 'a) lib_scheme) option" where
  "wait_entry e s =
     (if pe_events e AND POLLVXT = 0 then Some (Inr e, s)
      else if pe_events e AND POLLVXT_CTRLR \<noteq> 0
      then Some (Inr (vxt_write_event_wait (vxtctrlr_fd s) (pe_events e) (pe_revents e)), s)
      else if pe_events e AND POLLVXT_DEV \<noteq> 0 then
        (if pe_fd e = 0 then Some (Inr (vxt_write_event_wait (vxtctrlr_fd s) (pe_events e) (pe_revents e)), s)
         else if pe_fd e < 0 then None
         else case devs s (nat (pe_fd e)) of
           None \<Rightarrow> None
         | Some d \<Rightarrow> Some (Inr (vxt_write_event_wait (ctrlr_fd d) (pe_events e) (pe_revents e)), s))
      else if pe_fd e = 0 then Some (Inl (e, VXT_PARM), s)
      else if pe_fd e < 0 then None
      else case devs s (nat (pe_fd e)) of
        None \<Rightarrow> None
      | Some d \<Rightarrow>
          if VXTCOM_MAX_DEV_FILE_NAME \<le> length (VXT_DEV_DIR @ file_name d) then None
          else let events = pe_events e AND NOT POLLVXT
          in if dev_fd d \<noteq> VXT_INVALID_DEV_OBJ
             then Some (Inr (vxt_write_event_wait (dev_fd d) events (pe_revents e)), s)
             else case vxt_msg_open_dev (VXT_DEV_DIR @ file_name d) (dev_handle d) s of
               (fd, s) \<Rightarrow>
                 if fd = VXT_INVALID_DEV_OBJ
                 then Some (Inl (vxt_write_event_wait (- 1) events (pe_revents e OR VXTSIG_HUP), VXT_SUCCESS), s)
                 else Some (Inr (vxt_write_event_wait fd events (pe_revents e)),
                        set_dev (nat (pe_fd e)) (d\<lparr>dev_fd := fd\<rparr>) s))"

text \<open>The entries in turn; those behind one that ends the call stay as they are.\<close>

fun wait_entries ::
    "poll_entry list \<Rightarrow> ('k, 'a) lib_scheme \<Rightarrow> (vxt_status option \<times> poll_entry list \<times> ('k, 'a) lib_scheme) option" where
  "wait_entries [] s = Some (None, [], s)"
| "wait_entries (e # es) s =
     (case wait_entry e s of
        None \<Rightarrow> None
      | Some (Inl (e, ret), s) \<Rightarrow> Some (Some ret, e # es, s)
      | Some (Inr e, s) \<Rightarrow>
          (case wait_entries es s of None \<Rightarrow> None | Some (ret, es, s) \<Rightarrow> Some (ret, e # es, s)))"

text \<open>
  The result: status, number of events (when it is stored) and the entries. A device file that
  cannot be opened counts as one event.
\<close>

definition vxt_msg_wait ::
    "poll_entry list \<Rightarrow> int \<Rightarrow> ('k, 'a) lib_scheme
      \<Rightarrow> (vxt_status \<times> int option \<times> poll_entry list \<times> ('k, 'a) lib_scheme) option" where
  "vxt_msg_wait fds timeout s =
     (case wait_entries fds s of
        None \<Rightarrow> None
      | Some (Some ret, fds, s) \<Rightarrow> Some (ret, if ret = VXT_SUCCESS then Some 1 else None, fds, s)
      | Some (None, fds, s) \<Rightarrow>
          (case os_poll (os s) (map (\<lambda>e. (pe_fd e, pe_events e)) fds) timeout (kst s) of
             (Inl e, k) \<Rightarrow> Some (poll_status e, Some (- 1), fds, s\<lparr>kst := k, errno := e\<rparr>)
           | (Inr (n, revents), k) \<Rightarrow>
               Some (VXT_SUCCESS, Some n, map2 (\<lambda>e r. e\<lparr>pe_revents := r\<rparr>) fds revents, s\<lparr>kst := k\<rparr>)))"

subsection \<open>Queries\<close>

definition vxt_msg_system_query ::
    "vxt_query_sys_struct \<Rightarrow> ('k, 'a) lib_scheme \<Rightarrow> (vxt_status \<times> vxt_query_sys_struct \<times> ('k, 'a) lib_scheme) option" where
  "vxt_msg_system_query sys_info s =
     (if vxtctrlr_fd s = VXT_INVALID_DEV_OBJ then Some (VXT_DOWN, sys_info, s)
      else let name = vxtcom_strncpy MAX_VXT_UNAME (qs_uname sys_info)
      in case vxt_msg_ioctl io_lookup (vxtctrlr_fd s)
          ((stack_ctrlr s)\<lparr>qc_name_match_length := 0, qc_uname := name,
             qc_ep_id := vxtcom_strncpy MAX_VXT_UUID (qs_ep_id sys_info),
             qc_remote_domain := (if name = [] then qs_domain sys_info else 0)\<rparr>) s of
        (ret, query, s) \<Rightarrow>
          if ret \<noteq> 0 then Some (VXT_PARM, sys_info, s)
          else if VXTCOM_MAX_DEV_FILE_NAME \<le> length (VXT_DEV_DIR @ qc_ctrlr_name query) then None
          else Some (VXT_SUCCESS, sys_info\<lparr>qs_ctrlr_name := VXT_DEV_DIR @ qc_ctrlr_name query,
                       qs_controller := qc_controller query\<rparr>, s))"

text \<open>A controller that was opened for a query is closed, the bus stays open.\<close>

definition close_queried :: "int \<Rightarrow> ('k, 'a) lib_scheme \<Rightarrow> ('k, 'a) lib_scheme" where
  "close_queried fd s = (if vxtctrlr_fd s \<noteq> fd then vxt_msg_close_com fd s else s)"

definition vxt_msg_bus_query ::
    "vxt_query_bus_struct \<Rightarrow> ('k, 'a) lib_scheme \<Rightarrow> vxt_status \<times> vxt_query_bus_struct \<times> ('k, 'a) lib_scheme" where
  "vxt_msg_bus_query card_info s =
     (case (if take 5 (qb_ctrlr_name card_info) = VXT_DEV_DIR then
              (case vxt_msg_open_com (qb_ctrlr_name card_info) s of
                 (fd, s) \<Rightarrow> (if fd = VXT_INVALID_DEV_OBJ then Inl VXT_PARM else Inr fd, s))
            else (if vxtctrlr_fd s = VXT_INVALID_DEV_OBJ then Inl VXT_FAIL else Inr (vxtctrlr_fd s), s)) of
        (Inl ret, s) \<Rightarrow> (ret, card_info, s)
      | (Inr fd, s) \<Rightarrow>
          (case vxt_msg_ioctl io_query_bus fd card_info s of
             (ret, card_info, s) \<Rightarrow> (if ret \<noteq> 0 then VXT_DOWN else VXT_SUCCESS, card_info, close_queried fd s)))"

definition vxt_msg_dev_query ::
    "string \<Rightarrow> u64 \<Rightarrow> ('k, 'a) lib_scheme \<Rightarrow> vxt_status \<times> vxt_msg_dev_info option \<times> ('k, 'a) lib_scheme" where
  "vxt_msg_dev_query ctrlr_name bus_id s =
     (case (if ctrlr_name \<noteq> [] then
              (case vxt_msg_open_com (VXT_DEV_DIR @ ctrlr_name) s of
                 (fd, s) \<Rightarrow> (if fd = VXT_INVALID_DEV_OBJ then Inl VXT_PARM else Inr fd, s))
            else (if vxtctrlr_fd s = VXT_INVALID_DEV_OBJ then Inl VXT_FAIL else Inr (vxtctrlr_fd s), s)) of
        (Inl ret, s) \<Rightarrow> (ret, None, s)
      | (Inr fd, s) \<Rightarrow>
          (case vxt_msg_ioctl io_query_dev fd bus_id s of
             (ret, info, s) \<Rightarrow>
               if ret \<noteq> 0 then (VXT_FAIL, None, close_queried fd s) else (VXT_SUCCESS, Some info, close_queried fd s)))"

text \<open>The controller and the slot of a connection.\<close>

definition vxt_msg_bind_query ::
    "nat option \<Rightarrow> ('k, 'a) lib_scheme \<Rightarrow> (vxt_status \<times> (u64 \<times> u64) option) option" where
  "vxt_msg_bind_query connection s =
     (case connection of
        None \<Rightarrow> Some (VXT_FAIL, None)
      | Some a \<Rightarrow>
          (case devs s a of None \<Rightarrow> None | Some d \<Rightarrow> Some (VXT_SUCCESS, Some (ctrlr_id d, dev_slot d))))"

definition vxt_msg_unplug_dev ::
    "string \<Rightarrow> u64 \<Rightarrow> ('k, 'a) lib_scheme \<Rightarrow> vxt_status \<times> ('k, 'a) lib_scheme" where
  "vxt_msg_unplug_dev ctrlr_name bus_id s =
     (case vxt_msg_open_com (VXT_DEV_DIR @ ctrlr_name) s of
        (fd, s) \<Rightarrow>
          if fd = VXT_INVALID_DEV_OBJ then (VXT_PARM, s)
          else case vxt_msg_ioctl io_dev_remove fd bus_id s of
            (ret, _, s) \<Rightarrow> (if ret \<noteq> 0 then VXT_FAIL else VXT_SUCCESS, vxt_msg_close_com fd s))"

end
