(* ===== verification/Vxt_Socket.thy ===== *)
theory Vxt_Socket
  imports Vxt_Conn "HOL-Library.Monad_Syntax"
begin

text \<open>
  The sockets of \<^verbatim>\<open>lib/vxtlib/common/vxt_socket_dev.c\<close>: structures with a handle, a reference count
  and a device, in a list that a lock protects. Taking the lock again while it is held never
  returns; this, a use of a freed structure and a loop that does not end are the value \<open>None\<close>.
\<close>

subsection \<open>Data\<close>

datatype sock_state = VXT_SOCKET_DISCONNECTED | VXT_SOCKET_CONNECTED | VXT_SOCKET_SUSPENDED | VXT_SOCKET_ERROR

record vxt_sock =
  ref_cnt :: int
  close_options :: u32
  handle :: u32
  sstate :: sock_state
  target_ctrlr :: string
  sdev :: "nat option"
  add_msg :: vxt_msg_buf_parms

text \<open>\<open>heap_ptr\<close> tells whether a pointer in fresh memory is different from zero.\<close>

record 'k sock_lib = "'k lib" +
  socks :: "nat \<rightharpoonup> vxt_sock"
  live_sockets :: "nat list"
  socket_handles :: u32
  socket_wrap :: bool
  socket_lock :: bool
  heap_ptr :: bool

definition VXT_MSG_DEFAULT_QUEUE_LENGTH :: u32 where "VXT_MSG_DEFAULT_QUEUE_LENGTH = 16384"
definition VXT_MSG_DEFAULT_BUFCNT :: u32 where "VXT_MSG_DEFAULT_BUFCNT = 7"

definition default_parms :: vxt_msg_buf_parms where
  "default_parms = \<lparr>recv_buf_size = VXT_MSG_DEFAULT_QUEUE_LENGTH, recv_sub_buf_cnt = VXT_MSG_DEFAULT_BUFCNT,
     send_buf_size = VXT_MSG_DEFAULT_QUEUE_LENGTH, send_sub_buf_cnt = VXT_MSG_DEFAULT_BUFCNT\<rparr>"

definition set_sock :: "nat \<Rightarrow> vxt_sock \<Rightarrow> 'k sock_lib \<Rightarrow> 'k sock_lib" where
  "set_sock a sk s = s\<lparr>socks := (socks s)(a \<mapsto> sk)\<rparr>"

definition vxt_lock :: "'k sock_lib \<Rightarrow> 'k sock_lib option" where
  "vxt_lock s = (if socket_lock s then None else Some (s\<lparr>socket_lock := True\<rparr>))"

definition vxt_unlock :: "'k sock_lib \<Rightarrow> 'k sock_lib" where
  "vxt_unlock s = s\<lparr>socket_lock := False\<rparr>"

subsection \<open>The list of sockets\<close>

fun find_live :: "'k sock_lib \<Rightarrow> u32 \<Rightarrow> nat list \<Rightarrow> nat option option" where
  "find_live s h [] = Some None"
| "find_live s h (a # as) = do { sk \<leftarrow> socks s a; if handle sk = h then Some (Some a) else find_live s h as }"

text \<open>A lookup; unless it is a test it takes the lock and a reference.\<close>

definition vxt_find_socket :: "u32 \<Rightarrow> bool \<Rightarrow> 'k sock_lib \<Rightarrow> (nat option \<times> 'k sock_lib) option" where
  "vxt_find_socket h test s =
     (if test then do { found \<leftarrow> find_live s h (live_sockets s); Some (found, s) }
      else do {
        s \<leftarrow> vxt_lock s;
        found \<leftarrow> find_live s h (live_sockets s);
        case found of
          None \<Rightarrow> Some (None, vxt_unlock s)
        | Some a \<Rightarrow> do {
            sk \<leftarrow> socks s a;
            Some (Some a, vxt_unlock (set_sock a (sk\<lparr>ref_cnt := ref_cnt sk + 1\<rparr>) s)) } })"

definition free_sock :: "nat \<Rightarrow> 'k sock_lib \<Rightarrow> 'k sock_lib" where
  "free_sock a s = s\<lparr>live_sockets := remove1 a (live_sockets s), socks := (socks s)(a := None)\<rparr>"

text \<open>The first socket of the list is freed in any state, the others when they are not connected.\<close>

definition vxt_free_socket :: "u32 \<Rightarrow> 'k sock_lib \<Rightarrow> (int \<times> 'k sock_lib) option" where
  "vxt_free_socket h s =
     do { s \<leftarrow> vxt_lock s;
          case live_sockets s of
            [] \<Rightarrow> Some (ENOTSOCK, vxt_unlock s)
          | a # rest \<Rightarrow> do {
              sk \<leftarrow> socks s a;
              if handle sk = h then Some (0, free_sock a (vxt_unlock s))
              else do {
                found \<leftarrow> find_live s h rest;
                case found of
                  None \<Rightarrow> Some (ENOTSOCK, vxt_unlock s)
                | Some b \<Rightarrow> do {
                    sk \<leftarrow> socks s b;
                    if sstate sk = VXT_SOCKET_CONNECTED then Some (EBUSY, vxt_unlock s)
                    else Some (0, free_sock b (vxt_unlock s)) } } } }"

text \<open>The body of \<^verbatim>\<open>vxt_shutdown\<close> between the lookup and the release of the reference.\<close>

definition suspend :: "nat \<Rightarrow> 'k sock_lib \<Rightarrow> (int \<times> 'k sock_lib) option" where
  "suspend a s =
     do { sk \<leftarrow> socks s a;
          Some (if sstate sk = VXT_SOCKET_CONNECTED
                then if vxt_msg_shutdown \<noteq> VXT_SUCCESS then (1, s\<lparr>errno := EINVAL\<rparr>)
                     else (0, set_sock a (sk\<lparr>sstate := VXT_SOCKET_SUSPENDED\<rparr>) s)
                else (0, s)) }"

text \<open>The end of a socket, after its shutdown.\<close>

definition deref_last :: "nat \<Rightarrow> 'k sock_lib \<Rightarrow> 'k sock_lib option" where
  "deref_last a s =
     do { sk \<leftarrow> socks s a;
          (_, s) \<leftarrow> (if sstate sk = VXT_SOCKET_SUSPENDED \<and> flag_set (close_options sk) (VXT_CLOSE_REMOTE OR VXT_CLOSE_LOCAL)
             then vxt_msg_disconnect (sdev sk) (close_options sk) s else Some (VXT_SUCCESS, s));
          (_, s) \<leftarrow> vxt_free_socket (handle sk) s;
          Some s }"

text \<open>A reference is given up. The last one shuts the socket down by its handle, and frees it.\<close>

partial_function (option) vxt_deref_socket :: "nat \<Rightarrow> 'k sock_lib \<Rightarrow> 'k sock_lib option" where
  "vxt_deref_socket a s =
     do { s \<leftarrow> vxt_lock s;
          sk \<leftarrow> socks s a;
          if 1 < ref_cnt sk then Some (vxt_unlock (set_sock a (sk\<lparr>ref_cnt := ref_cnt sk - 1\<rparr>) s))
          else do {
            x \<leftarrow> vxt_find_socket (handle sk) False (vxt_unlock s);
            s \<leftarrow> (case fst x of
                None \<Rightarrow> Some ((snd x)\<lparr>errno := ENOTSOCK\<rparr>)
              | Some b \<Rightarrow> do { y \<leftarrow> suspend b (snd x); vxt_deref_socket b (snd y) });
            deref_last a s } }"

definition vxt_shutdown :: "u32 \<Rightarrow> 'k sock_lib \<Rightarrow> (int \<times> 'k sock_lib) option" where
  "vxt_shutdown h s =
     do { (found, s) \<leftarrow> vxt_find_socket h False s;
          case found of
            None \<Rightarrow> Some (1, s\<lparr>errno := ENOTSOCK\<rparr>)
          | Some a \<Rightarrow> do { (ret, s) \<leftarrow> suspend a s; s \<leftarrow> vxt_deref_socket a s; Some (ret, s) } }"

text \<open>The search of a free handle once the counter has wrapped; the lock is held.\<close>

partial_function (option) handle_loop :: "u32 \<Rightarrow> 'k sock_lib \<Rightarrow> 'k sock_lib option" where
  "handle_loop handle_index s =
     (if handle_index = socket_handles s then Some s
      else do {
        x \<leftarrow> vxt_find_socket (socket_handles s) True s;
        case fst x of
          None \<Rightarrow> Some s
        | Some b \<Rightarrow> do {
            s \<leftarrow> vxt_deref_socket b ((snd x)\<lparr>socket_handles := socket_handles s + 1\<rparr>);
            handle_loop handle_index s } })"

definition new_sock :: "u32 \<Rightarrow> vxt_sock" where
  "new_sock h = \<lparr>ref_cnt = 1, close_options = 0, handle = h, sstate = VXT_SOCKET_DISCONNECTED, target_ctrlr = [],
     sdev = None, add_msg = default_parms\<rparr>"

definition vxt_get_socket :: "'k sock_lib \<Rightarrow> (int \<times> nat option \<times> 'k sock_lib) option" where
  "vxt_get_socket s =
     (case vxt_malloc s of
        (False, s) \<Rightarrow> Some (ENOMEM, None, s)
      | (True, s) \<Rightarrow> do {
          let a = next_addr s;
          let s = s\<lparr>next_addr := Suc a\<rparr>;
          s \<leftarrow> vxt_lock s;
          let s = (if socket_handles s = 0xFFFFFFFF then s\<lparr>socket_handles := 1, socket_wrap := True\<rparr> else s);
          let handle_index = socket_handles s - 1;
          s \<leftarrow> (if socket_wrap s then handle_loop handle_index s else Some s);
          if socket_wrap s \<and> socket_handles s = handle_index then Some (ENFILE, None, vxt_unlock s)
          else Some (0, Some a, vxt_unlock (set_sock a (new_sock (socket_handles s))
                 (s\<lparr>socket_handles := socket_handles s + 1, live_sockets := a # live_sockets s\<rparr>))) })"

subsection \<open>Creating, binding and connecting\<close>

definition PF_UNIX :: int where "PF_UNIX = 1"
definition SOCK_STREAM :: int where "SOCK_STREAM = 1"

text \<open>The handle of the new socket, or 0.\<close>

definition vxt_socket :: "int \<Rightarrow> int \<Rightarrow> int \<Rightarrow> 'k sock_lib \<Rightarrow> (u32 \<times> 'k sock_lib) option" where
  "vxt_socket domain type protocol s =
     (if domain \<noteq> PF_UNIX then Some (0, s\<lparr>errno := EAFNOSUPPORT\<rparr>)
      else if type \<noteq> SOCK_STREAM then Some (0, s\<lparr>errno := EACCES\<rparr>)
      else if protocol \<noteq> SOCK_STREAM then Some (0, s\<lparr>errno := EINVAL\<rparr>)
      else do {
        (ret, new, s) \<leftarrow> vxt_get_socket s;
        case new of
          None \<Rightarrow> Some (0, s\<lparr>errno := ret\<rparr>)
        | Some a \<Rightarrow> do { sk \<leftarrow> socks s a; Some (handle sk, s) } })"

text \<open>A call on a socket: lookup, body, release of the reference.\<close>

definition on_socket ::
    "'r \<Rightarrow> u32 \<Rightarrow> (nat \<Rightarrow> vxt_sock \<Rightarrow> 'k sock_lib \<Rightarrow> ('r \<times> 'k sock_lib) option) \<Rightarrow> 'k sock_lib \<Rightarrow> ('r \<times> 'k sock_lib) option" where
  "on_socket fail h body s =
     do { (found, s) \<leftarrow> vxt_find_socket h False s;
          case found of
            None \<Rightarrow> Some (fail, s\<lparr>errno := ENOTSOCK\<rparr>)
          | Some a \<Rightarrow> do {
              sk \<leftarrow> socks s a;
              (ret, s) \<leftarrow> body a sk s;
              s \<leftarrow> vxt_deref_socket a s;
              Some (ret, s) } }"

text \<open>The error number of a device that could not be connected.\<close>

definition open_errno :: "vxt_status \<Rightarrow> int" where
  "open_errno ret = (if ret = VXT_BUSY then EISCONN else if ret = VXT_DOWN then ENETUNREACH else ENOTSOCK)"

definition vxt_bind :: "u32 \<Rightarrow> vxt_dev_addr \<Rightarrow> 'k sock_lib \<Rightarrow> (int \<times> 'k sock_lib) option" where
  "vxt_bind h ep s =
     do { (found, s) \<leftarrow> vxt_find_socket h False s;
          case found of
            None \<Rightarrow> Some (1, s\<lparr>errno := ENOTSOCK\<rparr>)
          | Some a \<Rightarrow> do {
              sk \<leftarrow> socks s a;
              if sstate sk \<noteq> VXT_SOCKET_DISCONNECTED
              then do { s \<leftarrow> vxt_deref_socket a s; Some (1, s\<lparr>errno := EISCONN\<rparr>) }
              else do {
                (ret, dev, s) \<leftarrow> vxt_msg_add VXTCTRLR_MSG_DEV ep (add_msg sk) s;
                if ret = VXT_SUCCESS
                then do { s \<leftarrow> vxt_deref_socket a (set_sock a (sk\<lparr>sdev := dev, sstate := VXT_SOCKET_CONNECTED\<rparr>) s); Some (0, s) }
                else if ret = VXT_BUSY then do { s \<leftarrow> vxt_deref_socket a s; Some (1, s\<lparr>errno := EISCONN\<rparr>) }
                else if ret = VXT_DOWN then do { s \<leftarrow> vxt_deref_socket a s; Some (1, s\<lparr>errno := ENETUNREACH\<rparr>) }
                else do { s \<leftarrow> vxt_deref_socket a (s\<lparr>errno := ENOTSOCK\<rparr>); Some (1, s) } } } }"

definition connect_body :: "vxt_dev_addr \<Rightarrow> nat \<Rightarrow> vxt_sock \<Rightarrow> 'k sock_lib \<Rightarrow> (int \<times> 'k sock_lib) option" where
  "connect_body ep a sk s =
     (if sstate sk \<noteq> VXT_SOCKET_DISCONNECTED then Some (1, s\<lparr>errno := EISCONN\<rparr>)
      else do {
        (ret, dev, parms, s) \<leftarrow> vxt_msg_connect VXTCTRLR_MSG_DEV ep (target_ctrlr sk) (add_msg sk) s;
        if ret \<noteq> VXT_SUCCESS then Some (1, (set_sock a (sk\<lparr>add_msg := parms\<rparr>) s)\<lparr>errno := open_errno ret\<rparr>)
        else Some (0, set_sock a (sk\<lparr>add_msg := parms, sdev := dev, sstate := VXT_SOCKET_CONNECTED\<rparr>) s) })"

definition vxt_connect :: "u32 \<Rightarrow> vxt_dev_addr \<Rightarrow> 'k sock_lib \<Rightarrow> (int \<times> 'k sock_lib) option" where
  "vxt_connect h ep s = on_socket 1 h (connect_body ep) s"

text \<open>
  The scan of the controller's devices for the name. The query starts from what the stack holds.
\<close>

partial_function (option) accept_loop ::
    "string \<Rightarrow> vxt_query_bus_struct \<Rightarrow> 'k sock_lib \<Rightarrow> (bool \<times> 'k sock_lib) option" where
  "accept_loop name bus_info s =
     (if take MAX_VXT_UNAME (qb_uname bus_info) = take MAX_VXT_UNAME name then Some (True, s)
      else let r = vxt_msg_bus_query bus_info s
        in if fst r \<noteq> VXT_SUCCESS then Some (False, snd (snd r))
           else accept_loop name (fst (snd r)) (snd (snd r)))"

text \<open>The new socket, which is freed again when it cannot be connected.\<close>

definition accept_new :: "vxt_dev_addr \<Rightarrow> 'k sock_lib \<Rightarrow> (u32 \<times> 'k sock_lib) option" where
  "accept_new sock_name s =
     do { (ret, new, s) \<leftarrow> vxt_get_socket s;
          case new of
            None \<Rightarrow> Some (0, s\<lparr>errno := ret\<rparr>)
          | Some a \<Rightarrow> do {
              sk \<leftarrow> socks s a;
              (ret, s) \<leftarrow> vxt_connect (handle sk) sock_name s;
              if ret \<noteq> 0 then do {
                (_, s) \<leftarrow> vxt_free_socket (handle sk) s;
                Some (0, if errno s = ENOTSOCK then s\<lparr>errno := EAGAIN\<rparr> else s) }
              else do { sk \<leftarrow> socks s a; Some (handle sk, s) } } }"

definition vxt_accept :: "u32 \<Rightarrow> vxt_dev_addr \<Rightarrow> 'k sock_lib \<Rightarrow> (u32 \<times> 'k sock_lib) option" where
  "vxt_accept socket_handle sock_name s =
     do { (ret, sys_info, s) \<leftarrow> vxt_msg_system_query
            \<lparr>qs_uname = vxtcom_strncpy MAX_VXT_UNAME (uname sock_name), qs_ep_id = vxtcom_strncpy MAX_VXT_UUID (ep_id sock_name),
             qs_domain = 0, qs_controller = 0, qs_ctrlr_name = []\<rparr> s;
          if ret \<noteq> VXT_SUCCESS then Some (1, s\<lparr>errno := ENETUNREACH\<rparr>)
          else do {
            (found, s) \<leftarrow> accept_loop (uname sock_name)
               ((stack_bus s)\<lparr>qb_vxt_bus_id := 0, qb_uname := [],
                  qb_ctrlr_name := vxtcom_strncpy VXTCOM_MAX_DEV_FILE_NAME (qs_ctrlr_name sys_info)\<rparr>) s;
            if \<not> found then Some (0, s\<lparr>errno := EAGAIN\<rparr>)
            else accept_new sock_name s } }"

definition wait_errno :: "vxt_status \<Rightarrow> 'k sock_lib \<Rightarrow> 'k sock_lib" where
  "wait_errno ret s =
     (if ret = VXT_PARM then s\<lparr>errno := EINVAL\<rparr> else if ret = VXT_ABORT then s\<lparr>errno := EINTR\<rparr>
      else if ret = VXT_NOMEM then s\<lparr>errno := ENOMEM\<rparr> else s)"

definition listen_body :: "nat \<Rightarrow> vxt_sock \<Rightarrow> 'k sock_lib \<Rightarrow> (int \<times> 'k sock_lib) option" where
  "listen_body a sk s =
     do { (ret, s) \<leftarrow> vxt_msg_ctrlr_wait (if sstate sk \<noteq> VXT_SOCKET_CONNECTED then None else sdev sk) s;
          Some (if ret \<noteq> VXT_SUCCESS then (1, wait_errno ret s) else (0, s)) }"

definition vxt_listen :: "u32 \<Rightarrow> 'k sock_lib \<Rightarrow> (int \<times> 'k sock_lib) option" where
  "vxt_listen h s = on_socket 1 h listen_body s"

subsection \<open>Sending and receiving\<close>

definition put_instance :: "vxt_msg_dev_instance \<Rightarrow> msg_device \<Rightarrow> msg_device" where
  "put_instance i d = d\<lparr>is_new := is_new i, sendq := sendq i, rcvq := rcvq i, partial_send := partial_send i, partial_rcv := partial_rcv i\<rparr>"

text \<open>
  The transfers on a device: its queue must have been assigned and its region be mapped. \<open>later\<close> is the
  cookie after the second of waiting, \<open>wait\<close> what the remote end does while the caller sleeps.
\<close>

definition dev_send ::
    "string \<Rightarrow> (shm \<Rightarrow> shm) \<Rightarrow> nat option \<Rightarrow> 8 word list \<Rightarrow> int \<Rightarrow> u32 \<Rightarrow> ('k, 'a) lib_scheme
      \<Rightarrow> (int \<times> vxt_status \<times> ('k, 'a) lib_scheme) option" where
  "dev_send later wait dev buffer len flags s =
     do { a \<leftarrow> dev; d \<leftarrow> devs s a;
          if \<not> sendq_set d then None
          else do {
            b \<leftarrow> send_buf d; m \<leftarrow> regions s b;
            (i, m, n, ret) \<leftarrow> vxt_msg_send (cookies s b) later wait (vxt_msg_dev_instance.truncate d) m buffer len flags;
            Some (n, ret, (set_dev a (put_instance i d) s)\<lparr>regions := (regions s)(b \<mapsto> m)\<rparr>) } }"

definition dev_rcv ::
    "string \<Rightarrow> (shm \<Rightarrow> shm) \<Rightarrow> nat option \<Rightarrow> int \<Rightarrow> u32 \<Rightarrow> ('k, 'a) lib_scheme
      \<Rightarrow> (8 word list \<times> int \<times> vxt_status \<times> ('k, 'a) lib_scheme) option" where
  "dev_rcv later wait dev len flags s =
     do { a \<leftarrow> dev; d \<leftarrow> devs s a;
          if \<not> rcvq_set d then None
          else do {
            b \<leftarrow> rcv_buf d; m \<leftarrow> regions s b;
            (i, m, bytes, n, ret) \<leftarrow> vxt_msg_rcv (cookies s b) later wait (vxt_msg_dev_instance.truncate d) m len flags;
            Some (bytes, n, ret, (set_dev a (put_instance i d) s)\<lparr>regions := (regions s)(b \<mapsto> m)\<rparr>) } }"

definition send_errno :: "vxt_status \<Rightarrow> int" where
  "send_errno ret =
     (if ret = VXT_SHUTTING_DOWN then EXDEV else if ret = VXT_BLOCKED then EBUSY else if ret = VXT_RSRC then ENOSPC
      else if ret = VXT_ABORT then EAGAIN else EPIPE)"

text \<open>The result and the value left in \<^verbatim>\<open>*len\<close>.\<close>

definition send_body ::
    "string \<Rightarrow> (shm \<Rightarrow> shm) \<Rightarrow> 8 word list \<Rightarrow> int \<Rightarrow> u32 \<Rightarrow> nat \<Rightarrow> vxt_sock \<Rightarrow> 'k sock_lib
      \<Rightarrow> ((int \<times> int) \<times> 'k sock_lib) option" where
  "send_body later wait buffer len flags a sk s =
     (if sstate sk \<noteq> VXT_SOCKET_CONNECTED then Some ((- 1, len), s\<lparr>errno := EPIPE\<rparr>)
      else do {
        (n, ret, s) \<leftarrow> dev_send later wait (sdev sk) buffer len flags s;
        Some (if ret = VXT_SUCCESS \<or> ret = VXT_BUF_SPACE then ((n, n), s)
              else ((- 1, n), s\<lparr>errno := send_errno ret\<rparr>)) })"

definition vxt_send ::
    "string \<Rightarrow> (shm \<Rightarrow> shm) \<Rightarrow> u32 \<Rightarrow> 8 word list \<Rightarrow> int \<Rightarrow> u32 \<Rightarrow> 'k sock_lib \<Rightarrow> ((int \<times> int) \<times> 'k sock_lib) option" where
  "vxt_send later wait h buffer len flags s = on_socket (- 1, len) h (send_body later wait buffer len flags) s"

text \<open>The result, the bytes and the value left in \<^verbatim>\<open>*len\<close>.\<close>

definition recv_body ::
    "string \<Rightarrow> (shm \<Rightarrow> shm) \<Rightarrow> int \<Rightarrow> u32 \<Rightarrow> nat \<Rightarrow> vxt_sock \<Rightarrow> 'k sock_lib
      \<Rightarrow> ((int \<times> 8 word list \<times> int) \<times> 'k sock_lib) option" where
  "recv_body later wait len flags a sk s =
     (if sstate sk \<noteq> VXT_SOCKET_CONNECTED then Some ((- 1, [], len), s\<lparr>errno := EPIPE\<rparr>)
      else do {
        (bytes, n, ret, s) \<leftarrow> dev_rcv later wait (sdev sk) len flags (s\<lparr>errno := 0\<rparr>);
        Some (if ret = VXT_SUCCESS then ((n, bytes, n), s)
              else if ret = VXT_BUF_SPACE \<or> ret = VXT_RSRC then ((n, bytes, n), s\<lparr>errno := EAGAIN\<rparr>)
              else if ret = VXT_BLOCKED then ((n, bytes, n), s\<lparr>errno := EBUSY\<rparr>)
              else if ret = VXT_ABORT then ((n, bytes, n), s\<lparr>errno := EAGAIN\<rparr>)
              else ((- 1, bytes, n), s\<lparr>errno := (if ret = VXT_SHUTTING_DOWN then EXDEV else EPIPE)\<rparr>)) })"

definition vxt_recv ::
    "string \<Rightarrow> (shm \<Rightarrow> shm) \<Rightarrow> u32 \<Rightarrow> int \<Rightarrow> u32 \<Rightarrow> 'k sock_lib \<Rightarrow> ((int \<times> 8 word list \<times> int) \<times> 'k sock_lib) option" where
  "vxt_recv later wait h len flags s = on_socket (- 1, [], len) h (recv_body later wait len flags) s"

subsection \<open>Closing\<close>

text \<open>A forced close shuts the socket down and disconnects it at once, the others record the options.\<close>

definition close_begin :: "u32 \<Rightarrow> nat \<Rightarrow> 'k sock_lib \<Rightarrow> 'k sock_lib option" where
  "close_begin options a s =
     (if flag_set options VXT_CLOSE_FORCE then do {
        sk \<leftarrow> socks s a;
        (_, s) \<leftarrow> vxt_shutdown (handle sk) s;
        sk \<leftarrow> socks s a;
        (_, s) \<leftarrow> (if flag_set options (VXT_CLOSE_REMOTE OR VXT_CLOSE_LOCAL)
           then vxt_msg_disconnect (sdev sk) options s else Some (VXT_SUCCESS, s));
        Some (set_sock a (sk\<lparr>close_options := 0\<rparr>) s) }
      else do { sk \<leftarrow> socks s a; Some (set_sock a (sk\<lparr>close_options := options\<rparr>) s) })"

definition vxt_close :: "u32 \<Rightarrow> u32 \<Rightarrow> 'k sock_lib \<Rightarrow> (int \<times> 'k sock_lib) option" where
  "vxt_close h options s =
     do { (found, s) \<leftarrow> vxt_find_socket h False s;
          case found of
            None \<Rightarrow> Some (1, s\<lparr>errno := ENOTSOCK\<rparr>)
          | Some a \<Rightarrow> do {
              s \<leftarrow> close_begin options a s;
              s \<leftarrow> vxt_deref_socket a s;
              s \<leftarrow> vxt_deref_socket a s;
              Some (0, s) } }"

subsection \<open>Control\<close>

text \<open>The commands with their arguments, and what they store for the caller.\<close>

datatype sock_cmd =
    Msg_Control vxt_msg_cmd vxt_msg_info
  | VXT_IOCTL_QUERY_BIND
  | VXT_IOCTL_UNPLUG_DEV string u64
  | VXT_IOCTL_QUERY_DEV string u64
  | VXT_IOCTL_QUERY_BUS vxt_query_bus_struct
  | VXT_IOCTL_QUERY_SYS vxt_query_sys_struct
  | VXT_IOCTL_SET_BUF_PARMS vxt_msg_buf_parms
  | VXT_IOCTL_TARGET_CTRLR string
  | VXT_IOCTL_CTRLR_PLUG int
  | VXT_IOCTL_CTRLR_POLL int
  | Other_cmd

datatype sock_reply = No_reply | Control_reply vxt_msg_info | Bind_reply "(u64 \<times> u64) option"
  | Dev_reply "vxt_msg_dev_info option" | Bus_reply vxt_query_bus_struct | Sys_reply vxt_query_sys_struct
  | Event_reply "u16 option"

text \<open>Control of a device whose two queues have been set up.\<close>

definition dev_control ::
    "(shm \<Rightarrow> shm) \<Rightarrow> nat option \<Rightarrow> vxt_msg_cmd \<Rightarrow> vxt_msg_info \<Rightarrow> ('k, 'a) lib_scheme
      \<Rightarrow> (vxt_msg_info \<times> vxt_status \<times> ('k, 'a) lib_scheme) option" where
  "dev_control wait dev cmd info s =
     do { a \<leftarrow> dev; d \<leftarrow> devs s a;
          if \<not> sendq_set d \<or> \<not> rcvq_set d then None
          else do {
            sb \<leftarrow> send_buf d; ms \<leftarrow> regions s sb; rb \<leftarrow> rcv_buf d; mr \<leftarrow> regions s rb;
            (i, ms, mr, info, ret) \<leftarrow> vxt_msg_control wait cmd info (vxt_msg_dev_instance.truncate d) ms mr;
            Some (info, ret, (set_dev a (put_instance i d) s)\<lparr>regions := (regions s)(sb \<mapsto> ms, rb \<mapsto> mr)\<rparr>) } }"

text \<open>The common end of the commands: every failure but a bad parameter is reported as busy.\<close>

definition ioctl_end :: "vxt_status \<Rightarrow> sock_reply \<Rightarrow> 'k sock_lib \<Rightarrow> ((int \<times> sock_reply) \<times> 'k sock_lib) option" where
  "ioctl_end ret reply s =
     Some (if ret = VXT_SUCCESS then ((0, reply), s)
           else ((1, reply), s\<lparr>errno := (if ret = VXT_PARM then EINVAL else EBUSY)\<rparr>))"

fun ioctl_body ::
    "(shm \<Rightarrow> shm) \<Rightarrow> sock_cmd \<Rightarrow> nat \<Rightarrow> vxt_sock \<Rightarrow> 'k sock_lib \<Rightarrow> ((int \<times> sock_reply) \<times> 'k sock_lib) option" where
  "ioctl_body wait (Msg_Control cmd info) a sk s =
     (if sstate sk \<noteq> VXT_SOCKET_CONNECTED then Some ((1, No_reply), s\<lparr>errno := EINVAL\<rparr>)
      else do { (info, ret, s) \<leftarrow> dev_control wait (sdev sk) cmd info s; ioctl_end ret (Control_reply info) s })"
| "ioctl_body wait VXT_IOCTL_QUERY_BIND a sk s =
     (if sstate sk \<noteq> VXT_SOCKET_CONNECTED then Some ((1, No_reply), s\<lparr>errno := EINVAL\<rparr>)
      else do { (ret, bound) \<leftarrow> vxt_msg_bind_query (sdev sk) s; ioctl_end ret (Bind_reply bound) s })"
| "ioctl_body wait (VXT_IOCTL_UNPLUG_DEV ctrlr bus_id) a sk s =
     (case vxt_msg_unplug_dev ctrlr bus_id s of (ret, s) \<Rightarrow> ioctl_end ret No_reply s)"
| "ioctl_body wait (VXT_IOCTL_QUERY_DEV ctrlr bus_id) a sk s =
     (case vxt_msg_dev_query ctrlr bus_id s of (ret, info, s) \<Rightarrow> ioctl_end ret (Dev_reply info) s)"
| "ioctl_body wait (VXT_IOCTL_QUERY_BUS bus) a sk s =
     (case vxt_msg_bus_query bus s of (ret, bus, s) \<Rightarrow> ioctl_end ret (Bus_reply bus) s)"
| "ioctl_body wait (VXT_IOCTL_QUERY_SYS sys) a sk s =
     do { (ret, sys, s) \<leftarrow> vxt_msg_system_query sys s; ioctl_end ret (Sys_reply sys) s }"
| "ioctl_body wait (VXT_IOCTL_SET_BUF_PARMS parms) a sk s =
     (if sstate sk = VXT_SOCKET_CONNECTED then Some ((1, No_reply), s\<lparr>errno := EINVAL\<rparr>)
      else Some ((0, No_reply), set_sock a (sk\<lparr>add_msg := parms\<rparr>) s))"
| "ioctl_body wait (VXT_IOCTL_TARGET_CTRLR ctrlr) a sk s =
     (if sstate sk = VXT_SOCKET_CONNECTED then Some ((1, No_reply), s\<lparr>errno := EINVAL\<rparr>)
      else Some ((0, No_reply), set_sock a (sk\<lparr>target_ctrlr := vxtcom_strncpy VXTCOM_MAX_DEV_FILE_NAME ctrlr\<rparr>) s))"
| "ioctl_body wait (VXT_IOCTL_CTRLR_PLUG timeout) a sk s =
     (case vxt_msg_ctrlr_plug_event timeout s of
        (ret, revent, s) \<Rightarrow> Some ((if ret \<noteq> VXT_SUCCESS then 1 else 0, Event_reply revent), s))"
| "ioctl_body wait (VXT_IOCTL_CTRLR_POLL timeout) a sk s =
     (case vxt_msg_poll_ctrlr (sstate sk = VXT_SOCKET_CONNECTED) timeout s of
        (ret, revent, s) \<Rightarrow> Some ((if ret \<noteq> VXT_SUCCESS then 1 else 0, Event_reply revent), s))"
| "ioctl_body wait Other_cmd a sk s = Some ((0, No_reply), s)"

definition vxt_ioctl ::
    "(shm \<Rightarrow> shm) \<Rightarrow> u32 \<Rightarrow> sock_cmd \<Rightarrow> 'k sock_lib \<Rightarrow> ((int \<times> sock_reply) \<times> 'k sock_lib) option" where
  "vxt_ioctl wait h cmd s = on_socket (1, No_reply) h (ioctl_body wait cmd) s"

subsection \<open>Polling\<close>

record vxt_poll_obj =
  po_object :: u64
  po_events :: u32
  po_revents :: u32

definition ptr :: "nat option \<Rightarrow> int" where
  "ptr p = (case p of None \<Rightarrow> 0 | Some a \<Rightarrow> int a)"

text \<open>
  The translation of the entries: a reference for each socket, with the address of its device as
  object. The flag tells whether every handle was found; the list ends before one that was not.
\<close>

fun poll_sockets ::
    "vxt_poll_obj list \<Rightarrow> 'k sock_lib \<Rightarrow> (bool \<times> (nat option \<times> poll_entry) list \<times> 'k sock_lib) option" where
  "poll_sockets [] s = Some (True, [], s)"
| "poll_sockets (p # ps) s =
     (if ucast (po_events p) AND POLLVXT \<noteq> 0 then do {
        (found, s) \<leftarrow> vxt_find_socket (ucast (po_object p)) False s;
        case found of
          None \<Rightarrow> Some (False, [], s\<lparr>errno := ENOTSOCK\<rparr>)
        | Some a \<Rightarrow> do {
            sk \<leftarrow> socks s a;
            (ok, xs, s) \<leftarrow> poll_sockets ps s;
            Some (ok, (Some a, vxt_write_event_wait (ptr (sdev sk)) (ucast (po_events p)) 0) # xs, s) } }
      else do {
        (ok, xs, s) \<leftarrow> poll_sockets ps s;
        Some (ok, (None, vxt_write_event_wait (uint (po_object p)) (ucast (po_events p)) 0) # xs, s) })"

fun deref_all :: "nat option list \<Rightarrow> 'k sock_lib \<Rightarrow> 'k sock_lib option" where
  "deref_all [] s = Some s"
| "deref_all (None # ps) s = deref_all ps s"
| "deref_all (Some a # ps) s = do { s \<leftarrow> vxt_deref_socket a s; deref_all ps s }"

text \<open>
  The clean-up after a handle that was not found tests the pointer of that entry, which has not
  been assigned, and then releases the earlier entries, those without a socket included.
\<close>

definition poll_unwind :: "nat option list \<Rightarrow> 'k sock_lib \<Rightarrow> 'k sock_lib option" where
  "poll_unwind ps s = (if \<not> heap_ptr s then Some s else if None \<in> set ps then None else deref_all ps s)"

definition vxt_poll ::
    "vxt_poll_obj list \<Rightarrow> int \<Rightarrow> 'k sock_lib \<Rightarrow> (int \<times> vxt_poll_obj list \<times> 'k sock_lib) option" where
  "vxt_poll fds timeout s =
     (case vxt_malloc s of
        (False, s) \<Rightarrow> Some (- 1, fds, s\<lparr>errno := ENOMEM\<rparr>)
      | (True, s) \<Rightarrow>
          (case vxt_malloc s of
             (False, s) \<Rightarrow> Some (- 1, fds, s\<lparr>errno := ENOMEM\<rparr>)
           | (True, s) \<Rightarrow> do {
               (ok, xs, s) \<leftarrow> poll_sockets fds s;
               if \<not> ok then do { s \<leftarrow> poll_unwind (map fst xs) s; Some (- 1, fds, s) }
               else do {
                 (ret, count, es, s) \<leftarrow> vxt_msg_wait (map snd xs) timeout s;
                 let fds = map2 (\<lambda>p e. p\<lparr>po_revents := scast (pe_revents e)\<rparr>) fds es;
                 if ret \<noteq> VXT_SUCCESS then do { s \<leftarrow> deref_all (map fst xs) (wait_errno ret s); Some (- 1, fds, s) }
                 else do { s \<leftarrow> deref_all (map fst xs) s; n \<leftarrow> count; Some (n, fds, s) } } }))"

definition vxt_socket_lib_init :: "'k sock_lib \<Rightarrow> vxt_status \<times> 'k sock_lib" where
  "vxt_socket_lib_init s = vxt_msg_init s"

end
