(* ===== verification/Vxt_Conn_Props.thy ===== *)
theory Vxt_Conn_Props
  imports Vxt_Conn
begin

text \<open>
  Resources of the message devices: descriptors, device structures and the list of live
  connections. Every call gives back what it has taken unless it hands it to a new device, and a
  disconnect releases what the device holds.
\<close>

subsection \<open>What the wrappers keep\<close>

text \<open>The resources apart from the descriptors.\<close>

definition held :: "('k, 'a) lib_scheme \<Rightarrow> (nat \<rightharpoonup> msg_device) \<times> nat list \<times> (nat \<rightharpoonup> shm)" where
  "held s = (devs s, live_connections s, regions s)"

lemma ioctl_keeps:
  assumes "vxt_msg_ioctl command fd data s = (ret, res, s')"
  shows "held s' = held s" "open_fds s' = open_fds s" "next_addr s' = next_addr s" "vxtctrlr_fd s' = vxtctrlr_fd s"
    "os s' = os s" "heap_dev s' = heap_dev s"
  using assms by (auto simp: vxt_msg_ioctl_def held_def split: prod.splits)

lemma close_keeps [simp]:
  "held (vxt_msg_close_com fd s) = held s" "next_addr (vxt_msg_close_com fd s) = next_addr s"
  "open_fds (vxt_msg_close_com fd s) = remove1 fd (open_fds s)" "vxtctrlr_fd (vxt_msg_close_com fd s) = vxtctrlr_fd s"
  by (simp_all add: vxt_msg_close_com_def held_def)

lemma open_keeps:
  assumes "vxt_msg_open_com name s = (fd, s')"
  shows "held s' = held s" "next_addr s' = next_addr s" "vxtctrlr_fd s' = vxtctrlr_fd s"
    "open_fds s' = (if fd = VXT_INVALID_DEV_OBJ then open_fds s else fd # open_fds s)"
  using assms by (auto simp: vxt_msg_open_com_def held_def split: prod.splits)

lemma alloc_device_result:
  assumes "alloc_device s = (r, s')"
  shows "open_fds s' = open_fds s" "vxtctrlr_fd s' = vxtctrlr_fd s"
    "case r of None \<Rightarrow> held s' = held s \<and> next_addr s' = next_addr s
      | Some a \<Rightarrow> a = next_addr s \<and> held s' = ((devs s)(a \<mapsto> heap_dev s), snd (held s)) \<and> next_addr s' = Suc a"
  using assms by (auto simp: alloc_device_def vxt_malloc_def set_dev_def held_def split: list.splits bool.splits prod.splits)

lemma drop_device_result [simp]:
  "held (drop_device a fd s) = ((devs s)(a := None), snd (held s))"
  "open_fds (drop_device a fd s) = remove1 fd (open_fds s)" "next_addr (drop_device a fd s) = next_addr s"
  by (simp_all add: drop_device_def vxt_msg_close_com_def held_def Let_def)

subsection \<open>The outcome of adding and connecting\<close>

text \<open>
  The call has failed and left no trace, or there is one new device with one new descriptor.
\<close>

definition opened :: "('k, 'a) lib_scheme \<Rightarrow> vxt_status \<Rightarrow> nat option \<Rightarrow> ('k, 'a) lib_scheme \<Rightarrow> bool" where
  "opened s st c s' \<longleftrightarrow>
     (if st = VXT_SUCCESS
      then c = Some (next_addr s) \<and> next_addr s' = Suc (next_addr s)
         \<and> live_connections s' = next_addr s # live_connections s
         \<and> (\<exists>d. devs s' = (devs s)(next_addr s \<mapsto> d) \<and> open_fds s' = ctrlr_fd d # open_fds s \<and> dev_fd d = VXT_INVALID_DEV_OBJ)
      else c = None \<and> devs s' = devs s \<and> live_connections s' = live_connections s \<and> regions s' = regions s
         \<and> open_fds s' = open_fds s \<and> next_addr s \<le> next_addr s')"

definition lib_ok :: "('k, 'a) lib_scheme \<Rightarrow> bool" where
  "lib_ok s \<longleftrightarrow> distinct (live_connections s) \<and> set (live_connections s) = dom (devs s)
     \<and> (\<forall>a \<in> dom (devs s). 0 < a \<and> a < next_addr s)"

lemma init_queue_keeps:
  assumes "init_queue raw buf sz cnt flags s = (r, s')"
  shows "devs s' = devs s" "live_connections s' = live_connections s" "open_fds s' = open_fds s" "next_addr s' = next_addr s"
  using assms by (auto simp: init_queue_def vxt_malloc_def Let_def split: sum.splits prod.splits list.splits bool.splits)

lemma map_queues_keeps:
  assumes "map_queues fd d s = Some (x, y, s')"
  shows "devs s' = devs s" "live_connections s' = live_connections s" "open_fds s' = open_fds s" "next_addr s' = next_addr s"
  using assms by (auto simp: map_queues_def split: option.splits prod.splits)

lemma add_queues_result:
  assumes "add_queues a d fd s = Some s'"
  shows "\<exists>d'. devs s' = (devs s)(a \<mapsto> d') \<and> ctrlr_fd d' = ctrlr_fd d \<and> dev_fd d' = dev_fd d"
    and "live_connections s' = a # live_connections s" and "open_fds s' = open_fds s" and "next_addr s' = next_addr s"
proof -
  from assms obtain sb sraw rb rraw s1 where m: "map_queues fd d s = Some ((sb, sraw), (rb, rraw), s1)"
    by (auto simp: add_queues_def split: option.splits)
  obtain r1 s2 where i1: "init_queue sraw sb (sendq_size d) (sendq_bufcnt d) VXTQ_LOCAL_IS_PRODUCER s1 = (r1, s2)" by fastforce
  obtain r2 s3 where i2: "init_queue rraw rb (rcvq_size d) (rcvq_bufcnt d) 0 s2 = (r2, s3)" by fastforce
  note k = map_queues_keeps [OF m] init_queue_keeps [OF i1] init_queue_keeps [OF i2]
  from assms m i1 i2 k
  show "\<exists>d'. devs s' = (devs s)(a \<mapsto> d') \<and> ctrlr_fd d' = ctrlr_fd d \<and> dev_fd d' = dev_fd d"
    and "live_connections s' = a # live_connections s" and "open_fds s' = open_fds s" and "next_addr s' = next_addr s"
    by (cases r1; cases r2; auto simp: add_queues_def Let_def set_dev_def split: prod.splits)+
qed

lemma disconnect_unset:
  assumes "a \<in> set (live_connections s)" and "devs s a = Some d" and "\<not> sendq_set d"
  shows "vxt_msg_disconnect (Some a) options s = None"
  using assms by (simp add: vxt_msg_disconnect_def Let_def)

lemma focus_disconnect:
  assumes f: "vxt_msg_ioctl command fd data (set_dev a d s) = (ret, res, s1)" and d: "\<not> sendq_set d"
  shows "vxt_msg_disconnect (Some a) options (s1\<lparr>live_connections := a # live_connections s1\<rparr>) = None"
proof -
  have "devs s1 a = Some d" using ioctl_keeps(1) [OF f] by (simp add: held_def set_dev_def)
  with d show ?thesis by (intro disconnect_unset) auto
qed

lemma add_finish_result:
  assumes ret: "add_finish a d dev fd s = Some (st, c, s')" and d: "\<not> sendq_set d"
  shows "st = VXT_SUCCESS" and "c = Some a" and "live_connections s' = a # live_connections s"
    and "\<exists>d'. devs s' = (devs s)(a \<mapsto> d') \<and> ctrlr_fd d' = ctrlr_fd d \<and> dev_fd d' = dev_fd d"
    and "open_fds s' = open_fds s" and "next_addr s' = next_addr s"
proof -
  obtain r u s1 where f: "vxt_msg_ioctl io_poll_focus fd dev (set_dev a d s) = (r, u, s1)" by (metis prod_cases3)
  note k = ioctl_keeps [OF f]
  from ret f have "r = 0" using focus_disconnect [OF f d] by (auto simp: add_finish_def split: if_splits)
  with ret f have q: "add_queues a d fd s1 = Some s'" "st = VXT_SUCCESS" "c = Some a"
    by (auto simp: add_finish_def split: option.splits)
  from add_queues_result [OF q(1)] q(2,3) k
  show "st = VXT_SUCCESS" and "c = Some a" and "live_connections s' = a # live_connections s"
    and "\<exists>d'. devs s' = (devs s)(a \<mapsto> d') \<and> ctrlr_fd d' = ctrlr_fd d \<and> dev_fd d' = dev_fd d"
    and "open_fds s' = open_fds s" and "next_addr s' = next_addr s"
    by (auto simp: held_def set_dev_def)
qed

lemma fill_device_fields [simp]:
  "ctrlr_fd (fill_device b dev ep c fd bus_id info d) = fd" "\<not> sendq_set (fill_device b dev ep c fd bus_id info d)"
  "dev_fd (fill_device b dev ep c fd bus_id info d) = VXT_INVALID_DEV_OBJ"
  by (simp_all add: fill_device_def)

text \<open>A state in which a device structure has been allocated and a controller opened.\<close>

definition pending :: "('k, 'a) lib_scheme \<Rightarrow> int \<Rightarrow> ('k, 'a) lib_scheme \<Rightarrow> bool" where
  "pending s fd s1 \<longleftrightarrow> (\<exists>d. devs s1 = (devs s)(next_addr s \<mapsto> d)) \<and> live_connections s1 = live_connections s
     \<and> regions s1 = regions s \<and> open_fds s1 = fd # open_fds s \<and> next_addr s1 = Suc (next_addr s)"

lemma pending_ioctl: "pending s fd s1 \<Longrightarrow> vxt_msg_ioctl command f data s1 = (ret, res, s2) \<Longrightarrow> pending s fd s2"
  using ioctl_keeps [of command f data s1 ret res s2] by (auto simp: pending_def held_def)

lemma pending_drop:
  assumes "pending s fd s1" and "devs s (next_addr s) = None" and "st \<noteq> VXT_SUCCESS"
  shows "opened s st None (drop_device (next_addr s) fd s1)"
proof -
  have "held (drop_device (next_addr s) fd s1) = held s"
    using assms(1,2) by (auto simp: pending_def held_def drop_device_def vxt_msg_close_com_def Let_def fun_upd_idem)
  with assms show ?thesis by (auto simp: opened_def pending_def held_def)
qed

lemma add_attach_opened:
  assumes p: "pending s fd s1" and fresh: "devs s (next_addr s) = None"
    and ret: "add_attach dev ep ctrl fd bus_id (next_addr s) s1 = Some (st, c, s')"
  shows "opened s st c s'"
proof -
  obtain r2 stt s2 where a: "vxt_msg_ioctl io_attach fd bus_id s1 = (r2, stt, s2)" by (metis prod_cases3)
  obtain r3 info s3 where q: "vxt_msg_ioctl io_query_dev fd bus_id s2 = (r3, info, s3)" by (metis prod_cases3)
  note p2 = pending_ioctl [OF p a] and p3 = pending_ioctl [OF pending_ioctl [OF p a] q]
  show ?thesis
  proof (cases "r2 = 0 \<and> stt = VXT_MSG_ATTACH_SUCCESS \<and> r3 = 0 \<and> di_state info \<noteq> VXT_MSG_DEV_ERROR")
    case True
    with ret a q have "add_finish (next_addr s) (fill_device False dev ep ctrl fd bus_id info (heap_dev s3)) dev fd s3
      = Some (st, c, s')" by (auto simp: add_attach_def)
    from add_finish_result [OF this] p3 show ?thesis by (auto simp: opened_def pending_def)
  next
    case False
    with ret a q pending_drop [OF p2 fresh] pending_drop [OF p3 fresh] show ?thesis
      by (auto simp: add_attach_def split: if_splits)
  qed
qed

lemma opened_fail:
  assumes "held s1 = held s" and "open_fds s1 = open_fds s" and "next_addr s1 = next_addr s" and "st \<noteq> VXT_SUCCESS"
  shows "opened s st None s1"
  using assms by (auto simp: opened_def held_def)

lemma opened_same:
  assumes "opened s1 st c s'" and "held s1 = held s" and "open_fds s1 = open_fds s" and "next_addr s1 = next_addr s"
  shows "opened s st c s'"
  using assms by (auto simp: opened_def held_def)

lemma alloc_pending:
  assumes "alloc_device s1 = (Some a, s2)" and "held s1 = held s" and "open_fds s1 = fd # open_fds s" and "next_addr s1 = next_addr s"
  shows "a = next_addr s" and "pending s fd s2"
  using alloc_device_result [OF assms(1)] assms(2-4) by (auto simp: pending_def held_def)

lemma msg_add_opened:
  assumes ok: "lib_ok s" and ret: "vxt_msg_add dev ep parms s = Some (st, c, s')"
  shows "opened s st c s'"
proof (cases "vxtctrlr_fd s = VXT_INVALID_DEV_OBJ")
  case True
  with ret show ?thesis by (auto simp: vxt_msg_add_def intro!: opened_fail)
next
  case False
  have fresh: "devs s (next_addr s) = None" using ok by (force simp: lib_ok_def dom_def)
  obtain name req s1 where l: "add_lookup ep s = (name, req, s1)" by (metis prod_cases3)
  obtain fd s2 where o: "vxt_msg_open_com name s1 = (fd, s2)" by fastforce
  obtain r3 q s3 where b: "vxt_msg_ioctl io_query_bus fd (add_query dev ep (stack_bus s2)) s2 = (r3, q, s3)" by (metis prod_cases3)
  obtain r4 bus s4 where cr: "vxt_msg_ioctl io_dev_create fd
      (vxtcom_strncpy MAX_VXT_UNAME (uname ep), dev, create_info parms) s3 = (r4, bus, s4)" by (metis prod_cases3)
  obtain al s5 where al: "alloc_device s4 = (al, s5)" by fastforce
  have k1: "held s1 = held s" "open_fds s1 = open_fds s" "next_addr s1 = next_addr s"
    using l by (auto simp: add_lookup_def split: prod.splits dest: ioctl_keeps)
  note k = k1 open_keeps [OF o] ioctl_keeps [OF b] ioctl_keeps [OF cr] alloc_device_result [OF al]
  show ?thesis
  proof (cases "fd \<noteq> VXT_INVALID_DEV_OBJ \<and> r3 = 0 \<and> qb_vxt_bus_id q = VXTCTRLR_NULL_DEV \<and> r4 = 0 \<and> al \<noteq> None")
    case True
    then obtain a where a: "al = Some a" by auto
    from alloc_pending [of s4 a s5 s fd] al a True k have p: "a = next_addr s" "pending s fd s5" by auto
    from True False ret l o b cr al a p(1) have
      "add_attach dev ep (qc_controller req) fd bus (next_addr s) s5 = Some (st, c, s')" by (simp add: vxt_msg_add_def)
    from add_attach_opened [OF p(2) fresh this] show ?thesis .
  next
    case fail: False
    from fail False ret l o b cr al k show ?thesis
      by (auto simp: vxt_msg_add_def intro!: opened_fail split: if_splits option.splits)
  qed
qed

lemma lib_ok_opened:
  assumes "lib_ok s" and "opened s st c s'" and "0 < next_addr s"
  shows "lib_ok s' \<and> 0 < next_addr s'"
proof (cases "st = VXT_SUCCESS")
  case True
  with assms obtain d where d: "live_connections s' = next_addr s # live_connections s" "next_addr s' = Suc (next_addr s)"
    "devs s' = (devs s)(next_addr s \<mapsto> d)" by (auto simp: opened_def)
  with assms show ?thesis by (auto simp: lib_ok_def less_Suc_eq)
next
  case False
  with assms show ?thesis by (auto simp: opened_def lib_ok_def intro: less_le_trans)
qed

lemma connect_queues_result:
  assumes "connect_queues a d fd s = Some (parms, s')"
  shows "\<exists>d'. devs s' = (devs s)(a \<mapsto> d') \<and> ctrlr_fd d' = ctrlr_fd d \<and> dev_fd d' = dev_fd d \<and> sendq_set d' \<and> rcvq_set d'"
    and "live_connections s' = a # live_connections s" and "open_fds s' = open_fds s" and "next_addr s' = next_addr s"
proof -
  from assms obtain sb sraw rb rraw s1 where m: "map_queues fd d s = Some ((sb, sraw), (rb, rraw), s1)"
    by (auto simp: connect_queues_def split: option.splits)
  obtain r1 s2 where i1: "init_queue sraw sb (sendq_size d) (sendq_bufcnt d)
    (VXTQ_BUFFER_INITIALIZED OR VXTQ_LOCAL_IS_PRODUCER) s1 = (r1, s2)" by fastforce
  obtain r2 s3 where i2: "init_queue rraw rb (rcvq_size d) (rcvq_bufcnt d) VXTQ_BUFFER_INITIALIZED s2 = (r2, s3)" by fastforce
  note k = map_queues_keeps [OF m] init_queue_keeps [OF i1] init_queue_keeps [OF i2]
  from assms m i1 i2 k
  show "\<exists>d'. devs s' = (devs s)(a \<mapsto> d') \<and> ctrlr_fd d' = ctrlr_fd d \<and> dev_fd d' = dev_fd d \<and> sendq_set d' \<and> rcvq_set d'"
    and "live_connections s' = a # live_connections s" and "open_fds s' = open_fds s" and "next_addr s' = next_addr s"
    by (cases r1; cases r2; auto simp: connect_queues_def Let_def set_dev_def split: prod.splits)+
qed

lemma connect_attach_opened:
  assumes p: "pending s fd s1" and fresh: "devs s (next_addr s) = None"
    and ret: "connect_attach dev ep query info parms fd (next_addr s) s1 = Some (st, c, parms', s')"
  shows "opened s st c s'"
proof -
  obtain r2 stt s2 where a: "vxt_msg_ioctl io_attach fd (qb_vxt_bus_id query) s1 = (r2, stt, s2)" by (metis prod_cases3)
  note p2 = pending_ioctl [OF p a]
  let ?d = "fill_device True dev ep (qb_controller query) fd (qb_vxt_bus_id query) info (heap_dev s2)"
  obtain r3 u s3 where f: "vxt_msg_ioctl io_poll_focus fd dev (set_dev (next_addr s) ?d s2) = (r3, u, s3)" by (metis prod_cases3)
  show ?thesis
  proof (cases "r2 = 0")
    case True
    from ret True a f have "r3 = 0" using focus_disconnect [OF f] by (auto simp: connect_attach_def Let_def split: if_splits)
    with ret True a f have q: "connect_queues (next_addr s) ?d fd s3 = Some (parms', s')" "st = VXT_SUCCESS" "c = Some (next_addr s)"
      by (auto simp: connect_attach_def Let_def split: option.splits)
    from connect_queues_result [OF q(1)] q(2,3) p2 ioctl_keeps [OF f] show ?thesis
      by (auto simp: opened_def pending_def held_def set_dev_def)
  next
    case False
    with ret a pending_drop [OF p2 fresh] show ?thesis by (auto simp: connect_attach_def)
  qed
qed

lemma connect_open_opened:
  assumes k: "held s1 = held s" "open_fds s1 = fd # open_fds s" "next_addr s1 = next_addr s"
    and fresh: "devs s (next_addr s) = None"
    and ret: "connect_open dev ep query parms fd s1 = Some (st, c, parms', s')"
  shows "opened s st c s'"
proof -
  obtain r2 info s2 where a: "vxt_msg_ioctl io_query_dev fd (qb_vxt_bus_id query) s1 = (r2, info, s2)" by (metis prod_cases3)
  obtain al s3 where al: "alloc_device s2 = (al, s3)" by fastforce
  note k2 = ioctl_keeps [OF a] alloc_device_result [OF al]
  show ?thesis
  proof (cases "r2 = 0 \<and> \<not> (di_state info = VXT_MSG_DEV_CONNECTED \<or> di_state info = VXT_MSG_DEV_ERROR)
      \<and> di_version info = VXT_MSG_DEV_VERSION \<and> al \<noteq> None")
    case True
    then obtain b where b: "al = Some b" by auto
    from alloc_pending [of s2 b s3 s fd] al b k k2 have p: "b = next_addr s" "pending s fd s3" by auto
    from True ret a al b p(1) have "connect_attach dev ep query info parms fd (next_addr s) s3 = Some (st, c, parms', s')"
      by (simp add: connect_open_def)
    from connect_attach_opened [OF p(2) fresh this] show ?thesis .
  next
    case False
    with ret a al k k2 show ?thesis
      by (auto simp: connect_open_def intro!: opened_fail split: if_splits option.splits)
  qed
qed

lemma msg_connect_opened:
  assumes ok: "lib_ok s" and ret: "vxt_msg_connect dev ep target parms s = Some (st, c, parms', s')"
  shows "opened s st c s'"
proof (cases "vxtctrlr_fd s = VXT_INVALID_DEV_OBJ")
  case True
  with ret show ?thesis by (auto simp: vxt_msg_connect_def intro!: opened_fail)
next
  case False
  have fresh: "devs s (next_addr s) = None" using ok by (force simp: lib_ok_def dom_def)
  obtain name fn s1 where l: "connect_ctrlr ep target s = (name, fn, s1)" by (metis prod_cases3)
  obtain fd s2 where o: "vxt_msg_open_com name s1 = (fd, s2)" by fastforce
  obtain r3 q s3 where b: "vxt_msg_ioctl io_query_bus fd (connect_query dev ep fn (stack_bus s2)) s2 = (r3, q, s3)" by (metis prod_cases3)
  have k1: "held s1 = held s" "open_fds s1 = open_fds s" "next_addr s1 = next_addr s"
    using l by (auto simp: connect_ctrlr_def split: prod.splits if_splits dest: ioctl_keeps)
  note k = k1 open_keeps [OF o] ioctl_keeps [OF b]
  consider (fail) "fd = VXT_INVALID_DEV_OBJ \<or> r3 \<noteq> 0"
    | (add) "fd \<noteq> VXT_INVALID_DEV_OBJ" "r3 = 0" "qb_vxt_bus_id q = VXTCTRLR_NULL_DEV \<or> qb_dev_name q \<noteq> dev"
    | (go) "fd \<noteq> VXT_INVALID_DEV_OBJ" "r3 = 0" "\<not> (qb_vxt_bus_id q = VXTCTRLR_NULL_DEV \<or> qb_dev_name q \<noteq> dev)" by blast
  then show ?thesis
  proof cases
    case fail
    with False ret l o b k show ?thesis by (auto simp: vxt_msg_connect_def intro!: opened_fail split: if_splits)
  next
    case add
    with False ret l o b have a: "vxt_msg_add dev ep parms (vxt_msg_close_com fd s3) = Some (st, c, s')"
      by (auto simp: vxt_msg_connect_def split: option.splits)
    have same: "held (vxt_msg_close_com fd s3) = held s" "open_fds (vxt_msg_close_com fd s3) = open_fds s"
      "next_addr (vxt_msg_close_com fd s3) = next_addr s" using add(1) k by auto
    then have "lib_ok (vxt_msg_close_com fd s3)" using ok by (simp add: lib_ok_def held_def)
    from opened_same [OF msg_add_opened [OF this a] same] show ?thesis .
  next
    case go
    with False ret l o b have c: "connect_open dev ep q parms fd s3 = Some (st, c, parms', s')"
      by (simp add: vxt_msg_connect_def)
    have "held s3 = held s" "open_fds s3 = fd # open_fds s" "next_addr s3 = next_addr s" using go(1) k by auto
    from connect_open_opened [OF this fresh c] show ?thesis .
  qed
qed

subsection \<open>Disconnecting\<close>

lemma unmap_keeps [simp]:
  "devs (unmap b z s) = devs s" "live_connections (unmap b z s) = live_connections s" "open_fds (unmap b z s) = open_fds s"
  "next_addr (unmap b z s) = next_addr s" "vxtctrlr_fd (unmap b z s) = vxtctrlr_fd s"
  "regions (unmap b z s) = (case b of None \<Rightarrow> regions s | Some x \<Rightarrow> (regions s)(x := None))"
  by (simp_all add: unmap_def split: option.splits)

lemma close_device_keeps [simp]:
  "devs (close_device a d s) = (devs s)(a := None)" "live_connections (close_device a d s) = live_connections s"
  "regions (close_device a d s) = regions s" "next_addr (close_device a d s) = next_addr s"
  "open_fds (close_device a d s) =
     (if dev_fd d \<noteq> VXT_INVALID_DEV_OBJ then remove1 (dev_fd d) (remove1 (ctrlr_fd d) (open_fds s))
      else remove1 (ctrlr_fd d) (open_fds s))"
  by (simp_all add: close_device_def Let_def vxt_msg_close_com_def)

lemma disconnect_result:
  assumes a: "a \<in> set (live_connections s)" "devs s a = Some d" and q: "sendq_set d" "rcvq_set d"
  obtains st s' where "vxt_msg_disconnect (Some a) options s = Some (st, s')"
    "devs s' = (devs s)(a := None)" "live_connections s' = remove1 a (live_connections s)" "next_addr s' = next_addr s"
    "open_fds s' = (if dev_fd d \<noteq> VXT_INVALID_DEV_OBJ then remove1 (dev_fd d) (remove1 (ctrlr_fd d) (open_fds s))
      else remove1 (ctrlr_fd d) (open_fds s))"
    "\<And>b. b \<in> {x. send_buf d = Some x \<or> rcv_buf d = Some x} \<Longrightarrow> regions s' b = None"
proof -
  let ?s = "unmap (rcv_buf d) (rcvq_size d) (unmap (send_buf d) (sendq_size d) (s\<lparr>live_connections := remove1 a (live_connections s)\<rparr>))"
  obtain r stt s1 where i: "vxt_msg_ioctl io_detach (ctrlr_fd d) (dev_slot d) ?s = (r, stt, s1)" by (metis prod_cases3)
  obtain r2 u s2 where i2: "vxt_msg_ioctl io_dev_remove (ctrlr_fd d) (dev_slot d) s1 = (r2, u, s2)" by (metis prod_cases3)
  note k = ioctl_keeps [OF i] ioctl_keeps [OF i2]
  define s3 where "s3 = (if r = 0 \<and> stt = VXT_MSG_ATTACH_SUCCESS \<and> flag_set options VXT_CLOSE_REMOTE then s2 else s1)"
  have s3: "s3 \<in> {s1, s2}" "\<exists>st. vxt_msg_disconnect (Some a) options s = Some (st, close_device a d s3)"
    using a q i i2 by (simp_all add: s3_def vxt_msg_disconnect_def Let_def)
  have h: "held s3 = held ?s" "open_fds s3 = open_fds ?s" "next_addr s3 = next_addr ?s" using s3(1) k by auto
  then have h': "devs s3 = devs s" "live_connections s3 = remove1 a (live_connections s)" "regions s3 = regions ?s"
    by (auto simp: held_def)
  from s3(2) obtain st where "vxt_msg_disconnect (Some a) options s = Some (st, close_device a d s3)" by blast
  moreover have "regions (close_device a d s3) b = None" if "b \<in> {x. send_buf d = Some x \<or> rcv_buf d = Some x}" for b
    using h'(3) that by (auto split: option.splits)
  ultimately show thesis using h h' by (intro that [of st "close_device a d s3"]) auto
qed

lemma disconnect_lib_ok:
  assumes ok: "lib_ok s" and ret: "vxt_msg_disconnect c options s = Some (st, s')"
  shows "lib_ok s' \<and> next_addr s' = next_addr s"
proof (cases "\<exists>a d. c = Some a \<and> a \<in> set (live_connections s) \<and> devs s a = Some d \<and> sendq_set d \<and> rcvq_set d")
  case True
  then obtain a d where a: "c = Some a" "a \<in> set (live_connections s)" "devs s a = Some d" "sendq_set d" "rcvq_set d" by blast
  obtain st' s'' where r: "vxt_msg_disconnect (Some a) options s = Some (st', s'')"
    "devs s'' = (devs s)(a := None)" "live_connections s'' = remove1 a (live_connections s)" "next_addr s'' = next_addr s"
    using disconnect_result [OF a(2-5), of options] by metis
  with ret a(1) ok show ?thesis by (auto simp: lib_ok_def)
next
  case False
  with ret ok show ?thesis
    by (auto simp: vxt_msg_disconnect_def Let_def split: option.splits if_splits)
qed

subsection \<open>What lies outside of the library\<close>

text \<open>The calls do not touch the fields with which a client extends the state.\<close>

lemma wrappers_more:
  "vxt_msg_ioctl command fd data s = (ret, res, s1) \<Longrightarrow> lib.more s1 = lib.more s"
  "vxt_msg_open_com name s = (fd, s1) \<Longrightarrow> lib.more s1 = lib.more s"
  "lib.more (vxt_msg_close_com fd s) = lib.more s"
  "alloc_device s = (r, s1) \<Longrightarrow> lib.more s1 = lib.more s"
  "lib.more (drop_device a fd s) = lib.more s"
  "lib.more (set_dev a d s) = lib.more s"
  "lib.more (unmap b z s) = lib.more s"
  "lib.more (close_device a d s) = lib.more s"
  "vxt_malloc s = (ok, s1) \<Longrightarrow> lib.more s1 = lib.more s"
  "vxt_msg_event_wait fd timeout s = (st, re, s1) \<Longrightarrow> lib.more s1 = lib.more s"
  by (auto simp: vxt_msg_ioctl_def vxt_msg_open_com_def vxt_msg_close_com_def alloc_device_def vxt_malloc_def drop_device_def
      set_dev_def unmap_def close_device_def vxt_msg_event_wait_def Let_def split: prod.splits list.splits bool.splits option.splits sum.splits)

lemma ioctl_more: "lib.more (snd (snd (vxt_msg_ioctl command fd data s))) = lib.more s"
  by (simp add: vxt_msg_ioctl_def split: prod.splits)

lemma init_queue_more: "init_queue raw buf sz cnt flags s = (r, s1) \<Longrightarrow> lib.more s1 = lib.more s"
  by (auto simp: init_queue_def vxt_malloc_def Let_def split: sum.splits prod.splits list.splits bool.splits)

lemma map_queues_more: "map_queues fd d s = Some (x, y, s1) \<Longrightarrow> lib.more s1 = lib.more s"
  by (auto simp: map_queues_def split: option.splits prod.splits)

lemma disconnect_more: "vxt_msg_disconnect c options s = Some (st, s1) \<Longrightarrow> lib.more s1 = lib.more s"
  by (auto simp: vxt_msg_disconnect_def Let_def wrappers_more ioctl_more dest!: wrappers_more(1) split: option.splits if_splits prod.splits)

lemma add_queues_more:
  assumes "add_queues a d fd s = Some s1"
  shows "lib.more s1 = lib.more s"
proof -
  from assms obtain sb sraw rb rraw s2 where m: "map_queues fd d s = Some ((sb, sraw), (rb, rraw), s2)"
    by (auto simp: add_queues_def split: option.splits)
  obtain r1 s3 where i1: "init_queue sraw sb (sendq_size d) (sendq_bufcnt d) VXTQ_LOCAL_IS_PRODUCER s2 = (r1, s3)" by fastforce
  obtain r2 s4 where i2: "init_queue rraw rb (rcvq_size d) (rcvq_bufcnt d) 0 s3 = (r2, s4)" by fastforce
  from assms m i1 i2 map_queues_more [OF m] init_queue_more [OF i1] init_queue_more [OF i2] show ?thesis
    by (cases r1; cases r2; auto simp: add_queues_def Let_def wrappers_more split: prod.splits)
qed

lemma connect_queues_more:
  assumes "connect_queues a d fd s = Some (p, s1)"
  shows "lib.more s1 = lib.more s"
proof -
  from assms obtain sb sraw rb rraw s2 where m: "map_queues fd d s = Some ((sb, sraw), (rb, rraw), s2)"
    by (auto simp: connect_queues_def split: option.splits)
  obtain r1 s3 where i1: "init_queue sraw sb (sendq_size d) (sendq_bufcnt d)
    (VXTQ_BUFFER_INITIALIZED OR VXTQ_LOCAL_IS_PRODUCER) s2 = (r1, s3)" by fastforce
  obtain r2 s4 where i2: "init_queue rraw rb (rcvq_size d) (rcvq_bufcnt d) VXTQ_BUFFER_INITIALIZED s3 = (r2, s4)" by fastforce
  from assms m i1 i2 map_queues_more [OF m] init_queue_more [OF i1] init_queue_more [OF i2] show ?thesis
    by (cases r1; cases r2; auto simp: connect_queues_def Let_def wrappers_more split: prod.splits)
qed

lemma add_finish_more:
  assumes "add_finish a d dev fd s = Some (st, c, s1)"
  shows "lib.more s1 = lib.more s"
proof -
  obtain r u s2 where f: "vxt_msg_ioctl io_poll_focus fd dev (set_dev a d s) = (r, u, s2)" by (metis prod_cases3)
  with assms wrappers_more(1) [OF f] show ?thesis
    by (auto simp: add_finish_def wrappers_more(6) dest: disconnect_more add_queues_more split: if_splits option.splits)
qed

lemma add_attach_more:
  assumes "add_attach dev ep ctrl fd bus_id a s = Some (st, c, s1)"
  shows "lib.more s1 = lib.more s"
proof -
  obtain r2 stt s2 where a: "vxt_msg_ioctl io_attach fd bus_id s = (r2, stt, s2)" by (metis prod_cases3)
  obtain r3 info s3 where q: "vxt_msg_ioctl io_query_dev fd bus_id s2 = (r3, info, s3)" by (metis prod_cases3)
  from assms a q wrappers_more(1) [OF a] wrappers_more(1) [OF q] show ?thesis
    by (auto simp: add_attach_def wrappers_more(5) dest: add_finish_more split: if_splits)
qed

lemma msg_add_more:
  assumes "vxt_msg_add dev ep parms s = Some (st, c, s1)"
  shows "lib.more s1 = lib.more s"
proof -
  obtain name req s2 where l: "add_lookup ep s = (name, req, s2)" by (metis prod_cases3)
  obtain fd s3 where o: "vxt_msg_open_com name s2 = (fd, s3)" by fastforce
  obtain r3 q s4 where b: "vxt_msg_ioctl io_query_bus fd (add_query dev ep (stack_bus s3)) s3 = (r3, q, s4)" by (metis prod_cases3)
  obtain r4 bus s5 where cr: "vxt_msg_ioctl io_dev_create fd
      (vxtcom_strncpy MAX_VXT_UNAME (uname ep), dev, create_info parms) s4 = (r4, bus, s5)" by (metis prod_cases3)
  obtain al s6 where al: "alloc_device s5 = (al, s6)" by fastforce
  have "lib.more s2 = lib.more s" using l by (auto simp: add_lookup_def split: prod.splits dest: wrappers_more(1))
  with assms l o b cr al wrappers_more(2) [OF o] wrappers_more(1) [OF b] wrappers_more(1) [OF cr] wrappers_more(4) [OF al]
  show ?thesis by (auto simp: vxt_msg_add_def wrappers_more(3) dest: add_attach_more split: if_splits option.splits)
qed

lemma connect_attach_more:
  assumes "connect_attach dev ep query info parms fd a s = Some (st, c, p, s1)"
  shows "lib.more s1 = lib.more s"
proof -
  obtain r2 stt s2 where a: "vxt_msg_ioctl io_attach fd (qb_vxt_bus_id query) s = (r2, stt, s2)" by (metis prod_cases3)
  let ?d = "fill_device True dev ep (qb_controller query) fd (qb_vxt_bus_id query) info (heap_dev s2)"
  obtain r3 u s3 where f: "vxt_msg_ioctl io_poll_focus fd dev (set_dev a ?d s2) = (r3, u, s3)" by (metis prod_cases3)
  from assms a f wrappers_more(1) [OF a] wrappers_more(1) [OF f] show ?thesis
    by (auto simp: connect_attach_def Let_def wrappers_more(5,6) dest: disconnect_more connect_queues_more split: if_splits option.splits)
qed

lemma msg_connect_more:
  assumes "vxt_msg_connect dev ep target parms s = Some (st, c, p, s1)"
  shows "lib.more s1 = lib.more s"
proof -
  obtain name fn s2 where l: "connect_ctrlr ep target s = (name, fn, s2)" by (metis prod_cases3)
  obtain fd s3 where o: "vxt_msg_open_com name s2 = (fd, s3)" by fastforce
  obtain r3 q s4 where b: "vxt_msg_ioctl io_query_bus fd (connect_query dev ep fn (stack_bus s3)) s3 = (r3, q, s4)" by (metis prod_cases3)
  obtain r5 info s5 where i: "vxt_msg_ioctl io_query_dev fd (qb_vxt_bus_id q) s4 = (r5, info, s5)" by (metis prod_cases3)
  obtain al s6 where al: "alloc_device s5 = (al, s6)" by fastforce
  have "lib.more s2 = lib.more s" using l by (auto simp: connect_ctrlr_def split: prod.splits if_splits dest: wrappers_more(1))
  with assms l o b i al wrappers_more(2) [OF o] wrappers_more(1) [OF b] wrappers_more(1) [OF i] wrappers_more(4) [OF al]
  show ?thesis
    by (auto simp: vxt_msg_connect_def connect_open_def wrappers_more(3)
        dest: msg_add_more connect_attach_more split: if_splits option.splits)
qed

end
