(* ===== verification/Vxt_Socket_Props.thy ===== *)
theory Vxt_Socket_Props
  imports Vxt_Socket Vxt_Conn_Props
begin

text \<open>
  The table of sockets: lookups and reference counts, calls in progress in several threads, the
  end of a socket, and what the handles of the table promise.
\<close>

subsection \<open>The table\<close>

definition table :: "'k sock_lib \<Rightarrow> (nat \<rightharpoonup> vxt_sock) \<times> nat list \<times> u32 \<times> bool \<times> bool \<times> bool" where
  "table s = (socks s, live_sockets s, socket_handles s, socket_wrap s, socket_lock s, heap_ptr s)"

definition table_ok :: "'k sock_lib \<Rightarrow> bool" where
  "table_ok s \<longleftrightarrow> distinct (live_sockets s) \<and> set (live_sockets s) = dom (socks s) \<and> \<not> socket_lock s
     \<and> (\<forall>a b sk tk. socks s a = Some sk \<longrightarrow> socks s b = Some tk \<longrightarrow> handle sk = handle tk \<longrightarrow> a = b)
     \<and> (\<forall>a sk. socks s a = Some sk \<longrightarrow> a < next_addr s \<and> handle sk \<noteq> 0 \<and> (\<not> socket_wrap s \<longrightarrow> handle sk < socket_handles s))
     \<and> socket_handles s \<noteq> 0"

lemma more_table: "lib.more s' = lib.more s \<Longrightarrow> table s' = table s"
  by (cases s; cases s') (simp add: table_def)

lemma table_okD:
  assumes "table_ok s"
  shows "distinct (live_sockets s)" "set (live_sockets s) = dom (socks s)" "\<not> socket_lock s" "socket_handles s \<noteq> 0"
    "socks s a = Some sk \<Longrightarrow> a < next_addr s" "socks s a = Some sk \<Longrightarrow> handle sk \<noteq> 0"
    "socks s a = Some sk \<Longrightarrow> \<not> socket_wrap s \<Longrightarrow> handle sk < socket_handles s"
    "socks s a = Some sk \<Longrightarrow> socks s b = Some tk \<Longrightarrow> handle sk = handle tk \<Longrightarrow> a = b"
  using assms by (auto simp: table_ok_def)

lemma find_live_cases:
  assumes "set xs \<subseteq> dom (socks s)"
  obtains (none) "find_live s h xs = Some None" "\<And>a sk. a \<in> set xs \<Longrightarrow> socks s a = Some sk \<Longrightarrow> handle sk \<noteq> h"
    | (found) a sk where "find_live s h xs = Some (Some a)" "a \<in> set xs" "socks s a = Some sk" "handle sk = h"
proof -
  have "(find_live s h xs = Some None \<and> (\<forall>a \<in> set xs. \<forall>sk. socks s a = Some sk \<longrightarrow> handle sk \<noteq> h))
    \<or> (\<exists>a sk. find_live s h xs = Some (Some a) \<and> a \<in> set xs \<and> socks s a = Some sk \<and> handle sk = h)"
    using assms
  proof (induction xs)
    case (Cons b xs)
    then obtain tk where "socks s b = Some tk" by auto
    with Cons show ?case by (cases "handle tk = h") auto
  qed simp
  then show thesis using none found by blast
qed

lemma find_live_hit:
  assumes ok: "table_ok s" and a: "socks s a = Some sk" "a \<in> set xs" and xs: "set xs \<subseteq> dom (socks s)"
  shows "find_live s (handle sk) xs = Some (Some a)"
proof (cases rule: find_live_cases [OF xs, where h = "handle sk"])
  case 1
  with a show ?thesis by blast
next
  case (2 b tk)
  with table_okD(8) [OF ok a(1) 2(3)] show ?thesis by simp
qed

lemma unlock_set: "\<not> socket_lock s \<Longrightarrow> vxt_unlock (set_sock a x (s\<lparr>socket_lock := True\<rparr>)) = set_sock a x s"
  by (cases s) (simp add: vxt_unlock_def set_sock_def)

lemma unlock_lock: "\<not> socket_lock s \<Longrightarrow> vxt_unlock (s\<lparr>socket_lock := True\<rparr>) = s"
  by (cases s) (simp add: vxt_unlock_def)

lemma find_live_lock [simp]: "find_live (s\<lparr>socket_lock := b\<rparr>) h xs = find_live s h xs"
  by (induction xs) (simp_all cong: if_cong)

lemma lookup_live:
  assumes ok: "table_ok s"
  obtains (none) "vxt_find_socket h False s = Some (None, s)" "\<And>a sk. socks s a = Some sk \<Longrightarrow> handle sk \<noteq> h"
    | (found) a sk where "vxt_find_socket h False s = Some (Some a, set_sock a (sk\<lparr>ref_cnt := ref_cnt sk + 1\<rparr>) s)"
        "socks s a = Some sk" "handle sk = h"
proof -
  have sub: "set (live_sockets s) \<subseteq> dom (socks s)" using table_okD(2) [OF ok] by simp
  show thesis
  proof (cases rule: find_live_cases [OF sub, of h])
    case 1
    with table_okD(2,3) [OF ok] show ?thesis
      by (intro none) (auto simp: vxt_find_socket_def vxt_lock_def unlock_lock)
  next
    case (2 a sk)
    with table_okD(2,3) [OF ok] show ?thesis
      by (intro found [of a sk]) (auto simp: vxt_find_socket_def vxt_lock_def unlock_set)
  qed
qed

lemma find_socket_hit:
  assumes "table_ok s" and "socks s a = Some sk"
  shows "vxt_find_socket (handle sk) False s = Some (Some a, set_sock a (sk\<lparr>ref_cnt := ref_cnt sk + 1\<rparr>) s)"
proof (cases rule: lookup_live [OF assms(1), of "handle sk"])
  case 1
  with assms show ?thesis by blast
next
  case (2 b tk)
  with table_okD(8) [OF assms(1,2) 2(2)] assms(2) show ?thesis by simp
qed

lemma set_sock_fields [simp]:
  "socks (set_sock a sk s) = (socks s)(a \<mapsto> sk)" "live_sockets (set_sock a sk s) = live_sockets s"
  "socket_handles (set_sock a sk s) = socket_handles s" "socket_wrap (set_sock a sk s) = socket_wrap s"
  "socket_lock (set_sock a sk s) = socket_lock s" "next_addr (set_sock a sk s) = next_addr s" "devs (set_sock a sk s) = devs s"
  "live_connections (set_sock a sk s) = live_connections s" "open_fds (set_sock a sk s) = open_fds s"
  "regions (set_sock a sk s) = regions s" "lib_ok (set_sock a sk s) = lib_ok s"
  "set_sock a sk (set_sock a tk s) = set_sock a sk s"
  by (simp_all add: set_sock_def lib_ok_def)

text \<open>A change of a socket that keeps its handle.\<close>

lemma table_ok_set:
  assumes "table_ok s" and "socks s a = Some sk" and "handle tk = handle sk"
  shows "table_ok (set_sock a tk s)"
  using assms unfolding table_ok_def by (auto simp: domIff)

subsection \<open>Giving up a reference\<close>

lemma deref_shared:
  assumes "\<not> socket_lock s" and "socks s a = Some sk" and "1 < ref_cnt sk"
  shows "vxt_deref_socket a s = Some (set_sock a (sk\<lparr>ref_cnt := ref_cnt sk - 1\<rparr>) s)"
  using assms by (subst vxt_deref_socket.simps) (simp add: vxt_lock_def unlock_set)

lemma deref_freed: "socks s a = None \<Longrightarrow> vxt_deref_socket a s = None"
  by (subst vxt_deref_socket.simps) (simp add: vxt_lock_def)

lemma deref_locked: "socket_lock s \<Longrightarrow> vxt_deref_socket a s = None"
  by (subst vxt_deref_socket.simps) (simp add: vxt_lock_def)

text \<open>The state of a socket after its shutdown.\<close>

definition suspended :: "vxt_sock \<Rightarrow> vxt_sock" where
  "suspended sk = (if sstate sk = VXT_SOCKET_CONNECTED then sk\<lparr>sstate := VXT_SOCKET_SUSPENDED\<rparr> else sk)"

lemma suspended_simps [simp]:
  "handle (suspended sk) = handle sk" "ref_cnt (suspended sk) = ref_cnt sk" "sdev (suspended sk) = sdev sk"
  "close_options (suspended sk) = close_options sk" "sstate (suspended sk) \<noteq> VXT_SOCKET_CONNECTED"
  "suspended (sk\<lparr>ref_cnt := n\<rparr>) = (suspended sk)\<lparr>ref_cnt := n\<rparr>"
  by (simp_all add: suspended_def)

lemma same_ref: "ref_cnt sk = n \<Longrightarrow> sk\<lparr>ref_cnt := n\<rparr> = sk"
  by (cases sk) simp

lemma suspend_result: "socks s a = Some sk \<Longrightarrow> suspend a s = Some (0, set_sock a (suspended sk) s)"
  by (cases s) (auto simp: suspend_def suspended_def vxt_msg_shutdown_def set_sock_def fun_upd_idem)

lemma free_socket_result:
  assumes ok: "table_ok s" and a: "socks s a = Some sk" and st: "sstate sk \<noteq> VXT_SOCKET_CONNECTED"
  shows "vxt_free_socket (handle sk) s = Some (0, free_sock a s)"
proof -
  note t = table_okD [OF ok]
  obtain b rest where l: "live_sockets s = b # rest" using a t(2) by (cases "live_sockets s") auto
  then obtain tk where tk: "socks s b = Some tk" using t(2) by auto
  have u: "vxt_unlock (s\<lparr>socket_lock := True\<rparr>) = s" using t(3) by (rule unlock_lock)
  show ?thesis
  proof (cases "a = b")
    case True
    with l tk a u t(3) show ?thesis by (simp add: vxt_free_socket_def vxt_lock_def)
  next
    case False
    then have ne: "handle tk \<noteq> handle sk" using table_okD(8) [OF ok tk a] by auto
    have "a \<in> set rest" using a t(2) l False by auto
    moreover have "set rest \<subseteq> dom (socks s)" using t(2) l by auto
    ultimately have "find_live s (handle sk) rest = Some (Some a)" using find_live_hit [OF ok a] by blast
    with l tk a ne st u t(3) show ?thesis by (simp add: vxt_free_socket_def vxt_lock_def)
  qed
qed

text \<open>The disconnection that goes with the last reference.\<close>

definition final_disconnect :: "vxt_sock \<Rightarrow> 'k sock_lib \<Rightarrow> (vxt_status \<times> 'k sock_lib) option" where
  "final_disconnect sk s =
     (if sstate (suspended sk) = VXT_SOCKET_SUSPENDED \<and> flag_set (close_options sk) (VXT_CLOSE_REMOTE OR VXT_CLOSE_LOCAL)
      then vxt_msg_disconnect (sdev sk) (close_options sk) s else Some (VXT_SUCCESS, s))"

lemma disconnect_next_addr: "vxt_msg_disconnect c options s = Some (st, s') \<Longrightarrow> next_addr s' = next_addr s"
  by (auto simp: vxt_msg_disconnect_def Let_def ioctl_keeps(3) dest!: ioctl_keeps(3) split: option.splits if_splits prod.splits)
    (metis ioctl_keeps(3) prod.collapse)

lemma table_ok_table: "table s' = table s \<Longrightarrow> next_addr s \<le> next_addr s' \<Longrightarrow> table_ok s \<Longrightarrow> table_ok s'"
  unfolding table_ok_def table_def by auto (meson less_le_trans)+

lemma deref_final:
  assumes ok: "table_ok s" and a: "socks s a = Some sk" and one: "ref_cnt sk = 1"
  shows "vxt_deref_socket a s =
    (case final_disconnect sk (set_sock a (suspended sk) s) of None \<Rightarrow> None | Some (_, s') \<Rightarrow> Some (free_sock a s'))"
proof -
  note t = table_okD [OF ok]
  let ?s1 = "set_sock a (sk\<lparr>ref_cnt := ref_cnt sk + 1\<rparr>) s"
  let ?s2 = "set_sock a ((suspended sk)\<lparr>ref_cnt := ref_cnt sk + 1\<rparr>) s"
  let ?s3 = "set_sock a (suspended sk) s"
  have f: "vxt_find_socket (handle sk) False s = Some (Some a, ?s1)" by (rule find_socket_hit [OF ok a])
  have su: "suspend a ?s1 = Some (0, ?s2)"
    using suspend_result [of ?s1 a "sk\<lparr>ref_cnt := ref_cnt sk + 1\<rparr>"] by simp
  have d: "vxt_deref_socket a ?s2 = Some ?s3"
    using deref_shared [of ?s2 a "(suspended sk)\<lparr>ref_cnt := ref_cnt sk + 1\<rparr>"] t(3) one same_ref [of "suspended sk" 1] by simp
  have ok3: "table_ok ?s3" by (rule table_ok_set [OF ok a]) simp
  have u: "vxt_unlock (s\<lparr>socket_lock := True\<rparr>) = s" using t(3) by (rule unlock_lock)
  have step: "vxt_deref_socket a s = deref_last a ?s3"
    using a one f su d u t(3) by (subst vxt_deref_socket.simps) (simp add: vxt_lock_def)
  show ?thesis
  proof (cases "final_disconnect sk ?s3")
    case None
    with step show ?thesis by (auto simp: deref_last_def final_disconnect_def split: if_splits)
  next
    case (Some x)
    obtain st s4 where x: "x = (st, s4)" by fastforce
    have t4: "table s4 = table ?s3" "next_addr s4 = next_addr ?s3"
      using Some x by (auto simp: final_disconnect_def dest: more_table [OF disconnect_more] disconnect_next_addr split: if_splits)
    then have ok4: "table_ok s4" using table_ok_table [of s4 ?s3] ok3 by simp
    have a4: "socks s4 a = Some (suspended sk)" using t4(1) by (simp add: table_def)
    have "vxt_free_socket (handle sk) s4 = Some (0, free_sock a s4)"
      using free_socket_result [OF ok4 a4] by simp
    with Some x step show ?thesis by (auto simp: deref_last_def final_disconnect_def split: if_splits)
  qed
qed

end
