(* ===== verification/Vxt_Socket_Refs.thy ===== *)
theory Vxt_Socket_Refs
  imports Vxt_Socket_Props
begin

text \<open>
  Reference counts and owners. The contract of a call on a socket is a locale, which the bodies of
  the interface interpret; the calls in progress and the sockets that have been closed determine
  the count of every socket, and every connected socket owns a live device of its own.
\<close>

subsection \<open>Library calls that keep the devices\<close>

definition kept :: "('k, 'a) lib_scheme \<Rightarrow> ('k, 'a) lib_scheme \<Rightarrow> bool" where
  "kept s s' \<longleftrightarrow> lib.more s' = lib.more s \<and> dom (devs s') = dom (devs s) \<and> live_connections s' = live_connections s
     \<and> next_addr s' = next_addr s"

lemma kept_refl [simp, intro]: "kept s s"
  by (simp add: kept_def)

lemma kept_trans: "kept s s1 \<Longrightarrow> kept s1 s2 \<Longrightarrow> kept s s2"
  by (simp add: kept_def)

lemma kept_fields [simp]:
  "kept s (s1\<lparr>errno := e\<rparr>) = kept s s1" "kept s (s1\<lparr>kst := k\<rparr>) = kept s s1" "kept s (s1\<lparr>regions := r\<rparr>) = kept s s1"
  "kept (s\<lparr>errno := e\<rparr>) s1 = kept s s1" "kept (s\<lparr>kst := k\<rparr>) s1 = kept s s1" "kept s (vxt_msg_close_com fd s1) = kept s s1"
  by (simp_all add: kept_def vxt_msg_close_com_def)

lemma kept_ioctl: "vxt_msg_ioctl command fd data s = (ret, res, s1) \<Longrightarrow> kept s s1"
  using wrappers_more(1) [of command fd data s ret res s1] ioctl_keeps(1,3) [of command fd data s ret res s1]
  by (simp add: kept_def held_def)

lemma kept_open: "vxt_msg_open_com name s = (fd, s1) \<Longrightarrow> kept s s1"
  using wrappers_more(2) [of name s fd s1] open_keeps(1,2) [of name s fd s1] by (simp add: kept_def held_def)

lemma kept_event: "vxt_msg_event_wait fd timeout s = (st, re, s1) \<Longrightarrow> kept s s1"
  by (auto simp: vxt_msg_event_wait_def kept_def split: prod.splits sum.splits)

lemma kept_malloc: "vxt_malloc s = (b, s1) \<Longrightarrow> kept s s1"
  by (auto simp: vxt_malloc_def kept_def split: list.splits)

lemma kept_set_dev: "devs s a = Some d \<Longrightarrow> kept s (set_dev a d' s)"
  by (auto simp: kept_def set_dev_def)

lemmas kept_steps = kept_ioctl kept_open kept_event kept_malloc

lemma kept_ctrlr_wait: "vxt_msg_ctrlr_wait c s = Some (st, s1) \<Longrightarrow> kept s s1"
  by (auto simp: vxt_msg_ctrlr_wait_def dest: kept_event split: option.splits prod.splits)

lemma kept_plug_event: "vxt_msg_ctrlr_plug_event timeout s = (st, re, s1) \<Longrightarrow> kept s s1"
  by (auto simp: vxt_msg_ctrlr_plug_event_def dest: kept_event)

lemma kept_poll_ctrlr: "vxt_msg_poll_ctrlr b timeout s = (st, re, s1) \<Longrightarrow> kept s s1"
  by (auto simp: vxt_msg_poll_ctrlr_def dest!: kept_steps split: if_splits prod.splits intro: kept_trans)
    (meson kept_trans)+

lemma kept_unplug: "vxt_msg_unplug_dev n b s = (st, s1) \<Longrightarrow> kept s s1"
  by (auto simp: vxt_msg_unplug_dev_def dest!: kept_steps split: if_splits prod.splits intro: kept_trans)

lemma kept_close_queried [simp]: "kept s (close_queried fd s1) = kept s s1"
  by (simp add: close_queried_def)

lemma kept_dev_query: "vxt_msg_dev_query n b s = (st, i, s1) \<Longrightarrow> kept s s1"
  by (auto simp: vxt_msg_dev_query_def dest!: kept_steps split: if_splits prod.splits sum.splits intro: kept_trans)

lemma kept_bus_query: "vxt_msg_bus_query q s = (st, i, s1) \<Longrightarrow> kept s s1"
  by (auto simp: vxt_msg_bus_query_def dest!: kept_steps split: if_splits prod.splits sum.splits intro: kept_trans)

lemma kept_system_query: "vxt_msg_system_query q s = Some (st, i, s1) \<Longrightarrow> kept s s1"
  by (auto simp: vxt_msg_system_query_def Let_def dest!: kept_steps split: if_splits prod.splits)

lemma kept_dev_send: "dev_send later wait c buffer len flags s = Some (n, st, s1) \<Longrightarrow> kept s s1"
  by (auto simp: dev_send_def intro!: kept_set_dev split: if_splits bind_splits option.splits)

lemma kept_dev_rcv: "dev_rcv later wait c len flags s = Some (bytes, n, st, s1) \<Longrightarrow> kept s s1"
  by (auto simp: dev_rcv_def intro!: kept_set_dev split: if_splits bind_splits option.splits)

lemma kept_dev_control: "dev_control wait c cmd info s = Some (i, st, s1) \<Longrightarrow> kept s s1"
  by (auto simp: dev_control_def intro!: kept_set_dev split: if_splits bind_splits option.splits)


subsection \<open>Sockets and their devices\<close>

text \<open>
  A connected socket has a live device, one that has never been connected has none; no two sockets
  share one.
\<close>

definition owned :: "'k sock_lib \<Rightarrow> bool" where
  "owned s \<longleftrightarrow>
     (\<forall>a sk. socks s a = Some sk \<longrightarrow> sstate sk \<noteq> VXT_SOCKET_DISCONNECTED \<longrightarrow>
        (\<exists>c. sdev sk = Some c \<and> c < next_addr s \<and> (sstate sk = VXT_SOCKET_CONNECTED \<longrightarrow> c \<in> set (live_connections s))))
     \<and> (\<forall>a b sk tk. socks s a = Some sk \<longrightarrow> socks s b = Some tk \<longrightarrow> sstate sk \<noteq> VXT_SOCKET_DISCONNECTED \<longrightarrow>
        sstate tk \<noteq> VXT_SOCKET_DISCONNECTED \<longrightarrow> sdev sk = sdev tk \<longrightarrow> a = b)
     \<and> (\<forall>a sk. socks s a = Some sk \<longrightarrow> sstate sk = VXT_SOCKET_DISCONNECTED \<longrightarrow> sdev sk = None)"

lemma owned_none:
  assumes "owned s" and "socks s a = Some sk" and "sstate sk = VXT_SOCKET_DISCONNECTED"
  shows "sdev sk = None"
  using assms unfolding owned_def by blast

lemma ownedE:
  assumes "owned s" and "socks s a = Some sk" and "sstate sk \<noteq> VXT_SOCKET_DISCONNECTED"
  obtains c where "sdev sk = Some c" "c < next_addr s" "sstate sk = VXT_SOCKET_CONNECTED \<longrightarrow> c \<in> set (live_connections s)"
  using assms unfolding owned_def by blast

lemma owned_inj:
  assumes "owned s" and "socks s a = Some sk" and "socks s b = Some tk" and "sdev sk = sdev tk"
    and "sstate sk \<noteq> VXT_SOCKET_DISCONNECTED" and "sstate tk \<noteq> VXT_SOCKET_DISCONNECTED"
  shows "a = b"
  using assms unfolding owned_def by blast

lemma ownedI:
  assumes "\<And>a sk. socks s a = Some sk \<Longrightarrow> sstate sk \<noteq> VXT_SOCKET_DISCONNECTED \<Longrightarrow>
      \<exists>c. sdev sk = Some c \<and> c < next_addr s \<and> (sstate sk = VXT_SOCKET_CONNECTED \<longrightarrow> c \<in> set (live_connections s))"
    and "\<And>a b sk tk. socks s a = Some sk \<Longrightarrow> socks s b = Some tk \<Longrightarrow> sstate sk \<noteq> VXT_SOCKET_DISCONNECTED \<Longrightarrow>
      sstate tk \<noteq> VXT_SOCKET_DISCONNECTED \<Longrightarrow> sdev sk = sdev tk \<Longrightarrow> a = b"
    and "\<And>a sk. socks s a = Some sk \<Longrightarrow> sstate sk = VXT_SOCKET_DISCONNECTED \<Longrightarrow> sdev sk = None"
  shows "owned s"
  using assms unfolding owned_def by blast

definition sock_ok :: "'k sock_lib \<Rightarrow> bool" where
  "sock_ok s \<longleftrightarrow> table_ok s \<and> lib_ok s \<and> owned s \<and> 0 < next_addr s"

text \<open>What the body of a call may do: change its own socket, but neither the handle nor the count.\<close>

definition works :: "nat \<Rightarrow> 'k sock_lib \<Rightarrow> 'k sock_lib \<Rightarrow> bool" where
  "works a s s' \<longleftrightarrow> (\<exists>sk tk. socks s a = Some sk \<and> handle tk = handle sk \<and> ref_cnt tk = ref_cnt sk
      \<and> table s' = table (set_sock a tk s)) \<and> next_addr s \<le> next_addr s' \<and> lib_ok s' \<and> owned s'"

lemma table_simps:
  assumes "table s' = table s"
  shows "socks s' = socks s" "live_sockets s' = live_sockets s" "socket_handles s' = socket_handles s"
    "socket_wrap s' = socket_wrap s" "socket_lock s' = socket_lock s" "heap_ptr s' = heap_ptr s"
  using assms by (simp_all add: table_def)

lemma works_ok:
  assumes "sock_ok s" and "works a s s'"
  shows "sock_ok s'"
proof -
  from assms obtain sk tk where t: "socks s a = Some sk" "handle tk = handle sk" "table s' = table (set_sock a tk s)"
    by (auto simp: works_def)
  have "table_ok (set_sock a tk s)" using assms(1) t by (auto simp: sock_ok_def intro: table_ok_set)
  with assms t(3) show ?thesis by (auto simp: sock_ok_def works_def intro: table_ok_table)
qed

lemma works_frame:
  assumes "works a s s'"
  obtains sk tk where "socks s a = Some sk" "socks s' = (socks s)(a \<mapsto> tk)" "handle tk = handle sk" "ref_cnt tk = ref_cnt sk"
  using assms by (auto simp: works_def dest: table_simps)

lemma kept_table:
  assumes "kept s s'"
  shows "table s' = table s" "next_addr s' = next_addr s"
  using assms more_table [of s' s] by (simp_all add: kept_def)

lemma kept_ok: "kept s s' \<Longrightarrow> lib_ok s \<Longrightarrow> lib_ok s'"
  by (simp add: kept_def lib_ok_def)

lemma kept_owned: "kept s s' \<Longrightarrow> owned s \<Longrightarrow> owned s'"
  using table_simps(1) [OF more_table, of s' s] by (simp add: kept_def owned_def)

lemma set_same: "socks s a = Some sk \<Longrightarrow> set_sock a sk s = s"
  by (simp add: set_sock_def fun_upd_idem)

lemma works_kept: "sock_ok s \<Longrightarrow> socks s a = Some sk \<Longrightarrow> kept s s' \<Longrightarrow> works a s s'"
  using kept_ok [of s s'] kept_owned [of s s'] more_table [of s' s]
  by (auto simp: works_def sock_ok_def kept_def set_same intro!: exI [of _ sk])

lemma owned_set:
  assumes "owned s" and "socks s a = Some sk" and "sstate tk = sstate sk" and "sdev tk = sdev sk"
  shows "owned (set_sock a tk s)"
  using assms unfolding owned_def by (auto split: if_splits)

lemma works_set:
  assumes ok: "sock_ok s" and a: "socks s a = Some sk"
    and tk: "handle tk = handle sk" "ref_cnt tk = ref_cnt sk" "sstate tk = sstate sk" "sdev tk = sdev sk"
  shows "works a s (set_sock a tk s)"
  using ok a tk owned_set [of s a sk tk] unfolding works_def sock_ok_def by auto

text \<open>A device that has been opened for a socket without one.\<close>

lemma owned_opened_fail:
  assumes "owned s" and "opened s st c s'" and "st \<noteq> VXT_SUCCESS" and "table s' = table s"
  shows "owned s'"
  using assms table_simps(1) [OF assms(4)] unfolding owned_def opened_def by (fastforce intro: less_le_trans)

lemma owned_opened:
  assumes ok: "owned s" and op: "opened s VXT_SUCCESS c s'" and t: "table s' = table s" and a: "socks s a = Some sk"
    and tk: "sstate tk = VXT_SOCKET_CONNECTED" "sdev tk = c"
  shows "owned (set_sock a tk s')"
proof -
  have o: "c = Some (next_addr s)" "next_addr s' = Suc (next_addr s)" "live_connections s' = next_addr s # live_connections s"
    using op by (auto simp: opened_def)
  have so: "socks s' = socks s" by (rule table_simps [OF t])
  have old: "\<exists>c. sdev bk = Some c \<and> c < next_addr s \<and> (sstate bk = VXT_SOCKET_CONNECTED \<longrightarrow> c \<in> set (live_connections s))"
    if "socks s b = Some bk" "sstate bk \<noteq> VXT_SOCKET_DISCONNECTED" for b bk using ok that by (auto simp: owned_def)
  have "sdev bk \<noteq> c" if "socks s b = Some bk" "sstate bk \<noteq> VXT_SOCKET_DISCONNECTED" for b bk using old [OF that] o by auto
  with ok old o tk show ?thesis
    unfolding owned_def by (auto simp: so less_Suc_eq split: if_splits) blast+
qed


subsection \<open>References\<close>

text \<open>
  \<open>cs\<close> lists the sockets of the calls in progress, one entry for each call, and \<open>cl\<close> the sockets that
  have been closed: a socket has one reference for each call and one until it is closed.
\<close>

definition refs_ok :: "nat list \<Rightarrow> nat set \<Rightarrow> 'k sock_lib \<Rightarrow> bool" where
  "refs_ok cs cl s \<longleftrightarrow> sock_ok s \<and> set cs \<subseteq> dom (socks s) \<and> (\<forall>a \<in> cl. a < next_addr s)
     \<and> dom (socks s) \<inter> cl \<subseteq> set cs
     \<and> (\<forall>a sk. socks s a = Some sk \<longrightarrow> ref_cnt sk = int (count_list cs a) + (if a \<in> cl then 0 else 1))"

lemma refs_okD:
  assumes "refs_ok cs cl s"
  shows "sock_ok s" "table_ok s" "\<not> socket_lock s" "a \<in> set cs \<Longrightarrow> \<exists>sk. socks s a = Some sk"
    "socks s a = Some sk \<Longrightarrow> ref_cnt sk = int (count_list cs a) + (if a \<in> cl then 0 else 1)"
  using assms by (auto simp: refs_ok_def sock_ok_def table_ok_def)

lemma sock_ok_count:
  assumes "sock_ok s" and "socks s a = Some sk"
  shows "sock_ok (set_sock a (sk\<lparr>ref_cnt := n\<rparr>) s)"
  using works_ok [of s a "set_sock a (sk\<lparr>ref_cnt := n\<rparr>) s"] assms owned_set [of s a sk "sk\<lparr>ref_cnt := n\<rparr>"]
    table_ok_set [of s a sk "sk\<lparr>ref_cnt := n\<rparr>"] by (simp add: sock_ok_def)

lemma refs_enter:
  assumes ok: "refs_ok cs cl s" and f: "vxt_find_socket h False s = Some (Some a, s')"
  obtains sk where "socks s a = Some sk" "handle sk = h" "s' = set_sock a (sk\<lparr>ref_cnt := ref_cnt sk + 1\<rparr>) s" "refs_ok (a # cs) cl s'"
proof (cases rule: lookup_live [OF refs_okD(2) [OF ok], of h])
  case 1
  with f show ?thesis by simp
next
  case (2 b sk)
  with f have s: "b = a" "s' = set_sock a (sk\<lparr>ref_cnt := ref_cnt sk + 1\<rparr>) s" by auto
  have "refs_ok (a # cs) cl s'" using ok 2(2) s sock_ok_count [of s a sk] unfolding refs_ok_def by auto
  with 2 s that show ?thesis by blast
qed

lemma refs_miss:
  assumes "refs_ok cs cl s" and "vxt_find_socket h False s = Some (None, s')"
  shows "s' = s"
  using assms by (cases rule: lookup_live [OF refs_okD(2) [OF assms(1)], of h]) auto

lemma refs_work:
  assumes ok: "refs_ok cs cl s" and w: "works a s s'"
  shows "refs_ok cs cl s'"
proof -
  obtain sk tk where "socks s a = Some sk" "socks s' = (socks s)(a \<mapsto> tk)" "ref_cnt tk = ref_cnt sk"
    using works_frame [OF w] by metis
  moreover have "next_addr s \<le> next_addr s'" using w by (simp add: works_def)
  ultimately show ?thesis using ok works_ok [OF _ w] unfolding refs_ok_def by (auto intro: less_le_trans)
qed

lemma refs_errno: "refs_ok cs cl s \<Longrightarrow> refs_ok cs cl (s\<lparr>errno := e\<rparr>)"
proof -
  have "sock_ok (s\<lparr>errno := e\<rparr>) = sock_ok s" by (simp add: sock_ok_def table_ok_def lib_ok_def owned_def)
  then show "refs_ok cs cl s \<Longrightarrow> refs_ok cs cl (s\<lparr>errno := e\<rparr>)" by (simp add: refs_ok_def)
qed

text \<open>A reference that is not the last one is given up.\<close>

lemma refs_count:
  assumes ok: "refs_ok cs cl s" and a: "socks s a = Some sk" and cs: "set cs' \<subseteq> dom (socks s)"
    and cl: "\<forall>b \<in> cl'. b < next_addr s" "\<And>b. b \<noteq> a \<Longrightarrow> (b \<in> cl') = (b \<in> cl)"
    and n: "\<And>b. b \<noteq> a \<Longrightarrow> count_list cs' b = count_list cs b" "a \<in> cl' \<Longrightarrow> a \<in> set cs'"
      "n = int (count_list cs' a) + (if a \<in> cl' then 0 else 1)"
  shows "refs_ok cs' cl' (set_sock a (sk\<lparr>ref_cnt := n\<rparr>) s)"
proof -
  have same: "b \<in> set cs' \<longleftrightarrow> b \<in> set cs" if "b \<noteq> a" for b using n(1) [OF that] by (metis count_list_0_iff)
  have "sock_ok (set_sock a (sk\<lparr>ref_cnt := n\<rparr>) s)" using ok a by (auto simp: refs_ok_def intro: sock_ok_count)
  moreover have "dom (socks s) \<inter> cl' \<subseteq> set cs'"
  proof
    fix b assume "b \<in> dom (socks s) \<inter> cl'"
    with ok cl(2) same n(2) show "b \<in> set cs'" by (cases "b = a") (auto simp: refs_ok_def)
  qed
  ultimately show ?thesis using ok a cs cl n unfolding refs_ok_def by (auto split: if_splits)
qed

lemma count_list_remove1: "count_list (remove1 a xs) b = (if a = b \<and> a \<in> set xs then count_list xs b - 1 else count_list xs b)"
proof (induction xs)
  case (Cons x xs)
  have "x \<in> set xs \<Longrightarrow> 0 < count_list xs x" for x by (metis count_list_0_iff gr0I)
  with Cons show ?case by auto
qed simp

lemma disconnect_live:
  assumes "vxt_msg_disconnect c options s = Some (st, s')"
  shows "live_connections s' = (case c of None \<Rightarrow> live_connections s | Some a \<Rightarrow> remove1 a (live_connections s))"
proof (cases "\<exists>a d. c = Some a \<and> a \<in> set (live_connections s) \<and> devs s a = Some d \<and> sendq_set d \<and> rcvq_set d")
  case True
  then obtain a d where a: "c = Some a" "a \<in> set (live_connections s)" "devs s a = Some d" "sendq_set d" "rcvq_set d" by blast
  from disconnect_result [OF a(2-5), of options] assms a(1) show ?thesis by (metis option.inject option.simps(5) snd_conv)
next
  case False
  with assms show ?thesis by (auto simp: vxt_msg_disconnect_def Let_def remove1_idem split: option.splits if_splits)
qed

text \<open>A socket that is not connected may lose its device: the others keep theirs.\<close>

lemma disconnect_ok:
  assumes ok: "sock_ok s" and a: "socks s a = Some sk" and st: "sstate sk \<noteq> VXT_SOCKET_CONNECTED"
    and d: "vxt_msg_disconnect (sdev sk) options s = Some (st, s')"
  shows "table s' = table s" and "sock_ok s'"
proof -
  show t: "table s' = table s" by (rule more_table [OF disconnect_more [OF d]])
  have so: "socks s' = socks s" by (rule table_simps [OF t])
  have n: "next_addr s' = next_addr s" "lib_ok s'" using disconnect_lib_ok [OF _ d] ok by (auto simp: sock_ok_def)
  have ow: "owned s" using ok by (simp add: sock_ok_def)
  have "owned s'"
  proof (rule ownedI, unfold so n(1))
    fix b tk assume b: "socks s b = Some tk" "sstate tk \<noteq> VXT_SOCKET_DISCONNECTED"
    obtain c where c: "sdev tk = Some c" "c < next_addr s" "sstate tk = VXT_SOCKET_CONNECTED \<longrightarrow> c \<in> set (live_connections s)"
      by (rule ownedE [OF ow b])
    have "c \<in> set (live_connections s')" if "sstate tk = VXT_SOCKET_CONNECTED"
    proof -
      have "a \<noteq> b" using that a st b by auto
      then have "sdev sk \<noteq> sdev tk" using owned_inj [OF ow a b(1) _ _ b(2)] owned_none [OF ow a] c(1)
        by (metis option.distinct(1))
      with c that disconnect_live [OF d] show ?thesis by (auto split: option.splits)
    qed
    with c show "\<exists>c. sdev tk = Some c \<and> c < next_addr s \<and> (sstate tk = VXT_SOCKET_CONNECTED \<longrightarrow> c \<in> set (live_connections s'))"
      by blast
  qed (rule owned_inj [OF ow], assumption+, rule owned_none [OF ow])
  with ok n t show "sock_ok s'" by (auto simp: sock_ok_def intro: table_ok_table)
qed

lemma suspended_ok:
  assumes "sock_ok s" and "socks s a = Some sk"
  shows "sock_ok (set_sock a (suspended sk) s)"
proof -
  have ow: "owned s" using assms by (simp add: sock_ok_def)
  have st: "sstate (suspended sk) \<noteq> VXT_SOCKET_DISCONNECTED \<Longrightarrow> sstate sk \<noteq> VXT_SOCKET_DISCONNECTED"
    by (auto simp: suspended_def split: if_splits)
  have st': "sstate (suspended sk) = VXT_SOCKET_DISCONNECTED \<Longrightarrow> sstate sk = VXT_SOCKET_DISCONNECTED"
    by (auto simp: suspended_def split: if_splits)
  have "owned (set_sock a (suspended sk) s)"
    by (rule ownedI) (use assms(2) st st' in \<open>auto split: if_splits elim: ownedE [OF ow] intro: owned_inj [OF ow] owned_none [OF ow]\<close>)
  with assms show ?thesis by (simp add: sock_ok_def table_ok_set)
qed

lemma free_ok:
  assumes "sock_ok s"
  shows "sock_ok (free_sock a s)"
  using assms by (auto simp: sock_ok_def table_ok_def lib_ok_def owned_def free_sock_def)

text \<open>The last reference: the socket is freed.\<close>

lemma refs_final:
  assumes ok: "refs_ok cs cl s" and a: "socks s a = Some sk" and one: "ref_cnt sk = 1"
    and d: "vxt_deref_socket a s = Some s'"
  shows "sock_ok s'" and "socks s' = (socks s)(a := None)" and "next_addr s' = next_addr s" and "heap_ptr s' = heap_ptr s"
proof -
  let ?s = "set_sock a (suspended sk) s"
  from deref_final [OF refs_okD(2) [OF ok] a one] d obtain st s1 where
    f: "final_disconnect sk ?s = Some (st, s1)" "s' = free_sock a s1" by (auto split: option.splits)
  have s: "sock_ok ?s" using suspended_ok [OF refs_okD(1) [OF ok] a] .
  have r: "table s1 = table ?s \<and> sock_ok s1 \<and> next_addr s1 = next_addr ?s"
    using f(1) s disconnect_ok [OF s, of a "suspended sk"] disconnect_next_addr
    by (fastforce simp: final_disconnect_def split: if_splits)
  with f(2) free_ok [of s1 a] table_simps(1,6) [of s1 ?s]
  show "sock_ok s'" and "socks s' = (socks s)(a := None)" and "next_addr s' = next_addr s" and "heap_ptr s' = heap_ptr s"
    by (auto simp: free_sock_def set_sock_def)
qed


lemma count_pos: "a \<in> set xs \<Longrightarrow> 0 < count_list xs a"
  by (metis count_list_0_iff gr0I)

lemma refs_leave:
  assumes ok: "refs_ok cs cl s" and a: "a \<in> set cs" and d: "vxt_deref_socket a s = Some s'"
  shows "refs_ok (remove1 a cs) cl s'" and "heap_ptr s' = heap_ptr s"
proof -
  obtain sk where sk: "socks s a = Some sk" using refs_okD(4) [OF ok a] by blast
  note n = refs_okD(5) [OF ok sk]
  have "refs_ok (remove1 a cs) cl s' \<and> heap_ptr s' = heap_ptr s"
  proof (cases "ref_cnt sk = 1")
    case True
    then have c: "count_list cs a = 1" "a \<in> cl" using n count_pos [OF a] by (auto split: if_splits)
    have out: "a \<notin> set (remove1 a cs)" using c(1) a count_list_remove1 [of a cs a] by (auto simp: count_list_0_iff [symmetric])
    note f = refs_final [OF ok sk True d]
    have "set (remove1 a cs) \<subseteq> dom (socks s')" using ok out f(2) by (auto simp: refs_ok_def dest: notin_set_remove1 [rotated])
    moreover have "dom (socks s') \<inter> cl \<subseteq> set cs - {a}" using ok f(2) by (auto simp: refs_ok_def)
    then have "dom (socks s') \<inter> cl \<subseteq> set (remove1 a cs)" by (rule subset_trans) (auto, metis in_set_remove1)
    ultimately show ?thesis using ok f unfolding refs_ok_def by (auto simp: count_list_remove1)
  next
    case False
    then have "1 < ref_cnt sk" using n count_pos [OF a] by (auto split: if_splits)
    with deref_shared [OF refs_okD(3) [OF ok] sk] d have s': "s' = set_sock a (sk\<lparr>ref_cnt := ref_cnt sk - 1\<rparr>) s" by simp
    have "refs_ok (remove1 a cs) cl s'" unfolding s'
    proof (rule refs_count [OF ok sk])
      show "set (remove1 a cs) \<subseteq> dom (socks s)" using ok set_remove1_subset [of a cs] unfolding refs_ok_def by blast
      show "ref_cnt sk - 1 = int (count_list (remove1 a cs) a) + (if a \<in> cl then 0 else 1)"
        using n a count_pos [OF a] by (simp add: count_list_remove1)
      show "a \<in> set (remove1 a cs)" if "a \<in> cl"
        using that n False a count_list_0_iff [of "remove1 a cs" a] count_pos [OF a] by (auto simp: count_list_remove1)
      show "\<forall>b\<in>cl. b < next_addr s" using ok by (simp add: refs_ok_def)
    qed (simp_all add: count_list_remove1)
    with s' show ?thesis by (simp add: set_sock_def)
  qed
  then show "refs_ok (remove1 a cs) cl s'" and "heap_ptr s' = heap_ptr s" by auto
qed

text \<open>The reference that a close gives up in addition to its own.\<close>

lemma refs_drop:
  assumes ok: "refs_ok cs cl s" and a: "a \<in> set cs" "a \<notin> cl"
  obtains s' where "vxt_deref_socket a s = Some s'" "refs_ok cs (insert a cl) s'"
proof -
  obtain sk where sk: "socks s a = Some sk" using refs_okD(4) [OF ok a(1)] by blast
  have n: "ref_cnt sk = int (count_list cs a) + 1" using refs_okD(5) [OF ok sk] a(2) by simp
  let ?s = "set_sock a (sk\<lparr>ref_cnt := ref_cnt sk - 1\<rparr>) s"
  have "vxt_deref_socket a s = Some ?s"
    using deref_shared [OF refs_okD(3) [OF ok] sk] n count_pos [OF a(1)] by simp
  moreover have "refs_ok cs (insert a cl) ?s"
  proof (rule refs_count [OF ok sk])
    show "\<forall>b\<in>insert a cl. b < next_addr s" using ok sk by (auto simp: refs_ok_def sock_ok_def table_ok_def)
  qed (use ok n a in \<open>auto simp: refs_ok_def\<close>)
  ultimately show thesis by (rule that)
qed

subsection \<open>New sockets\<close>

lemma handle_loop_result:
  assumes lock: "socket_lock s" and sub: "set (live_sockets s) \<subseteq> dom (socks s)" and i: "handle_index \<noteq> socket_handles s"
  shows "handle_loop handle_index s =
    (if \<exists>a \<in> set (live_sockets s). \<exists>sk. socks s a = Some sk \<and> handle sk = socket_handles s then None else Some s)"
proof (cases rule: find_live_cases [OF sub, of "socket_handles s"])
  case 1
  with i show ?thesis by (subst handle_loop.simps) (auto simp: vxt_find_socket_def)
next
  case (2 a sk)
  with i lock show ?thesis by (subst handle_loop.simps) (auto simp: vxt_find_socket_def deref_locked)
qed

text \<open>The handle that is tried next, and whether the counter has started again.\<close>

definition next_handle :: "'k sock_lib \<Rightarrow> u32" where
  "next_handle s = (if socket_handles s = 0xFFFFFFFF then 1 else socket_handles s)"

definition wrapped :: "'k sock_lib \<Rightarrow> bool" where
  "wrapped s \<longleftrightarrow> socket_wrap s \<or> socket_handles s = 0xFFFFFFFF"

definition with_new :: "'k sock_lib \<Rightarrow> 'k sock_lib \<Rightarrow> 'k sock_lib" where
  "with_new s s1 = set_sock (next_addr s) (new_sock (next_handle s))
     (s1\<lparr>next_addr := Suc (next_addr s), socket_handles := next_handle s + 1, socket_wrap := wrapped s,
         live_sockets := next_addr s # live_sockets s\<rparr>)"

lemma get_socket_result:
  assumes ok: "table_ok s"
  shows "vxt_get_socket s =
    (case vxt_malloc s of
       (False, s1) \<Rightarrow> Some (ENOMEM, None, s1)
     | (True, s1) \<Rightarrow> if wrapped s \<and> (\<exists>a sk. socks s a = Some sk \<and> handle sk = next_handle s) then None
                    else Some (0, Some (next_addr s), with_new s s1))"
proof -
  obtain b s1 where m: "vxt_malloc s = (b, s1)" by fastforce
  note k = kept_table [OF kept_malloc [OF m]]
  note t = table_simps [OF k(1)]
  have ne: "next_handle s - 1 \<noteq> next_handle s" by simp
  have sub: "set (live_sockets s) = dom (socks s)" "\<not> socket_lock s" using table_okD [OF ok] by auto
  define l where "l = s1\<lparr>next_addr := Suc (next_addr s), socket_lock := True, socket_handles := next_handle s, socket_wrap := wrapped s\<rparr>"
  have l: "socks l = socks s" "live_sockets l = live_sockets s" "socket_lock l" "socket_handles l = next_handle s"
    "socket_wrap l = wrapped s" unfolding l_def using t by simp_all
  have use: "(\<exists>a \<in> set (live_sockets s). \<exists>sk. socks s a = Some sk \<and> handle sk = next_handle s)
    \<longleftrightarrow> (\<exists>a sk. socks s a = Some sk \<and> handle sk = next_handle s)" unfolding sub(1) by blast
  have h: "handle_loop (next_handle s - 1) l =
      (if \<exists>a sk. socks s a = Some sk \<and> handle sk = next_handle s then None else Some l)"
    using handle_loop_result [OF l(3), of "next_handle s - 1"] ne unfolding l use by (simp add: sub(1))
  have new: "vxt_unlock (set_sock (next_addr s) (new_sock (next_handle s))
      (l\<lparr>socket_handles := next_handle s + 1, live_sockets := next_addr s # live_sockets s\<rparr>)) = with_new s s1"
    using sub(2) t(5) by (cases s1) (simp add: l_def with_new_def vxt_unlock_def set_sock_def)
  show ?thesis
  proof (cases b)
    case False
    with m show ?thesis by (simp add: vxt_get_socket_def)
  next
    case True
    have start: "(if socket_handles s = 0xFFFFFFFF
        then (s1\<lparr>next_addr := Suc (next_addr s), socket_lock := True\<rparr>)\<lparr>socket_handles := 1, socket_wrap := True\<rparr>
        else (s1\<lparr>next_addr := Suc (next_addr s), socket_lock := True\<rparr>)) = l"
      using t by (cases s1) (simp add: l_def next_handle_def wrapped_def)
    have lock: "vxt_lock (s1\<lparr>next_addr := Suc (next_addr s)\<rparr>) = Some (s1\<lparr>next_addr := Suc (next_addr s), socket_lock := True\<rparr>)"
      using sub(2) t(5) by (simp add: vxt_lock_def)
    show ?thesis
      using True m ne by (simp add: vxt_get_socket_def Let_def k(2) lock t start l h new cong: if_cong)
  qed
qed


lemma next_handle_fresh:
  assumes "table_ok s" and "\<not> wrapped s" and "socks s a = Some sk"
  shows "handle sk \<noteq> next_handle s"
  using table_okD(7) [OF assms(1,3)] assms(2) by (auto simp: wrapped_def next_handle_def)

lemma next_handle_succ:
  assumes "table_ok s"
  shows "next_handle s \<noteq> 0" and "next_handle s + 1 \<noteq> 0" and "next_handle s < next_handle s + 1"
proof -
  have n: "next_handle s \<noteq> 0" "next_handle s \<noteq> - 1" using table_okD(4) [OF assms] by (auto simp: next_handle_def)
  then show "next_handle s \<noteq> 0" and "next_handle s + 1 \<noteq> 0" by (auto simp: eq_neg_iff_add_eq_0)
  show "next_handle s < next_handle s + 1" using n(2) by (simp add: not_le [symmetric] inc_less_eq_self_iff_eq)
qed


lemma table_ok_new:
  assumes ok: "table_ok s" and k: "kept s s1" and free: "\<And>a sk. socks s a = Some sk \<Longrightarrow> handle sk \<noteq> next_handle s"
  shows "table_ok (with_new s s1)"
proof -
  note t = table_simps [OF kept_table(1) [OF k]] and n = next_handle_succ [OF ok]
  have less: "handle sk < next_handle s + 1" if "socks s a = Some sk" "\<not> wrapped s" for a sk
    using table_okD(7) [OF ok that(1)] that(2) n(3) by (auto simp: wrapped_def next_handle_def)
  have "next_addr s \<notin> set (live_sockets s)" using table_okD(2,5) [OF ok] by fastforce
  moreover have "a < Suc (next_addr s)" if "socks s a = Some sk" for a sk using table_okD(5) [OF ok that] by simp
  ultimately show ?thesis
    using table_okD [OF ok] n free less unfolding table_ok_def with_new_def
    by (auto simp: t new_sock_def split: if_splits) metis
qed

lemma owned_new:
  assumes "owned s" and "kept s s1"
  shows "owned (with_new s s1)"
proof -
  note k = table_simps [OF kept_table(1) [OF assms(2)]]
  have l: "live_connections s1 = live_connections s" using assms(2) by (simp add: kept_def)
  show ?thesis
    by (rule ownedI)
      (auto simp: with_new_def new_sock_def k l split: if_splits elim: ownedE [OF assms(1)] intro: owned_inj [OF assms(1)] owned_none [OF assms(1)])
qed

lemma refs_create:
  assumes ok: "refs_ok cs cl s" and g: "vxt_get_socket s = Some (ret, new, s')"
  shows "refs_ok cs cl s'"
proof -
  obtain b s1 where m: "vxt_malloc s = (b, s1)" by fastforce
  note k = kept_malloc [OF m]
  have sok: "sock_ok s" by (rule refs_okD [OF ok])
  show ?thesis
  proof (cases b)
    case False
    with g m get_socket_result [OF refs_okD(2) [OF ok]] have "s' = s1" by simp
    with ok kept_table [OF k] table_simps(1) [OF kept_table(1) [OF k]] kept_ok [OF k] kept_owned [OF k] show ?thesis
      by (auto simp: refs_ok_def sock_ok_def intro: table_ok_table)
  next
    case True
    with g m get_socket_result [OF refs_okD(2) [OF ok]] next_handle_fresh [OF refs_okD(2) [OF ok]]
    have s': "s' = with_new s s1" "\<And>a sk. socks s a = Some sk \<Longrightarrow> handle sk \<noteq> next_handle s"
      by (auto split: if_splits)
    have "lib_ok s'" using sok k by (auto simp: s' sock_ok_def lib_ok_def kept_def with_new_def less_SucI)
    then have "sock_ok s'" using sok table_ok_new [OF _ k s'(2)] owned_new [OF _ k]
      by (simp add: s' sock_ok_def) (simp add: with_new_def)
    moreover have "socks s' = (socks s)(next_addr s \<mapsto> new_sock (next_handle s))" "next_addr s' = Suc (next_addr s)"
      using table_simps(1) [OF kept_table(1) [OF k]] by (simp_all add: s' with_new_def)
    moreover have "socks s (next_addr s) = None" using table_okD(5) [OF refs_okD(2) [OF ok]] by fastforce
    ultimately show ?thesis using ok unfolding refs_ok_def by (auto simp: new_sock_def count_list_0_iff less_SucI)
  qed
qed


subsection \<open>The contract of a call on a socket\<close>

text \<open>
  The body of a call only works on its own socket. Then the whole call, with the lookup before and
  the release after it, keeps the references of all other calls.
\<close>

locale sock_body =
  fixes body :: "nat \<Rightarrow> vxt_sock \<Rightarrow> 'k sock_lib \<Rightarrow> ('r \<times> 'k sock_lib) option"
  assumes body_works: "sock_ok s \<Longrightarrow> socks s a = Some sk \<Longrightarrow> body a sk s = Some (r, s') \<Longrightarrow> works a s s'"
begin

lemma call_refs:
  assumes ok: "refs_ok cs cl s" and c: "on_socket fail h body s = Some (r, s')"
  shows "refs_ok cs cl s'"
proof -
  obtain found s1 where f: "vxt_find_socket h False s = Some (found, s1)"
    using c by (auto simp: on_socket_def split: bind_splits)
  show ?thesis
  proof (cases found)
    case None
    with c f refs_miss [OF ok] ok show ?thesis by (auto simp: on_socket_def intro: refs_errno)
  next
    case (Some a)
    obtain sk where e: "s1 = set_sock a (sk\<lparr>ref_cnt := ref_cnt sk + 1\<rparr>) s" "refs_ok (a # cs) cl s1"
      using refs_enter [OF ok] f Some by metis
    with c f Some obtain s2 where b: "body a (sk\<lparr>ref_cnt := ref_cnt sk + 1\<rparr>) s1 = Some (r, s2)" "vxt_deref_socket a s2 = Some s'"
      by (auto simp: on_socket_def split: bind_splits)
    have "refs_ok (a # cs) cl s2"
      by (rule refs_work [OF e(2) body_works [OF refs_okD(1) [OF e(2)] _ b(1)]]) (simp add: e(1))
    from refs_leave(1) [OF this _ b(2)] show ?thesis by simp
  qed
qed

lemma call_unknown:
  assumes ok: "refs_ok cs cl s" and h: "\<And>a sk. socks s a = Some sk \<Longrightarrow> handle sk \<noteq> h"
  shows "on_socket fail h body s = Some (fail, s\<lparr>errno := ENOTSOCK\<rparr>)"
proof (cases rule: lookup_live [OF refs_okD(2) [OF ok], of h])
  case 1
  then show ?thesis by (simp add: on_socket_def)
next
  case (2 a sk)
  with h show ?thesis by blast
qed

text \<open>On a socket that has not been closed the call returns when its body does.\<close>

lemma call_returns:
  assumes ok: "refs_ok cs cl s" and a: "socks s a = Some sk" "a \<notin> cl"
  shows "on_socket fail (handle sk) body s =
    (case body a (sk\<lparr>ref_cnt := ref_cnt sk + 1\<rparr>) (set_sock a (sk\<lparr>ref_cnt := ref_cnt sk + 1\<rparr>) s) of
       None \<Rightarrow> None
     | Some (r, s1) \<Rightarrow> Some (r, set_sock a ((the (socks s1 a))\<lparr>ref_cnt := ref_cnt sk\<rparr>) s1))"
proof -
  let ?sk = "sk\<lparr>ref_cnt := ref_cnt sk + 1\<rparr>" and ?s = "set_sock a (sk\<lparr>ref_cnt := ref_cnt sk + 1\<rparr>) s"
  have f: "vxt_find_socket (handle sk) False s = Some (Some a, ?s)" by (rule find_socket_hit [OF refs_okD(2) [OF ok] a(1)])
  have e: "refs_ok (a # cs) cl ?s" using refs_enter [OF ok f] by metis
  show ?thesis
  proof (cases "body a ?sk ?s")
    case None
    with f show ?thesis by (simp add: on_socket_def)
  next
    case (Some x)
    then obtain r s1 where b: "body a ?sk ?s = Some (r, s1)" by (cases x) auto
    have w: "works a ?s s1" by (rule body_works [OF refs_okD(1) [OF e] _ b]) simp
    obtain sk' tk where fr: "socks ?s a = Some sk'" "socks s1 = (socks ?s)(a \<mapsto> tk)" "ref_cnt tk = ref_cnt sk'"
      by (rule works_frame [OF w])
    then have tk: "socks s1 a = Some tk" "ref_cnt tk = ref_cnt sk + 1" by auto
    have "vxt_deref_socket a s1 = Some (set_sock a (tk\<lparr>ref_cnt := ref_cnt tk - 1\<rparr>) s1)"
      using deref_shared [OF refs_okD(3) [OF refs_work [OF e w]] tk(1)] tk(2) refs_okD(5) [OF ok a(1)] a(2) by simp
    with f b tk show ?thesis by (simp add: on_socket_def)
  qed
qed

end


end
