(* ===== verification/Vxt_Socket_Calls.thy ===== *)
theory Vxt_Socket_Calls
  imports Vxt_Socket_Refs
begin

text \<open>
  The calls of the socket interface meet the contract of a call: they keep the table, the references of
  other calls in progress and the owners of the devices.
\<close>

subsection \<open>The bodies\<close>

lemma works_errno [simp]: "works a s (s'\<lparr>errno := e\<rparr>) = works a s s'"
  by (simp add: works_def table_def lib_ok_def owned_def)

lemma works_opened:
  assumes "socks s a = Some sk" and "handle tk = handle sk" and "ref_cnt tk = ref_cnt sk" and t: "table s1 = table s"
    and "next_addr s \<le> next_addr s1" and "lib_ok s1" and "owned (set_sock a tk s1)"
  shows "works a s (set_sock a tk s1)"
proof -
  have "table (set_sock a tk s1) = table (set_sock a tk s)" using t by (simp add: table_def set_sock_def)
  with assms show ?thesis unfolding works_def by auto
qed

lemma connect_works:
  assumes ok: "sock_ok s" and a: "socks s a = Some sk" and b: "connect_body ep a sk s = Some (r, s')"
  shows "works a s s'"
proof (cases "sstate sk = VXT_SOCKET_DISCONNECTED")
  case False
  with b have "kept s s'" by (auto simp: connect_body_def)
  with ok a show ?thesis by (rule works_kept)
next
  case True
  with b obtain ret c parms s1 where m: "vxt_msg_connect VXTCTRLR_MSG_DEV ep (target_ctrlr sk) (add_msg sk) s = Some (ret, c, parms, s1)"
    and s': "(ret \<noteq> VXT_SUCCESS \<and> s' = (set_sock a (sk\<lparr>add_msg := parms\<rparr>) s1)\<lparr>errno := open_errno ret\<rparr>) \<or>
      (ret = VXT_SUCCESS \<and> s' = set_sock a (sk\<lparr>add_msg := parms, sdev := c, sstate := VXT_SOCKET_CONNECTED\<rparr>) s1)"
    by (auto simp: connect_body_def split: bind_splits if_splits)
  have l: "lib_ok s" "0 < next_addr s" "owned s" using ok by (auto simp: sock_ok_def)
  have o: "opened s ret c s1" by (rule msg_connect_opened [OF l(1) m])
  have t: "table s1 = table s" by (rule more_table [OF msg_connect_more [OF m]])
  have n: "next_addr s \<le> next_addr s1" "lib_ok s1" using o lib_ok_opened [OF l(1) o l(2)] by (auto simp: opened_def split: if_splits)
  note so = table_simps [OF t]
  show ?thesis
  proof (cases "ret = VXT_SUCCESS")
    case True
    let ?tk = "sk\<lparr>add_msg := parms, sdev := c, sstate := VXT_SOCKET_CONNECTED\<rparr>"
    have "s' = set_sock a ?tk s1" using True s' by simp
    with works_opened [of s a sk ?tk s1] owned_opened [OF l(3) o [unfolded True] t a, of ?tk] n a t show ?thesis by simp
  next
    case fail: False
    let ?tk = "sk\<lparr>add_msg := parms\<rparr>"
    have "owned (set_sock a ?tk s1)"
      by (rule owned_set [OF owned_opened_fail [OF l(3) o fail t]]) (simp_all add: so a)
    with works_opened [of s a sk ?tk s1] n a t fail s' show ?thesis by simp
  qed
qed

lemma listen_works: "sock_ok s \<Longrightarrow> socks s a = Some sk \<Longrightarrow> listen_body a sk s = Some (r, s') \<Longrightarrow> works a s s'"
  by (erule (1) works_kept) (auto simp: listen_body_def wait_errno_def dest!: kept_ctrlr_wait split: bind_splits if_splits)

lemma send_works:
  "sock_ok s \<Longrightarrow> socks s a = Some sk \<Longrightarrow> send_body later wait buffer len flags a sk s = Some (r, s') \<Longrightarrow> works a s s'"
  by (erule (1) works_kept) (auto simp: send_body_def dest!: kept_dev_send split: bind_splits if_splits)

lemma recv_works:
  "sock_ok s \<Longrightarrow> socks s a = Some sk \<Longrightarrow> recv_body later wait len flags a sk s = Some (r, s') \<Longrightarrow> works a s s'"
  by (erule (1) works_kept) (auto simp: recv_body_def dest!: kept_dev_rcv split: bind_splits if_splits)

lemma ioctl_end_kept: "ioctl_end ret reply s1 = Some (r, s') \<Longrightarrow> kept s s1 \<Longrightarrow> kept s s'"
  by (auto simp: ioctl_end_def split: if_splits)

lemma ioctl_works:
  assumes ok: "sock_ok s" and a: "socks s a = Some sk" and b: "ioctl_body wait cmd a sk s = Some (r, s')"
  shows "works a s s'"
proof (cases "(\<exists>p. cmd = VXT_IOCTL_SET_BUF_PARMS p) \<or> (\<exists>n. cmd = VXT_IOCTL_TARGET_CTRLR n)")
  case True
  then consider "kept s s'" | tk where "s' = set_sock a tk s" "handle tk = handle sk" "ref_cnt tk = ref_cnt sk"
      "sstate tk = sstate sk" "sdev tk = sdev sk" using b by (auto split: if_splits)
  then show ?thesis by cases (auto intro: works_kept [OF ok a] works_set [OF ok a])
next
  case False
  have "kept s s'" using b False
    by (cases cmd)
      (auto dest: kept_dev_control kept_unplug kept_dev_query kept_bus_query kept_system_query kept_plug_event kept_poll_ctrlr
        intro: ioctl_end_kept split: bind_splits if_splits prod.splits)
  with ok a show ?thesis by (rule works_kept)
qed

interpretation connect_call: sock_body "connect_body ep"
  by unfold_locales (rule connect_works)

interpretation listen_call: sock_body listen_body
  by unfold_locales (rule listen_works)

interpretation send_call: sock_body "send_body later wait buffer len flags"
  by unfold_locales (rule send_works)

interpretation recv_call: sock_body "recv_body later wait len flags"
  by unfold_locales (rule recv_works)

interpretation ioctl_call: sock_body "ioctl_body wait cmd"
  by unfold_locales (rule ioctl_works)


subsection \<open>Calls with a shape of their own\<close>

lemma bind_refs:
  assumes ok: "refs_ok cs cl s" and c: "vxt_bind h ep s = Some (r, s')"
  shows "refs_ok cs cl s'"
proof -
  obtain found s1 where f: "vxt_find_socket h False s = Some (found, s1)"
    using c by (auto simp: vxt_bind_def split: bind_splits)
  show ?thesis
  proof (cases found)
    case None
    with c f refs_miss [OF ok] ok show ?thesis by (auto simp: vxt_bind_def intro: refs_errno)
  next
    case (Some a)
    obtain sk0 where e: "s1 = set_sock a (sk0\<lparr>ref_cnt := ref_cnt sk0 + 1\<rparr>) s" "refs_ok (a # cs) cl s1"
      using refs_enter [OF ok] f Some by metis
    define sk where "sk = sk0\<lparr>ref_cnt := ref_cnt sk0 + 1\<rparr>"
    have sk: "socks s1 a = Some sk" using e(1) by (simp add: sk_def)
    have out: "refs_ok cs cl s3" if "works a s1 s2" "vxt_deref_socket a s2 = Some s3" for s2 s3
      using refs_leave(1) [OF refs_work [OF e(2) that(1)] _ that(2)] by simp
    show ?thesis
    proof (cases "sstate sk = VXT_SOCKET_DISCONNECTED")
      case False
      with c f Some sk out works_kept [OF refs_okD(1) [OF e(2)] sk kept_refl] show ?thesis
        by (auto simp: vxt_bind_def intro: refs_errno split: bind_splits)
    next
      case True
      with c f Some sk obtain ret d s2 where m: "vxt_msg_add VXTCTRLR_MSG_DEV ep (add_msg sk) s1 = Some (ret, d, s2)"
        by (auto simp: vxt_bind_def split: bind_splits)
      have l: "lib_ok s1" "0 < next_addr s1" "owned s1" using refs_okD(1) [OF e(2)] by (auto simp: sock_ok_def)
      have o: "opened s1 ret d s2" by (rule msg_add_opened [OF l(1) m])
      have t: "table s2 = table s1" by (rule more_table [OF msg_add_more [OF m]])
      have n: "next_addr s1 \<le> next_addr s2" "lib_ok s2"
        using o lib_ok_opened [OF l(1) o l(2)] by (auto simp: opened_def split: if_splits)
      have sk2: "socks s2 a = Some sk" using table_simps(1) [OF t] sk by simp
      have yes: "works a s1 (set_sock a (sk\<lparr>sdev := d, sstate := VXT_SOCKET_CONNECTED\<rparr>) s2)" if "ret = VXT_SUCCESS"
        by (rule works_opened [OF sk _ _ t n owned_opened [OF l(3) o [unfolded that] t sk]]) simp_all
      have no: "works a s1 s2" if "ret \<noteq> VXT_SUCCESS"
        using works_opened [OF sk _ _ t n, of sk] owned_opened_fail [OF l(3) o that t] set_same [OF sk2] by simp
      from c f Some sk True m consider
          "ret = VXT_SUCCESS" "vxt_deref_socket a (set_sock a (sk\<lparr>sdev := d, sstate := VXT_SOCKET_CONNECTED\<rparr>) s2) = Some s'"
        | s3 e where "ret \<noteq> VXT_SUCCESS" "vxt_deref_socket a s2 = Some s3" "s' = s3\<lparr>errno := e\<rparr>"
        | "ret \<noteq> VXT_SUCCESS" "vxt_deref_socket a (s2\<lparr>errno := ENOTSOCK\<rparr>) = Some s'"
        by (auto simp: vxt_bind_def split: bind_splits if_splits)
      then show ?thesis
      proof cases
        case 1
        with out [OF yes] show ?thesis by blast
      next
        case (2 s3 e)
        with out [OF no] show ?thesis by (auto intro: refs_errno)
      next
        case 3
        with out [of "s2\<lparr>errno := ENOTSOCK\<rparr>"] no show ?thesis by simp
      qed
    qed
  qed
qed

lemma suspend_works: "sock_ok s \<Longrightarrow> socks s a = Some sk \<Longrightarrow> works a s (set_sock a (suspended sk) s)"
  using suspended_ok [of s a sk] by (auto simp: works_def sock_ok_def intro!: exI [of _ "suspended sk"])

lemma shutdown_refs:
  assumes ok: "refs_ok cs cl s" and c: "vxt_shutdown h s = Some (r, s')"
  shows "refs_ok cs cl s'"
proof -
  obtain found s1 where f: "vxt_find_socket h False s = Some (found, s1)"
    using c by (auto simp: vxt_shutdown_def split: bind_splits)
  show ?thesis
  proof (cases found)
    case None
    with c f refs_miss [OF ok] ok show ?thesis by (auto simp: vxt_shutdown_def intro: refs_errno)
  next
    case (Some a)
    obtain sk0 where e: "s1 = set_sock a (sk0\<lparr>ref_cnt := ref_cnt sk0 + 1\<rparr>) s" "refs_ok (a # cs) cl s1"
      using refs_enter [OF ok] f Some by metis
    then have sk: "socks s1 a = Some (sk0\<lparr>ref_cnt := ref_cnt sk0 + 1\<rparr>)" by simp
    with c f Some suspend_result [OF sk] obtain
      d: "vxt_deref_socket a (set_sock a (suspended (sk0\<lparr>ref_cnt := ref_cnt sk0 + 1\<rparr>)) s1) = Some s'"
      by (auto simp: vxt_shutdown_def split: bind_splits)
    from refs_leave(1) [OF refs_work [OF e(2) suspend_works [OF refs_okD(1) [OF e(2)] sk]] _ d] show ?thesis by simp
  qed
qed


lemma ref_pos: "refs_ok cs cl s \<Longrightarrow> socks s a = Some sk \<Longrightarrow> 0 < ref_cnt sk"
  using refs_okD(5) [of cs cl s a sk] count_pos [of a cs] by (auto simp: refs_ok_def)

lemma shutdown_result:
  assumes ok: "refs_ok cs cl s" and a: "socks s a = Some sk"
  shows "vxt_shutdown (handle sk) s = Some (0, set_sock a (suspended sk) s)"
proof -
  let ?sk = "sk\<lparr>ref_cnt := ref_cnt sk + 1\<rparr>"
  have f: "vxt_find_socket (handle sk) False s = Some (Some a, set_sock a ?sk s)"
    by (rule find_socket_hit [OF refs_okD(2) [OF ok] a])
  have su: "suspend a (set_sock a ?sk s) = Some (0, set_sock a (suspended ?sk) s)"
    using suspend_result [of "set_sock a ?sk s" a ?sk] by simp
  have "vxt_deref_socket a (set_sock a (suspended ?sk) s) = Some (set_sock a (suspended sk) s)"
    using deref_shared [of "set_sock a (suspended ?sk) s" a "suspended ?sk"] refs_okD(3) [OF ok] ref_pos [OF ok a]
      same_ref [of "suspended sk"] by simp
  with f su show ?thesis by (simp add: vxt_shutdown_def)
qed

text \<open>The part of a close before the two references are given up.\<close>

lemma close_begin_refs:
  assumes ok: "refs_ok cs cl s" and a: "socks s a = Some sk" and c: "close_begin options a s = Some s'"
  shows "refs_ok cs cl s'"
proof (cases "flag_set options VXT_CLOSE_FORCE")
  case False
  with c a have "works a s s'" using works_set [OF refs_okD(1) [OF ok] a, of "sk\<lparr>close_options := options\<rparr>"]
    by (simp add: close_begin_def)
  with ok show ?thesis by (rule refs_work)
next
  case True
  let ?s = "set_sock a (suspended sk) s"
  have s: "refs_ok cs cl ?s" by (rule refs_work [OF ok suspend_works [OF refs_okD(1) [OF ok] a]])
  from c a True shutdown_result [OF ok a] obtain st s1 where
    d: "(if flag_set options (VXT_CLOSE_REMOTE OR VXT_CLOSE_LOCAL)
           then vxt_msg_disconnect (sdev (suspended sk)) options ?s else Some (VXT_SUCCESS, ?s)) = Some (st, s1)"
    and s': "s' = set_sock a ((suspended sk)\<lparr>close_options := 0\<rparr>) s1"
    by (auto simp: close_begin_def split: bind_splits if_splits)
  have s1: "table s1 = table ?s \<and> sock_ok s1 \<and> next_addr s1 = next_addr ?s"
  proof (cases "flag_set options (VXT_CLOSE_REMOTE OR VXT_CLOSE_LOCAL)")
    case True
    with d have d': "vxt_msg_disconnect (sdev (suspended sk)) options ?s = Some (st, s1)" by simp
    have "socks ?s a = Some (suspended sk)" by simp
    from disconnect_ok [OF refs_okD(1) [OF s] this _ d'] disconnect_next_addr [OF d'] show ?thesis by simp
  next
    case False
    with d s show ?thesis by (auto simp: refs_okD)
  qed
  then have w: "works a ?s s1" using set_same [of ?s a "suspended sk"]
    by (auto simp: works_def sock_ok_def intro!: exI [of _ "suspended sk"])
  have a1: "socks s1 a = Some (suspended sk)" using s1 table_simps(1) [of s1 ?s] by simp
  have r1: "refs_ok cs cl s1" by (rule refs_work [OF s w])
  have "works a s1 s'" using works_set [OF refs_okD(1) [OF r1] a1, of "(suspended sk)\<lparr>close_options := 0\<rparr>"] by (simp add: s')
  with r1 show ?thesis by (rule refs_work)
qed

lemma close_refs:
  assumes ok: "refs_ok cs cl s" and c: "vxt_close h options s = Some (r, s')"
    and once: "\<And>a sk. a \<in> cl \<Longrightarrow> socks s a = Some sk \<Longrightarrow> handle sk \<noteq> h"
  shows "refs_ok cs ({a. \<exists>sk. socks s a = Some sk \<and> handle sk = h} \<union> cl) s'"
proof (cases rule: lookup_live [OF refs_okD(2) [OF ok], of h])
  case 1
  then have h: "{a. \<exists>sk. socks s a = Some sk \<and> handle sk = h} \<union> cl = cl" by auto
  from 1(1) c ok show ?thesis unfolding h by (auto simp: vxt_close_def intro: refs_errno)
next
  case (2 a sk)
  let ?sk = "sk\<lparr>ref_cnt := ref_cnt sk + 1\<rparr>"
  have e: "refs_ok (a # cs) cl (set_sock a ?sk s)" using refs_enter [OF ok 2(1)] 2(2) by metis
  have cl: "a \<notin> cl" using once 2 by blast
  have h: "{a. \<exists>sk. socks s a = Some sk \<and> handle sk = h} = {a}"
    using 2(2,3) table_okD(8) [OF refs_okD(2) [OF ok]] by blast
  from c 2(1) obtain s1 s2 where p: "close_begin options a (set_sock a ?sk s) = Some s1"
    and d: "vxt_deref_socket a s1 = Some s2" "vxt_deref_socket a s2 = Some s'"
    unfolding vxt_close_def by (auto split: bind_splits)
  have r1: "refs_ok (a # cs) cl s1" by (rule close_begin_refs [OF e _ p]) simp
  have "refs_ok (a # cs) (insert a cl) s2" using refs_drop [OF r1 _ cl] d(1) by auto
  from refs_leave(1) [OF this _ d(2)] h show ?thesis by simp
qed


lemma refs_kept:
  assumes ok: "refs_ok cs cl s" and k: "kept s s'"
  shows "refs_ok cs cl s'"
proof -
  note t = table_simps [OF kept_table(1) [OF k]] and n = kept_table(2) [OF k]
  have "sock_ok s'" using refs_okD(1) [OF ok] kept_table [OF k] kept_ok [OF k] kept_owned [OF k]
    by (auto simp: sock_ok_def intro: table_ok_table)
  with ok show ?thesis by (simp add: refs_ok_def t n)
qed

lemma accept_loop_kept:
  assumes "accept_loop name bus s = Some r"
  shows "kept s (snd r)"
proof (rule accept_loop.raw_induct [of "\<lambda>name bus s r. kept s (snd r)", OF _ assms])
  fix loop :: "string \<Rightarrow> vxt_query_bus_struct \<Rightarrow> 'a sock_lib \<Rightarrow> (bool \<times> 'a sock_lib) option" and name bus s r
  assume ih: "\<And>name bus s r. loop name bus s = Some r \<Longrightarrow> kept s (snd r)"
    and r: "(if take MAX_VXT_UNAME (qb_uname bus) = take MAX_VXT_UNAME name then Some (True, s)
      else let q = vxt_msg_bus_query bus s
        in if fst q \<noteq> VXT_SUCCESS then Some (False, snd (snd q)) else loop name (fst (snd q)) (snd (snd q))) = Some r"
  obtain st bus' s1 where q: "vxt_msg_bus_query bus s = (st, bus', s1)" by (metis prod_cases3)
  have k: "kept s s1" by (rule kept_bus_query [OF q])
  from r q k ih [of name bus' s1 r] show "kept s (snd r)" by (auto simp: Let_def split: if_splits intro: kept_trans)
qed

lemma free_socket_cases:
  assumes ok: "table_ok s" and f: "vxt_free_socket h s = Some (r, s')"
  shows "s' = s \<or> (\<exists>a. s' = free_sock a s)"
proof -
  have u: "vxt_unlock (s\<lparr>socket_lock := True\<rparr>) = s" by (rule unlock_lock [OF table_okD(3) [OF ok]])
  with f show ?thesis
    by (auto simp: vxt_free_socket_def vxt_lock_def split: bind_splits list.splits option.splits if_splits)
qed

lemma free_socket_refs:
  assumes ok: "refs_ok [] cl s" and f: "vxt_free_socket h s = Some (r, s')"
  shows "refs_ok [] cl s'"
  using free_socket_cases [OF refs_okD(2) [OF ok] f] ok free_ok [OF refs_okD(1) [OF ok]]
  by (auto simp: refs_ok_def) (auto simp: free_sock_def split: if_splits)

text \<open>The end of an accept: a new socket that is connected, or freed again.\<close>

lemma accept_new_refs:
  assumes ok: "refs_ok [] cl s" and c: "accept_new name s = Some (r, s')"
  shows "refs_ok [] cl s'"
proof -
  from c obtain ret new s1 where g: "vxt_get_socket s = Some (ret, new, s1)" by (auto simp: accept_new_def split: bind_splits)
  have r1: "refs_ok [] cl s1" by (rule refs_create [OF ok g])
  show ?thesis
  proof (cases new)
    case None
    with c g r1 show ?thesis by (auto simp: accept_new_def intro: refs_errno)
  next
    case (Some a)
    with c g obtain sk st s2 where sk: "socks s1 a = Some sk" "vxt_connect (handle sk) name s1 = Some (st, s2)"
      by (auto simp: accept_new_def split: bind_splits)
    have r2: "refs_ok [] cl s2" using connect_call.call_refs [OF r1] sk(2) by (simp add: vxt_connect_def)
    show ?thesis
    proof (cases "st = 0")
      case True
      with c g Some sk r2 show ?thesis by (auto simp: accept_new_def split: bind_splits)
    next
      case False
      with c g Some sk obtain x s3 where f: "vxt_free_socket (handle sk) s2 = Some (x, s3)" by (auto simp: accept_new_def split: bind_splits)
      with c g Some sk False free_socket_refs [OF r2 f] show ?thesis by (auto simp: accept_new_def intro: refs_errno)
    qed
  qed
qed

lemma accept_refs:
  assumes ok: "refs_ok [] cl s" and c: "vxt_accept sh name s = Some (r, s')"
  shows "refs_ok [] cl s'"
proof -
  from c obtain st sys s1 where q: "vxt_msg_system_query
      \<lparr>qs_uname = vxtcom_strncpy MAX_VXT_UNAME (uname name), qs_ep_id = vxtcom_strncpy MAX_VXT_UUID (ep_id name),
       qs_domain = 0, qs_controller = 0, qs_ctrlr_name = []\<rparr> s = Some (st, sys, s1)"
    by (auto simp: vxt_accept_def split: bind_splits)
  have r1: "refs_ok [] cl s1" by (rule refs_kept [OF ok kept_system_query [OF q]])
  show ?thesis
  proof (cases "st = VXT_SUCCESS")
    case False
    with c q r1 show ?thesis by (auto simp: vxt_accept_def intro: refs_errno)
  next
    case True
    with c q obtain found s2 where l: "accept_loop (uname name)
        ((stack_bus s1)\<lparr>qb_vxt_bus_id := 0, qb_uname := [],
           qb_ctrlr_name := vxtcom_strncpy VXTCOM_MAX_DEV_FILE_NAME (qs_ctrlr_name sys)\<rparr>) s1 = Some (found, s2)"
      by (auto simp: vxt_accept_def split: bind_splits)
    have r2: "refs_ok [] cl s2" using refs_kept [OF r1] accept_loop_kept [OF l] by simp
    show ?thesis
    proof (cases found)
      case False
      with True c q l r2 show ?thesis by (auto simp: vxt_accept_def intro: refs_errno)
    next
      case found: True
      from c q True l found have "accept_new name s2 = Some (r, s')" by (simp add: vxt_accept_def)
      from accept_new_refs [OF r2 this] show ?thesis .
    qed
  qed
qed

fun somes :: "nat option list \<Rightarrow> nat list" where
  "somes [] = []" | "somes (None # ps) = somes ps" | "somes (Some a # ps) = a # somes ps"

lemma refs_perm:
  assumes "refs_ok cs cl s" and c: "\<And>a. count_list cs' a = count_list cs a"
  shows "refs_ok cs' cl s"
proof -
  have "set cs' = set cs" using c by (auto simp: count_list_0_iff [symmetric] set_eq_iff) (metis count_list_0_iff)+
  with assms show ?thesis by (simp add: refs_ok_def)
qed

lemma deref_all_refs:
  "refs_ok (somes ps @ cs) cl s \<Longrightarrow> deref_all ps s = Some s' \<Longrightarrow> refs_ok cs cl s'"
proof (induction ps arbitrary: s rule: somes.induct)
  case (3 a ps)
  then obtain s1 where d: "vxt_deref_socket a s = Some s1" "deref_all ps s1 = Some s'" by (auto split: bind_splits)
  from refs_leave(1) [OF 3(2) _ d(1)] have "refs_ok (somes ps @ cs) cl s1" by simp
  with 3 d show ?case by blast
qed auto

lemma poll_sockets_refs:
  "refs_ok cs cl s \<Longrightarrow> poll_sockets fds s = Some (ok, xs, s') \<Longrightarrow> refs_ok (somes (map fst xs) @ cs) cl s' \<and> heap_ptr s' = heap_ptr s"
proof (induction fds arbitrary: s cs ok xs)
  case (Cons p ps)
  show ?case
  proof (cases "ucast (po_events p) AND POLLVXT = 0")
    case True
    with Cons.prems obtain ys where "poll_sockets ps s = Some (ok, ys, s')" "somes (map fst xs) = somes (map fst ys)"
      by (auto split: bind_splits)
    with Cons.IH [OF Cons.prems(1)] show ?thesis by simp
  next
    case False
    with Cons.prems(2) obtain found s1 where f: "vxt_find_socket (ucast (po_object p)) False s = Some (found, s1)"
      by (auto split: bind_splits)
    show ?thesis
    proof (cases found)
      case None
      with f have "s1 = s" using refs_miss [OF Cons.prems(1)] by simp
      with None False f Cons.prems show ?thesis by (auto intro: refs_errno)
    next
      case (Some a)
      obtain sk where e: "s1 = set_sock a (sk\<lparr>ref_cnt := ref_cnt sk + 1\<rparr>) s" "refs_ok (a # cs) cl s1"
        using refs_enter [OF Cons.prems(1)] f Some by metis
      from False f Some Cons.prems(2) obtain ys where ys: "poll_sockets ps s1 = Some (ok, ys, s')"
        "somes (map fst xs) = a # somes (map fst ys)" by (auto split: bind_splits)
      from Cons.IH [OF e(2) ys(1)] e(1) ys(2) show ?thesis by (auto simp: set_sock_def intro: refs_perm)
    qed
  qed
qed simp


lemma kept_wait_entry: "wait_entry e s = Some (r, s') \<Longrightarrow> kept s s'"
proof -
  assume w: "wait_entry e s = Some (r, s')"
  have o: "kept s s1" if "vxt_msg_open_dev n h s = (fd, s1)" for n h fd s1
    using that by (auto simp: vxt_msg_open_dev_def dest!: kept_open split: prod.splits if_splits intro: kept_trans)
  have "kept s (set_dev a d' s1)" if "kept s s1" "devs s a = Some d" for s1 a d d'
    using that by (auto simp: kept_def set_dev_def dom_def)
  with w o show "kept s s'"
    by (auto simp: wait_entry_def Let_def split: if_splits option.splits prod.splits)
qed

lemma kept_wait_entries: "wait_entries es s = Some (r, fds, s') \<Longrightarrow> kept s s'"
proof (induction es arbitrary: s r fds)
  case (Cons e es)
  then obtain x s1 where w: "wait_entry e s = Some (x, s1)" by (auto split: option.splits)
  from kept_wait_entry [OF w] Cons w show ?case by (auto split: sum.splits option.splits prod.splits intro: kept_trans)
qed simp

lemma kept_wait: "vxt_msg_wait es timeout s = Some (r, n, fds, s') \<Longrightarrow> kept s s'"
  by (auto simp: vxt_msg_wait_def dest!: kept_wait_entries split: option.splits prod.splits sum.splits)

lemma poll_sockets_known:
  assumes "refs_ok cs cl s" and "poll_sockets fds s = Some (ok, xs, s')"
    and "\<forall>p \<in> set fds. ucast (po_events p) AND POLLVXT \<noteq> 0 \<longrightarrow> (\<exists>a sk. socks s a = Some sk \<and> handle sk = ucast (po_object p))"
  shows ok
  using assms
proof (induction fds arbitrary: s cs xs)
  case (Cons p ps)
  show ?case
  proof (cases "ucast (po_events p) AND POLLVXT = 0")
    case True
    with Cons.prems(2) obtain ys where "poll_sockets ps s = Some (ok, ys, s')" by (auto split: bind_splits)
    with Cons.IH [OF Cons.prems(1)] Cons.prems(3) show ?thesis by simp
  next
    case False
    then obtain a sk where a: "socks s a = Some sk" "handle sk = ucast (po_object p)" using Cons.prems(3) by auto
    let ?s = "set_sock a (sk\<lparr>ref_cnt := ref_cnt sk + 1\<rparr>) s"
    have f: "vxt_find_socket (ucast (po_object p)) False s = Some (Some a, ?s)"
      using find_socket_hit [OF refs_okD(2) [OF Cons.prems(1)] a(1)] a(2) by simp
    have e: "refs_ok (a # cs) cl ?s" using refs_enter [OF Cons.prems(1) f] by metis
    from f False Cons.prems(2) obtain ys where ys: "poll_sockets ps ?s = Some (ok, ys, s')" by (auto split: bind_splits)
    have "\<exists>b tk. socks ?s b = Some tk \<and> handle tk = ucast (po_object q)"
      if q: "q \<in> set ps" "ucast (po_events q) AND POLLVXT \<noteq> 0" for q
    proof -
      obtain b tk where "socks s b = Some tk" "handle tk = ucast (po_object q)"
        using bspec [OF Cons.prems(3), of q] q by auto
      with a(1) show ?thesis by (cases "b = a") auto
    qed
    then show ?thesis by (intro Cons.IH [OF e ys] ballI impI)
  qed
qed simp

text \<open>
  A poll releases what it has taken. The clean-up after an unknown handle depends on what the fresh
  memory held.
\<close>

lemma poll_refs:
  assumes ok: "refs_ok cs cl s" and c: "vxt_poll fds timeout s = Some (r, fds', s')"
    and good: "heap_ptr s \<or> (\<forall>p \<in> set fds. ucast (po_events p) AND POLLVXT \<noteq> 0 \<longrightarrow>
      (\<exists>a sk. socks s a = Some sk \<and> handle sk = ucast (po_object p)))"
  shows "refs_ok cs cl s'"
proof -
  obtain b1 s1 where m1: "vxt_malloc s = (b1, s1)" by fastforce
  obtain b2 s2 where m2: "vxt_malloc s1 = (b2, s2)" by fastforce
  have k: "kept s s1" "kept s s2" using kept_malloc [OF m1] kept_malloc [OF m2] by (auto intro: kept_trans)
  note r1 = refs_kept [OF ok k(1)] and r2 = refs_kept [OF ok k(2)] and t = table_simps [OF kept_table(1) [OF k(2)]]
  show ?thesis
  proof (cases "b1 \<and> b2")
    case False
    with c m1 m2 r1 r2 show ?thesis by (cases b1) (auto simp: vxt_poll_def intro: refs_errno)
  next
    case True
    with c m1 m2 obtain ok' xs s3 where p: "poll_sockets fds s2 = Some (ok', xs, s3)"
      by (auto simp: vxt_poll_def split: bind_splits)
    have r3: "refs_ok (somes (map fst xs) @ cs) cl s3" "heap_ptr s3 = heap_ptr s"
      using poll_sockets_refs [OF r2 p] t by auto
    show ?thesis
    proof (cases ok')
      case False
      then have "heap_ptr s" using good poll_sockets_known [OF r2 p] t by auto
      with c m1 m2 True p False r3 show ?thesis
        by (auto simp: vxt_poll_def poll_unwind_def split: bind_splits if_splits intro: deref_all_refs)
    next
      case yes: True
      with c m1 m2 True p obtain ret n es s4 where w: "vxt_msg_wait (map snd xs) timeout s3 = Some (ret, n, es, s4)"
        by (auto simp: vxt_poll_def split: bind_splits)
      have r4: "refs_ok (somes (map fst xs) @ cs) cl s4" by (rule refs_kept [OF r3(1) kept_wait [OF w]])
      then have "refs_ok (somes (map fst xs) @ cs) cl (wait_errno ret s4)" by (auto simp: wait_errno_def intro: refs_errno)
      with c m1 m2 True p yes w r4 show ?thesis
        by (auto simp: vxt_poll_def Let_def split: bind_splits if_splits intro: deref_all_refs)
    qed
  qed
qed

end
