(* ===== verification/Vxt_Socket_Run.thy ===== *)
theory Vxt_Socket_Run
  imports Vxt_Socket_Calls
begin

text \<open>
  Threads that share the table of sockets, with the release of the last reference in the pieces in
  which \<^verbatim>\<open>vxt_deref_socket\<close> takes the lock: another thread may look the socket up between them.
\<close>

subsection \<open>The release in pieces\<close>

text \<open>The test of the count under the lock; the flag tells that this is the last reference.\<close>

definition deref_begin :: "nat \<Rightarrow> 'k sock_lib \<Rightarrow> (bool \<times> 'k sock_lib) option" where
  "deref_begin a s =
     do { s \<leftarrow> vxt_lock s;
          sk \<leftarrow> socks s a;
          Some (if 1 < ref_cnt sk then (False, vxt_unlock (set_sock a (sk\<lparr>ref_cnt := ref_cnt sk - 1\<rparr>) s))
                else (True, vxt_unlock s)) }"

text \<open>The device goes, then the structure.\<close>

definition end_disconnect :: "nat \<Rightarrow> 'k sock_lib \<Rightarrow> 'k sock_lib option" where
  "end_disconnect a s =
     do { sk \<leftarrow> socks s a;
          if sstate sk = VXT_SOCKET_SUSPENDED \<and> flag_set (close_options sk) (VXT_CLOSE_REMOTE OR VXT_CLOSE_LOCAL)
          then map_option snd (vxt_msg_disconnect (sdev sk) (close_options sk) s) else Some s }"

definition end_free :: "nat \<Rightarrow> 'k sock_lib \<Rightarrow> 'k sock_lib option" where
  "end_free a s = do { sk \<leftarrow> socks s a; map_option snd (vxt_free_socket (handle sk) s) }"

text \<open>
  Where a thread is that ends a socket: before the lookup of the shutdown, with the reference of that
  lookup before and after the suspension, after its release, and after the disconnection.
\<close>

datatype end_phase = Ending | Holding nat | Suspending nat | Dropped | Severed

text \<open>A thread ends a socket, and within the shutdown another when that reference is the last one.\<close>

type_synonym end_stack = "(nat \<times> end_phase) list"

inductive release_step :: "end_stack \<Rightarrow> 'k sock_lib \<Rightarrow> end_stack \<Rightarrow> 'k sock_lib \<Rightarrow> bool" where
  find: "release_step ((a, Ending) # st) s ((a, Holding b) # st) s'"
    if "socks s a = Some sk" "vxt_find_socket (handle sk) False s = Some (Some b, s')"
| miss: "release_step ((a, Ending) # st) s ((a, Dropped) # st) (s'\<lparr>errno := ENOTSOCK\<rparr>)"
    if "socks s a = Some sk" "vxt_find_socket (handle sk) False s = Some (None, s')"
| suspend: "release_step ((a, Holding b) # st) s ((a, Suspending b) # st) s'"
    if "Vxt_Socket.suspend b s = Some (ret, s')"
| leave: "release_step ((a, Suspending b) # st) s ((a, Dropped) # st) s'"
    if "deref_begin b s = Some (False, s')"
| nest: "release_step ((a, Suspending b) # st) s ((b, Ending) # (a, Dropped) # st) s'"
    if "deref_begin b s = Some (True, s')"
| sever: "release_step ((a, Dropped) # st) s ((a, Severed) # st) s'"
    if "end_disconnect a s = Some s'"
| free: "release_step ((a, Severed) # st) s st s'"
    if "end_free a s = Some s'"

definition releases :: "end_stack \<times> 'k sock_lib \<Rightarrow> end_stack \<times> 'k sock_lib \<Rightarrow> bool" where
  "releases x y \<longleftrightarrow> release_step (fst x) (snd x) (fst y) (snd y)"

lemma releases_step: "release_step st s st' s' \<Longrightarrow> releases (st, s) (st', s')"
  by (simp add: releases_def)

lemma deref_last_pieces: "deref_last a s = do { s \<leftarrow> end_disconnect a s; end_free a s }"
proof (cases "socks s a")
  case None
  then show ?thesis by (simp add: deref_last_def end_disconnect_def)
next
  case (Some sk)
  have "socks s1 a = Some sk" if "vxt_msg_disconnect (sdev sk) (close_options sk) s = Some (r, s1)" for r s1
    using table_simps(1) [OF more_table [OF disconnect_more [OF that]]] Some by simp
  with Some show ?thesis
    by (cases "vxt_msg_disconnect (sdev sk) (close_options sk) s"; cases "vxt_free_socket (handle sk) s")
      (auto simp: deref_last_def end_disconnect_def end_free_def map_option_case split: option.splits)
qed

lemma deref_last_releases:
  assumes "deref_last a s = Some s'"
  shows "releases\<^sup>*\<^sup>* ((a, Dropped) # st, s) (st, s')"
proof -
  obtain s1 where "end_disconnect a s = Some s1" "end_free a s1 = Some s'"
    using assms unfolding deref_last_pieces by (auto split: bind_splits)
  then show ?thesis by (meson converse_rtranclp_into_rtranclp releases_step release_step.sever release_step.free rtranclp.rtrancl_refl)
qed

text \<open>A thread that runs alone does what the release of the whole call does.\<close>

lemma deref_releases:
  assumes "vxt_deref_socket a s = Some s'"
  shows "deref_begin a s = Some (False, s') \<or>
    (\<exists>s1. deref_begin a s = Some (True, s1) \<and> (\<forall>st. releases\<^sup>*\<^sup>* ((a, Ending) # st, s1) (st, s')))"
proof (rule vxt_deref_socket.raw_induct [of "\<lambda>a s s'. deref_begin a s = Some (False, s') \<or>
    (\<exists>s1. deref_begin a s = Some (True, s1) \<and> (\<forall>st. releases\<^sup>*\<^sup>* ((a, Ending) # st, s1) (st, s')))", OF _ assms], goal_cases)
  case (1 deref a s s')
  note ih = 1(1) and d = 1(2)
  from d obtain s0 sk where s0: "vxt_lock s = Some s0" "socks s0 a = Some sk" by (auto split: bind_splits)
  show ?case
  proof (cases "1 < ref_cnt sk")
    case True
    with d s0 show ?thesis by (simp add: deref_begin_def)
  next
    case False
    let ?u = "vxt_unlock s0"
    from d s0 False obtain x s1 where f: "vxt_find_socket (handle sk) False ?u = Some x"
      and n: "(case fst x of None \<Rightarrow> Some ((snd x)\<lparr>errno := ENOTSOCK\<rparr>)
        | Some b \<Rightarrow> do { y \<leftarrow> suspend b (snd x); deref b (snd y) }) = Some s1"
      and l: "deref_last a s1 = Some s'" by (auto split: bind_splits)
    have u: "socks ?u a = Some sk" using s0 by (simp add: vxt_unlock_def)
    have "releases\<^sup>*\<^sup>* ((a, Ending) # st, ?u) ((a, Dropped) # st, s1)" for st
    proof (cases "fst x")
      case None
      with n f u show ?thesis by (cases x) (auto intro!: r_into_rtranclp releases_step release_step.miss)
    next
      case (Some b)
      with n obtain r s2 where y: "suspend b (snd x) = Some (r, s2)" "deref b s2 = Some s1" by (auto split: bind_splits)
      have "vxt_find_socket (handle sk) False ?u = Some (Some b, snd x)" using f Some by (cases x) auto
      then have "releases ((a, Ending) # st, ?u) ((a, Holding b) # st, snd x)"
        by (intro releases_step release_step.find [OF u])
      moreover have "releases ((a, Holding b) # st, snd x) ((a, Suspending b) # st, s2)"
        by (intro releases_step release_step.suspend [OF y(1)])
      moreover have "releases\<^sup>*\<^sup>* ((a, Suspending b) # st, s2) ((a, Dropped) # st, s1)"
        using ih [OF y(2)]
      proof
        assume "deref_begin b s2 = Some (False, s1)"
        then show ?thesis by (intro r_into_rtranclp releases_step release_step.leave)
      next
        assume "\<exists>s3. deref_begin b s2 = Some (True, s3) \<and> (\<forall>st. releases\<^sup>*\<^sup>* ((b, Ending) # st, s3) (st, s1))"
        then show ?thesis by (meson converse_rtranclp_into_rtranclp releases_step release_step.nest)
      qed
      ultimately show ?thesis by (meson converse_rtranclp_into_rtranclp)
    qed
    from rtranclp_trans [OF this deref_last_releases [OF l]] s0 False show ?thesis
      by (auto simp: deref_begin_def)
  qed
qed


subsection \<open>The run of the threads\<close>

text \<open>The body of a bind; the whole call is one with the lookup and the release.\<close>

definition bind_body :: "vxt_dev_addr \<Rightarrow> nat \<Rightarrow> vxt_sock \<Rightarrow> 'k sock_lib \<Rightarrow> (int \<times> 'k sock_lib) option" where
  "bind_body ep a sk s =
     (if sstate sk \<noteq> VXT_SOCKET_DISCONNECTED then Some (1, s\<lparr>errno := EISCONN\<rparr>)
      else do {
        (ret, dev, s) \<leftarrow> vxt_msg_add VXTCTRLR_MSG_DEV ep (add_msg sk) s;
        if ret \<noteq> VXT_SUCCESS then Some (1, s\<lparr>errno := open_errno ret\<rparr>)
        else Some (0, set_sock a (sk\<lparr>sdev := dev, sstate := VXT_SOCKET_CONNECTED\<rparr>) s) })"

lemma bind_body_works:
  assumes ok: "sock_ok s" and a: "socks s a = Some sk" and b: "bind_body ep a sk s = Some (r, s')"
  shows "works a s s'"
proof (cases "sstate sk = VXT_SOCKET_DISCONNECTED")
  case False
  with b have "kept s s'" by (auto simp: bind_body_def)
  with ok a show ?thesis by (rule works_kept)
next
  case True
  with b obtain ret d s1 where m: "vxt_msg_add VXTCTRLR_MSG_DEV ep (add_msg sk) s = Some (ret, d, s1)"
    and s': "(ret \<noteq> VXT_SUCCESS \<and> s' = s1\<lparr>errno := open_errno ret\<rparr>) \<or>
      (ret = VXT_SUCCESS \<and> s' = set_sock a (sk\<lparr>sdev := d, sstate := VXT_SOCKET_CONNECTED\<rparr>) s1)"
    by (auto simp: bind_body_def split: bind_splits if_splits)
  have l: "lib_ok s" "0 < next_addr s" "owned s" using ok by (auto simp: sock_ok_def)
  have o: "opened s ret d s1" by (rule msg_add_opened [OF l(1) m])
  have t: "table s1 = table s" by (rule more_table [OF msg_add_more [OF m]])
  have n: "next_addr s \<le> next_addr s1" "lib_ok s1" using o lib_ok_opened [OF l(1) o l(2)] by (auto simp: opened_def split: if_splits)
  have a1: "socks s1 a = Some sk" using table_simps(1) [OF t] a by simp
  show ?thesis
  proof (cases "ret = VXT_SUCCESS")
    case True
    let ?tk = "sk\<lparr>sdev := d, sstate := VXT_SOCKET_CONNECTED\<rparr>"
    have "s' = set_sock a ?tk s1" using True s' by simp
    with works_opened [of s a sk ?tk s1] owned_opened [OF l(3) o [unfolded True] t a, of ?tk] n a t show ?thesis by simp
  next
    case fail: False
    have "works a s s1"
      using works_opened [OF a _ _ t n, of sk] owned_opened_fail [OF l(3) o fail t] set_same [OF a1] by simp
    with fail s' show ?thesis by simp
  qed
qed

interpretation bind_call: sock_body "bind_body ep"
  by unfold_locales (rule bind_body_works)

text \<open>On a socket that has not been closed the bind is the call with this body.\<close>

lemma bind_pieces:
  assumes ok: "refs_ok cs cl s" and h: "\<And>a sk. socks s a = Some sk \<Longrightarrow> handle sk = h \<Longrightarrow> a \<notin> cl"
  shows "vxt_bind h ep s = on_socket 1 h (bind_body ep) s"
proof (cases rule: lookup_live [OF refs_okD(2) [OF ok], of h])
  case 1
  then show ?thesis by (simp add: vxt_bind_def on_socket_def)
next
  case (2 a sk)
  let ?sk = "sk\<lparr>ref_cnt := ref_cnt sk + 1\<rparr>" and ?s = "set_sock a (sk\<lparr>ref_cnt := ref_cnt sk + 1\<rparr>) s"
  have n: "1 < ref_cnt ?sk" using ref_pos [OF ok 2(2)] by simp
  have d: "vxt_deref_socket a s1 = Some (set_sock a (tk\<lparr>ref_cnt := ref_cnt sk\<rparr>) s1)"
    if "socks s1 a = Some tk" "ref_cnt tk = ref_cnt sk + 1" "\<not> socket_lock s1" for s1 :: "'a sock_lib" and tk
    using deref_shared [OF that(3,1)] n that(2) by simp
  have e: "(set_sock a x s1)\<lparr>errno := y\<rparr> = set_sock a x (s1\<lparr>errno := y\<rparr>)" for x y and s1 :: "'a sock_lib"
    by (simp add: set_sock_def)
  note l = refs_okD(3) [OF ok]
  show ?thesis
  proof (cases "sstate sk = VXT_SOCKET_DISCONNECTED")
    case False
    with 2(1) d [of ?s ?sk] d [of "?s\<lparr>errno := EISCONN\<rparr>" ?sk] l show ?thesis
      by (simp add: vxt_bind_def on_socket_def bind_body_def e)
  next
    case True
    show ?thesis
    proof (cases "vxt_msg_add VXTCTRLR_MSG_DEV ep (add_msg sk) ?s")
      case None
      with True 2(1) show ?thesis by (simp add: vxt_bind_def on_socket_def bind_body_def)
    next
      case (Some x)
      obtain ret dev s1 where x: "x = (ret, dev, s1)" by (cases x) auto
      note t = table_simps [OF more_table [OF msg_add_more [OF Some [unfolded x]]]]
      let ?tk = "?sk\<lparr>sdev := dev, sstate := VXT_SOCKET_CONNECTED\<rparr>"
      have k: "socks s1 a = Some ?sk" "\<not> socket_lock s1" using t l by simp_all
      show ?thesis
        using Some x True 2(1) d [of s1 ?sk] d [of "s1\<lparr>errno := y\<rparr>" ?sk for y] d [of "set_sock a ?tk s1" ?tk] k
        by (auto simp: vxt_bind_def on_socket_def bind_body_def open_errno_def e)
    qed
  qed
qed

text \<open>
  The calls in progress \<open>cs\<close>, the threads that end a socket \<open>es\<close>, and the sockets \<open>cl\<close> whose close has
  given up the reference of the creation. A call enters with a lookup, works, and leaves with the
  release of its reference. Under the discipline no call is started on a closed socket and a socket
  is closed once. The lookups, the test of the count and the steps of the end are those of the code;
  the body of a call runs alone, with a forced close's shutdown and disconnection being one.
\<close>

inductive sock_run :: "bool \<Rightarrow> nat list \<Rightarrow> end_stack list \<Rightarrow> nat set \<Rightarrow> 'k sock_lib \<Rightarrow> bool" for discipline where
  init: "sock_run discipline [] [] {} s" if "socks s = (\<lambda>_. None)" "live_sockets s = []" "socket_handles s = 1"
    "\<not> socket_wrap s" "\<not> socket_lock s" "lib_ok s" "0 < next_addr s"
| create: "sock_run discipline cs es cl s'" if "sock_run discipline cs es cl s" "vxt_get_socket s = Some (ret, new, s')"
| enter: "sock_run discipline (a # cs) es cl s'" if "sock_run discipline cs es cl s"
    "vxt_find_socket h False s = Some (Some a, s')" "discipline \<longrightarrow> a \<notin> cl"
| bind: "sock_run discipline cs es cl s'" if "sock_run discipline cs es cl s" "a \<in> set cs" "socks s a = Some sk"
    "bind_body ep a sk s = Some (ri, s')"
| connect: "sock_run discipline cs es cl s'" if "sock_run discipline cs es cl s" "a \<in> set cs" "socks s a = Some sk"
    "connect_body ep a sk s = Some (ri, s')"
| listen: "sock_run discipline cs es cl s'" if "sock_run discipline cs es cl s" "a \<in> set cs" "socks s a = Some sk"
    "listen_body a sk s = Some (ri, s')"
| send: "sock_run discipline cs es cl s'" if "sock_run discipline cs es cl s" "a \<in> set cs" "socks s a = Some sk"
    "send_body later wait buffer len flags a sk s = Some (rs, s')"
| recv: "sock_run discipline cs es cl s'" if "sock_run discipline cs es cl s" "a \<in> set cs" "socks s a = Some sk"
    "recv_body later wait len flags a sk s = Some (rr, s')"
| ioctl: "sock_run discipline cs es cl s'" if "sock_run discipline cs es cl s" "a \<in> set cs" "socks s a = Some sk"
    "ioctl_body wait cmd a sk s = Some (ro, s')"
| suspend: "sock_run discipline cs es cl s'" if "sock_run discipline cs es cl s" "a \<in> set cs"
    "Vxt_Socket.suspend a s = Some (ri, s')"
| close: "sock_run discipline cs es cl s'" if "sock_run discipline cs es cl s" "a \<in> set cs" "close_begin options a s = Some s'"
| leave: "sock_run discipline (remove1 a cs) es cl s'" if "sock_run discipline cs es cl s" "a \<in> set cs"
    "deref_begin a s = Some (False, s')"
| last: "sock_run discipline (remove1 a cs) ([(a, Ending)] # es) cl s'" if "sock_run discipline cs es cl s" "a \<in> set cs"
    "deref_begin a s = Some (True, s')"
| drop: "sock_run discipline cs es (insert a cl) s'" if "sock_run discipline cs es cl s" "discipline \<longrightarrow> a \<notin> cl"
    "deref_begin a s = Some (False, s')"
| drop_last: "sock_run discipline cs ([(a, Ending)] # es) (insert a cl) s'" if "sock_run discipline cs es cl s"
    "discipline \<longrightarrow> a \<notin> cl" "deref_begin a s = Some (True, s')"
| release: "sock_run discipline cs (xs @ st' # ys) cl s'" if "sock_run discipline cs (xs @ st # ys) cl s"
    "release_step st s st' s'"

text \<open>The references of the threads that end a socket: one until it is freed, and that of their lookup.\<close>

fun phase_refs :: "nat \<times> end_phase \<Rightarrow> nat list" where
  "phase_refs (a, Holding b) = [a, b]"
| "phase_refs (a, Suspending b) = [a, b]"
| "phase_refs (a, ph) = [a]"

definition end_refs :: "end_stack list \<Rightarrow> nat list" where
  "end_refs es = concat (map phase_refs (concat es))"

lemma held_simps [simp]:
  "end_refs [] = []" "end_refs (xs @ ys) = end_refs xs @ end_refs ys" "end_refs (st # es) = concat (map phase_refs st) @ end_refs es"
  by (simp_all add: end_refs_def)

text \<open>
  What is known of a thread that ends socket \<open>a\<close>: the socket is closed, no call on it is in progress,
  the lookup has found the socket itself, and once suspended it is not connected any more.
\<close>

fun phase_ok :: "'k sock_lib \<Rightarrow> nat \<times> end_phase \<Rightarrow> bool" where
  "phase_ok s (a, Ending) = True"
| "phase_ok s (a, Holding b) = (b = a)"
| "phase_ok s (a, Suspending b) = (b = a \<and> (\<forall>sk. socks s a = Some sk \<longrightarrow> sstate sk \<noteq> VXT_SOCKET_CONNECTED))"
| "phase_ok s (a, ph) = (\<forall>sk. socks s a = Some sk \<longrightarrow> sstate sk \<noteq> VXT_SOCKET_CONNECTED)"

definition ends_ok :: "nat list \<Rightarrow> end_stack list \<Rightarrow> nat set \<Rightarrow> 'k sock_lib \<Rightarrow> bool" where
  "ends_ok cs es cl s \<longleftrightarrow> distinct (map fst (concat es)) \<and> (\<forall>st \<in> set es. length st \<le> 1)
     \<and> (\<forall>p \<in> set (concat es). fst p \<in> cl \<and> fst p \<notin> set cs \<and> phase_ok s p)"

lemma phase_ok_frame: "phase_ok s p \<Longrightarrow> socks s' (fst p) = socks s (fst p) \<Longrightarrow> phase_ok s' p"
  by (cases "(s, p)" rule: phase_ok.cases) auto

lemma phase_refs_fst [simp]: "fst p \<in> set (phase_refs p)"
  by (cases p rule: phase_refs.cases) auto

text \<open>Steps of other threads, which leave the ending sockets alone.\<close>

lemma ends_frame:
  assumes e: "ends_ok cs es cl s" and "set cs' \<subseteq> insert a (set cs)" and "cl \<subseteq> cl'"
    and a: "a \<notin> fst ` set (concat es)" and f: "\<And>b. b \<in> fst ` set (concat es) \<Longrightarrow> b \<noteq> a \<Longrightarrow> socks s' b = socks s b"
  shows "ends_ok cs' es cl' s'"
  unfolding ends_ok_def
proof (intro conjI ballI)
  fix p assume p: "p \<in> set (concat es)"
  then have i: "fst p \<in> fst ` set (concat es)" by simp
  have ne: "fst p \<noteq> a" using a i by metis
  from e p have "fst p \<in> cl" "fst p \<notin> set cs" "phase_ok s p" by (auto simp: ends_ok_def)
  with ne assms(2,3) f [OF i ne] show "fst p \<in> cl'" "fst p \<notin> set cs'" "phase_ok s' p" by (auto intro: phase_ok_frame)
qed (use e in \<open>auto simp: ends_ok_def\<close>)

lemma ends_calls: "ends_ok cs es cl s \<Longrightarrow> a \<in> set cs \<or> a \<notin> cl \<Longrightarrow> a \<notin> fst ` set (concat es)"
  by (force simp: ends_ok_def)

lemma ends_held: "ends_ok cs es cl s \<Longrightarrow> set (end_refs es) = fst ` set (concat es)"
proof -
  assume e: "ends_ok cs es cl s"
  have "set (phase_refs p) = {fst p}" if "p \<in> set (concat es)" for p
  proof -
    from e that have "phase_ok s p" unfolding ends_ok_def by blast
    then show ?thesis by (cases p rule: phase_refs.cases) auto
  qed
  then show ?thesis by (auto simp: end_refs_def)
qed


definition run_ok :: "nat list \<Rightarrow> end_stack list \<Rightarrow> nat set \<Rightarrow> 'k sock_lib \<Rightarrow> bool" where
  "run_ok cs es cl s \<longleftrightarrow> refs_ok (cs @ end_refs es) cl s \<and> ends_ok cs es cl s"

lemma run_okD:
  assumes "run_ok cs es cl s"
  shows "refs_ok (cs @ end_refs es) cl s" "ends_ok cs es cl s" "sock_ok s" "table_ok s" "\<not> socket_lock s"
    "a \<in> set cs \<Longrightarrow> \<exists>sk. socks s a = Some sk" "a \<in> fst ` set (concat es) \<Longrightarrow> \<exists>sk. socks s a = Some sk"
    "a \<in> fst ` set (concat es) \<Longrightarrow> a \<in> cl"
  using assms refs_okD [of "cs @ end_refs es" cl s] ends_held [of cs es cl s] unfolding run_ok_def by (auto simp: ends_ok_def)

lemma run_work:
  assumes r: "run_ok cs es cl s" and a: "a \<in> set cs" and w: "works a s s'"
  shows "run_ok cs es cl s'"
proof -
  have "a \<notin> fst ` set (concat es)" using ends_calls [OF run_okD(2) [OF r]] a by blast
  moreover obtain tk where "socks s' = (socks s)(a \<mapsto> tk)" using works_frame [OF w] by metis
  ultimately have "ends_ok cs es cl s'" by (intro ends_frame [OF run_okD(2) [OF r]]) auto
  with refs_work [OF run_okD(1) [OF r] w] show ?thesis by (simp add: run_ok_def)
qed

lemma deref_begin_cases:
  assumes "\<not> socket_lock s" and "deref_begin a s = Some (final, s')"
  obtains sk where "socks s a = Some sk" "final = (\<not> 1 < ref_cnt sk)"
    "s' = (if final then s else set_sock a (sk\<lparr>ref_cnt := ref_cnt sk - 1\<rparr>) s)"
  using assms by (auto simp: deref_begin_def vxt_lock_def unlock_set unlock_lock split: bind_splits if_splits)

lemma deref_begin_shared:
  assumes "\<not> socket_lock s" and "deref_begin a s = Some (False, s')"
  shows "vxt_deref_socket a s = Some s'"
  using assms(2) by (elim deref_begin_cases [OF assms(1)]) (simp add: deref_shared [OF assms(1)])

lemma run_create:
  assumes r: "run_ok cs es cl s" and g: "vxt_get_socket s = Some (ret, new, s')"
  shows "run_ok cs es cl s'"
proof -
  obtain b s1 where m: "vxt_malloc s = (b, s1)" by fastforce
  note k = table_simps [OF kept_table(1) [OF kept_malloc [OF m]]]
  have so: "socks s' c = socks s c" if "c \<noteq> next_addr s" for c
    using g m k that get_socket_result [OF run_okD(4) [OF r]] by (cases b) (auto simp: with_new_def split: if_splits)
  have "next_addr s \<notin> fst ` set (concat es)" using run_okD(4,7) [OF r] table_okD(5) by fastforce
  then have "ends_ok cs es cl s'" by (intro ends_frame [OF run_okD(2) [OF r]]) (auto simp: so)
  with refs_create [OF run_okD(1) [OF r] g] show ?thesis by (simp add: run_ok_def)
qed

lemma run_enter:
  assumes r: "run_ok cs es cl s" and f: "vxt_find_socket h False s = Some (Some a, s')" and a: "a \<notin> cl"
  shows "run_ok (a # cs) es cl s'"
proof -
  obtain sk where e: "s' = set_sock a (sk\<lparr>ref_cnt := ref_cnt sk + 1\<rparr>) s" "refs_ok (a # cs @ end_refs es) cl s'"
    using refs_enter [OF run_okD(1) [OF r] f] by metis
  have "ends_ok (a # cs) es cl s'"
    by (rule ends_frame [OF run_okD(2) [OF r], of _ a]) (use a e(1) ends_calls [OF run_okD(2) [OF r]] in auto)
  with e(2) show ?thesis by (simp add: run_ok_def)
qed

lemma run_leave:
  assumes r: "run_ok cs es cl s" and a: "a \<in> set cs" and d: "deref_begin a s = Some (False, s')"
  shows "run_ok (remove1 a cs) es cl s'"
proof -
  note l = run_okD(5) [OF r]
  have "refs_ok (remove1 a (cs @ end_refs es)) cl s'"
    by (rule refs_leave(1) [OF run_okD(1) [OF r] _ deref_begin_shared [OF l d]]) (simp add: a)
  then have "refs_ok (remove1 a cs @ end_refs es) cl s'" using a by (simp add: remove1_append)
  moreover have "ends_ok (remove1 a cs) es cl s'"
    by (rule ends_frame [OF run_okD(2) [OF r], of _ a])
      (use a l d ends_calls [OF run_okD(2) [OF r]] set_remove1_subset [of a cs] in \<open>auto elim!: deref_begin_cases\<close>)
  ultimately show ?thesis by (simp add: run_ok_def)
qed

text \<open>The call that gives up the last reference becomes a thread that ends the socket.\<close>

lemma ends_start:
  assumes e: "ends_ok cs es cl s" and a: "a \<notin> fst ` set (concat es)" and cs: "set cs' \<subseteq> set cs" "a \<notin> set cs'"
    and cl: "cl \<subseteq> cl'" "a \<in> cl'"
  shows "ends_ok cs' ([(a, Ending)] # es) cl' s"
  using assms by (fastforce simp: ends_ok_def)

lemma run_last:
  assumes r: "run_ok cs es cl s" and a: "a \<in> set cs" and d: "deref_begin a s = Some (True, s')"
  shows "run_ok (remove1 a cs) ([(a, Ending)] # es) cl s'"
proof -
  obtain sk where sk: "socks s a = Some sk" "\<not> 1 < ref_cnt sk" "s' = s" using d by (elim deref_begin_cases [OF run_okD(5) [OF r]]) auto
  have n: "count_list (cs @ end_refs es) a = 1" "a \<in> cl"
    using refs_okD(5) [OF run_okD(1) [OF r] sk(1)] sk(2) count_pos [of a cs] a by (auto split: if_splits)
  then have out: "a \<notin> set (remove1 a cs)" using a count_pos [OF a] count_list_remove1 [of a cs a] by (auto simp: count_list_0_iff [symmetric])
  have "refs_ok (remove1 a cs @ end_refs ([(a, Ending)] # es)) cl s"
    by (rule refs_perm [OF run_okD(1) [OF r]]) (use a count_pos [OF a] in \<open>auto simp: count_list_remove1\<close>)
  moreover have "ends_ok (remove1 a cs) ([(a, Ending)] # es) cl s"
    by (rule ends_start [OF run_okD(2) [OF r]]) (use out a n(2) ends_calls [OF run_okD(2) [OF r]] set_remove1_subset [of a cs] in auto)
  ultimately show ?thesis using sk(3) by (simp add: run_ok_def)
qed

lemma run_drop:
  assumes r: "run_ok cs es cl s" and a: "a \<notin> cl" and d: "deref_begin a s = Some (False, s')"
  shows "run_ok cs es (insert a cl) s'"
proof -
  note l = run_okD(5) [OF r]
  obtain sk where sk: "socks s a = Some sk" "1 < ref_cnt sk" using d by (elim deref_begin_cases [OF l]) auto
  then have "0 < count_list (cs @ end_refs es) a" using refs_okD(5) [OF run_okD(1) [OF r] sk(1)] a by (simp del: count_list_append)
  then have m: "a \<in> set (cs @ end_refs es)" using count_list_0_iff [of "cs @ end_refs es" a] by auto
  have "refs_ok (cs @ end_refs es) (insert a cl) s'"
    using refs_drop [OF run_okD(1) [OF r] m a] deref_begin_shared [OF l d] by auto
  moreover have "ends_ok cs es (insert a cl) s'"
    by (rule ends_frame [OF run_okD(2) [OF r], of _ a])
      (use a l d ends_calls [OF run_okD(2) [OF r]] in \<open>auto elim!: deref_begin_cases\<close>)
  ultimately show ?thesis by (simp add: run_ok_def)
qed

lemma run_drop_last:
  assumes r: "run_ok cs es cl s" and a: "a \<notin> cl" and d: "deref_begin a s = Some (True, s')"
  shows "run_ok cs ([(a, Ending)] # es) (insert a cl) s'"
proof -
  note l = run_okD(5) [OF r]
  obtain sk where sk: "socks s a = Some sk" "\<not> 1 < ref_cnt sk" "s' = s" using d by (elim deref_begin_cases [OF l]) auto
  have n: "ref_cnt sk = 1" "count_list (cs @ end_refs es) a = 0"
    using refs_okD(5) [OF run_okD(1) [OF r] sk(1)] sk(2) a by auto
  have out: "a \<notin> set cs" using n(2) by (simp add: count_list_0_iff)
  have "refs_ok (cs @ a # end_refs es) (insert a cl) (set_sock a (sk\<lparr>ref_cnt := 1\<rparr>) s)"
  proof (rule refs_count [OF run_okD(1) [OF r] sk(1)])
    show "set (cs @ a # end_refs es) \<subseteq> dom (socks s)" using run_okD(1) [OF r] sk(1) by (auto simp: refs_ok_def)
    show "\<forall>b \<in> insert a cl. b < next_addr s"
      using run_okD(1) [OF r] table_okD(5) [OF run_okD(4) [OF r] sk(1)] by (auto simp: refs_ok_def)
  qed (use n in auto)
  then have "refs_ok (cs @ a # end_refs es) (insert a cl) s" using n(1) sk(1) by (simp add: same_ref set_same)
  moreover have "ends_ok cs ([(a, Ending)] # es) (insert a cl) s"
    by (rule ends_start [OF run_okD(2) [OF r]]) (use out a ends_calls [OF run_okD(2) [OF r]] in auto)
  ultimately show ?thesis using sk(3) by (simp add: run_ok_def)
qed


lemma close_begin_frame:
  assumes ok: "refs_ok cs cl s" and a: "socks s a = Some sk" and c: "close_begin options a s = Some s'" and "b \<noteq> a"
  shows "socks s' b = socks s b"
  using assms shutdown_result [OF ok a] table_simps(1) [OF more_table [OF disconnect_more]]
  by (fastforce simp: close_begin_def split: bind_splits if_splits)

text \<open>A step of the end of a socket, which is the only stack entry of its thread.\<close>

lemma ends_step:
  assumes e: "ends_ok cs (xs @ [(a, ph)] # ys) cl s" and ph: "phase_ok s' (a, ph')"
    and f: "\<And>b. b \<noteq> a \<Longrightarrow> socks s' b = socks s b"
  shows "ends_ok cs (xs @ [(a, ph')] # ys) cl s'"
  unfolding ends_ok_def
proof (intro conjI ballI)
  show "distinct (map fst (concat (xs @ [(a, ph')] # ys)))" using e by (auto simp: ends_ok_def)
  show "length st \<le> 1" if "st \<in> set (xs @ [(a, ph')] # ys)" for st using e that by (auto simp: ends_ok_def)
next
  fix p assume p: "p \<in> set (concat (xs @ [(a, ph')] # ys))"
  show "fst p \<in> cl" "fst p \<notin> set cs" using e p by (auto simp: ends_ok_def)
  show "phase_ok s' p"
  proof (cases "p = (a, ph')")
    case False
    with p have q: "p \<in> set (concat xs @ concat ys)" by auto
    moreover have "fst p \<noteq> a" using e q by (force simp: ends_ok_def)
    moreover have "phase_ok s p" using e q by (auto simp: ends_ok_def)
    ultimately show ?thesis using f by (auto intro: phase_ok_frame)
  qed (use ph in simp)
qed

lemma ends_alone:
  assumes e: "ends_ok cs (xs @ [(a, ph)] # ys) cl s"
  shows "a \<notin> fst ` set (concat (xs @ [] # ys))"
proof
  assume "a \<in> fst ` set (concat (xs @ [] # ys))"
  then obtain p where "p \<in> set (concat xs) \<union> set (concat ys)" "fst p = a" by auto
  with e show False by (force simp: ends_ok_def)
qed

lemma ends_done:
  assumes e: "ends_ok cs (xs @ [(a, ph)] # ys) cl s" and f: "\<And>b. b \<noteq> a \<Longrightarrow> socks s' b = socks s b"
  shows "ends_ok cs (xs @ [] # ys) cl s'"
  unfolding ends_ok_def
proof (intro conjI ballI)
  show "distinct (map fst (concat (xs @ [] # ys)))" using e by (auto simp: ends_ok_def)
  show "length st \<le> 1" if "st \<in> set (xs @ [] # ys)" for st using e that by (auto simp: ends_ok_def)
next
  fix p assume p: "p \<in> set (concat (xs @ [] # ys))"
  show "fst p \<in> cl" "fst p \<notin> set cs" using e p by (auto simp: ends_ok_def)
  have "fst p \<noteq> a" using e p by (force simp: ends_ok_def)
  moreover have "phase_ok s p" using e p by (auto simp: ends_ok_def)
  ultimately show "phase_ok s' p" using f by (auto intro: phase_ok_frame)
qed

text \<open>The disconnection at the end is one that a socket that is not connected survives.\<close>

lemma disconnect_works:
  assumes ok: "sock_ok s" and a: "socks s a = Some sk" and st: "sstate sk \<noteq> VXT_SOCKET_CONNECTED"
    and d: "end_disconnect a s = Some s'"
  shows "works a s s'" and "socks s' = socks s"
proof -
  have "table s' = table s \<and> sock_ok s' \<and> next_addr s' = next_addr s"
    using d a ok disconnect_ok [OF ok a st] disconnect_next_addr by (fastforce simp: end_disconnect_def split: if_splits)
  then show "works a s s'" "socks s' = socks s" using a set_same [OF a] table_simps(1) [of s' s]
    by (auto simp: works_def sock_ok_def intro!: exI [of _ sk])
qed

lemma run_release:
  assumes r: "run_ok cs (xs @ st # ys) cl s" and d: "release_step st s st' s'"
  shows "run_ok cs (xs @ st' # ys) cl s'"
proof -
  note refs = run_okD(1) [OF r] and ends = run_okD(2) [OF r] and l = run_okD(5) [OF r]
  from d have "st \<noteq> []" by cases auto
  moreover have "length st \<le> 1" using ends by (simp add: ends_ok_def)
  ultimately obtain a ph where st: "st = [(a, ph)]" by (cases st) auto
  have pa: "phase_ok s (a, ph)" "a \<in> cl" "a \<notin> set cs" using ends by (auto simp: st ends_ok_def)
  obtain sk where a: "socks s a = Some sk" using run_okD(7) [OF r, of a] by (auto simp: st)
  from d [unfolded st] show ?thesis
  proof cases
    case (find tk b)
    obtain uk where e: "socks s b = Some uk" "handle uk = handle tk" "s' = set_sock b (uk\<lparr>ref_cnt := ref_cnt uk + 1\<rparr>) s"
        "refs_ok (b # cs @ end_refs (xs @ st # ys)) cl s'" using refs_enter [OF refs find(4)] by metis
    have b: "b = a" using table_okD(8) [OF run_okD(4) [OF r] e(1) find(3)] e(2) by simp
    have "refs_ok (cs @ end_refs (xs @ st' # ys)) cl s'"
      by (rule refs_perm [OF e(4)]) (simp add: st find(1,2) b)
    moreover have "ends_ok cs (xs @ [(a, Holding b)] # ys) cl s'" by (rule ends_step [OF ends [unfolded st]]) (simp_all add: b e(3))
    ultimately show ?thesis using find(1,2) by (simp add: run_ok_def)
  next
    case (miss tk s1)
    from find_socket_hit [OF run_okD(4) [OF r] miss(4)] miss(5) show ?thesis by simp
  next
    case (suspend b ret)
    with pa have b: "b = a" by simp
    with suspend_result [OF a] suspend have s': "s' = set_sock a (suspended sk) s" by simp
    have "refs_ok (cs @ end_refs (xs @ st # ys)) cl s'" unfolding s' by (rule refs_work [OF refs suspend_works [OF run_okD(3) [OF r] a]])
    then have "refs_ok (cs @ end_refs (xs @ st' # ys)) cl s'" by (simp add: st suspend(1,2))
    moreover have "ends_ok cs (xs @ [(a, Suspending b)] # ys) cl s'"
      by (rule ends_step [OF ends [unfolded st]]) (simp_all add: b s')
    ultimately show ?thesis using suspend(1,2) by (simp add: run_ok_def)
  next
    case (leave b)
    with pa have b: "b = a" "sstate sk \<noteq> VXT_SOCKET_CONNECTED" using a by auto
    from leave obtain s1: "s' = set_sock a (sk\<lparr>ref_cnt := ref_cnt sk - 1\<rparr>) s" using a b
      by (elim deref_begin_cases [OF l]) auto
    have "refs_ok (remove1 a (cs @ end_refs (xs @ st # ys))) cl s'"
      by (rule refs_leave(1) [OF refs _ deref_begin_shared [OF l]]) (use leave b in \<open>simp_all add: st\<close>)
    then have "refs_ok (cs @ end_refs (xs @ st' # ys)) cl s'"
      by (rule refs_perm) (auto simp: st leave(1,2) b count_list_remove1)
    moreover have "ends_ok cs (xs @ [(a, Dropped)] # ys) cl s'"
      by (rule ends_step [OF ends [unfolded st]]) (use b in \<open>simp_all add: s1\<close>)
    ultimately show ?thesis using leave(1,2) by (simp add: run_ok_def)
  next
    case (nest b)
    with pa have b: "b = a" by simp
    have "2 \<le> count_list (cs @ end_refs (xs @ st # ys)) a" by (simp add: st nest(1) b)
    then have "1 < ref_cnt sk" using refs_okD(5) [OF refs a] pa(2) by simp
    with nest a b show ?thesis by (elim deref_begin_cases [OF l]) auto
  next
    case sever
    have ne: "sstate sk \<noteq> VXT_SOCKET_CONNECTED" using pa a sever(1) by auto
    note w = disconnect_works [OF run_okD(3) [OF r] a ne sever(3)]
    from refs_work [OF refs w(1)] have "refs_ok (cs @ end_refs (xs @ st' # ys)) cl s'" by (simp add: st sever)
    moreover have "ends_ok cs (xs @ [(a, Severed)] # ys) cl s'"
      by (rule ends_step [OF ends [unfolded st]]) (use ne a w(2) in simp_all)
    ultimately show ?thesis using sever(1,2) by (simp add: run_ok_def)
  next
    case free
    have ne: "sstate sk \<noteq> VXT_SOCKET_CONNECTED" using pa a free(1) by auto
    have s': "s' = free_sock a s" using free(3) a free_socket_result [OF run_okD(4) [OF r] a ne] by (simp add: end_free_def)
    have e: "ends_ok cs (xs @ [] # ys) cl s'" by (rule ends_done [OF ends [unfolded st]]) (simp add: s' free_sock_def)
    have "a \<notin> fst ` set (concat (xs @ [] # ys))" by (rule ends_alone [OF ends [unfolded st]])
    then have out: "a \<notin> set (cs @ end_refs (xs @ [] # ys))" using ends_held [OF e] pa(3) by simp
    have sub: "set (cs @ end_refs (xs @ st # ys)) = insert a (set (cs @ end_refs (xs @ [] # ys)))" by (auto simp: st free(1))
    have c: "count_list (cs @ end_refs (xs @ [] # ys)) b = count_list (cs @ end_refs (xs @ st # ys)) b" if "b \<noteq> a" for b
      using that by (simp add: st free(1))
    have "refs_ok (cs @ end_refs (xs @ [] # ys)) cl s'"
      unfolding refs_ok_def
    proof (intro conjI allI impI)
      show "sock_ok s'" using free_ok [OF run_okD(3) [OF r]] s' by simp
      show "set (cs @ end_refs (xs @ [] # ys)) \<subseteq> dom (socks s')"
        using refs out sub by (auto simp: refs_ok_def s' free_sock_def)
      show "\<forall>b \<in> cl. b < next_addr s'" using refs by (auto simp: refs_ok_def s' free_sock_def)
      show "dom (socks s') \<inter> cl \<subseteq> set (cs @ end_refs (xs @ [] # ys))"
        using refs sub by (auto simp: refs_ok_def s' free_sock_def)
      fix b tk assume b: "socks s' b = Some tk"
      then have "b \<noteq> a" "socks s b = Some tk" by (auto simp: s' free_sock_def split: if_splits)
      with refs_okD(5) [OF refs this(2)] c show "ref_cnt tk = int (count_list (cs @ end_refs (xs @ [] # ys)) b) + (if b \<in> cl then 0 else 1)"
        by simp
    qed
    with e free(2) show ?thesis by (simp add: run_ok_def)
  qed
qed

lemma refs_init:
  assumes "socks s = (\<lambda>_. None)" and "live_sockets s = []" and "socket_handles s = 1" and "\<not> socket_lock s"
    and "lib_ok s" and "0 < next_addr s"
  shows "refs_ok [] {} s"
  using assms by (simp add: refs_ok_def sock_ok_def table_ok_def owned_def)

lemma sock_run_ok:
  assumes "sock_run True cs es cl s"
  shows "run_ok cs es cl s"
  using assms
proof (induction rule: sock_run.induct)
  case (init s)
  then show ?case by (simp add: run_ok_def refs_init ends_ok_def)
next
  case (suspend cs es cl s a ri s')
  then obtain sk where a: "socks s a = Some sk" by (auto dest: run_okD(6))
  with suspend suspend_result [OF a] show ?case by (auto intro: run_work suspend_works run_okD)
next
  case (close cs es cl s a options s')
  then obtain sk where a: "socks s a = Some sk" by (auto dest: run_okD(6))
  have out: "a \<notin> fst ` set (concat es)" using ends_calls [OF run_okD(2) [OF close.IH]] close.hyps(2) by blast
  have r: "refs_ok (cs @ end_refs es) cl s'" by (rule close_begin_refs [OF run_okD(1) [OF close.IH] a close.hyps(3)])
  have "ends_ok cs es cl s'"
    by (rule ends_frame [OF run_okD(2) [OF close.IH] _ _ out close_begin_frame [OF run_okD(1) [OF close.IH] a close.hyps(3)]]) auto
  with r show ?case by (simp add: run_ok_def)
next
  case (create cs es cl s ret new s')
  from run_create [OF create.IH create.hyps(2)] show ?case .
next
  case (enter cs es cl s h a s')
  from run_enter [OF enter.IH enter.hyps(2)] enter.hyps(3) show ?case by simp
next
  case (bind cs es cl s a sk ep ri s')
  show ?case by (rule run_work [OF bind.IH bind.hyps(2) bind_body_works [OF run_okD(3) [OF bind.IH] bind.hyps(3,4)]])
next
  case (connect cs es cl s a sk ep ri s')
  show ?case by (rule run_work [OF connect.IH connect.hyps(2) connect_works [OF run_okD(3) [OF connect.IH] connect.hyps(3,4)]])
next
  case (listen cs es cl s a sk ri s')
  show ?case by (rule run_work [OF listen.IH listen.hyps(2) listen_works [OF run_okD(3) [OF listen.IH] listen.hyps(3,4)]])
next
  case (send cs es cl s a sk later wait buffer len flags rs s')
  show ?case by (rule run_work [OF send.IH send.hyps(2) send_works [OF run_okD(3) [OF send.IH] send.hyps(3,4)]])
next
  case (recv cs es cl s a sk later wait len flags rr s')
  show ?case by (rule run_work [OF recv.IH recv.hyps(2) recv_works [OF run_okD(3) [OF recv.IH] recv.hyps(3,4)]])
next
  case (ioctl cs es cl s a sk wait cmd ro s')
  show ?case by (rule run_work [OF ioctl.IH ioctl.hyps(2) ioctl_works [OF run_okD(3) [OF ioctl.IH] ioctl.hyps(3,4)]])
next
  case (leave cs es cl s a s')
  from run_leave [OF leave.IH leave.hyps(2,3)] show ?case .
next
  case (last cs es cl s a s')
  from run_last [OF last.IH last.hyps(2,3)] show ?case .
next
  case (drop cs es cl s a s')
  from run_drop [OF drop.IH _ drop.hyps(3)] drop.hyps(2) show ?case by simp
next
  case (drop_last cs es cl s a s')
  from run_drop_last [OF drop_last.IH _ drop_last.hyps(3)] drop_last.hyps(2) show ?case by simp
next
  case (release cs xs st ys cl s st' s')
  from run_release [OF release.IH release.hyps(2)] show ?case .
qed

end
