(* ===== verification/Vxt_Socket_Claims.thy ===== *)
theory Vxt_Socket_Claims
  imports Vxt_Socket_Run Vxt_Stream
begin

text \<open>
  What the socket interface and the message devices promise: calls in progress and references, the
  whole interface, transfers through sockets, resources, and the ways in which they fail.
\<close>

subsection \<open>Transfers through sockets\<close>

lemma dev_send_set:
  fixes s :: "'k sock_lib"
  shows "dev_send later wait c buffer len flags (set_sock a x s) =
    map_option (\<lambda>(n, ret, s'). (n, ret, set_sock a x s')) (dev_send later wait c buffer len flags s)"
  by (auto simp: dev_send_def set_sock_def set_dev_def split: bind_splits option.splits)

lemma dev_rcv_set:
  fixes s :: "'k sock_lib"
  shows "dev_rcv later wait c len flags (set_sock a x s) =
    map_option (\<lambda>(bytes, n, ret, s'). (bytes, n, ret, set_sock a x s')) (dev_rcv later wait c len flags s)"
  by (auto simp: dev_rcv_def set_sock_def set_dev_def split: bind_splits option.splits)

lemma set_sock_errno: "(set_sock a x s)\<lparr>errno := e\<rparr> = set_sock a x (s\<lparr>errno := e\<rparr>)"
  by (simp add: set_sock_def)

lemma restored:
  assumes "socks s a = Some sk" and "table s' = table s"
  shows "set_sock a (sk\<lparr>ref_cnt := ref_cnt sk\<rparr>) s' = s'"
  using assms(1) table_simps(1) [OF assms(2)] by (simp add: same_ref set_same)


text \<open>On a connected socket a transfer is the one of its device.\<close>

lemma send_connected:
  assumes ok: "refs_ok cs cl s" and a: "socks s a = Some sk" "a \<notin> cl" and st: "sstate sk = VXT_SOCKET_CONNECTED"
  shows "vxt_send later wait (handle sk) buffer len flags s =
    map_option (\<lambda>(n, ret, s'). if ret = VXT_SUCCESS \<or> ret = VXT_BUF_SPACE then ((n, n), s')
      else ((- 1, n), s'\<lparr>errno := send_errno ret\<rparr>)) (dev_send later wait (sdev sk) buffer len flags s)"
proof (cases "dev_send later wait (sdev sk) buffer len flags s")
  case None
  with st show ?thesis
    by (simp add: vxt_send_def send_call.call_returns [OF ok a] send_body_def dev_send_set)
next
  case (Some x)
  then obtain n ret s1 where d: "dev_send later wait (sdev sk) buffer len flags s = Some (n, ret, s1)" by (metis prod_cases3)
  have t: "table s1 = table s" by (rule kept_table [OF kept_dev_send [OF d]])
  have "table (s1\<lparr>errno := e\<rparr>) = table s" for e using t by (simp add: table_def)
  with d st restored [OF a(1) t] restored [OF a(1), of "s1\<lparr>errno := e\<rparr>" for e] show ?thesis
    by (auto simp: vxt_send_def send_call.call_returns [OF ok a] send_body_def dev_send_set set_sock_errno)
qed

lemma recv_connected:
  assumes ok: "refs_ok cs cl s" and a: "socks s a = Some sk" "a \<notin> cl" and st: "sstate sk = VXT_SOCKET_CONNECTED"
    and d: "dev_rcv later wait (sdev sk) len flags (s\<lparr>errno := 0\<rparr>) = Some (bytes, n, ret, s1)"
    and ret: "ret = VXT_SUCCESS \<or> ret = VXT_BUF_SPACE"
  shows "vxt_recv later wait (handle sk) len flags s =
    Some ((n, bytes, n), if ret = VXT_SUCCESS then s1 else s1\<lparr>errno := EAGAIN\<rparr>)"
proof -
  have t: "table s1 = table s" using kept_table(1) [OF kept_dev_rcv [OF d]] by (simp add: table_def)
  have "table (s1\<lparr>errno := e\<rparr>) = table s" for e using t by (simp add: table_def)
  with d ret st restored [OF a(1) t] restored [OF a(1), of "s1\<lparr>errno := e\<rparr>" for e] show ?thesis
    by (auto simp: vxt_recv_def recv_call.call_returns [OF ok a] recv_body_def dev_rcv_set set_sock_errno)
qed


text \<open>A connected socket that sends through region \<open>r\<close>, and one that receives through it.\<close>

definition sends_through :: "'k sock_lib \<Rightarrow> nat \<Rightarrow> vxt_sock \<Rightarrow> msg_device \<Rightarrow> nat \<Rightarrow> shm \<Rightarrow> bool" where
  "sends_through s a sk d r m \<longleftrightarrow> socks s a = Some sk \<and> sstate sk = VXT_SOCKET_CONNECTED
     \<and> (\<exists>c. sdev sk = Some c \<and> devs s c = Some d) \<and> sendq_set d \<and> send_buf d = Some r \<and> regions s r = Some m"

definition receives_through :: "'k sock_lib \<Rightarrow> nat \<Rightarrow> vxt_sock \<Rightarrow> msg_device \<Rightarrow> nat \<Rightarrow> shm \<Rightarrow> bool" where
  "receives_through s a sk d r m \<longleftrightarrow> socks s a = Some sk \<and> sstate sk = VXT_SOCKET_CONNECTED
     \<and> (\<exists>c. sdev sk = Some c \<and> devs s c = Some d) \<and> rcvq_set d \<and> rcv_buf d = Some r \<and> regions s r = Some m"

text \<open>The bytes \<open>T\<close> are in transit from socket \<open>a\<close> to socket \<open>b\<close>.\<close>

definition linked :: "'k sock_lib \<Rightarrow> nat \<Rightarrow> nat \<Rightarrow> 8 word list \<Rightarrow> bool" where
  "linked s a b T \<longleftrightarrow> (\<exists>sk d r m tk e. sends_through s a sk d r m \<and> receives_through s b tk e r m
     \<and> stream (vxt_msg_dev_instance.truncate d) (vxt_msg_dev_instance.truncate e) m T)"

lemma truncate_put [simp]: "vxt_msg_dev_instance.truncate (put_instance i d) = i"
  by (cases i) (simp add: put_instance_def vxt_msg_dev_instance.truncate_def)

lemma truncate_fields [simp]:
  "sendq (vxt_msg_dev_instance.truncate d) = sendq d" "rcvq (vxt_msg_dev_instance.truncate d) = rcvq d"
  "partial_send (vxt_msg_dev_instance.truncate d) = partial_send d" "partial_rcv (vxt_msg_dev_instance.truncate d) = partial_rcv d"
  by (simp_all add: vxt_msg_dev_instance.truncate_def)

lemma put_fields [simp]:
  "sendq_set (put_instance i d) = sendq_set d" "rcvq_set (put_instance i d) = rcvq_set d"
  "send_buf (put_instance i d) = send_buf d" "rcv_buf (put_instance i d) = rcv_buf d"
  "sendq (put_instance i d) = sendq i" "rcvq (put_instance i d) = rcvq i"
  "partial_send (put_instance i d) = partial_send i" "partial_rcv (put_instance i d) = partial_rcv i"
  by (simp_all add: put_instance_def)

lemma stream_cong:
  assumes "stream a b m T" and "sendq a' = sendq a" "partial_send a' = partial_send a"
    and "rcvq b' = rcvq b" "partial_rcv b' = partial_rcv b"
  shows "stream a' b' m T"
  using assms by (simp add: stream_def)

lemma linked_send_step:
  assumes a: "sends_through s a sk d r m" and b: "receives_through s b tk e r m"
    and c: "sdev sk = Some c" "devs s c = Some d"
    and u: "stream i (vxt_msg_dev_instance.truncate e) m' U" and i: "rcvq i = rcvq d" "partial_rcv i = partial_rcv d"
  shows "linked ((set_dev c (put_instance i d) s)\<lparr>regions := (regions s)(r \<mapsto> m')\<rparr>) a b U"
proof -
  from b obtain c' where c': "sdev tk = Some c'" "devs s c' = Some e" by (auto simp: receives_through_def)
  let ?s = "(set_dev c (put_instance i d) s)\<lparr>regions := (regions s)(r \<mapsto> m')\<rparr>"
  let ?e = "if c' = c then put_instance i d else e"
  have "sends_through ?s a sk (put_instance i d) r m'" using a c by (auto simp: sends_through_def set_dev_def)
  moreover have "receives_through ?s b tk ?e r m'" using b c c' by (auto simp: receives_through_def set_dev_def)
  moreover have "stream (vxt_msg_dev_instance.truncate (put_instance i d)) (vxt_msg_dev_instance.truncate ?e) m' U"
    using c c' i by (auto intro: stream_cong [OF u])
  ultimately show ?thesis unfolding linked_def by blast
qed

lemma linked_rcv_step:
  assumes a: "sends_through s a sk d r m" and b: "receives_through s b tk e r m"
    and c: "sdev tk = Some c" "devs s c = Some e"
    and u: "stream (vxt_msg_dev_instance.truncate d) i m' U" and i: "sendq i = sendq e" "partial_send i = partial_send e"
  shows "linked ((set_dev c (put_instance i e) s)\<lparr>regions := (regions s)(r \<mapsto> m')\<rparr>) a b U"
proof -
  from a obtain c' where c': "sdev sk = Some c'" "devs s c' = Some d" by (auto simp: sends_through_def)
  let ?s = "(set_dev c (put_instance i e) s)\<lparr>regions := (regions s)(r \<mapsto> m')\<rparr>"
  let ?d = "if c' = c then put_instance i e else d"
  have "receives_through ?s b tk (put_instance i e) r m'" using b c by (auto simp: receives_through_def set_dev_def)
  moreover have "sends_through ?s a sk ?d r m'" using a c c' by (auto simp: sends_through_def set_dev_def)
  moreover have "stream (vxt_msg_dev_instance.truncate ?d) (vxt_msg_dev_instance.truncate (put_instance i e)) m' U"
    using c c' i by (auto intro: stream_cong [OF u])
  ultimately show ?thesis unfolding linked_def by blast
qed

lemma dev_send_linked:
  assumes l: "linked s a b T" and a: "sends_through s a sk d r m"
    and f: "plain_flags flags" "get_allowed flags (sendq d) m" "cookie_ok (cookies s r) later (vxt_msg_dev_instance.truncate d)"
    and len: "0 \<le> len" "len \<le> int (length buffer)"
  obtains n st s' where "dev_send later wait (sdev sk) buffer len flags s = Some (n, st, s')"
    "if st = VXT_RSRC then n = len \<and> linked s' a b T
     else 0 \<le> n \<and> n \<le> len \<and> linked s' a b (T @ take (nat n) buffer) \<and> st = (if n = len then VXT_SUCCESS else VXT_BUF_SPACE)"
proof -
  from l a obtain tk e where b: "receives_through s b tk e r m"
      and str: "stream (vxt_msg_dev_instance.truncate d) (vxt_msg_dev_instance.truncate e) m T"
    by (auto simp: linked_def sends_through_def)
  from a obtain c where c: "sdev sk = Some c" "devs s c = Some d" by (auto simp: sends_through_def)
  have "get_allowed flags (sendq (vxt_msg_dev_instance.truncate d)) m" using f(2) by simp
  from send_appends [OF str f(1) this f(3) len, of wait] obtain i m' n st where
    snd: "vxt_msg_send (cookies s r) later wait (vxt_msg_dev_instance.truncate d) m buffer len flags = Some (i, m', n, st)"
    and i: "rcvq i = rcvq d" "partial_rcv i = partial_rcv d"
    and res: "if st = VXT_RSRC then n = len \<and> stream i (vxt_msg_dev_instance.truncate e) m' T
        else 0 \<le> n \<and> n \<le> len \<and> stream i (vxt_msg_dev_instance.truncate e) m' (T @ take (nat n) buffer)
          \<and> st = (if n = len then VXT_SUCCESS else VXT_BUF_SPACE)"
    by (auto simp: stream_send_def)
  let ?s = "(set_dev c (put_instance i d) s)\<lparr>regions := (regions s)(r \<mapsto> m')\<rparr>"
  have d: "dev_send later wait (sdev sk) buffer len flags s = Some (n, st, ?s)"
    using a c snd by (simp add: sends_through_def dev_send_def)
  have "linked ?s a b U" if u: "stream i (vxt_msg_dev_instance.truncate e) m' U" for U
    by (rule linked_send_step [OF a b c u i])
  with d res show thesis by (intro that) (auto split: if_splits)
qed


lemma dev_rcv_linked:
  assumes l: "linked s a b T" and b: "receives_through s b tk e r m"
    and f: "plain_flags flags" "get_allowed flags (rcvq e) m" "cookie_ok (cookies s r) later (vxt_msg_dev_instance.truncate e)"
    and len: "0 \<le> len"
  obtains data n st s' T' where "dev_rcv later wait (sdev tk) len flags s = Some (data, n, st, s')"
    "linked s' a b T'" "T = data @ T'" "n = int (length data)" "n \<le> len"
    "n = len \<and> st = VXT_SUCCESS \<or> n < len \<and> (st = VXT_BUF_SPACE \<or> n = 0 \<and> st = VXT_SUCCESS)"
proof -
  from l b obtain sk d where a: "sends_through s a sk d r m"
      and str: "stream (vxt_msg_dev_instance.truncate d) (vxt_msg_dev_instance.truncate e) m T"
    by (auto simp: linked_def receives_through_def)
  from b obtain c where c: "sdev tk = Some c" "devs s c = Some e" by (auto simp: receives_through_def)
  have "get_allowed flags (rcvq (vxt_msg_dev_instance.truncate e)) m" using f(2) by simp
  from rcv_takes [OF str f(1) this f(3) len, of wait] obtain i m' data n st T' where
    rcv: "vxt_msg_rcv (cookies s r) later wait (vxt_msg_dev_instance.truncate e) m len flags = Some (i, m', data, n, st)"
    and i: "sendq i = sendq e" "partial_send i = partial_send e"
    and res: "stream (vxt_msg_dev_instance.truncate d) i m' T'" "T = data @ T'" "n = int (length data)" "n \<le> len"
      "n = len \<and> st = VXT_SUCCESS \<or> n < len \<and> (st = VXT_BUF_SPACE \<or> n = 0 \<and> st = VXT_SUCCESS)"
    unfolding stream_rcv_def by auto
  have d: "dev_rcv later wait (sdev tk) len flags s =
      Some (data, n, st, (set_dev c (put_instance i e) s)\<lparr>regions := (regions s)(r \<mapsto> m')\<rparr>)"
    using b c rcv by (simp add: receives_through_def dev_rcv_def)
  from that [OF d linked_rcv_step [OF a b c res(1) i] res(2-5)] show thesis .
qed


text \<open>
  C18: A send on a connected socket that may not sleep, on a queue that is not stopped, returns; it
  appends what it reports as sent to the bytes in transit to the receiving socket and leaves all
  sockets as they were. When no sub-buffer is free it reports an error and sends nothing.
\<close>

theorem socket_send_appends:
  assumes ok: "refs_ok cs cl s" and l: "linked s a b T" and a: "sends_through s a sk d r m" "a \<notin> cl"
    and f: "plain_flags flags" "get_allowed flags (sendq d) m" "cookie_ok (cookies s r) later (vxt_msg_dev_instance.truncate d)"
    and len: "0 \<le> len" "len \<le> int (length buffer)"
  shows "\<exists>ret n s'. vxt_send later wait (handle sk) buffer len flags s = Some ((ret, n), s') \<and> socks s' = socks s
    \<and> (if ret = - 1 then n = len \<and> errno s' = ENOSPC \<and> linked s' a b T
       else ret = n \<and> 0 \<le> n \<and> n \<le> len \<and> linked s' a b (T @ take (nat n) buffer))"
proof -
  obtain n st s1 where d: "dev_send later wait (sdev sk) buffer len flags s = Some (n, st, s1)"
    and res: "if st = VXT_RSRC then n = len \<and> linked s1 a b T
     else 0 \<le> n \<and> n \<le> len \<and> linked s1 a b (T @ take (nat n) buffer) \<and> st = (if n = len then VXT_SUCCESS else VXT_BUF_SPACE)"
    by (rule dev_send_linked [OF l a(1) f len])
  have so: "socks s1 = socks s" by (rule table_simps(1) [OF kept_table(1) [OF kept_dev_send [OF d]]])
  have e: "linked (s1\<lparr>errno := x\<rparr>) a b U = linked s1 a b U" for x U
    by (simp add: linked_def sends_through_def receives_through_def)
  have sk: "socks s a = Some sk" "sstate sk = VXT_SOCKET_CONNECTED" using a(1) by (auto simp: sends_through_def)
  show ?thesis
  proof (cases "st = VXT_RSRC")
    case True
    with res d so e show ?thesis by (auto simp: send_connected [OF ok sk(1) a(2) sk(2)] send_errno_def)
  next
    case False
    with res have "st = VXT_SUCCESS \<or> st = VXT_BUF_SPACE" by (auto split: if_splits)
    with False res d so show ?thesis by (auto simp: send_connected [OF ok sk(1) a(2) sk(2)])
  qed
qed

text \<open>
  C19: A receive on a connected socket that may not sleep returns; it delivers the bytes at the front
  of those in transit, reports their number and leaves all sockets as they were.
\<close>

theorem socket_recv_takes:
  assumes ok: "refs_ok cs cl s" and l: "linked s a b T" and b: "receives_through s b tk e r m" "b \<notin> cl"
    and f: "plain_flags flags" "get_allowed flags (rcvq e) m" "cookie_ok (cookies s r) later (vxt_msg_dev_instance.truncate e)"
    and len: "0 \<le> len"
  shows "\<exists>data s' T'. vxt_recv later wait (handle tk) len flags s = Some ((int (length data), data, int (length data)), s')
    \<and> T = data @ T' \<and> int (length data) \<le> len \<and> linked s' a b T' \<and> socks s' = socks s"
proof -
  let ?s = "s\<lparr>errno := 0\<rparr>"
  have e: "linked (s1\<lparr>errno := x\<rparr>) a b U = linked s1 a b U" for s1 :: "'a sock_lib" and x U
    by (simp add: linked_def sends_through_def receives_through_def)
  have l0: "linked ?s a b T" "receives_through ?s b tk e r m" using l b(1) by (simp_all add: e receives_through_def)
  have ck: "cookie_ok (cookies ?s r) later (vxt_msg_dev_instance.truncate e)" using f(3) by simp
  obtain data n st s1 T' where d: "dev_rcv later wait (sdev tk) len flags ?s = Some (data, n, st, s1)"
    and res: "linked s1 a b T'" "T = data @ T'" "n = int (length data)" "n \<le> len"
      "n = len \<and> st = VXT_SUCCESS \<or> n < len \<and> (st = VXT_BUF_SPACE \<or> n = 0 \<and> st = VXT_SUCCESS)"
    by (rule dev_rcv_linked [OF l0 f(1,2) ck len])
  have so: "socks s1 = socks s" using table_simps(1) [OF kept_table(1) [OF kept_dev_rcv [OF d]]] by simp
  have sk: "socks s b = Some tk" "sstate tk = VXT_SOCKET_CONNECTED" using b(1) by (auto simp: receives_through_def)
  from res(5) have "st = VXT_SUCCESS \<or> st = VXT_BUF_SPACE" by auto
  from recv_connected [OF ok sk(1) b(2) sk(2) d this] res so e show ?thesis by (auto split: if_splits)
qed

subsection \<open>Calls in progress\<close>

lemma refs_device:
  assumes ok: "refs_ok cs cl s" and a: "socks s a = Some sk" and st: "sstate sk = VXT_SOCKET_CONNECTED"
  obtains c d where "sdev sk = Some c" "c \<in> set (live_connections s)" "devs s c = Some d"
proof -
  have "owned s" "lib_ok s" using refs_okD(1) [OF ok] by (auto simp: sock_ok_def)
  then obtain c where c: "sdev sk = Some c" "c \<in> set (live_connections s)" using ownedE [OF _ a] st by auto
  moreover have "set (live_connections s) = dom (devs s)" using \<open>lib_ok s\<close> by (simp add: lib_ok_def)
  ultimately show thesis using that by blast
qed

lemma refs_distinct:
  assumes ok: "refs_ok cs cl s" and "socks s a = Some sk" "socks s b = Some tk"
    and "handle sk = handle tk \<or> sstate sk = VXT_SOCKET_CONNECTED \<and> sstate tk = VXT_SOCKET_CONNECTED \<and> sdev sk = sdev tk"
  shows "a = b"
  using assms table_okD(8) [OF refs_okD(2) [OF ok]] owned_inj [of s] refs_okD(1) [OF ok] by (auto simp: sock_ok_def)



subsection \<open>The interface of one thread\<close>

datatype sock_call = Call_socket int int int | Call_bind u32 vxt_dev_addr | Call_connect u32 vxt_dev_addr
  | Call_accept u32 vxt_dev_addr | Call_listen u32 | Call_send string "shm \<Rightarrow> shm" u32 "8 word list" int u32
  | Call_recv string "shm \<Rightarrow> shm" u32 int u32 | Call_ioctl "shm \<Rightarrow> shm" u32 sock_cmd | Call_shutdown u32 | Call_close u32 u32
  | Call_poll "vxt_poll_obj list" int

fun perform :: "sock_call \<Rightarrow> 'k sock_lib \<Rightarrow> 'k sock_lib option" where
  "perform (Call_socket domain type protocol) s = map_option snd (vxt_socket domain type protocol s)"
| "perform (Call_bind h ep) s = map_option snd (vxt_bind h ep s)"
| "perform (Call_connect h ep) s = map_option snd (vxt_connect h ep s)"
| "perform (Call_accept h ep) s = map_option snd (vxt_accept h ep s)"
| "perform (Call_listen h) s = map_option snd (vxt_listen h s)"
| "perform (Call_send later wait h buffer len flags) s = map_option snd (vxt_send later wait h buffer len flags s)"
| "perform (Call_recv later wait h len flags) s = map_option snd (vxt_recv later wait h len flags s)"
| "perform (Call_ioctl wait h cmd) s = map_option snd (vxt_ioctl wait h cmd s)"
| "perform (Call_shutdown h) s = map_option snd (vxt_shutdown h s)"
| "perform (Call_close h options) s = map_option snd (vxt_close h options s)"
| "perform (Call_poll fds timeout) s = map_option (\<lambda>(ret, fds, s). s) (vxt_poll fds timeout s)"

fun performs :: "sock_call list \<Rightarrow> 'k sock_lib \<Rightarrow> 'k sock_lib option" where
  "performs [] s = Some s"
| "performs (c # cs) s = do { s \<leftarrow> perform c s; performs cs s }"

text \<open>Every socket that a poll names exists when the poll is called.\<close>

fun names_sockets :: "sock_call \<Rightarrow> 'k sock_lib \<Rightarrow> bool" where
  "names_sockets (Call_poll fds timeout) s = (\<forall>p \<in> set fds. ucast (po_events p) AND POLLVXT \<noteq> 0 \<longrightarrow>
     (\<exists>a \<in> set (live_sockets s). map_option handle (socks s a) = Some (ucast (po_object p))))"
| "names_sockets c s = True"

fun polls_known :: "sock_call list \<Rightarrow> 'k sock_lib \<Rightarrow> bool" where
  "polls_known [] s = True"
| "polls_known (c # cs) s = (names_sockets c s \<and> (case perform c s of None \<Rightarrow> True | Some s \<Rightarrow> polls_known cs s))"

lemma refs_closed:
  assumes "refs_ok [] cl s"
  shows "refs_ok [] {} s"
proof -
  have "dom (socks s) \<inter> cl = {}" using assms by (auto simp: refs_ok_def)
  then have "\<And>a sk. socks s a = Some sk \<Longrightarrow> a \<notin> cl" by (auto simp: dom_def)
  with assms show ?thesis by (auto simp: refs_ok_def)
qed

lemma socket_refs:
  assumes ok: "refs_ok cs cl s" and c: "vxt_socket domain type protocol s = Some (h, s')"
  shows "refs_ok cs cl s'"
proof (cases "domain = PF_UNIX \<and> type = SOCK_STREAM \<and> protocol = SOCK_STREAM")
  case True
  with c obtain ret new s1 where g: "vxt_get_socket s = Some (ret, new, s1)" by (auto simp: vxt_socket_def split: bind_splits)
  with c True refs_create [OF ok g] show ?thesis
    by (auto simp: vxt_socket_def intro: refs_errno split: option.splits bind_splits)
next
  case False
  with c ok show ?thesis by (auto simp: vxt_socket_def intro: refs_errno split: if_splits)
qed

lemma perform_refs:
  assumes ok: "refs_ok [] {} s" and c: "perform c s = Some s'" and n: "names_sockets c s"
  shows "refs_ok [] {} s'"
proof (cases c)
  case (Call_poll fds timeout)
  with c obtain r fds' where p: "vxt_poll fds timeout s = Some (r, fds', s')" by auto
  have "\<exists>a sk. socks s a = Some sk \<and> handle sk = ucast (po_object p)"
    if "p \<in> set fds" "ucast (po_events p) AND POLLVXT \<noteq> 0" for p
    using n that Call_poll by force
  then show ?thesis by (intro poll_refs [OF ok p]) blast
next
  case (Call_close h options)
  with c obtain r where "vxt_close h options s = Some (r, s')" by auto
  from close_refs [OF ok this] show ?thesis by (auto intro: refs_closed)
qed (use ok c in \<open>auto simp: vxt_connect_def vxt_listen_def vxt_send_def vxt_recv_def vxt_ioctl_def
    intro: socket_refs bind_refs accept_refs shutdown_refs connect_call.call_refs listen_call.call_refs send_call.call_refs
      recv_call.call_refs ioctl_call.call_refs\<close>)

lemma performs_refs: "refs_ok [] {} s \<Longrightarrow> performs cs s = Some s' \<Longrightarrow> polls_known cs s \<Longrightarrow> refs_ok [] {} s'"
  by (induction cs arbitrary: s) (auto intro: perform_refs split: bind_splits)

text \<open>
  C4: After any calls of one thread, in which every poll names sockets that exist (one that does not
  may keep a reference), no call is in progress any more: every socket is in the list once,
  with one reference, under a handle of its own, and is connected only to a live device that no other
  socket has. The lock is free.
\<close>

theorem interface_keeps_sockets:
  assumes "vxt_socket_lib_init s0 = (VXT_SUCCESS, s1)" and "performs calls s1 = Some s" and "polls_known calls s1"
    and "socks s0 = (\<lambda>_. None)" and "live_sockets s0 = []" and "socket_handles s0 = 1" and "\<not> socket_lock s0"
    and "devs s0 = (\<lambda>_. None)" and "live_connections s0 = []" and "0 < next_addr s0"
  shows "\<not> socket_lock s \<and> distinct (live_sockets s) \<and> set (live_sockets s) = dom (socks s)
    \<and> (\<forall>a sk. socks s a = Some sk \<longrightarrow> ref_cnt sk = 1 \<and> handle sk \<noteq> 0
         \<and> (sstate sk = VXT_SOCKET_CONNECTED \<longrightarrow> (\<exists>c d. sdev sk = Some c \<and> c \<in> set (live_connections s) \<and> devs s c = Some d)))
    \<and> (\<forall>a b sk tk. socks s a = Some sk \<longrightarrow> socks s b = Some tk \<longrightarrow>
         handle sk = handle tk \<or> sstate sk = VXT_SOCKET_CONNECTED \<and> sstate tk = VXT_SOCKET_CONNECTED \<and> sdev sk = sdev tk
         \<longrightarrow> a = b)"
proof -
  obtain fd s2 where o: "vxt_msg_open_com VXT_COM_BUS_NAME s0 = (fd, s2)" by fastforce
  with assms(1) have s1: "s1 = s2\<lparr>vxtctrlr_fd := fd\<rparr>" by (auto simp: vxt_socket_lib_init_def vxt_msg_init_def)
  note k = kept_open [OF o] and t = table_simps [OF kept_table(1) [OF kept_open [OF o]]]
  have "live_connections s1 = []" "devs s1 = (\<lambda>_. None)" "next_addr s1 = next_addr s0"
    using k assms(8,9) by (auto simp: s1 kept_def dom_def)
  then have "refs_ok [] {} s1" using assms t by (intro refs_init) (auto simp: s1 lib_ok_def)
  then have ok: "refs_ok [] {} s" by (rule performs_refs [OF _ assms(2,3)])
  have t: "table_ok s" by (rule refs_okD [OF ok])
  show ?thesis
  proof (intro conjI allI impI)
    show "\<not> socket_lock s" "distinct (live_sockets s)" "set (live_sockets s) = dom (socks s)" using table_okD [OF t] by auto
  next
    fix a sk assume a: "socks s a = Some sk"
    show "ref_cnt sk = 1" using refs_okD(5) [OF ok a] by simp
    show "handle sk \<noteq> 0" by (rule table_okD(6) [OF t a])
    show "\<exists>c d. sdev sk = Some c \<and> c \<in> set (live_connections s) \<and> devs s c = Some d" if "sstate sk = VXT_SOCKET_CONNECTED"
      using refs_device [OF ok a that] by blast
  next
    fix a b sk tk
    assume "socks s a = Some sk" "socks s b = Some tk" "handle sk = handle tk \<or>
      sstate sk = VXT_SOCKET_CONNECTED \<and> sstate tk = VXT_SOCKET_CONNECTED \<and> sdev sk = sdev tk"
    then show "a = b" by (rule refs_distinct [OF ok])
  qed
qed


subsection \<open>Creating and closing\<close>

text \<open>
  C39: When memory is available the creation of a socket returns a handle that is not zero and not in
  use, under which the new socket is found; the other sockets stay as they are. It fails to return
  exactly when the counter of handles has started again and its next value is in use: the lookup is
  then followed by a release of the socket found, which waits for the lock that the caller holds.
\<close>

theorem socket_fresh_or_hangs:
  assumes ok: "table_ok s" and m: "fst (vxt_malloc s)"
  shows "if wrapped s \<and> (\<exists>a sk. socks s a = Some sk \<and> handle sk = next_handle s)
    then vxt_socket PF_UNIX SOCK_STREAM SOCK_STREAM s = None
    else \<exists>h a s' sk'. vxt_socket PF_UNIX SOCK_STREAM SOCK_STREAM s = Some (h, s') \<and> h \<noteq> 0
      \<and> (\<forall>b sk. socks s b = Some sk \<longrightarrow> handle sk \<noteq> h \<and> socks s' b = Some sk)
      \<and> socks s' a = Some sk' \<and> handle sk' = h \<and> ref_cnt sk' = 1 \<and> sstate sk' = VXT_SOCKET_DISCONNECTED
      \<and> vxt_find_socket h True s' = Some (Some a, s')"
proof (cases "wrapped s \<and> (\<exists>a sk. socks s a = Some sk \<and> handle sk = next_handle s)")
  case True
  obtain s1 where "vxt_malloc s = (True, s1)" using m by (cases "vxt_malloc s") auto
  with True get_socket_result [OF ok] show ?thesis by (simp add: vxt_socket_def)
next
  case False
  obtain s1 where s1: "vxt_malloc s = (True, s1)" using m by (cases "vxt_malloc s") auto
  let ?h = "next_handle s" and ?a = "next_addr s" and ?s = "with_new s s1"
  have k: "kept s s1" by (rule kept_malloc [OF s1])
  have so: "socks ?s = (socks s)(?a \<mapsto> new_sock ?h)" "live_sockets ?s = ?a # live_sockets s"
    using table_simps(1) [OF kept_table(1) [OF k]] by (simp_all add: with_new_def)
  have g: "vxt_get_socket s = Some (0, Some ?a, ?s)" using get_socket_result [OF ok] s1 False by auto
  have free: "handle sk \<noteq> ?h" if "socks s b = Some sk" for b sk
    using False next_handle_fresh [OF ok _ that] that by (cases "wrapped s") blast+
  have "vxt_socket PF_UNIX SOCK_STREAM SOCK_STREAM s = Some (?h, ?s)"
    using g by (simp add: vxt_socket_def so new_sock_def)
  moreover have "socks ?s b = Some sk" if "socks s b = Some sk" for b sk using table_okD(5) [OF ok that] that by (auto simp: so)
  moreover have "vxt_find_socket ?h True ?s = Some (Some ?a, ?s)" by (simp add: vxt_find_socket_def so new_sock_def)
  ultimately show ?thesis using False free next_handle_succ(1) [OF ok]
    by (auto simp: so new_sock_def intro!: exI [of _ ?h] exI [of _ ?a] exI [of _ ?s])
qed

lemma sock_comm: "sk\<lparr>close_options := x, ref_cnt := n\<rparr> = sk\<lparr>ref_cnt := n, close_options := x\<rparr>"
  by (cases sk) simp

text \<open>A close that is not forced, while the socket has other references.\<close>

lemma close_shared:
  assumes ok: "table_ok s" and a: "socks s a = Some sk" and n: "1 < ref_cnt sk" and o: "\<not> flag_set options VXT_CLOSE_FORCE"
  shows "vxt_close (handle sk) options s = Some (0, set_sock a (sk\<lparr>close_options := options, ref_cnt := ref_cnt sk - 1\<rparr>) s)"
proof -
  let ?k = "\<lambda>n. sk\<lparr>ref_cnt := n, close_options := options\<rparr>"
  have f: "vxt_find_socket (handle sk) False s = Some (Some a, set_sock a (sk\<lparr>ref_cnt := ref_cnt sk + 1\<rparr>) s)"
    by (rule find_socket_hit [OF ok a])
  have d: "vxt_deref_socket a (set_sock a (?k m) s) = Some (set_sock a (?k (m - 1)) s)" if "1 < m" for m
    using deref_shared [of "set_sock a (?k m) s" a "?k m"] table_okD(3) [OF ok] that by (simp add: sock_comm)
  from f d [of "ref_cnt sk + 1"] d [of "ref_cnt sk"] n o show ?thesis
    by (simp add: vxt_close_def close_begin_def sock_comm)
qed

lemma close_final:
  assumes ok: "table_ok s" and a: "socks s a = Some sk" and n: "ref_cnt sk = 1" and o: "\<not> flag_set options VXT_CLOSE_FORCE"
  shows "vxt_close (handle sk) options s =
    (case final_disconnect (sk\<lparr>close_options := options\<rparr>) (set_sock a (suspended (sk\<lparr>close_options := options\<rparr>)) s) of
       None \<Rightarrow> None | Some (_, s') \<Rightarrow> Some (0, free_sock a s'))"
proof -
  let ?k = "\<lambda>n. sk\<lparr>ref_cnt := n, close_options := options\<rparr>"
  have f: "vxt_find_socket (handle sk) False s = Some (Some a, set_sock a (sk\<lparr>ref_cnt := 2\<rparr>) s)"
    using find_socket_hit [OF ok a] n by simp
  have d: "vxt_deref_socket a (set_sock a (?k 2) s) = Some (set_sock a (?k 1) s)"
    using deref_shared [of "set_sock a (?k 2) s" a "?k 2"] table_okD(3) [OF ok] by (simp add: sock_comm)
  have one: "?k 1 = sk\<lparr>close_options := options\<rparr>" using same_ref [OF n] by simp
  have ok1: "table_ok (set_sock a (?k 1) s)" by (rule table_ok_set [OF ok a]) simp
  show ?thesis
    using f d o deref_final [OF ok1, of a "?k 1"] unfolding one
    by (auto simp: vxt_close_def close_begin_def n split: option.splits)
qed

lemma close_last:
  assumes "table_ok s" and "socks s a = Some sk" and "ref_cnt sk = 1" and "\<not> flag_set options VXT_CLOSE_FORCE"
    and st: "sstate sk = VXT_SOCKET_DISCONNECTED"
  obtains s' where "vxt_close (handle sk) options s = Some (0, s')" "socks s' = (socks s)(a := None)"
  using close_final [OF assms(1-4)] st by (auto simp: final_disconnect_def suspended_def free_sock_def)

text \<open>
  C40: Nothing keeps a handle from being closed twice. While a call on the socket is in progress the
  second close takes the reference of that call: the socket is freed, and the call that ends later
  uses the freed structure.
\<close>

theorem double_close_frees:
  assumes ok: "table_ok s" and a: "socks s a = Some sk" and n: "ref_cnt sk = 2"
    and st: "sstate sk = VXT_SOCKET_DISCONNECTED" and o: "\<not> flag_set options VXT_CLOSE_FORCE"
  shows "\<exists>s1 s2. vxt_close (handle sk) options s = Some (0, s1) \<and> vxt_close (handle sk) options s1 = Some (0, s2)
    \<and> socks s2 a = None \<and> vxt_deref_socket a s2 = None"
proof -
  let ?k = "sk\<lparr>close_options := options, ref_cnt := 1\<rparr>"
  have c: "vxt_close (handle sk) options s = Some (0, set_sock a ?k s)" using close_shared [OF ok a _ o] n by simp
  have ok1: "table_ok (set_sock a ?k s)" by (rule table_ok_set [OF ok a]) simp
  obtain s2 where "vxt_close (handle ?k) options (set_sock a ?k s) = Some (0, s2)" "socks s2 = (socks (set_sock a ?k s))(a := None)"
    by (rule close_last [OF ok1, of a ?k options]) (use st o in simp_all)
  with c deref_freed [of s2 a] show ?thesis by auto
qed


subsection \<open>Resources\<close>

text \<open>
  C21: A connection that fails leaves no trace in the library: the devices, the live connections, the
  mapped regions and the open descriptors are those from before. One that succeeds has added one
  device with one open descriptor, the controller's.
\<close>

theorem connect_leaves_no_trace:
  assumes "lib_ok s" and "vxt_msg_connect dev ep target parms s = Some (st, c, parms', s')"
  shows "if st = VXT_SUCCESS
    then \<exists>d. c = Some (next_addr s) \<and> devs s' = (devs s)(next_addr s \<mapsto> d) \<and> live_connections s' = next_addr s # live_connections s
      \<and> open_fds s' = ctrlr_fd d # open_fds s
    else c = None \<and> devs s' = devs s \<and> live_connections s' = live_connections s \<and> regions s' = regions s \<and> open_fds s' = open_fds s"
  using msg_connect_opened [OF assms] by (auto simp: opened_def)

text \<open>The bind of a socket on which nothing else is in progress.\<close>

lemma bind_success:
  assumes ok: "refs_ok cs cl s" and a: "socks s a = Some sk" "a \<notin> cl" and c: "vxt_bind (handle sk) ep s = Some (0, s')"
  obtains d where "socks s' = (socks s)(a \<mapsto> sk\<lparr>sdev := Some (next_addr s), sstate := VXT_SOCKET_CONNECTED\<rparr>)"
    "devs s' = (devs s)(next_addr s \<mapsto> d)" "live_connections s' = next_addr s # live_connections s"
    "open_fds s' = ctrlr_fd d # open_fds s" "dev_fd d = VXT_INVALID_DEV_OBJ"
proof -
  let ?sk = "sk\<lparr>ref_cnt := ref_cnt sk + 1\<rparr>" and ?s = "set_sock a (sk\<lparr>ref_cnt := ref_cnt sk + 1\<rparr>) s"
  have f: "vxt_find_socket (handle sk) False s = Some (Some a, ?s)" by (rule find_socket_hit [OF refs_okD(2) [OF ok] a(1)])
  have e: "refs_ok (a # cs) cl ?s" using refs_enter [OF ok f] by metis
  from c f obtain c1 s1 where m: "vxt_msg_add VXTCTRLR_MSG_DEV ep (add_msg sk) ?s = Some (VXT_SUCCESS, c1, s1)"
    and d: "vxt_deref_socket a (set_sock a (?sk\<lparr>sdev := c1, sstate := VXT_SOCKET_CONNECTED\<rparr>) s1) = Some s'"
    by (auto simp: vxt_bind_def split: bind_splits if_splits)
  have l: "lib_ok ?s" using refs_okD(1) [OF e] by (simp add: sock_ok_def)
  have t: "table s1 = table ?s" by (rule more_table [OF msg_add_more [OF m]])
  from msg_add_opened [OF l m] obtain x where o: "c1 = Some (next_addr s)" "devs s1 = (devs s)(next_addr s \<mapsto> x)"
    "live_connections s1 = next_addr s # live_connections s" "open_fds s1 = ctrlr_fd x # open_fds s" "dev_fd x = VXT_INVALID_DEV_OBJ"
    by (auto simp: opened_def)
  have n: "0 < ref_cnt sk" by (rule ref_pos [OF ok a(1)])
  let ?n = "?sk\<lparr>sdev := c1, sstate := VXT_SOCKET_CONNECTED\<rparr>"
  have "s' = set_sock a (?n\<lparr>ref_cnt := ref_cnt sk\<rparr>) s1"
    using deref_shared [of "set_sock a ?n s1" a ?n] d n table_simps(5) [OF t] refs_okD(3) [OF ok] by simp
  moreover have "?n\<lparr>ref_cnt := ref_cnt sk\<rparr> = sk\<lparr>sdev := Some (next_addr s), sstate := VXT_SOCKET_CONNECTED\<rparr>"
    by (cases sk) (simp add: o)
  moreover have "socks s1 = socks ?s" by (rule table_simps [OF t])
  ultimately show thesis using o by (intro that [of x]) auto
qed


text \<open>
  C20: Binding a socket and closing it again, locally or for both ends, gives back everything that the
  bind has taken: the device, its place in the list of live connections and the descriptor; the
  socket is freed. This holds when both queues of the device could be set up.
\<close>

theorem bind_close_restores:
  assumes ok: "refs_ok cs cl s" and a: "socks s a = Some sk" "a \<notin> cl" "a \<notin> set cs"
    and b: "vxt_bind (handle sk) ep s = Some (0, s1)" "devs s1 (next_addr s) = Some d" "sendq_set d" "rcvq_set d"
    and o: "flag_set options (VXT_CLOSE_REMOTE OR VXT_CLOSE_LOCAL)" "\<not> flag_set options VXT_CLOSE_FORCE"
  shows "\<exists>s2. vxt_close (handle sk) options s1 = Some (0, s2) \<and> socks s2 = (socks s)(a := None)
    \<and> devs s2 = devs s \<and> live_connections s2 = live_connections s \<and> open_fds s2 = open_fds s"
proof -
  let ?c = "next_addr s" and ?tk = "sk\<lparr>sdev := Some (next_addr s), sstate := VXT_SOCKET_CONNECTED\<rparr>"
  obtain x where s1: "socks s1 = (socks s)(a \<mapsto> ?tk)" "devs s1 = (devs s)(?c \<mapsto> x)" "live_connections s1 = ?c # live_connections s"
    "open_fds s1 = ctrlr_fd x # open_fds s" "dev_fd x = VXT_INVALID_DEV_OBJ" by (rule bind_success [OF ok a(1,2) b(1)])
  have x: "x = d" using s1(2) b(2) by simp
  have one: "ref_cnt ?tk = 1" using refs_okD(5) [OF ok a(1)] a(2,3) by (simp add: count_list_0_iff)
  have t1: "table_ok s1" by (rule refs_okD(2) [OF bind_refs [OF ok b(1)]])
  let ?k = "?tk\<lparr>close_options := options\<rparr>" and ?s = "set_sock a (suspended (?tk\<lparr>close_options := options\<rparr>)) s1"
  have l: "?c \<in> set (live_connections ?s)" "devs ?s ?c = Some d" using s1 x by auto
  obtain st s3 where d: "vxt_msg_disconnect (Some ?c) options ?s = Some (st, s3)"
    "devs s3 = (devs ?s)(?c := None)" "live_connections s3 = remove1 ?c (live_connections ?s)"
    "open_fds s3 = (if dev_fd d \<noteq> VXT_INVALID_DEV_OBJ then remove1 (dev_fd d) (remove1 (ctrlr_fd d) (open_fds ?s))
      else remove1 (ctrlr_fd d) (open_fds ?s))"
    by (rule disconnect_result [OF l b(3,4)])
  have f: "final_disconnect ?k ?s = Some (st, s3)" using d(1) o(1) by (simp add: final_disconnect_def suspended_def)
  have "vxt_close (handle ?tk) options s1 = Some (0, free_sock a s3)"
    using close_final [OF t1, of a ?tk, OF _ one o(2)] f s1(1) by simp
  moreover have "socks s3 = socks ?s" by (rule table_simps [OF more_table [OF disconnect_more [OF d(1)]]])
  moreover have "devs s ?c = None" using refs_okD(1) [OF ok] by (force simp: sock_ok_def lib_ok_def dom_def)
  ultimately show ?thesis using d s1 x by (auto simp: free_sock_def fun_upd_idem)
qed

subsection \<open>Polling\<close>

text \<open>
  A poll on handles of existing sockets gives every reference back that it has taken, whatever
  the device files, the allocations and the system call answer.
\<close>

theorem poll_gives_back:
  assumes "refs_ok cs cl s" and "vxt_poll fds timeout s = Some (r, fds', s')"
    and "\<forall>p \<in> set fds. ucast (po_events p) AND POLLVXT \<noteq> 0 \<longrightarrow> (\<exists>a sk. socks s a = Some sk \<and> handle sk = ucast (po_object p))"
  shows "refs_ok cs cl s'"
  by (rule poll_refs [OF assms(1,2)]) (use assms(3) in blast)

lemma table_ok_errno: "table_ok (s\<lparr>errno := e\<rparr>) = table_ok s"
  by (simp add: table_ok_def)

text \<open>
  A poll on a socket and on a handle that does not exist fails, and keeps the reference to the
  socket when the fresh memory of its table of sockets holds zeros: the socket is not freed any more
  when it is closed.
\<close>

theorem poll_leaks_reference:
  assumes ok: "table_ok s" and m: "allocs s = []" "\<not> heap_ptr s" and a: "socks s a = Some sk" "ref_cnt sk = 1"
    and p: "ucast (po_events p) AND POLLVXT \<noteq> 0" "handle sk = ucast (po_object p)"
    and q: "ucast (po_events q) AND POLLVXT \<noteq> 0" "\<And>b tk. socks s b = Some tk \<Longrightarrow> handle tk \<noteq> ucast (po_object q)"
    and o: "\<not> flag_set options VXT_CLOSE_FORCE"
  shows "\<exists>s1 s2 tk. vxt_poll [p, q] timeout s = Some (- 1, [p, q], s1) \<and> errno s1 = ENOTSOCK
    \<and> vxt_close (handle sk) options s1 = Some (0, s2) \<and> socks s2 a = Some tk \<and> ref_cnt tk = 1"
proof -
  let ?k = "sk\<lparr>ref_cnt := 2\<rparr>" and ?s = "set_sock a (sk\<lparr>ref_cnt := 2\<rparr>) s"
  have f: "vxt_find_socket (ucast (po_object p)) False s = Some (Some a, ?s)"
    using find_socket_hit [OF ok a(1)] unfolding p(2) by (simp add: a(2))
  have ok1: "table_ok ?s" by (rule table_ok_set [OF ok a(1)]) simp
  have g: "vxt_find_socket (ucast (po_object q)) False ?s = Some (None, ?s)"
  proof (cases rule: lookup_live [OF ok1, of "ucast (po_object q)"])
    case (2 b tk)
    with q(2) [of b] q(2) [OF a(1)] show ?thesis by (auto split: if_splits)
  qed
  have sd: "sdev ?k = sdev sk" by simp
  have ps: "poll_sockets [p, q] s =
      Some (False, [(Some a, vxt_write_event_wait (ptr (sdev sk)) (ucast (po_events p)) 0)], ?s\<lparr>errno := ENOTSOCK\<rparr>)"
    by (simp only: poll_sockets.simps f g p(1) q(1) simp_thms if_True Option.bind_lunit prod.case option.case
        set_sock_fields(1) fun_upd_same sd)
  have ma: "vxt_malloc s = (True, s)" using m(1) by (simp add: vxt_malloc_def)
  have un: "poll_unwind [Some a] (?s\<lparr>errno := ENOTSOCK\<rparr>) = Some (?s\<lparr>errno := ENOTSOCK\<rparr>)"
    using m(2) by (simp add: poll_unwind_def set_sock_def)
  have v: "vxt_poll [p, q] timeout s = Some (- 1, [p, q], ?s\<lparr>errno := ENOTSOCK\<rparr>)"
    by (simp add: vxt_poll_def ma ps un del: poll_sockets.simps)
  have ok2: "table_ok (?s\<lparr>errno := ENOTSOCK\<rparr>)" using ok1 by (simp only: table_ok_errno)
  from close_shared [OF ok2, of a ?k options] v o show ?thesis by auto
qed


subsection \<open>A small system\<close>

text \<open>
  An operating system that answers every call; a query of the bus gives \<open>bus\<close> as the slot of a device
  and an attachment reports \<open>attach\<close>.
\<close>

definition sample_info :: vxt_msg_dev_info where
  "sample_info = \<lparr>di_version = VXT_MSG_DEV_VERSION, di_dev_name = ''vxtm'', di_dev_handle = 0, di_sendq = 1, di_sendq_size = 120,
     di_sendq_bufcnt = 4, di_rcvq = 2, di_rcvq_size = 120, di_rcvq_bufcnt = 4, di_state = 0, di_remote_dom = 0\<rparr>"

definition sample_os :: "u64 \<Rightarrow> int \<Rightarrow> nat os" where
  "sample_os bus attach = \<lparr>os_open = (\<lambda>_ k. (int k, Suc k)), os_close = (\<lambda>_ k. k), os_mknod = (\<lambda>_ _ k. k),
     io_lookup = (\<lambda>_ q k. (0, q, k)), io_query_bus = (\<lambda>_ q k. (0, q\<lparr>qb_vxt_bus_id := bus\<rparr>, k)),
     io_dev_create = (\<lambda>_ _ k. (0, 5, k)), io_attach = (\<lambda>_ _ k. (0, attach, k)),
     io_detach = (\<lambda>_ _ k. (0, VXT_MSG_ATTACH_SUCCESS, k)), io_query_dev = (\<lambda>_ _ k. (0, sample_info, k)),
     io_dev_remove = (\<lambda>_ _ k. (0, (), k)), io_poll_focus = (\<lambda>_ _ k. (0, (), k)),
     os_mmap = (\<lambda>_ token _ k. (Some (if token = 1 then 8 else 9, \<lambda>_. blank_sbuf 12, []), k)), os_munmap = (\<lambda>_ _ k. k),
     os_poll = (\<lambda>fds _ k. (Inr (0, map (\<lambda>_. 0) fds), k))\<rparr>"

definition sample_queue :: vxtq_queue where
  "sample_queue = \<lparr>buffers = 0, buf_index = 0, local_producer = False, signals = 0\<rparr>"

definition sample_mem :: msg_device where
  "sample_mem = \<lparr>is_new = False, sendq = sample_queue, rcvq = sample_queue, partial_send = None, partial_rcv = None,
     sendq_set = False, rcvq_set = False, dtype = 0, dev_slot = 0, ctrlr_id = 0, ctrlr_fd = 0, dev_fd = 0, send_buf = None,
     sendq_token = 0, sendq_size = 0, sendq_bufcnt = 0, send_sub_size = 0, rcv_buf = None, rcvq_token = 0, rcvq_size = 0,
     rcvq_bufcnt = 0, rcv_sub_size = 0, remote_dom = 0, dev_ep_id = [], dev_uname = [], file_name = [], dev_handle = 0\<rparr>"

definition sample_lib :: "u64 \<Rightarrow> int \<Rightarrow> nat sock_lib" where
  "sample_lib bus attach = \<lparr>os = sample_os bus attach, kst = 4, errno = 0, vxtctrlr_fd = 3, open_fds = [3], devs = (\<lambda>_. None),
     live_connections = [], regions = (\<lambda>_. None), cookies = (\<lambda>_. []), next_addr = 1, allocs = [], heap_dev = sample_mem,
     stack_ctrlr = \<lparr>qc_uname = [], qc_name_match_length = 0, qc_ep_id = [], qc_remote_domain = 0, qc_controller = 0,
       qc_ctrlr_name = ''vxt_com1''\<rparr>,
     stack_bus = \<lparr>qb_function = 0, qb_option = 0, qb_ep_id = [], qb_uname = [], qb_name_match_length = 0, qb_dev_name = 0,
       qb_vxt_bus_id = 0, qb_controller = 0, qb_ctrlr_name = []\<rparr>,
     socks = (\<lambda>_. None), live_sockets = [], socket_handles = 1, socket_wrap = False, socket_lock = False, heap_ptr = False\<rparr>"

definition sample_ep :: vxt_dev_addr where "sample_ep = \<lparr>ep_id = [], uname = ''a''\<rparr>"

abbreviation sample_zero :: "nat sock_lib" where
  "sample_zero \<equiv> sample_lib VXTCTRLR_NULL_DEV VXT_MSG_ATTACH_SUCCESS"

text \<open>The state with one socket, at address 1.\<close>

definition sample_one :: "nat sock_lib" where
  "sample_one = with_new sample_zero sample_zero"

lemma sample_lib_fields [simp]:
  "socks (sample_lib x y) = (\<lambda>_. None)" "live_sockets (sample_lib x y) = []" "socket_handles (sample_lib x y) = 1"
  "\<not> socket_wrap (sample_lib x y)" "\<not> socket_lock (sample_lib x y)" "next_addr (sample_lib x y) = 1" "allocs (sample_lib x y) = []"
  "devs (sample_lib x y) = (\<lambda>_. None)" "live_connections (sample_lib x y) = []" "\<not> heap_ptr (sample_lib x y)"
  "vxtctrlr_fd (sample_lib x y) = 3"
  by (simp_all add: sample_lib_def)

lemma sample_lib_ok: "lib_ok (sample_lib x y)"
  by (simp add: lib_ok_def)

lemma sample_zero_run: "sock_run discipline [] [] {} (sample_lib x y)"
  by (rule sock_run.init) (simp_all add: sample_lib_ok)

lemma sample_socket: "vxt_get_socket sample_zero = Some (0, Some 1, sample_one)"
  using get_socket_result [OF run_okD(4) [OF sock_run_ok [OF sample_zero_run]], of VXTCTRLR_NULL_DEV VXT_MSG_ATTACH_SUCCESS]
  by (simp add: vxt_malloc_def sample_one_def)

lemma sample_one_run: "sock_run discipline [] [] {} sample_one"
  by (rule sock_run.create [OF sample_zero_run sample_socket])

lemma sample_one_fields [simp]:
  "socks sample_one = [1 \<mapsto> new_sock 1]" "live_sockets sample_one = [1]" "next_addr sample_one = 2" "\<not> socket_wrap sample_one"
  "\<not> heap_ptr sample_one" "allocs sample_one = []" "\<not> socket_lock sample_one"
  "socket_handles sample_one = 2"
  by (simp_all add: sample_one_def with_new_def next_handle_def wrapped_def set_sock_def)

lemma sample_one_refs: "refs_ok [] {} sample_one"
  using run_okD(1) [OF sock_run_ok [OF sample_one_run]] by simp

text \<open>The state in which a call on the socket is in progress.\<close>

definition sample_busy :: "nat sock_lib" where
  "sample_busy = set_sock 1 ((new_sock 1)\<lparr>ref_cnt := 2\<rparr>) sample_one"

lemma sample_find: "vxt_find_socket 1 False sample_one = Some (Some 1, sample_busy)"
  using find_socket_hit [OF refs_okD(2) [OF sample_one_refs], of 1 "new_sock 1"] by (simp add: sample_busy_def new_sock_def)


text \<open>The state with another count of the socket.\<close>

definition sample_count :: "int \<Rightarrow> nat sock_lib" where
  "sample_count n = set_sock 1 ((new_sock 1)\<lparr>ref_cnt := n\<rparr>) sample_one"

lemma sample_count_simps [simp]:
  "sample_count 1 = sample_one" "sample_count 2 = sample_busy" "\<not> socket_lock (sample_count n)"
  "socks (sample_count n) = [1 \<mapsto> (new_sock 1)\<lparr>ref_cnt := n\<rparr>]"
  using set_same [of sample_one 1 "new_sock 1"] same_ref [of "new_sock 1" 1]
  by (simp_all add: sample_count_def sample_busy_def) (simp add: new_sock_def)

lemma sample_count_ok: "table_ok (sample_count n)"
  unfolding sample_count_def by (rule table_ok_set [OF refs_okD(2) [OF sample_one_refs], of 1 "new_sock 1"]) simp_all

lemma sample_count_find: "vxt_find_socket 1 False (sample_count n) = Some (Some 1, sample_count (n + 1))"
  using find_socket_hit [OF sample_count_ok, of n 1] by (simp add: new_sock_def) (simp add: sample_count_def new_sock_def)

lemma sample_count_deref:
  "deref_begin 1 (sample_count n) = Some (if 1 < n then (False, sample_count (n - 1)) else (True, sample_count n))"
proof -
  have "vxt_lock (sample_count n) = Some ((sample_count n)\<lparr>socket_lock := True\<rparr>)" by (simp add: vxt_lock_def)
  then show ?thesis
    by (simp add: deref_begin_def unlock_lock unlock_set) (simp add: sample_count_def)
qed


text \<open>
  Without the discipline the last release may free a socket that a thread has just looked up: the lock
  is not held between the test of the count and the removal from the list, and the count is not
  tested again. The thread that has found the socket then works on the freed structure.
\<close>

theorem late_lookup_uses_freed:
  "\<exists>s :: nat sock_lib. sock_run False [1] [[]] {1} s \<and> socks s 1 = None \<and> deref_begin 1 s = None"
proof -
  let ?run = "sock_run False" and ?stage = "\<lambda>ph. [[(1, ph)]]"
  have r: "?run [] (?stage Ending) {1} sample_one"
    using sock_run.drop_last [OF sample_one_run, of False 1 sample_one] sample_count_deref [of 1] by simp
  then have found: "?run [1] (?stage Ending) {1} (sample_count 2)"
    by (rule sock_run.enter [where h = 1]) (use sample_count_find [of 1] in simp_all)
  have s1: "handle ((new_sock 1)\<lparr>ref_cnt := n\<rparr>) = 1" "sstate ((new_sock 1)\<lparr>ref_cnt := n\<rparr>) = VXT_SOCKET_DISCONNECTED" for n
    by (simp_all add: new_sock_def)
  have a2: "socks (sample_count 2) 1 = Some ((new_sock 1)\<lparr>ref_cnt := 2\<rparr>)" by (subst sample_count_simps(4)) simp
  have next_step: "?run [1] [st'] {1} s'" if "?run [1] [st] {1} s" "release_step st s st' s'" for st s st' s'
    using sock_run.release [of False "[1]" "[]" st "[]" "{1}" s st' s'] that by simp
  have "?run [1] (?stage (Holding 1)) {1} (sample_count 3)"
    by (rule next_step [OF found], rule release_step.find [where s = "sample_count 2"]) (rule a2, use sample_count_find [of 2] in \<open>simp add: s1\<close>)
  moreover have "Vxt_Socket.suspend 1 (sample_count 3) = Some (0, sample_count 3)"
    using suspend_result [of "sample_count 3" 1] set_same [of "sample_count 3" 1] by (simp add: suspended_def s1)
  ultimately have "?run [1] (?stage (Suspending 1)) {1} (sample_count 3)" by (rule next_step [OF _ release_step.suspend])
  moreover have "deref_begin 1 (sample_count 3) = Some (False, sample_count 2)" using sample_count_deref [of 3] by simp
  ultimately have "?run [1] (?stage Dropped) {1} (sample_count 2)" by (rule next_step [OF _ release_step.leave])
  moreover have "end_disconnect 1 (sample_count 2) = Some (sample_count 2)"
    by (simp only: end_disconnect_def a2) (simp add: s1)
  ultimately have "?run [1] (?stage Severed) {1} (sample_count 2)" by (rule next_step [OF _ release_step.sever])
  moreover have "end_free 1 (sample_count 2) = Some (free_sock 1 (sample_count 2))"
    using free_socket_result [OF sample_count_ok a2] by (simp only: end_free_def a2) (simp add: s1)
  ultimately have "?run [1] [[]] {1} (free_sock 1 (sample_count 2))" by (rule next_step [OF _ release_step.free])
  moreover have "deref_begin 1 (free_sock 1 (sample_count 2)) = None"
    by (auto simp: deref_begin_def vxt_lock_def free_sock_def)
  ultimately show ?thesis by (auto simp: free_sock_def intro!: exI [of _ "free_sock 1 (sample_count 2)"])
qed


theorem socket_fresh_or_hangs_witness:
  "(\<exists>h s'. vxt_socket PF_UNIX SOCK_STREAM SOCK_STREAM sample_one = Some (h, s') \<and> h \<noteq> 0 \<and> h \<noteq> 1)
   \<and> vxt_socket PF_UNIX SOCK_STREAM SOCK_STREAM (sample_one\<lparr>socket_handles := 1, socket_wrap := True\<rparr>) = None"
proof -
  let ?w = "sample_one\<lparr>socket_handles := 1, socket_wrap := True\<rparr>"
  have ok: "table_ok sample_one" by (rule refs_okD [OF sample_one_refs])
  have w: "table_ok ?w" by (simp add: table_ok_def new_sock_def)
  have "\<not> wrapped sample_one" "wrapped ?w" "next_handle ?w = 1"
    by (simp_all add: wrapped_def next_handle_def sample_one_def with_new_def)
  moreover have "handle (new_sock 1) = 1" by (simp add: new_sock_def)
  ultimately show ?thesis
    using socket_fresh_or_hangs [OF ok] socket_fresh_or_hangs [OF w] by (auto simp: vxt_malloc_def)
qed

theorem double_close_frees_witness:
  "\<exists>s1 s2. vxt_close 1 VXT_CLOSE_LOCAL sample_busy = Some (0, s1) \<and> vxt_close 1 VXT_CLOSE_LOCAL s1 = Some (0, s2)
     \<and> socks s2 1 = None \<and> vxt_deref_socket 1 s2 = None"
proof -
  have ok: "table_ok sample_busy"
    unfolding sample_busy_def by (rule table_ok_set [OF refs_okD(2) [OF sample_one_refs], of 1 "new_sock 1"]) simp_all
  have "socks sample_busy 1 = Some ((new_sock 1)\<lparr>ref_cnt := 2\<rparr>)" by (simp add: sample_busy_def)
  from double_close_frees [OF ok this, of VXT_CLOSE_LOCAL] show ?thesis
    by (simp add: new_sock_def flag_set_def VXT_CLOSE_LOCAL_def VXT_CLOSE_FORCE_def)
qed

theorem connect_leaves_no_trace_witness:
  "\<exists>st c parms' s'. vxt_msg_connect VXTCTRLR_MSG_DEV sample_ep [] default_parms ((sample_lib 5 VXT_MSG_ATTACH_SUCCESS)\<lparr>allocs := [False]\<rparr>)
       = Some (st, c, parms', s') \<and> st = VXT_NOMEM \<and> open_fds s' = [3] \<and> live_connections s' = []"
proof -
  let ?s = "(sample_lib 5 VXT_MSG_ATTACH_SUCCESS)\<lparr>allocs := [False]\<rparr>"
  have "case vxt_msg_connect VXTCTRLR_MSG_DEV sample_ep [] default_parms ?s of Some (st, c, p, s) \<Rightarrow> st = VXT_NOMEM | None \<Rightarrow> False"
    by code_simp
  then obtain c p s where r: "vxt_msg_connect VXTCTRLR_MSG_DEV sample_ep [] default_parms ?s = Some (VXT_NOMEM, c, p, s)"
    by (auto split: option.splits)
  have "lib_ok ?s" by (simp add: lib_ok_def)
  from connect_leaves_no_trace [OF this r] r show ?thesis by (simp add: sample_lib_def)
qed

text \<open>A connection is successful although the device reports that it is busy.\<close>

lemma busy_attach_connects:
  "\<exists>s'. vxt_msg_connect VXTCTRLR_MSG_DEV sample_ep [] default_parms (sample_lib 5 VXT_MSG_ATTACH_BUSY)
     = Some (VXT_SUCCESS, Some 1, \<lparr>recv_buf_size = 120, recv_sub_buf_cnt = 4, send_buf_size = 120, send_sub_buf_cnt = 4\<rparr>, s')"
proof -
  have "case vxt_msg_connect VXTCTRLR_MSG_DEV sample_ep [] default_parms (sample_lib 5 VXT_MSG_ATTACH_BUSY) of
      Some (st, c, p, s) \<Rightarrow> st = VXT_SUCCESS \<and> c = Some 1
        \<and> p = \<lparr>recv_buf_size = 120, recv_sub_buf_cnt = 4, send_buf_size = 120, send_sub_buf_cnt = 4\<rparr> | None \<Rightarrow> False"
    by code_simp
  then show ?thesis by (auto split: option.splits)
qed

lemma sample_add:
  obtains d s where "vxt_msg_add VXTCTRLR_MSG_DEV sample_ep default_parms sample_busy = Some (VXT_SUCCESS, Some 2, s)"
    "devs s 2 = Some d" "sendq_set d" "rcvq_set d"
proof -
  have "case vxt_msg_add VXTCTRLR_MSG_DEV sample_ep default_parms sample_busy of
      Some (st, c, s) \<Rightarrow> st = VXT_SUCCESS \<and> c = Some 2 \<and> (case devs s 2 of Some d \<Rightarrow> sendq_set d \<and> rcvq_set d | None \<Rightarrow> False)
    | None \<Rightarrow> False" by code_simp
  then show thesis by (auto intro: that split: option.splits)
qed

theorem bind_close_restores_witness:
  "\<exists>s1 s2. vxt_bind 1 sample_ep sample_one = Some (0, s1) \<and> vxt_close 1 VXT_CLOSE_LOCAL s1 = Some (0, s2)
     \<and> socks s2 1 = None \<and> devs s2 = devs sample_one \<and> open_fds s2 = open_fds sample_one"
proof -
  obtain d s where m: "vxt_msg_add VXTCTRLR_MSG_DEV sample_ep default_parms sample_busy = Some (VXT_SUCCESS, Some 2, s)"
    "devs s 2 = Some d" "sendq_set d" "rcvq_set d" by (rule sample_add)
  let ?k = "(new_sock 1)\<lparr>ref_cnt := 2, sdev := Some 2, sstate := VXT_SOCKET_CONNECTED\<rparr>"
  have t: "table s = table sample_busy" by (rule more_table [OF msg_add_more [OF m(1)]])
  have "\<not> socket_lock s" using table_simps(5) [OF t] by (simp add: sample_busy_def)
  then have "vxt_deref_socket 1 (set_sock 1 ?k s) = Some (set_sock 1 (?k\<lparr>ref_cnt := 1\<rparr>) s)"
    using deref_shared [of "set_sock 1 ?k s" 1 ?k] by simp
  with sample_find m(1) have b: "vxt_bind 1 sample_ep sample_one = Some (0, set_sock 1 (?k\<lparr>ref_cnt := 1\<rparr>) s)"
    by (simp add: vxt_bind_def) (simp add: sample_busy_def new_sock_def)
  have n: "socks sample_one 1 = Some (new_sock 1)" "handle (new_sock 1) = 1" by (simp_all add: new_sock_def)
  have b': "vxt_bind (handle (new_sock 1)) sample_ep sample_one = Some (0, set_sock 1 (?k\<lparr>ref_cnt := 1\<rparr>) s)"
    using b by (simp only: n(2))
  have "flag_set VXT_CLOSE_LOCAL (VXT_CLOSE_REMOTE OR VXT_CLOSE_LOCAL)" "\<not> flag_set VXT_CLOSE_LOCAL VXT_CLOSE_FORCE"
    by (simp_all add: flag_set_def VXT_CLOSE_LOCAL_def VXT_CLOSE_FORCE_def VXT_CLOSE_REMOTE_def)
  from bind_close_restores [OF sample_one_refs n(1) _ _ b' _ m(3,4) this] m(2) obtain s2 where
    "vxt_close 1 VXT_CLOSE_LOCAL (set_sock 1 (?k\<lparr>ref_cnt := 1\<rparr>) s) = Some (0, s2)" "socks s2 = (socks sample_one)(1 := None)"
    "devs s2 = devs sample_one" "open_fds s2 = open_fds sample_one" unfolding n(2) by auto
  with b show ?thesis by auto
qed


text \<open>Entries of a poll for a device: handle 1 exists, handle 9 does not.\<close>

definition sample_poll :: "u64 \<Rightarrow> vxt_poll_obj" where
  "sample_poll h = \<lparr>po_object = h, po_events = 0x6001, po_revents = 0\<rparr>"

lemma sample_poll_events: "ucast (po_events (sample_poll h)) AND POLLVXT \<noteq> 0"
  by (simp add: sample_poll_def POLLVXT_def)

theorem poll_leaks_reference_witness:
  "\<exists>s1 s2 tk. vxt_poll [sample_poll 1, sample_poll 9] 5 sample_one = Some (- 1, [sample_poll 1, sample_poll 9], s1)
     \<and> vxt_close 1 VXT_CLOSE_LOCAL s1 = Some (0, s2) \<and> socks s2 1 = Some tk \<and> ref_cnt tk = 1"
proof -
  have n: "socks sample_one 1 = Some (new_sock 1)" "handle (new_sock 1) = 1" "ref_cnt (new_sock 1) = 1" by (simp_all add: new_sock_def)
  have h: "handle (new_sock 1) = ucast (po_object (sample_poll 1))" by (simp add: sample_poll_def new_sock_def)
  have q: "handle tk \<noteq> ucast (po_object (sample_poll 9))" if "socks sample_one b = Some tk" for b tk
    using that by (auto simp: sample_poll_def new_sock_def split: if_splits)
  have o: "\<not> flag_set VXT_CLOSE_LOCAL VXT_CLOSE_FORCE" by (simp add: flag_set_def VXT_CLOSE_LOCAL_def VXT_CLOSE_FORCE_def)
  have "\<exists>s1 s2 tk. vxt_poll [sample_poll 1, sample_poll 9] 5 sample_one = Some (- 1, [sample_poll 1, sample_poll 9], s1)
      \<and> errno s1 = ENOTSOCK \<and> vxt_close (handle (new_sock 1)) VXT_CLOSE_LOCAL s1 = Some (0, s2) \<and> socks s2 1 = Some tk \<and> ref_cnt tk = 1"
    by (rule poll_leaks_reference [OF refs_okD(2) [OF sample_one_refs] _ _ n(1,3) sample_poll_events h sample_poll_events])
      (simp, simp, erule q, rule o)
  then show ?thesis unfolding n(2) by blast
qed


abbreviation sample_event :: poll_entry where
  "sample_event \<equiv> vxt_write_event_wait (ptr None) (ucast (po_events (sample_poll 1))) 0"

lemma sample_poll_call:
  fixes s :: "nat sock_lib"
  defines "b \<equiv> set_sock 1 ((new_sock 1)\<lparr>ref_cnt := 2\<rparr>) s"
  assumes ok: "table_ok s" and so: "socks s = [1 \<mapsto> new_sock 1]" and al: "allocs s = []"
    and w: "vxt_msg_wait [sample_event] 5 b = Some (VXT_SUCCESS, Some 0, es, s1)"
  shows "\<exists>fds. vxt_poll [sample_poll 1] 5 s = Some (0, fds, set_sock 1 ((new_sock 1)\<lparr>ref_cnt := 1\<rparr>) s1)"
proof -
  have t: "socks s1 = socks b" "socket_lock s1 = socket_lock b" using table_simps [OF kept_table(1) [OF kept_wait [OF w]]] by auto
  have d: "vxt_deref_socket 1 s1 = Some (set_sock 1 ((new_sock 1)\<lparr>ref_cnt := 1\<rparr>) s1)"
    using deref_shared [of s1 1 "(new_sock 1)\<lparr>ref_cnt := 2\<rparr>"] t table_okD(3) [OF ok] by (simp add: b_def)
  have f: "vxt_find_socket (ucast (po_object (sample_poll 1))) False s = Some (Some 1, b)"
    using find_socket_hit [OF ok, of 1 "new_sock 1"] so by (simp add: b_def sample_poll_def new_sock_def)
  have g: "socks b 1 = Some ((new_sock 1)\<lparr>ref_cnt := 2\<rparr>)" "sdev ((new_sock 1)\<lparr>ref_cnt := 2\<rparr>) = None"
    by (simp_all add: b_def new_sock_def)
  have ps: "poll_sockets [sample_poll 1] s = Some (True, [(Some 1, sample_event)], b)"
    by (simp only: poll_sockets.simps f g sample_poll_events simp_thms if_True Option.bind_lunit prod.case option.case)
  have "vxt_malloc s = (True, s)" using al by (simp add: vxt_malloc_def)
  then show ?thesis by (simp add: vxt_poll_def ps w d Let_def del: poll_sockets.simps One_nat_def)
qed

text \<open>The library after its initialisation, and with one socket.\<close>

abbreviation sample_init :: "nat sock_lib" where
  "sample_init \<equiv> snd (vxt_socket_lib_init sample_zero)"

lemma sample_init: "vxt_socket_lib_init sample_zero = (VXT_SUCCESS, sample_init)"
  by (simp add: vxt_socket_lib_init_def vxt_msg_init_def vxt_msg_open_com_def sample_lib_def sample_os_def VXT_INVALID_DEV_OBJ_def)

lemma sample_init_fields:
  "socks sample_init = (\<lambda>_. None)" "live_sockets sample_init = []" "socket_handles sample_init = 1" "\<not> socket_wrap sample_init"
  "\<not> socket_lock sample_init" "next_addr sample_init = 1" "allocs sample_init = []" "devs sample_init = (\<lambda>_. None)"
  "live_connections sample_init = []"
  by (simp_all add: vxt_socket_lib_init_def vxt_msg_init_def vxt_msg_open_com_def sample_lib_def sample_os_def VXT_INVALID_DEV_OBJ_def)

theorem interface_keeps_sockets_witness:
  "\<exists>s. performs [Call_socket PF_UNIX SOCK_STREAM SOCK_STREAM, Call_poll [sample_poll 1] 5] sample_init = Some s
     \<and> (\<forall>a sk. socks s a = Some sk \<longrightarrow> ref_cnt sk = 1 \<and> handle sk \<noteq> 0)"
proof -
  let ?one = "with_new sample_init sample_init" and ?calls = "[Call_socket PF_UNIX SOCK_STREAM SOCK_STREAM, Call_poll [sample_poll 1] 5]"
  have r0: "refs_ok [] {} sample_init" by (rule refs_init) (simp_all add: sample_init_fields lib_ok_def)
  have g: "vxt_get_socket sample_init = Some (0, Some 1, ?one)"
    using get_socket_result [OF refs_okD(2) [OF r0]] by (simp add: vxt_malloc_def sample_init_fields wrapped_def)
  have one: "socks ?one = [1 \<mapsto> new_sock 1]" "allocs ?one = []" "live_sockets ?one = [1]"
    by (simp_all add: with_new_def next_handle_def set_sock_def sample_init_fields)
  have ok: "table_ok ?one" by (rule refs_okD [OF refs_create [OF r0 g]])
  have p: "perform (Call_socket PF_UNIX SOCK_STREAM SOCK_STREAM) sample_init = Some ?one" by (simp add: vxt_socket_def g one)
  have "case vxt_msg_wait [sample_event] 5 (set_sock 1 ((new_sock 1)\<lparr>ref_cnt := 2\<rparr>) ?one) of
      Some (st, n, es, s) \<Rightarrow> st = VXT_SUCCESS \<and> n = Some 0 | None \<Rightarrow> False"
    by code_simp
  then obtain es s1 where "vxt_msg_wait [sample_event] 5 (set_sock 1 ((new_sock 1)\<lparr>ref_cnt := 2\<rparr>) ?one) = Some (VXT_SUCCESS, Some 0, es, s1)"
    by (auto split: option.splits)
  from sample_poll_call [OF ok one(1,2) this] p obtain s where s: "performs ?calls sample_init = Some s" by auto
  have k: "polls_known ?calls sample_init" 
  proof -
    obtain h where "vxt_socket PF_UNIX SOCK_STREAM SOCK_STREAM sample_init = Some (h, ?one)" using p by auto
    then have "polls_known ?calls sample_init = polls_known [Call_poll [sample_poll 1] 5] ?one" by simp
    then show ?thesis by (auto simp: one sample_poll_def new_sock_def split: option.splits)
  qed
  from interface_keeps_sockets [OF sample_init s k] s show ?thesis by (intro exI [of _ s] conjI) (simp_all add: sample_init_fields)
qed


theorem poll_gives_back_witness:
  "\<exists>r fds' s'. vxt_poll [sample_poll 1] 5 sample_one = Some (r, fds', s') \<and> refs_ok [] {} s'"
proof -
  have ok: "table_ok sample_one" by (rule refs_okD [OF sample_one_refs])
  have "case vxt_msg_wait [sample_event] 5 (set_sock 1 ((new_sock 1)\<lparr>ref_cnt := 2\<rparr>) sample_one) of
      Some (st, n, es, s) \<Rightarrow> st = VXT_SUCCESS \<and> n = Some 0 | None \<Rightarrow> False"
    by code_simp
  then obtain es s1 where "vxt_msg_wait [sample_event] 5 (set_sock 1 ((new_sock 1)\<lparr>ref_cnt := 2\<rparr>) sample_one) = Some (VXT_SUCCESS, Some 0, es, s1)"
    by (auto split: option.splits)
  from sample_poll_call [OF ok _ _ this] obtain fds' s' where v: "vxt_poll [sample_poll 1] 5 sample_one = Some (0, fds', s')" by auto
  have "\<forall>p \<in> set [sample_poll 1]. ucast (po_events p) AND POLLVXT \<noteq> 0 \<longrightarrow>
      (\<exists>a sk. socks sample_one a = Some sk \<and> handle sk = ucast (po_object p))"
    by (auto simp: sample_poll_def new_sock_def)
  from poll_gives_back [OF sample_one_refs v this] v show ?thesis by blast
qed

text \<open>A socket whose device sends to itself, with the queue \<open>i\<close> in the region \<open>m\<close>.\<close>

definition sample_conn :: "vxt_msg_dev_instance \<Rightarrow> shm \<Rightarrow> nat sock_lib" where
  "sample_conn i m = (set_sock 1 ((new_sock 1)\<lparr>sdev := Some 2, sstate := VXT_SOCKET_CONNECTED\<rparr>) sample_one)\<lparr>
     devs := [2 \<mapsto> (put_instance i sample_mem)\<lparr>sendq_set := True, rcvq_set := True, send_buf := Some 8, rcv_buf := Some 8\<rparr>],
     live_connections := [2], regions := [8 \<mapsto> m], cookies := (\<lambda>_. vxtmsg_queue_cookie), next_addr := 3\<rparr>"

lemma sample_conn_refs: "refs_ok [] {} (sample_conn i m)"
  by (simp add: refs_ok_def sock_ok_def table_ok_def lib_ok_def owned_def sample_conn_def new_sock_def)

abbreviation sample_conn_dev :: "vxt_msg_dev_instance \<Rightarrow> msg_device" where
  "sample_conn_dev i \<equiv> (put_instance i sample_mem)\<lparr>sendq_set := True, rcvq_set := True, send_buf := Some 8, rcv_buf := Some 8\<rparr>"

abbreviation sample_conn_sock :: vxt_sock where
  "sample_conn_sock \<equiv> (new_sock 1)\<lparr>sdev := Some 2, sstate := VXT_SOCKET_CONNECTED\<rparr>"

lemma sample_conn_through:
  "sends_through (sample_conn i m) 1 sample_conn_sock (sample_conn_dev i) 8 m"
  "receives_through (sample_conn i m) 1 sample_conn_sock (sample_conn_dev i) 8 m"
  by (simp_all add: sends_through_def receives_through_def sample_conn_def)

lemma sample_conn_dev_truncate: "vxt_msg_dev_instance.truncate (sample_conn_dev i) = i"
  by (cases i) (simp add: put_instance_def vxt_msg_dev_instance.truncate_def)

lemma sample_conn_links: "stream i i m T \<Longrightarrow> linked (sample_conn i m) 1 1 T"
  using sample_conn_through [of i m] sample_conn_dev_truncate [of i] unfolding linked_def by metis

theorem socket_send_appends_witness:
  "\<exists>ret n s'. vxt_send [] id 1 [1, 2, 3] 3 0 (sample_conn sample_dev (mem sample_chan)) = Some ((ret, n), s')
     \<and> (if ret = - 1 then linked s' 1 1 [] else linked s' 1 1 (take (nat n) [1, 2, 3]))"
proof -
  have a: "get_allowed 0 (sendq (sample_conn_dev sample_dev)) (mem sample_chan)" using sample_calm(2) by simp
  have c: "cookie_ok (cookies (sample_conn sample_dev (mem sample_chan)) 8) [] (vxt_msg_dev_instance.truncate (sample_conn_dev sample_dev))"
    unfolding sample_conn_dev_truncate using sample_cookie by (simp add: sample_conn_def)
  have h: "handle sample_conn_sock = 1" by (simp add: new_sock_def)
  from socket_send_appends [OF sample_conn_refs sample_conn_links [OF sample_stream] sample_conn_through(1) _ sample_calm(1) a c,
      of 3 "[1, 2, 3]" id]
  show ?thesis unfolding h by (auto split: if_splits)
qed

theorem socket_recv_takes_witness:
  "\<exists>data s' T'. vxt_recv [] id 1 2 0 (sample_conn (sample_dev\<lparr>is_new := False, sendq := (prod sample_chan)\<lparr>buf_index := 1\<rparr>\<rparr>) sample_filled)
       = Some ((int (length data), data, int (length data)), s') \<and> [1, 2, 3] = data @ T' \<and> linked s' 1 1 T'"
proof -
  let ?i = "sample_dev\<lparr>is_new := False, sendq := (prod sample_chan)\<lparr>buf_index := 1\<rparr>\<rparr>"
  have s: "stream ?i ?i sample_filled [1, 2, 3]" by (rule stream_cong [OF sample_filled_stream]) simp_all
  have a: "get_allowed 0 (rcvq (sample_conn_dev ?i)) sample_filled"
    by (simp add: get_allowed_def flag_set_def msg_dev_def sample_eval sample_filled_def)
  have c: "cookie_ok (cookies (sample_conn ?i sample_filled) 8) [] (vxt_msg_dev_instance.truncate (sample_conn_dev ?i))"
    unfolding sample_conn_dev_truncate by (simp add: cookie_ok_def)
  have h: "handle sample_conn_sock = 1" by (simp add: new_sock_def)
  from socket_recv_takes [OF sample_conn_refs sample_conn_links [OF s] sample_conn_through(2) _ sample_calm(1) a c, of 2 id]
  show ?thesis unfolding h by (auto simp: eq_commute)
qed

end
