(* ===== verification/Vxt_Signal.thy ===== *)
theory Vxt_Signal
  imports Vxt_Trace "HOL-Library.Monad_Syntax"
begin

text \<open>
  Signals between two controllers, \<^verbatim>\<open>kernel/vxtctrlr/common/vxt_signal.c\<close>: signal objects with a handle and
  a reference count in a hash table, and a ring of handles in shared memory through which one
  controller signals the objects of the other. A use of a freed object, an access outside of the
  ring, a second attempt to take the lock and a loop that does not end are the value \<open>None\<close>.
\<close>

subsection \<open>Data\<close>

type_synonym vxtsig_handle_t = u64

text \<open>The wait queue of an object is the number of times that it has been woken up.\<close>

record vxtsig_object =
  so_handle :: vxtsig_handle_t
  so_controller :: u64
  so_device :: u64
  remote_signal :: vxtsig_handle_t
  callback :: nat
  pending_signal :: u32
  pending_poll_wakeup :: u32
  so_shutting_down :: u32
  hidden :: u32
  so_ref_cnt :: u32

text \<open>
  The controller's part, at address \<open>ctrlr_obj\<close>, with the objects by their addresses; \<open>events\<close> counts the
  events that have been sent to the remote controller.
\<close>

record vxtsig_controller =
  ctrlr_obj :: u64
  sig_lock :: bool
  sig_controller :: u64
  sig_trace :: vxt_trace_header
  signal_wait :: nat
  signal_running :: u32
  sig_shutting_down :: u32
  sig_cnt :: u32
  int_cnt :: u32
  hash_table :: "nat \<Rightarrow> u64 list"
  objs :: "u64 \<rightharpoonup> vxtsig_object"
  events :: nat

text \<open>The buffer that the two controllers share: the header and the requests behind it.\<close>

record vxtsig_com =
  send_index :: u32
  recv_index :: u32
  restart_signal_request :: u32
  sig_list :: "vxtsig_handle_t list"

definition VXTSIG_HTABLE_SIZE :: u64 where "VXTSIG_HTABLE_SIZE = 64"
definition VXTSIG_MAX_SIG_CNT :: u32 where "VXTSIG_MAX_SIG_CNT = 20"
definition VXTSIG_IN :: u32 where "VXTSIG_IN = 0x1"
definition SIG_HUP :: u32 where "SIG_HUP = 0x10"

definition VXTSIG_HASH :: "u64 \<Rightarrow> nat" where
  "VXTSIG_HASH addr = unat (drop_bit 6 addr AND (VXTSIG_HTABLE_SIZE - 1))"

definition vxt_slock :: "vxtsig_controller \<Rightarrow> vxtsig_controller option" where
  "vxt_slock s = (if sig_lock s then None else Some (s\<lparr>sig_lock := True\<rparr>))"

definition vxt_sunlock :: "vxtsig_controller \<Rightarrow> vxtsig_controller" where
  "vxt_sunlock s = s\<lparr>sig_lock := False\<rparr>"

definition VXT_TRACE :: "u64 \<Rightarrow> u64 \<Rightarrow> u64 \<Rightarrow> u64 \<Rightarrow> vxtsig_controller \<Rightarrow> vxtsig_controller option" where
  "VXT_TRACE cmd a b c s = do { t \<leftarrow> vxt_trace_log (sig_trace s) cmd a b c; Some (s\<lparr>sig_trace := t\<rparr>) }"

definition set_obj :: "u64 \<Rightarrow> vxtsig_object \<Rightarrow> vxtsig_controller \<Rightarrow> vxtsig_controller" where
  "set_obj a ob s = s\<lparr>objs := (objs s)(a \<mapsto> ob)\<rparr>"

text \<open>The wake-up of the senders that wait for space, and an event for the remote controller.\<close>

definition wakeup_senders :: "vxtsig_controller \<Rightarrow> vxtsig_controller" where
  "wakeup_senders s = s\<lparr>signal_running := 1, signal_wait := Suc (signal_wait s)\<rparr>"

definition event_signal :: "vxtsig_controller \<Rightarrow> vxtsig_controller option" where
  "event_signal s =
     VXT_TRACE 13 (ctrlr_obj s) (ucast (sig_cnt s + 1)) 0 (s\<lparr>sig_cnt := sig_cnt s + 1, events := Suc (events s)\<rparr>)"

subsection \<open>The controller\<close>

text \<open>The allocations of the trace table, the structure and the hash table.\<close>

definition vxtsig_controller_init ::
    "(nat \<Rightarrow> vxt_trace_entry list option) \<Rightarrow> u64 option \<Rightarrow> bool \<Rightarrow> u64 \<Rightarrow> (vxt_status + vxtsig_controller) option" where
  "vxtsig_controller_init trace_mem obj_mem table_mem vxtcom =
     (case vxt_trace_create trace_mem 500 of
        Inl _ \<Rightarrow> Some (Inl VXT_NOMEM)
      | Inr trace_table \<Rightarrow>
          (case obj_mem of
             None \<Rightarrow> Some (Inl VXT_NOMEM)
           | Some a \<Rightarrow>
               if \<not> table_mem then Some (Inl VXT_NOMEM)
               else do {
                 s \<leftarrow> VXT_TRACE 0 a vxtcom 0
                   \<lparr>ctrlr_obj = a, sig_lock = False, sig_controller = vxtcom, sig_trace = fst (vxt_trace_start trace_table),
                    signal_wait = 0, signal_running = 1, sig_shutting_down = 0, sig_cnt = 0, int_cnt = 0,
                    hash_table = (\<lambda>_. []), objs = (\<lambda>_. None), events = 0\<rparr>;
                 Some (Inr s) }))"

text \<open>
  The end of the controller: everybody who waits is woken up, of a bucket that is not empty the
  first object only. The controller's memory is freed, the objects stay.
\<close>

definition wakeup_bucket :: "vxtsig_controller \<Rightarrow> nat \<Rightarrow> vxtsig_controller option" where
  "wakeup_bucket s i =
     (case hash_table s i of
        [] \<Rightarrow> Some s
      | a # _ \<Rightarrow> do { ob \<leftarrow> objs s a; Some (set_obj a (ob\<lparr>callback := Suc (callback ob)\<rparr>) s) })"

fun wakeup_buckets :: "nat list \<Rightarrow> vxtsig_controller \<Rightarrow> vxtsig_controller option" where
  "wakeup_buckets [] s = Some s"
| "wakeup_buckets (i # is) s = do { s \<leftarrow> wakeup_bucket s i; wakeup_buckets is s }"

definition vxtsig_controller_shutdown :: "vxtsig_controller \<Rightarrow> (u64 \<rightharpoonup> vxtsig_object) option" where
  "vxtsig_controller_shutdown s =
     do { s \<leftarrow> wakeup_buckets [0..<64] (wakeup_senders (s\<lparr>sig_shutting_down := 1\<rparr>)); Some (objs s) }"

subsection \<open>The hash table\<close>

definition set_bucket :: "nat \<Rightarrow> u64 list \<Rightarrow> vxtsig_controller \<Rightarrow> vxtsig_controller" where
  "set_bucket i as s = s\<lparr>hash_table := (hash_table s)(i := as)\<rparr>"

definition vxt_hash_insert :: "u64 \<Rightarrow> vxtsig_object \<Rightarrow> vxtsig_controller \<Rightarrow> vxtsig_controller" where
  "vxt_hash_insert a ob s = set_bucket (VXTSIG_HASH (so_handle ob)) (a # hash_table s (VXTSIG_HASH (so_handle ob))) s"

fun lookup_loop :: "vxtsig_controller \<Rightarrow> vxtsig_handle_t \<Rightarrow> bool \<Rightarrow> u64 list \<Rightarrow> u64 option option" where
  "lookup_loop s h find_hidden [] = Some None"
| "lookup_loop s h find_hidden (a # as) =
     do { ob \<leftarrow> objs s a;
          if so_handle ob = h then (if \<not> find_hidden \<and> hidden ob \<noteq> 0 then Some None else Some (Some a))
          else lookup_loop s h find_hidden as }"

definition vxtsig_hash_lookup ::
    "vxtsig_handle_t \<Rightarrow> bool \<Rightarrow> vxtsig_controller \<Rightarrow> (u64 option \<times> vxtsig_controller) option" where
  "vxtsig_hash_lookup h find_hidden s =
     do { s \<leftarrow> VXT_TRACE 1 (ctrlr_obj s) h 0 s;
          found \<leftarrow> lookup_loop s h find_hidden (hash_table s (VXTSIG_HASH h));
          case found of
            None \<Rightarrow> Some (None, s)
          | Some a \<Rightarrow> do { ob \<leftarrow> objs s a; Some (Some a, set_obj a (ob\<lparr>so_ref_cnt := so_ref_cnt ob + 1\<rparr>) s) } }"

fun delete_loop :: "vxtsig_controller \<Rightarrow> vxtsig_handle_t \<Rightarrow> u64 list \<Rightarrow> (bool \<times> u64 list) option" where
  "delete_loop s h [] = Some (False, [])"
| "delete_loop s h (a # as) =
     do { ob \<leftarrow> objs s a;
          if so_handle ob = h then Some (True, as)
          else do { (found, bs) \<leftarrow> delete_loop s h as; Some (found, a # bs) } }"

text \<open>The first entry of the bucket is read without a test whether there is one.\<close>

definition vxtsig_hash_delete :: "vxtsig_handle_t \<Rightarrow> vxtsig_controller \<Rightarrow> (vxt_status \<times> vxtsig_controller) option" where
  "vxtsig_hash_delete h s =
     (if hash_table s (VXTSIG_HASH h) = [] then None
      else do {
        (found, as) \<leftarrow> delete_loop s h (hash_table s (VXTSIG_HASH h));
        Some (if found then VXT_SUCCESS else VXT_FAIL, set_bucket (VXTSIG_HASH h) as s) })"

definition vxtsig_object_release :: "u64 \<Rightarrow> vxtsig_controller \<Rightarrow> vxtsig_controller option" where
  "vxtsig_object_release a s =
     do { s \<leftarrow> VXT_TRACE 2 (ctrlr_obj s) a 0 s;
          ob \<leftarrow> objs s a;
          if so_ref_cnt ob = 1
          then do { (_, s) \<leftarrow> vxtsig_hash_delete (so_handle ob) s; Some (s\<lparr>objs := (objs s)(a := None)\<rparr>) }
          else Some (set_obj a (ob\<lparr>so_ref_cnt := so_ref_cnt ob - 1\<rparr>) s) }"

subsection \<open>Signal objects\<close>

definition new_object :: "u64 \<Rightarrow> u64 \<Rightarrow> u64 \<Rightarrow> vxtsig_object" where
  "new_object ctrlr device a = \<lparr>so_handle = a, so_controller = ctrlr, so_device = device, remote_signal = 0, callback = 0,
     pending_signal = 0, pending_poll_wakeup = 0, so_shutting_down = 0, hidden = 0, so_ref_cnt = 1\<rparr>"

text \<open>\<open>mem\<close> is the address that the allocation returns.\<close>

definition vxtsig_object_create ::
    "u64 option \<Rightarrow> u64 \<Rightarrow> u64 \<Rightarrow> vxtsig_controller \<Rightarrow> (vxt_status \<times> vxtsig_handle_t option \<times> vxtsig_controller) option" where
  "vxtsig_object_create mem ctrlr device s =
     (case mem of
        None \<Rightarrow> Some (VXT_NOMEM, None, s)
      | Some a \<Rightarrow> do {
          let ob = new_object ctrlr device a;
          s \<leftarrow> vxt_slock (set_obj a ob s);
          Some (VXT_SUCCESS, Some (so_handle ob), vxt_sunlock (vxt_hash_insert a ob s)) })"

definition wake :: "vxtsig_object \<Rightarrow> vxtsig_object" where
  "wake ob = ob\<lparr>pending_signal := 1, pending_poll_wakeup := 1, callback := Suc (callback ob)\<rparr>"

definition vxtsig_object_destroy :: "vxtsig_handle_t \<Rightarrow> vxtsig_controller \<Rightarrow> (vxt_status \<times> vxtsig_controller) option" where
  "vxtsig_object_destroy h s =
     do { s \<leftarrow> vxt_slock s;
          (found, s) \<leftarrow> vxtsig_hash_lookup h False s;
          case found of
            None \<Rightarrow> Some (VXT_FAIL, vxt_sunlock s)
          | Some a \<Rightarrow> do {
              ob \<leftarrow> objs s a;
              let s = wakeup_senders (set_obj a ((wake ob)\<lparr>so_shutting_down := 1, hidden := 1\<rparr>) s);
              s \<leftarrow> vxtsig_object_release a s;
              s \<leftarrow> vxtsig_object_release a s;
              Some (VXT_SUCCESS, vxt_sunlock s) } }"

definition vxtsig_object_signal :: "vxtsig_handle_t \<Rightarrow> vxtsig_controller \<Rightarrow> (vxt_status \<times> vxtsig_controller) option" where
  "vxtsig_object_signal h s =
     do { s \<leftarrow> vxt_slock s;
          (found, s) \<leftarrow> vxtsig_hash_lookup h False s;
          case found of
            None \<Rightarrow> Some (VXT_FAIL, vxt_sunlock s)
          | Some a \<Rightarrow> do {
              ob \<leftarrow> objs s a;
              s \<leftarrow> vxtsig_object_release a (wakeup_senders (set_obj a ((wake ob)\<lparr>so_shutting_down := 1\<rparr>) s));
              Some (VXT_SUCCESS, vxt_sunlock s) } }"

definition vxtsig_object_register_remote ::
    "vxtsig_handle_t \<Rightarrow> vxtsig_handle_t \<Rightarrow> vxtsig_controller \<Rightarrow> (vxt_status \<times> vxtsig_controller) option" where
  "vxtsig_object_register_remote h remote s =
     do { s \<leftarrow> vxt_slock s;
          (found, s) \<leftarrow> vxtsig_hash_lookup h False s;
          case found of
            None \<Rightarrow> Some (VXT_FAIL, vxt_sunlock s)
          | Some a \<Rightarrow> do {
              ob \<leftarrow> objs s a;
              s \<leftarrow> vxtsig_object_release a (set_obj a (ob\<lparr>remote_signal := remote\<rparr>) s);
              Some (VXT_SUCCESS, vxt_sunlock s) } }"

subsection \<open>Receiving signals\<close>

definition sig_next :: "u32 \<Rightarrow> u32" where
  "sig_next i = (if i + 1 = VXTSIG_MAX_SIG_CNT then 0 else i + 1)"

definition sig_slot :: "vxtsig_com \<Rightarrow> u32 \<Rightarrow> vxtsig_handle_t option" where
  "sig_slot b i = (if unat i < length (sig_list b) then Some (sig_list b ! unat i) else None)"

text \<open>One request: the object that the handle names, if there is one, is woken up.\<close>

definition deliver :: "vxtsig_handle_t \<Rightarrow> vxtsig_controller \<Rightarrow> vxtsig_controller option" where
  "deliver h s =
     do { (found, s) \<leftarrow> vxtsig_hash_lookup h False s;
          case found of
            None \<Rightarrow> Some s
          | Some a \<Rightarrow> do {
              s \<leftarrow> VXT_TRACE 6 a 0 0 s;
              ob \<leftarrow> objs s a;
              vxtsig_object_release a (set_obj a (wake ob) s) } }"

text \<open>The requests from \<open>i\<close> up to \<open>last_index\<close>, counted in \<open>cnt\<close>.\<close>

partial_function (option) receive_loop ::
    "vxtsig_com \<Rightarrow> u32 \<Rightarrow> u32 \<Rightarrow> u32 \<Rightarrow> vxtsig_controller \<Rightarrow> (u32 \<times> vxtsig_controller) option" where
  "receive_loop b last_index i cnt s =
     (if i = last_index then Some (cnt, s)
      else do {
        h \<leftarrow> sig_slot b i;
        s \<leftarrow> deliver h s;
        receive_loop b last_index (sig_next i) (cnt + 1) s })"

text \<open>
  The rounds of the interrupt. \<open>remote\<close> lists what the remote controller does to the buffer at the
  barrier at the end of each round; the result is the buffer, the number of requests and the flag
  of the last round.
\<close>

partial_function (option) process_signals ::
    "(vxtsig_com \<Rightarrow> vxtsig_com) list \<Rightarrow> u32 \<Rightarrow> vxtsig_com \<Rightarrow> vxtsig_controller
      \<Rightarrow> (vxtsig_com \<times> u32 \<times> bool \<times> vxtsig_controller) option" where
  "process_signals remote cnt b s =
     (let last_index = send_index b; signal = (sig_next last_index = recv_index b)
      in do {
        x \<leftarrow> receive_loop b last_index (recv_index b) cnt s;
        let b = (case remote of [] \<Rightarrow> id | r # _ \<Rightarrow> r) (b\<lparr>recv_index := last_index\<rparr>);
        if send_index b \<noteq> recv_index b then process_signals (tl remote) (fst x) b (snd x)
        else Some (b, fst x, signal, snd x) })"

definition vxtsig_interrupt ::
    "(vxtsig_com \<Rightarrow> vxtsig_com) list \<Rightarrow> u64 \<Rightarrow> vxtsig_com \<Rightarrow> vxtsig_controller \<Rightarrow> (vxtsig_com \<times> vxtsig_controller) option" where
  "vxtsig_interrupt remote buffer b s =
     do { s \<leftarrow> vxt_slock (s\<lparr>int_cnt := int_cnt s + 1\<rparr>);
          s \<leftarrow> VXT_TRACE 5 (ctrlr_obj s) buffer (ucast (int_cnt s)) s;
          let s = (if signal_running s = 0 then wakeup_senders s else s);
          (b, cnt, signal, s) \<leftarrow> process_signals remote 0 b s;
          if signal \<or> VXTSIG_MAX_SIG_CNT - 1 \<le> cnt
          then do { s \<leftarrow> event_signal s; Some (b\<lparr>restart_signal_request := 1\<rparr>, vxt_sunlock s) }
          else Some (b, vxt_sunlock s) }"

subsection \<open>Waiting\<close>

text \<open>
  \<open>sleep\<close> is what happens while the caller waits, with the status of \<^verbatim>\<open>vxtcom_ctrlr_wait\<close>. A controller that is
  gone is not touched any more.
\<close>

definition vxtsig_wait ::
    "(vxtsig_controller \<Rightarrow> vxt_status \<times> vxtsig_controller) \<Rightarrow> vxtsig_handle_t \<Rightarrow> vxtsig_controller
      \<Rightarrow> (vxt_status \<times> vxtsig_controller) option" where
  "vxtsig_wait sleep h s =
     do { s \<leftarrow> vxt_slock s;
          s \<leftarrow> VXT_TRACE 7 (ctrlr_obj s) h 0 s;
          (found, s) \<leftarrow> vxtsig_hash_lookup h False s;
          case found of
            None \<Rightarrow> Some (VXT_FAIL, vxt_sunlock s)
          | Some a \<Rightarrow> do {
              ob \<leftarrow> objs s a;
              if pending_signal ob \<noteq> 0 then do {
                s \<leftarrow> vxtsig_object_release a (set_obj a (ob\<lparr>pending_signal := 0\<rparr>) s);
                s \<leftarrow> VXT_TRACE 8 (ctrlr_obj s) a h s;
                Some (VXT_SUCCESS, vxt_sunlock s) }
              else do {
                let (ret, s) = sleep (vxt_sunlock s);
                if ret = VXT_PARM then Some (ret, s)
                else do {
                  s \<leftarrow> vxt_slock s;
                  s \<leftarrow> VXT_TRACE 8 (ctrlr_obj s) a h s;
                  ob \<leftarrow> objs s a;
                  s \<leftarrow> vxtsig_object_release a (set_obj a (ob\<lparr>pending_signal := 0\<rparr>) s);
                  Some (VXT_SUCCESS, vxt_sunlock s) } } } }"

text \<open>The events; the registration of the caller in the wait queue changes nothing here.\<close>

definition vxtsig_poll :: "vxtsig_handle_t \<Rightarrow> u32 \<Rightarrow> vxtsig_controller \<Rightarrow> (vxt_status \<times> u32 \<times> vxtsig_controller) option" where
  "vxtsig_poll h revents s =
     do { s \<leftarrow> vxt_slock s;
          s \<leftarrow> VXT_TRACE 9 (ctrlr_obj s) h 0 s;
          (found, s) \<leftarrow> vxtsig_hash_lookup h False s;
          case found of
            None \<Rightarrow> Some (VXT_SUCCESS, revents OR SIG_HUP, vxt_sunlock s)
          | Some a \<Rightarrow> do {
              ob \<leftarrow> objs s a;
              let ev = (if pending_poll_wakeup ob \<noteq> 0 then VXTSIG_IN else 0) OR (if so_shutting_down ob = 1 then SIG_HUP else 0);
              s \<leftarrow> VXT_TRACE 12 a (ucast ev) 0 (set_obj a (ob\<lparr>pending_poll_wakeup := 0\<rparr>) s);
              s \<leftarrow> vxtsig_object_release a s;
              Some (VXT_SUCCESS, ev, vxt_sunlock s) } }"

definition vxtsig_inc_ref :: "vxtsig_handle_t \<Rightarrow> vxtsig_controller \<Rightarrow> (vxt_status \<times> vxtsig_controller) option" where
  "vxtsig_inc_ref h s =
     do { s \<leftarrow> vxt_slock s;
          (found, s) \<leftarrow> vxtsig_hash_lookup h False s;
          Some (case found of None \<Rightarrow> VXT_FAIL | Some _ \<Rightarrow> VXT_SUCCESS, vxt_sunlock s) }"

definition vxtsig_dec_ref :: "vxtsig_handle_t \<Rightarrow> vxtsig_controller \<Rightarrow> (vxt_status \<times> vxtsig_controller) option" where
  "vxtsig_dec_ref h s =
     do { s \<leftarrow> vxt_slock s;
          (found, s) \<leftarrow> vxtsig_hash_lookup h True s;
          case found of
            None \<Rightarrow> Some (VXT_FAIL, vxt_sunlock s)
          | Some a \<Rightarrow> do {
              s \<leftarrow> vxtsig_object_release a s;
              s \<leftarrow> vxtsig_object_release a s;
              Some (VXT_SUCCESS, vxt_sunlock s) } }"

subsection \<open>Sending signals\<close>

definition sig_full :: "vxtsig_com \<Rightarrow> bool" where
  "sig_full b \<longleftrightarrow> sig_next (send_index b) = recv_index b"

definition sig_store :: "vxtsig_handle_t \<Rightarrow> vxtsig_com \<Rightarrow> vxtsig_com option" where
  "sig_store h b =
     (if unat (send_index b) < length (sig_list b) then Some (b\<lparr>sig_list := (sig_list b)[unat (send_index b) := h]\<rparr>) else None)"

text \<open>After the store and a barrier the new index; after another barrier the two tests of the receiver's index.\<close>

definition sig_publish :: "vxtsig_com \<Rightarrow> vxtsig_com" where
  "sig_publish b = b\<lparr>send_index := sig_next (send_index b)\<rparr>"

definition was_empty :: "u32 \<Rightarrow> vxtsig_com \<Rightarrow> bool" where
  "was_empty prev_index b \<longleftrightarrow> prev_index = recv_index b"

definition is_full :: "u32 \<Rightarrow> vxtsig_com \<Rightarrow> bool" where
  "is_full prev_index b \<longleftrightarrow> sig_next (sig_next prev_index) = recv_index b"

definition sig_needed :: "u32 \<Rightarrow> vxtsig_com \<Rightarrow> bool" where
  "sig_needed prev_index b \<longleftrightarrow> was_empty prev_index b \<or> is_full prev_index b"

text \<open>
  \<open>sleep\<close> lists what happens in each wait for space, to the buffer too; \<open>remote\<close> is what the receiver does
  to the buffer between the new index and the test.
\<close>

fun signal_retry ::
    "(vxtsig_com \<Rightarrow> vxtsig_controller \<Rightarrow> vxt_status \<times> vxtsig_com \<times> vxtsig_controller) list \<Rightarrow> (vxtsig_com \<Rightarrow> vxtsig_com) \<Rightarrow> vxtsig_handle_t
      \<Rightarrow> vxtsig_com \<Rightarrow> vxtsig_controller \<Rightarrow> (vxt_status \<times> vxtsig_com \<times> vxtsig_controller) option" where
  "signal_retry sleeps remote h b s =
     (if sig_shutting_down s = 1 then Some (VXT_FAIL, b, vxt_sunlock s)
      else let s = s\<lparr>signal_running := 0\<rparr> in
      if sig_full b then
        (case sleeps of
           [] \<Rightarrow> None
         | sleep # sleeps \<Rightarrow> do {
             s \<leftarrow> VXT_TRACE 10 (ctrlr_obj s) 0 0 s;
             let (ret, b, s) = sleep b (vxt_sunlock s);
             if ret = VXT_PARM then Some (ret, b, s)
             else do {
               s \<leftarrow> vxt_slock s;
               s \<leftarrow> VXT_TRACE 11 (ctrlr_obj s) 0 0 s;
               signal_retry sleeps remote h b s } })
      else do {
        (found, s) \<leftarrow> vxtsig_hash_lookup h False (s\<lparr>signal_running := 1\<rparr>);
        case found of
          None \<Rightarrow> Some (VXT_FAIL, b, vxt_sunlock s)
        | Some a \<Rightarrow> do {
            ob \<leftarrow> objs s a;
            b \<leftarrow> sig_store (remote_signal ob) b;
            s \<leftarrow> vxtsig_object_release a s;
            let prev_index = send_index b;
            let b = remote (sig_publish b);
            s \<leftarrow> (if sig_needed prev_index b then event_signal s else Some s);
            Some (VXT_SUCCESS, b, vxt_sunlock s) } })"

declare signal_retry.simps [simp del]

definition vxtsig_signal ::
    "(vxtsig_com \<Rightarrow> vxtsig_controller \<Rightarrow> vxt_status \<times> vxtsig_com \<times> vxtsig_controller) list \<Rightarrow> (vxtsig_com \<Rightarrow> vxtsig_com) \<Rightarrow> vxtsig_handle_t
      \<Rightarrow> vxtsig_com \<Rightarrow> vxtsig_controller \<Rightarrow> (vxt_status \<times> vxtsig_com \<times> vxtsig_controller) option" where
  "vxtsig_signal sleeps remote h b s =
     do { s \<leftarrow> vxt_slock s;
          s \<leftarrow> VXT_TRACE 3 h (ucast (sig_cnt s)) 0 s;
          signal_retry sleeps remote h b s }"

definition vxtsig_check_pending_signals :: "vxtsig_com \<Rightarrow> vxtsig_controller \<Rightarrow> (vxtsig_com \<times> vxtsig_controller) option" where
  "vxtsig_check_pending_signals b s =
     do { s \<leftarrow> VXT_TRACE 4 (ctrlr_obj s) 0 0 s;
          if restart_signal_request b \<noteq> 0
          then do { s \<leftarrow> event_signal s; Some (b\<lparr>restart_signal_request := 0\<rparr>, s) } else Some (b, s) }"

definition vxtsig_init_send_buf :: "vxtsig_com \<Rightarrow> vxtsig_com" where
  "vxtsig_init_send_buf b = b\<lparr>send_index := 0, recv_index := 0, restart_signal_request := 0\<rparr>"

definition vxtsig_trace_playback ::
    "vxtsig_handle_t \<Rightarrow> vxt_trace_entry list \<Rightarrow> u32 \<Rightarrow> vxtsig_controller
      \<Rightarrow> (vxt_status \<times> vxt_trace_entry list \<times> u32 \<times> vxtsig_controller) option" where
  "vxtsig_trace_playback h buffer entry_count s =
     do { s \<leftarrow> vxt_slock s;
          (found, s) \<leftarrow> vxtsig_hash_lookup h False s;
          case found of
            None \<Rightarrow> Some (VXT_FAIL, buffer, entry_count, vxt_sunlock s)
          | Some a \<Rightarrow> do {
              s \<leftarrow> vxtsig_object_release a s;
              (buffer, n, ret) \<leftarrow> vxt_trace_playback (sig_trace s) buffer entry_count;
              Some (ret, buffer, n, vxt_sunlock s) } }"

end
