(* ===== verification/Vxt_Signal_Props.thy ===== *)
theory Vxt_Signal_Props
  imports Vxt_Signal
begin

text \<open>
  The table of the signal objects: its invariant, the rules for the calls that look up and release
  an object, and the directory of objects that the calls of \<^verbatim>\<open>vxt_signal.c\<close> implement.
\<close>

subsection \<open>Runs that return\<close>

definition runs :: "'a option \<Rightarrow> ('a \<Rightarrow> bool) \<Rightarrow> bool" where
  "runs m P \<longleftrightarrow> (\<exists>x. m = Some x \<and> P x)"

lemma runs_Some [simp]: "runs (Some x) P = P x"
  and runs_None [simp]: "\<not> runs None P"
  and runs_bind [simp]: "runs (m \<bind> f) P = runs m (\<lambda>x. runs (f x) P)"
  by (cases m; simp add: runs_def)+

lemma runs_mono: "runs m P \<Longrightarrow> (\<And>x. P x \<Longrightarrow> Q x) \<Longrightarrow> runs m Q"
  by (auto simp: runs_def)

subsection \<open>The invariant of the table\<close>

text \<open>
  A bucket holds the addresses of the live objects whose handles belong there, each once; the handle
  of an object is its address, and the trace table works.
\<close>

definition tab_ok :: "vxt_trace_header \<Rightarrow> (nat \<Rightarrow> u64 list) \<Rightarrow> (u64 \<rightharpoonup> vxtsig_object) \<Rightarrow> bool" where
  "tab_ok t ht m \<longleftrightarrow> trace_inv t \<and> (\<forall>i. distinct (ht i))
     \<and> (\<forall>a i. a \<in> set (ht i) \<longleftrightarrow> m a \<noteq> None \<and> VXTSIG_HASH a = i)
     \<and> (\<forall>a ob. m a = Some ob \<longrightarrow> so_handle ob = a)"

abbreviation sig_ok :: "vxtsig_controller \<Rightarrow> bool" where
  "sig_ok s \<equiv> tab_ok (sig_trace s) (hash_table s) (objs s)"

lemma tab_okD:
  assumes "tab_ok t ht m"
  shows "trace_inv t" "distinct (ht i)" "a \<in> set (ht i) \<longleftrightarrow> m a \<noteq> None \<and> VXTSIG_HASH a = i"
    and "m a = Some ob \<Longrightarrow> so_handle ob = a"
  using assms by (auto simp: tab_ok_def)

lemma tab_ok_trace: "tab_ok t ht m \<Longrightarrow> trace_inv t' \<Longrightarrow> tab_ok t' ht m"
  by (simp add: tab_ok_def)

lemma tab_ok_set_obj: "tab_ok t ht m \<Longrightarrow> m a = Some ob \<Longrightarrow> so_handle ob' = a \<Longrightarrow> tab_ok t ht (m(a \<mapsto> ob'))"
  by (auto simp: tab_ok_def)

lemma set_obj_sel [simp]:
  "sig_lock (set_obj a ob s) = sig_lock s" "ctrlr_obj (set_obj a ob s) = ctrlr_obj s"
  "hash_table (set_obj a ob s) = hash_table s" "sig_trace (set_obj a ob s) = sig_trace s"
  "objs (set_obj a ob s) = (objs s)(a \<mapsto> ob)" "signal_running (set_obj a ob s) = signal_running s"
  "sig_cnt (set_obj a ob s) = sig_cnt s" "events (set_obj a ob s) = events s"
  by (simp_all add: set_obj_def)

text \<open>Everything but the trace and the buckets.\<close>

definition sig_core :: "vxtsig_controller \<Rightarrow> vxtsig_controller" where
  "sig_core s = s\<lparr>sig_trace := \<lparr>halted = 0, wrapped = 0, next_record = 0, tsize = 0, entries = []\<rparr>, hash_table := \<lambda>_. []\<rparr>"

lemma sig_core_frame [simp]:
  "sig_core (s\<lparr>sig_trace := t\<rparr>) = sig_core s" "sig_core (s\<lparr>hash_table := ht\<rparr>) = sig_core s"
  by (simp_all add: sig_core_def)

lemma sig_core_sel [simp]:
  "objs (sig_core s) = objs s" "sig_lock (sig_core s) = sig_lock s" "events (sig_core s) = events s"
  "signal_running (sig_core s) = signal_running s" "signal_wait (sig_core s) = signal_wait s"
  "sig_shutting_down (sig_core s) = sig_shutting_down s" "ctrlr_obj (sig_core s) = ctrlr_obj s" "sig_cnt (sig_core s) = sig_cnt s"
  by (simp_all add: sig_core_def)

subsection \<open>Tracing, lookup and release\<close>

lemma trace_log_total: "trace_inv t \<Longrightarrow> \<exists>t'. vxt_trace_log t a b c d = Some t' \<and> trace_inv t'"
  using trace_log_running [of t a b c d] by (cases "halted t = 0") (auto simp: vxt_trace_log_def)

lemma runs_trace:
  assumes "sig_ok s" and "\<And>t. sig_ok (s\<lparr>sig_trace := t\<rparr>) \<Longrightarrow> P (s\<lparr>sig_trace := t\<rparr>)"
  shows "runs (VXT_TRACE cmd a b c s) P"
proof -
  from assms(1) trace_log_total obtain t where
    t: "vxt_trace_log (sig_trace s) cmd a b c = Some t" "trace_inv t"
    by (meson tab_okD(1))
  then show ?thesis
    using assms tab_ok_trace by (simp add: VXT_TRACE_def)
qed

definition found :: "vxtsig_handle_t \<Rightarrow> bool \<Rightarrow> vxtsig_controller \<Rightarrow> bool" where
  "found h find_hidden s \<longleftrightarrow> (\<exists>ob. objs s h = Some ob \<and> (find_hidden \<or> hidden ob = 0))"

lemma lookup_loop_eq:
  "sig_ok s \<Longrightarrow> \<forall>a\<in>set as. objs s a \<noteq> None \<Longrightarrow>
     lookup_loop s h fh as = Some (if h \<in> set as \<and> found h fh s then Some h else None)"
  by (induction as) (auto simp: found_def tab_okD(4))

lemma lookup_bucket:
  assumes "sig_ok s"
  shows "lookup_loop s h fh (hash_table s (VXTSIG_HASH h)) = Some (if found h fh s then Some h else None)"
proof -
  have "h \<in> set (hash_table s (VXTSIG_HASH h)) \<longleftrightarrow> objs s h \<noteq> None"
    using tab_okD(3) [OF assms] by blast
  then show ?thesis
    using lookup_loop_eq [OF assms] tab_okD(3) [OF assms] by (auto simp: found_def)
qed

definition grab :: "u64 \<Rightarrow> vxtsig_object \<Rightarrow> vxtsig_controller \<Rightarrow> vxtsig_controller" where
  "grab a ob s = set_obj a (ob\<lparr>so_ref_cnt := so_ref_cnt ob + 1\<rparr>) s"

lemma runs_lookup:
  assumes ok: "sig_ok s"
    and none: "\<And>t. sig_ok (s\<lparr>sig_trace := t\<rparr>) \<Longrightarrow> \<not> found h fh s \<Longrightarrow> P (None, s\<lparr>sig_trace := t\<rparr>)"
    and some: "\<And>t ob. sig_ok (grab h ob (s\<lparr>sig_trace := t\<rparr>)) \<Longrightarrow> objs s h = Some ob \<Longrightarrow> fh \<or> hidden ob = 0
      \<Longrightarrow> P (Some h, grab h ob (s\<lparr>sig_trace := t\<rparr>))"
  shows "runs (vxtsig_hash_lookup h fh s) P"
proof -
  have "runs (VXT_TRACE 1 (ctrlr_obj s) h 0 s) (\<lambda>s'. runs (lookup_loop s' h fh (hash_table s' (VXTSIG_HASH h)))
      (\<lambda>f. runs (case f of None \<Rightarrow> Some (None, s')
          | Some a \<Rightarrow> do { ob \<leftarrow> objs s' a; Some (Some a, set_obj a (ob\<lparr>so_ref_cnt := so_ref_cnt ob + 1\<rparr>) s') }) P))"
  proof (rule runs_trace [OF ok])
    fix t
    assume t: "sig_ok (s\<lparr>sig_trace := t\<rparr>)"
    have same: "found h fh (s\<lparr>sig_trace := t\<rparr>) = found h fh s" by (simp add: found_def)
    show "runs (lookup_loop (s\<lparr>sig_trace := t\<rparr>) h fh (hash_table (s\<lparr>sig_trace := t\<rparr>) (VXTSIG_HASH h)))
      (\<lambda>f. runs (case f of None \<Rightarrow> Some (None, s\<lparr>sig_trace := t\<rparr>)
          | Some a \<Rightarrow> do { ob \<leftarrow> objs (s\<lparr>sig_trace := t\<rparr>) a;
              Some (Some a, set_obj a (ob\<lparr>so_ref_cnt := so_ref_cnt ob + 1\<rparr>) (s\<lparr>sig_trace := t\<rparr>)) }) P)"
    proof (cases "found h fh s")
      case True
      then obtain ob where ob: "objs s h = Some ob" "fh \<or> hidden ob = 0" by (auto simp: found_def)
      then have "sig_ok (grab h ob (s\<lparr>sig_trace := t\<rparr>))"
        using t tab_okD(4) [OF ok] by (auto simp: grab_def intro: tab_ok_set_obj)
      then show ?thesis
        using lookup_bucket [OF t, of h fh] same True ob some by (simp add: grab_def)
    next
      case False
      then show ?thesis
        using lookup_bucket [OF t, of h fh] same none t by simp
    qed
  qed
  then show ?thesis
    by (simp add: vxtsig_hash_lookup_def)
qed

lemma delete_loop_eq:
  "sig_ok s \<Longrightarrow> \<forall>a\<in>set as. objs s a \<noteq> None \<Longrightarrow> distinct as \<Longrightarrow> delete_loop s h as = Some (h \<in> set as, remove1 h as)"
  by (induction as) (auto dest: tab_okD(4))

lemma delete_live:
  assumes ok: "sig_ok s" and a: "objs s a = Some ob"
  shows "vxtsig_hash_delete a s = Some (VXT_SUCCESS, set_bucket (VXTSIG_HASH a) (remove1 a (hash_table s (VXTSIG_HASH a))) s)"
proof -
  have "a \<in> set (hash_table s (VXTSIG_HASH a))"
    using a by (simp add: tab_okD(3) [OF ok])
  moreover from this have "hash_table s (VXTSIG_HASH a) \<noteq> []" by auto
  ultimately show ?thesis
    using delete_loop_eq [OF ok, of "hash_table s (VXTSIG_HASH a)" a] tab_okD(2,3) [OF ok]
    by (auto simp: vxtsig_hash_delete_def)
qed

definition dropped :: "u64 \<Rightarrow> vxtsig_controller \<Rightarrow> vxtsig_controller" where
  "dropped a s = (set_bucket (VXTSIG_HASH a) (remove1 a (hash_table s (VXTSIG_HASH a))) s)\<lparr>objs := (objs s)(a := None)\<rparr>"

lemma sig_ok_dropped: "sig_ok s \<Longrightarrow> sig_ok (dropped a s)"
  by (auto simp: tab_ok_def dropped_def set_bucket_def)

lemma runs_release:
  assumes ok: "sig_ok s" and a: "objs s a = Some ob"
    and keep: "\<And>t. sig_ok (set_obj a (ob\<lparr>so_ref_cnt := so_ref_cnt ob - 1\<rparr>) (s\<lparr>sig_trace := t\<rparr>)) \<Longrightarrow> so_ref_cnt ob \<noteq> 1
      \<Longrightarrow> P (set_obj a (ob\<lparr>so_ref_cnt := so_ref_cnt ob - 1\<rparr>) (s\<lparr>sig_trace := t\<rparr>))"
    and drop: "\<And>t. sig_ok (dropped a (s\<lparr>sig_trace := t\<rparr>)) \<Longrightarrow> so_ref_cnt ob = 1 \<Longrightarrow> P (dropped a (s\<lparr>sig_trace := t\<rparr>))"
  shows "runs (vxtsig_object_release a s) P"
proof -
  have "runs (VXT_TRACE 2 (ctrlr_obj s) a 0 s) (\<lambda>s'. runs (objs s' a) (\<lambda>ob. runs
      (if so_ref_cnt ob = 1
       then do { (_, s') \<leftarrow> vxtsig_hash_delete (so_handle ob) s'; Some (s'\<lparr>objs := (objs s')(a := None)\<rparr>) }
       else Some (set_obj a (ob\<lparr>so_ref_cnt := so_ref_cnt ob - 1\<rparr>) s')) P))"
  proof (rule runs_trace [OF ok])
    fix t
    assume t: "sig_ok (s\<lparr>sig_trace := t\<rparr>)"
    have h: "so_handle ob = a" using a tab_okD(4) [OF ok] by simp
    have "sig_ok (set_obj a (ob\<lparr>so_ref_cnt := so_ref_cnt ob - 1\<rparr>) (s\<lparr>sig_trace := t\<rparr>))"
      using t a h by (auto intro: tab_ok_set_obj)
    then show "runs (objs (s\<lparr>sig_trace := t\<rparr>) a) (\<lambda>ob. runs
      (if so_ref_cnt ob = 1
       then do { (_, s') \<leftarrow> vxtsig_hash_delete (so_handle ob) (s\<lparr>sig_trace := t\<rparr>); Some (s'\<lparr>objs := (objs s')(a := None)\<rparr>) }
       else Some (set_obj a (ob\<lparr>so_ref_cnt := so_ref_cnt ob - 1\<rparr>) (s\<lparr>sig_trace := t\<rparr>))) P)"
      using a h keep drop sig_ok_dropped [OF t, of a] delete_live [OF t, of a ob]
      by (simp add: dropped_def set_bucket_def)
  qed
  then show ?thesis
    by (simp add: vxtsig_object_release_def case_prod_beta)
qed

subsection \<open>The calls\<close>

text \<open>What a call makes of the directory of objects; \<open>f\<close> is applied to an object that is visible.\<close>

definition dir_update :: "vxtsig_handle_t \<Rightarrow> (vxtsig_object \<Rightarrow> vxtsig_object) \<Rightarrow> (u64 \<rightharpoonup> vxtsig_object) \<Rightarrow> (u64 \<rightharpoonup> vxtsig_object)" where
  "dir_update h f m = (case m h of None \<Rightarrow> m | Some ob \<Rightarrow> if hidden ob = 0 then m(h \<mapsto> f ob) else m)"

definition dir_unref :: "vxtsig_handle_t \<Rightarrow> (u64 \<rightharpoonup> vxtsig_object) \<Rightarrow> (u64 \<rightharpoonup> vxtsig_object)" where
  "dir_unref h m =
     (case m h of
        None \<Rightarrow> m
      | Some ob \<Rightarrow> m(h := if so_ref_cnt ob = 1 then None else Some (ob\<lparr>so_ref_cnt := so_ref_cnt ob - 1\<rparr>)))"

definition shut :: "vxtsig_object \<Rightarrow> vxtsig_object" where
  "shut ob = (wake ob)\<lparr>so_shutting_down := 1\<rparr>"

definition visible :: "vxtsig_handle_t \<Rightarrow> (u64 \<rightharpoonup> vxtsig_object) \<Rightarrow> bool" where
  "visible h m \<longleftrightarrow> (\<exists>ob. m h = Some ob \<and> hidden ob = 0)"

definition dir_destroy :: "vxtsig_handle_t \<Rightarrow> (u64 \<rightharpoonup> vxtsig_object) \<Rightarrow> (u64 \<rightharpoonup> vxtsig_object)" where
  "dir_destroy h m = (if visible h m then dir_unref h (dir_update h (\<lambda>ob. (shut ob)\<lparr>hidden := 1\<rparr>) m) else m)"

text \<open>Every object has a reference.\<close>

definition referenced :: "(u64 \<rightharpoonup> vxtsig_object) \<Rightarrow> bool" where
  "referenced m \<longleftrightarrow> (\<forall>a ob. m a = Some ob \<longrightarrow> so_ref_cnt ob \<noteq> 0)"

lemma lock_free [simp]: "\<not> sig_lock s \<Longrightarrow> vxt_slock s = Some (s\<lparr>sig_lock := True\<rparr>)"
  by (simp add: vxt_slock_def)

lemma wake_sel [simp]:
  "so_ref_cnt (wake ob) = so_ref_cnt ob" "hidden (wake ob) = hidden ob" "so_handle (wake ob) = so_handle ob"
  "remote_signal (wake ob) = remote_signal ob" "pending_signal (wake ob) = 1" "pending_poll_wakeup (wake ob) = 1"
  "wake (ob\<lparr>so_ref_cnt := r\<rparr>) = (wake ob)\<lparr>so_ref_cnt := r\<rparr>"
  by (simp_all add: wake_def)

lemmas sig_states = grab_def set_obj_def wakeup_senders_def dropped_def set_bucket_def

text \<open>The release of a reference that a lookup took, with the object changed in between.\<close>

lemma runs_give_back:
  assumes "sig_ok s" "objs s a = Some ob" "so_ref_cnt ob = r + 1" "r \<noteq> 0"
    and "\<And>t. sig_ok (set_obj a (ob\<lparr>so_ref_cnt := r\<rparr>) (s\<lparr>sig_trace := t\<rparr>))
      \<Longrightarrow> P (set_obj a (ob\<lparr>so_ref_cnt := r\<rparr>) (s\<lparr>sig_trace := t\<rparr>))"
  shows "runs (vxtsig_object_release a s) P"
  by (rule runs_release [OF assms(1,2)]) (use assms in auto)

lemma tab_ok_changed [simp]:
  assumes "m h = Some ob" "so_handle ob = h" "so_handle ob' = h"
  shows "tab_ok t ht (m(h \<mapsto> ob')) = tab_ok t ht m"
proof -
  have "(m(h \<mapsto> ob')) a \<noteq> None \<longleftrightarrow> m a \<noteq> None" for a
    using assms(1) by simp
  moreover have "(\<forall>a ob. (m(h \<mapsto> ob')) a = Some ob \<longrightarrow> so_handle ob = a) \<longleftrightarrow> (\<forall>a ob. m a = Some ob \<longrightarrow> so_handle ob = a)"
    using assms by (metis fun_upd_apply option.inject)
  ultimately show ?thesis
    unfolding tab_ok_def by presburger
qed

text \<open>A call has ended in a state that differs from \<open>s\<close> in the trace and the buckets only.\<close>

definition upto_table :: "vxtsig_controller \<Rightarrow> vxtsig_controller \<Rightarrow> bool" where
  "upto_table s s' \<longleftrightarrow> sig_ok s' \<and> sig_core s' = sig_core s"

lemma sig_core_eqI:
  "ctrlr_obj s = ctrlr_obj s' \<Longrightarrow> sig_lock s = sig_lock s' \<Longrightarrow> sig_controller s = sig_controller s' \<Longrightarrow>
   signal_wait s = signal_wait s' \<Longrightarrow> signal_running s = signal_running s' \<Longrightarrow> sig_shutting_down s = sig_shutting_down s' \<Longrightarrow>
   sig_cnt s = sig_cnt s' \<Longrightarrow> int_cnt s = int_cnt s' \<Longrightarrow> objs s = objs s' \<Longrightarrow> events s = events s' \<Longrightarrow> sig_core s = sig_core s'"
  by (simp add: sig_core_def)

lemma found_False [simp]: "found h False s = visible h (objs s)"
  by (simp add: found_def visible_def)

lemma found_frame [simp]: "found h fh (s\<lparr>sig_lock := l\<rparr>) = found h fh s" "found h fh (s\<lparr>sig_trace := t\<rparr>) = found h fh s"
  by (simp_all add: found_def)

text \<open>The beginning that most calls share: the lock, the lookup, and a way on for each outcome.\<close>

lemma runs_locked_lookup:
  assumes "sig_ok s" "\<not> sig_lock s"
    and "\<And>t. sig_ok (s\<lparr>sig_lock := True, sig_trace := t\<rparr>) \<Longrightarrow> \<not> found h fh s \<Longrightarrow> runs (none (s\<lparr>sig_lock := True, sig_trace := t\<rparr>)) P"
    and "\<And>t ob. sig_ok (grab h ob (s\<lparr>sig_lock := True, sig_trace := t\<rparr>)) \<Longrightarrow> objs s h = Some ob \<Longrightarrow> found h fh s
      \<Longrightarrow> runs (some h (grab h ob (s\<lparr>sig_lock := True, sig_trace := t\<rparr>))) P"
  shows "runs (do { s \<leftarrow> vxt_slock s; (f, s) \<leftarrow> vxtsig_hash_lookup h fh s; case f of None \<Rightarrow> none s | Some a \<Rightarrow> some a s }) P"
proof -
  have "runs (vxtsig_hash_lookup h fh (s\<lparr>sig_lock := True\<rparr>))
      (\<lambda>x. runs (case x of (f, s) \<Rightarrow> case f of None \<Rightarrow> none s | Some a \<Rightarrow> some a s) P)"
    by (rule runs_lookup) (use assms in \<open>auto simp: found_def\<close>)
  then show ?thesis
    using assms(2) by simp
qed

lemma same_refs [simp]: "so_ref_cnt ob = r \<Longrightarrow> ob\<lparr>so_ref_cnt := r\<rparr> = ob"
  by (cases ob) simp

lemma dir_update_visible: "m h = Some ob \<Longrightarrow> visible h m \<Longrightarrow> dir_update h f m = m(h \<mapsto> f ob)"
  by (auto simp: dir_update_def visible_def)

lemma dir_update_invisible: "\<not> visible h m \<Longrightarrow> dir_update h f m = m"
  by (auto simp: dir_update_def visible_def split: option.splits)

lemma upto_unlocked:
  "\<not> sig_lock s \<Longrightarrow> tab_ok t (hash_table s) (objs s) \<Longrightarrow> upto_table s (s\<lparr>sig_lock := False, sig_trace := t\<rparr>)"
  by (auto simp: upto_table_def intro: sig_core_eqI)

lemma referencedD: "referenced m \<Longrightarrow> m h = Some ob \<Longrightarrow> so_ref_cnt ob \<noteq> 0"
  by (auto simp: referenced_def)

lemmas call_simps = sig_states vxt_sunlock_def upto_table_def dir_update_visible shut_def
lemmas call_intros = sig_core_eqI upto_unlocked

lemma runs_object_signal:
  assumes "sig_ok s" "\<not> sig_lock s" "referenced (objs s)"
  shows "runs (vxtsig_object_signal h s) (\<lambda>(ret, s').
    if visible h (objs s) then ret = VXT_SUCCESS \<and> upto_table (wakeup_senders (s\<lparr>objs := dir_update h shut (objs s)\<rparr>)) s'
    else ret = VXT_FAIL \<and> upto_table s s')"
  unfolding vxtsig_object_signal_def
proof (rule runs_locked_lookup, goal_cases)
  case (4 t ob)
  with assms referencedD [OF assms(3)] tab_okD(4) [OF assms(1)] show ?case
    by (auto simp: call_simps intro!: runs_give_back call_intros)
qed (use assms in \<open>auto simp: call_simps intro!: call_intros\<close>)

lemma runs_register_remote:
  assumes "sig_ok s" "\<not> sig_lock s" "referenced (objs s)"
  shows "runs (vxtsig_object_register_remote h remote s) (\<lambda>(ret, s').
    ret = (if visible h (objs s) then VXT_SUCCESS else VXT_FAIL)
    \<and> upto_table (s\<lparr>objs := dir_update h (remote_signal_update (\<lambda>_. remote)) (objs s)\<rparr>) s')"
  unfolding vxtsig_object_register_remote_def
proof (rule runs_locked_lookup, goal_cases)
  case (4 t ob)
  with assms referencedD [OF assms(3)] tab_okD(4) [OF assms(1)] show ?case
    by (auto simp: call_simps intro!: runs_give_back call_intros)
qed (use assms in \<open>auto simp: call_simps dir_update_invisible intro!: call_intros\<close>)

lemma runs_inc_ref:
  assumes "sig_ok s" "\<not> sig_lock s"
  shows "runs (vxtsig_inc_ref h s) (\<lambda>(ret, s').
    ret = (if visible h (objs s) then VXT_SUCCESS else VXT_FAIL)
    \<and> upto_table (s\<lparr>objs := dir_update h (\<lambda>ob. ob\<lparr>so_ref_cnt := so_ref_cnt ob + 1\<rparr>) (objs s)\<rparr>) s')"
proof -
  have "runs (vxtsig_hash_lookup h False (s\<lparr>sig_lock := True\<rparr>))
      (\<lambda>x. runs (case x of (f, s) \<Rightarrow> Some (case f of None \<Rightarrow> VXT_FAIL | Some _ \<Rightarrow> VXT_SUCCESS, vxt_sunlock s)) (\<lambda>(ret, s').
      ret = (if visible h (objs s) then VXT_SUCCESS else VXT_FAIL)
      \<and> upto_table (s\<lparr>objs := dir_update h (\<lambda>ob. ob\<lparr>so_ref_cnt := so_ref_cnt ob + 1\<rparr>) (objs s)\<rparr>) s'))"
    by (rule runs_lookup)
      (use assms tab_okD(4) [OF assms(1)] in \<open>auto simp: call_simps dir_update_invisible visible_def intro!: call_intros\<close>)
  then show ?thesis
    using assms(2) by (simp add: vxtsig_inc_ref_def)
qed

text \<open>Two releases after a lookup take one reference away.\<close>

lemma runs_release_twice:
  assumes "sig_ok s" "objs s a = Some ob" "so_ref_cnt ob = r + 1" "r \<noteq> 0"
    and "\<And>s'. upto_table (s\<lparr>objs := dir_unref a ((objs s)(a \<mapsto> ob\<lparr>so_ref_cnt := r\<rparr>))\<rparr>) s' \<Longrightarrow> P s'"
  shows "runs (vxtsig_object_release a s) (\<lambda>s. runs (vxtsig_object_release a s) P)"
proof (rule runs_give_back [OF assms(1-4)])
  fix t
  let ?s = "set_obj a (ob\<lparr>so_ref_cnt := r\<rparr>) (s\<lparr>sig_trace := t\<rparr>)"
  assume "sig_ok ?s"
  then show "runs (vxtsig_object_release a ?s) P"
    by (rule runs_release)
      (use assms(2,5) tab_okD(4) [OF assms(1,2)] in \<open>auto simp: sig_states upto_table_def dir_unref_def intro!: assms(5) sig_core_eqI\<close>)
qed

lemma sig_core_lock: "sig_core (s\<lparr>sig_lock := l\<rparr>) = (sig_core s)\<lparr>sig_lock := l\<rparr>"
  by (simp add: sig_core_def)

lemma upto_sunlock: "upto_table x s' \<Longrightarrow> sig_core (x\<lparr>sig_lock := False\<rparr>) = sig_core y \<Longrightarrow> upto_table y (vxt_sunlock s')"
  using sig_core_lock [of False s'] sig_core_lock [of False x] by (auto simp: upto_table_def vxt_sunlock_def)

lemma dir_destroy_visible:
  "m h = Some ob \<Longrightarrow> visible h m \<Longrightarrow> dir_destroy h m = dir_unref h (m(h \<mapsto> (shut ob)\<lparr>hidden := 1\<rparr>))"
  by (simp add: dir_destroy_def dir_update_visible)

lemma runs_destroy:
  assumes "sig_ok s" "\<not> sig_lock s" "referenced (objs s)"
  shows "runs (vxtsig_object_destroy h s) (\<lambda>(ret, s').
    if visible h (objs s) then ret = VXT_SUCCESS \<and> upto_table (wakeup_senders (s\<lparr>objs := dir_destroy h (objs s)\<rparr>)) s'
    else ret = VXT_FAIL \<and> upto_table s s')"
  unfolding vxtsig_object_destroy_def
proof (rule runs_locked_lookup, goal_cases)
  case (4 t ob)
  with assms referencedD [OF assms(3)] tab_okD(4) [OF assms(1)] show ?case
    by (auto simp: sig_states shut_def dir_destroy_visible intro!: runs_release_twice upto_sunlock sig_core_eqI)
qed (use assms in \<open>auto simp: call_simps intro!: call_intros\<close>)

lemma runs_dec_ref:
  assumes "sig_ok s" "\<not> sig_lock s" "referenced (objs s)"
  shows "runs (vxtsig_dec_ref h s) (\<lambda>(ret, s').
    ret = (if objs s h = None then VXT_FAIL else VXT_SUCCESS) \<and> upto_table (s\<lparr>objs := dir_unref h (objs s)\<rparr>) s')"
  unfolding vxtsig_dec_ref_def
proof (rule runs_locked_lookup, goal_cases)
  case (4 t ob)
  with assms referencedD [OF assms(3)] tab_okD(4) [OF assms(1)] show ?case
    by (auto simp: sig_states map_upd_triv intro!: runs_release_twice upto_sunlock sig_core_eqI)
qed (use assms in \<open>auto simp: call_simps found_def dir_unref_def intro!: call_intros\<close>)

definition opened_object :: "u64 option \<Rightarrow> u64 \<Rightarrow> u64 \<Rightarrow> (u64 \<rightharpoonup> vxtsig_object) \<Rightarrow> (u64 \<rightharpoonup> vxtsig_object)" where
  "opened_object mem ctrlr device m = (case mem of None \<Rightarrow> m | Some a \<Rightarrow> m(a \<mapsto> new_object ctrlr device a))"

lemma new_object_sel [simp]:
  "so_handle (new_object c d a) = a" "so_ref_cnt (new_object c d a) = 1" "hidden (new_object c d a) = 0"
  by (simp_all add: new_object_def)

lemma tab_ok_insert:
  assumes "tab_ok t ht m" "m a = None" "so_handle ob = a"
  shows "tab_ok t (ht(VXTSIG_HASH a := a # ht (VXTSIG_HASH a))) (m(a \<mapsto> ob))"
  using assms by (auto simp: tab_ok_def)

lemma runs_create:
  assumes "sig_ok s" "\<not> sig_lock s" "\<And>a. mem = Some a \<Longrightarrow> objs s a = None"
  shows "runs (vxtsig_object_create mem ctrlr device s) (\<lambda>(ret, h, s').
    ret = (if mem = None then VXT_NOMEM else VXT_SUCCESS) \<and> h = mem
    \<and> upto_table (s\<lparr>objs := opened_object mem ctrlr device (objs s)\<rparr>) s')"
  using assms by (cases mem)
    (auto simp: vxtsig_object_create_def opened_object_def vxt_hash_insert_def call_simps Let_def tab_ok_insert
      intro!: sig_core_eqI)

end
