(* ===== verification/Vxt_Signal_Calls.thy ===== *)
theory Vxt_Signal_Calls
  imports Vxt_Signal_Props
begin

text \<open>
  The calls that wait for signals, and sequences of calls: every sequence refines the corresponding
  changes of the directory of objects.
\<close>

subsection \<open>Waiting and polling\<close>

lemma runs_deliver:
  assumes "sig_ok s" "referenced (objs s)"
  shows "runs (deliver h s) (upto_table (s\<lparr>objs := dir_update h wake (objs s)\<rparr>))"
proof -
  have "runs (vxtsig_hash_lookup h False s) (\<lambda>x. runs (case x of (f, s) \<Rightarrow> case f of None \<Rightarrow> Some s
      | Some a \<Rightarrow> do { s \<leftarrow> VXT_TRACE 6 a 0 0 s; ob \<leftarrow> objs s a; vxtsig_object_release a (set_obj a (wake ob) s) })
      (upto_table (s\<lparr>objs := dir_update h wake (objs s)\<rparr>)))"
  proof (rule runs_lookup, goal_cases)
    case (3 t ob)
    then have "visible h (objs s)" by (simp add: visible_def)
    with 3 assms referencedD [OF assms(2)] tab_okD(4) [OF assms(1)] show ?case
      by (auto simp: call_simps intro!: runs_trace sig_core_eqI
          runs_give_back [where ob = "(wake ob)\<lparr>so_ref_cnt := so_ref_cnt ob + 1\<rparr>" and r = "so_ref_cnt ob"])
  qed (use assms in \<open>auto simp: call_simps dir_update_invisible intro!: sig_core_eqI\<close>)
  then show ?thesis
    by (simp add: deliver_def)
qed

definition poll_events :: "vxtsig_object \<Rightarrow> u32" where
  "poll_events ob = (if pending_poll_wakeup ob \<noteq> 0 then VXTSIG_IN else 0) OR (if so_shutting_down ob = 1 then SIG_HUP else 0)"

lemma runs_poll:
  assumes "sig_ok s" "\<not> sig_lock s" "referenced (objs s)"
  shows "runs (vxtsig_poll h ev s) (\<lambda>(ret, ev', s'). ret = VXT_SUCCESS
    \<and> ev' = (if visible h (objs s) then poll_events (the (objs s h)) else ev OR SIG_HUP)
    \<and> upto_table (s\<lparr>objs := dir_update h (\<lambda>ob. ob\<lparr>pending_poll_wakeup := 0\<rparr>) (objs s)\<rparr>) s')"
  unfolding vxtsig_poll_def runs_bind lock_free [OF assms(2)] runs_Some
proof (rule runs_trace, goal_cases)
  case (2 t)
  show ?case
  proof (rule runs_lookup, goal_cases)
    case (3 t' ob)
    then have "visible h (objs s)" by (simp add: visible_def)
    with 3 2 assms referencedD [OF assms(3)] tab_okD(4) [OF assms(1)] show ?case
      by (auto simp: call_simps poll_events_def Let_def intro!: runs_trace sig_core_eqI
          runs_give_back [where ob = "ob\<lparr>pending_poll_wakeup := 0, so_ref_cnt := so_ref_cnt ob + 1\<rparr>" and r = "so_ref_cnt ob"])
  qed (use assms 2 in \<open>auto simp: call_simps dir_update_invisible intro!: sig_core_eqI\<close>)
qed (use assms in auto)

text \<open>The state in which the caller of \<^verbatim>\<open>vxtsig_wait\<close> sleeps: it has a reference and not the lock.\<close>

definition sleeping :: "vxtsig_handle_t \<Rightarrow> vxtsig_controller \<Rightarrow> vxtsig_controller" where
  "sleeping h s = s\<lparr>objs := dir_update h (\<lambda>ob. ob\<lparr>so_ref_cnt := so_ref_cnt ob + 1\<rparr>) (objs s)\<rparr>"

definition no_signal :: "vxtsig_object \<Rightarrow> vxtsig_object" where
  "no_signal ob = ob\<lparr>pending_signal := 0\<rparr>"

lemma runs_wait_end:
  assumes ok: "sig_ok s" "\<not> sig_lock s" and ob: "objs s a = Some ob"
  shows "runs (do { s \<leftarrow> vxt_slock s; s \<leftarrow> VXT_TRACE 8 (ctrlr_obj s) a h s; ob \<leftarrow> objs s a;
      s \<leftarrow> vxtsig_object_release a (set_obj a (ob\<lparr>pending_signal := 0\<rparr>) s); Some (VXT_SUCCESS, vxt_sunlock s) })
    (\<lambda>(ret, s'). ret = VXT_SUCCESS \<and> upto_table (s\<lparr>objs := dir_unref a ((objs s)(a \<mapsto> no_signal ob))\<rparr>) s')"
  unfolding runs_bind lock_free [OF ok(2)] runs_Some
  by (rule runs_trace)
    (use ok ob tab_okD(4) [OF ok(1) ob] in \<open>auto simp: call_simps no_signal_def dir_unref_def
      intro!: sig_core_eqI runs_release [where ob = "ob\<lparr>pending_signal := 0\<rparr>"]\<close>)

lemma runs_wait:
  assumes ok: "sig_ok s" "\<not> sig_lock s" "referenced (objs s)"
    and sleep: "\<And>s1. visible h (objs s) \<Longrightarrow> pending_signal (the (objs s h)) = 0 \<Longrightarrow> upto_table (sleeping h s) s1 \<Longrightarrow> case sleep s1 of (ret, s2) \<Rightarrow> ret \<noteq> VXT_PARM
        \<longrightarrow> sig_ok s2 \<and> \<not> sig_lock s2 \<and> objs s2 h \<noteq> None"
  shows "runs (vxtsig_wait sleep h s) (\<lambda>(ret, s').
    if \<not> visible h (objs s) then ret = VXT_FAIL \<and> upto_table s s'
    else if pending_signal (the (objs s h)) \<noteq> 0 then ret = VXT_SUCCESS \<and> upto_table (s\<lparr>objs := dir_update h no_signal (objs s)\<rparr>) s'
    else \<exists>s1 s2. upto_table (sleeping h s) s1 \<and> s2 = snd (sleep s1)
      \<and> (if fst (sleep s1) = VXT_PARM then ret = VXT_PARM \<and> s' = s2
         else ret = VXT_SUCCESS \<and> upto_table (s2\<lparr>objs := dir_unref h ((objs s2)(h \<mapsto> no_signal (the (objs s2 h))))\<rparr>) s'))"
  unfolding vxtsig_wait_def runs_bind lock_free [OF ok(2)] runs_Some
proof (rule runs_trace, goal_cases)
  case (2 t)
  show ?case
  proof (rule runs_lookup, goal_cases)
    case (3 t' ob)
    let ?ob = "ob\<lparr>so_ref_cnt := so_ref_cnt ob + 1\<rparr>"
    let ?s = "grab h ob (s\<lparr>sig_lock := True, sig_trace := t'\<rparr>)"
    have vis: "visible h (objs s)" and h: "so_handle ob = h" and r: "so_ref_cnt ob \<noteq> 0"
      using 3 tab_okD(4) [OF ok(1)] referencedD [OF ok(3)] by (auto simp: visible_def)
    show ?case
    proof (cases "pending_signal ob = 0")
      case False
      with 2 3 ok vis h r show ?thesis
        by (auto simp: call_simps no_signal_def intro!: runs_trace sig_core_eqI
            runs_give_back [where ob = "no_signal ?ob" and r = "so_ref_cnt ob"])
    next
      case True
      have up: "upto_table (sleeping h s) (vxt_sunlock ?s)"
        using 2 3 ok vis h by (auto simp: call_simps sleeping_def intro!: sig_core_eqI)
      obtain ret s2 where s2: "sleep (vxt_sunlock ?s) = (ret, s2)" by fastforce
      show ?thesis
      proof (cases "ret = VXT_PARM")
        case PARM: True
        with 3 vis True up s2 show ?thesis by (auto simp: grab_def)
      next
        case F: False
        have "pending_signal (the (objs s h)) = 0" using True 3(2) by simp
        with sleep [OF vis _ up] s2 F obtain ob2 where
          "sig_ok s2" "\<not> sig_lock s2" and ob2: "objs s2 h = Some ob2" by auto
        from runs_wait_end [OF this, of h] True 3 vis up s2 F ob2 show ?thesis
          by (auto simp: grab_def elim!: runs_mono
              intro!: exI [of _ "vxt_sunlock (set_obj h ?ob (s\<lparr>sig_lock := True, sig_trace := t'\<rparr>))"])
      qed
    qed
  qed (use ok 2 in \<open>auto simp: call_simps intro!: sig_core_eqI\<close>)
qed (use ok in auto)

subsection \<open>Sequences of calls\<close>

fun exec_all :: "('c \<Rightarrow> 's \<Rightarrow> 's option) \<Rightarrow> 'c list \<Rightarrow> 's \<Rightarrow> 's option" where
  "exec_all exec [] s = Some s"
| "exec_all exec (c # cs) s = do { s \<leftarrow> exec c s; exec_all exec cs s }"

fun allowed_all :: "('c \<Rightarrow> 'v \<Rightarrow> bool) \<Rightarrow> ('c \<Rightarrow> 'v \<Rightarrow> 'v) \<Rightarrow> 'c list \<Rightarrow> 'v \<Rightarrow> bool" where
  "allowed_all allowed spec [] v = True"
| "allowed_all allowed spec (c # cs) v = (allowed c v \<and> allowed_all allowed spec cs (spec c v))"

text \<open>
  An implementation \<open>exec\<close> refines \<open>spec\<close>: from a state that satisfies the invariant a call that is allowed
  returns, keeps the invariant and changes the view as specified. Then the same is true for sequences.
\<close>

locale refined_calls =
  fixes inv :: "'s \<Rightarrow> bool" and view :: "'s \<Rightarrow> 'v" and allowed :: "'c \<Rightarrow> 'v \<Rightarrow> bool"
    and exec :: "'c \<Rightarrow> 's \<Rightarrow> 's option" and spec :: "'c \<Rightarrow> 'v \<Rightarrow> 'v"
  assumes exec_refines: "inv s \<Longrightarrow> allowed c (view s) \<Longrightarrow> runs (exec c s) (\<lambda>s'. inv s' \<and> view s' = spec c (view s))"
begin

lemma exec_all_refines:
  "inv s \<Longrightarrow> allowed_all allowed spec cs (view s)
     \<Longrightarrow> runs (exec_all exec cs s) (\<lambda>s'. inv s' \<and> view s' = fold spec cs (view s))"
proof (induction cs arbitrary: s)
  case (Cons c cs)
  then have "runs (exec c s) (\<lambda>s'. inv s' \<and> view s' = spec c (view s))"
    by (auto intro: exec_refines)
  then show ?case
    unfolding exec_all.simps runs_bind
  proof (rule runs_mono)
    fix x
    assume "inv x \<and> view x = spec c (view s)"
    then show "runs (exec_all exec cs x) (\<lambda>s'. inv s' \<and> view s' = fold spec (c # cs) (view s))"
      using Cons.IH [of x] Cons.prems(2) by simp
  qed
qed simp

end

text \<open>The requests of one interrupt.\<close>

definition sig_inv :: "vxtsig_controller \<Rightarrow> bool" where
  "sig_inv s \<longleftrightarrow> sig_ok s \<and> referenced (objs s)"

lemma referenced_update:
  "referenced m \<Longrightarrow> (\<And>ob. so_ref_cnt ob \<noteq> 0 \<Longrightarrow> so_ref_cnt (f ob) \<noteq> 0) \<Longrightarrow> referenced (dir_update h f m)"
  by (auto simp: referenced_def dir_update_def split: option.splits)

lemma referenced_unref: "referenced m \<Longrightarrow> referenced (dir_unref h m)"
  by (auto simp: referenced_def dir_unref_def split: option.splits)

lemma referenced_destroy: "referenced m \<Longrightarrow> referenced (dir_destroy h m)"
  by (auto simp: dir_destroy_def shut_def intro!: referenced_unref referenced_update)

text \<open>All of the state but the trace, the buckets and the objects.\<close>

definition rest :: "vxtsig_controller \<Rightarrow> vxtsig_controller" where
  "rest s = (sig_core s)\<lparr>objs := \<lambda>_. None\<rparr>"

lemma rest_objs [simp]: "rest (s\<lparr>objs := m\<rparr>) = rest s"
  by (simp add: rest_def sig_core_def)

lemma upto_view: "upto_table x s' \<Longrightarrow> sig_ok s' \<and> objs s' = objs x \<and> sig_lock s' = sig_lock x \<and> rest s' = rest x"
  unfolding upto_table_def rest_def by (metis sig_core_sel(1,2))

interpretation requests: refined_calls sig_inv "\<lambda>s. (objs s, rest s)" "\<lambda>_ _. True" deliver "\<lambda>h (m, r). (dir_update h wake m, r)"
proof
  fix s h
  assume "sig_inv s"
  then have "runs (deliver h s) (upto_table (s\<lparr>objs := dir_update h wake (objs s)\<rparr>))" and "referenced (objs s)"
    by (simp_all add: sig_inv_def runs_deliver)
  then show "runs (deliver h s) (\<lambda>s'. sig_inv s' \<and> (objs s', rest s') = (case (objs s, rest s) of (m, r) \<Rightarrow> (dir_update h wake m, r)))"
    by (auto elim!: runs_mono simp: sig_inv_def dest!: upto_view intro!: referenced_update)
qed

text \<open>The calls of the interface; the sleep of a wait changes nothing but may be ended by the controller's end.\<close>

datatype sig_call =
    Object_create "u64 option" u64 u64
  | Object_destroy vxtsig_handle_t
  | Object_signal vxtsig_handle_t
  | Register_remote vxtsig_handle_t vxtsig_handle_t
  | Wait bool vxtsig_handle_t
  | Poll vxtsig_handle_t u32
  | Inc_ref vxtsig_handle_t
  | Dec_ref vxtsig_handle_t

definition undisturbed :: "bool \<Rightarrow> vxtsig_controller \<Rightarrow> vxt_status \<times> vxtsig_controller" where
  "undisturbed gone s = (if gone then VXT_PARM else VXT_SUCCESS, s)"

fun sig_exec :: "sig_call \<Rightarrow> vxtsig_controller \<Rightarrow> vxtsig_controller option" where
  "sig_exec (Object_create mem c d) s = map_option (snd \<circ> snd) (vxtsig_object_create mem c d s)"
| "sig_exec (Object_destroy h) s = map_option snd (vxtsig_object_destroy h s)"
| "sig_exec (Object_signal h) s = map_option snd (vxtsig_object_signal h s)"
| "sig_exec (Register_remote h r) s = map_option snd (vxtsig_object_register_remote h r s)"
| "sig_exec (Wait gone h) s = map_option snd (vxtsig_wait (undisturbed gone) h s)"
| "sig_exec (Poll h ev) s = map_option (snd \<circ> snd) (vxtsig_poll h ev s)"
| "sig_exec (Inc_ref h) s = map_option snd (vxtsig_inc_ref h s)"
| "sig_exec (Dec_ref h) s = map_option snd (vxtsig_dec_ref h s)"

fun dir_exec :: "sig_call \<Rightarrow> (u64 \<rightharpoonup> vxtsig_object) \<Rightarrow> (u64 \<rightharpoonup> vxtsig_object)" where
  "dir_exec (Object_create mem c d) m = opened_object mem c d m"
| "dir_exec (Object_destroy h) m = dir_destroy h m"
| "dir_exec (Object_signal h) m = dir_update h shut m"
| "dir_exec (Register_remote h r) m = dir_update h (\<lambda>ob. ob\<lparr>remote_signal := r\<rparr>) m"
| "dir_exec (Wait gone h) m =
     dir_update h (\<lambda>ob. if gone \<and> pending_signal ob = 0 then ob\<lparr>so_ref_cnt := so_ref_cnt ob + 1\<rparr> else ob\<lparr>pending_signal := 0\<rparr>) m"
| "dir_exec (Poll h ev) m = dir_update h (\<lambda>ob. ob\<lparr>pending_poll_wakeup := 0\<rparr>) m"
| "dir_exec (Inc_ref h) m = dir_update h (\<lambda>ob. ob\<lparr>so_ref_cnt := so_ref_cnt ob + 1\<rparr>) m"
| "dir_exec (Dec_ref h) m = dir_unref h m"

text \<open>Memory for a new object is not in use, and a count of references does not overflow.\<close>

fun sig_allowed :: "sig_call \<Rightarrow> (u64 \<rightharpoonup> vxtsig_object) \<Rightarrow> bool" where
  "sig_allowed (Object_create (Some a) c d) m \<longleftrightarrow> m a = None"
| "sig_allowed (Inc_ref h) m \<longleftrightarrow> (case m h of None \<Rightarrow> True | Some ob \<Rightarrow> so_ref_cnt ob + 1 \<noteq> 0)"
| "sig_allowed (Wait gone h) m \<longleftrightarrow> (case m h of None \<Rightarrow> True | Some ob \<Rightarrow> so_ref_cnt ob + 1 \<noteq> 0)"
| "sig_allowed _ m \<longleftrightarrow> True"

lemma runs_map_option: "runs (map_option f m) P = runs m (P \<circ> f)"
  by (cases m) auto

lemma refined_by:
  assumes "runs call Q" "referenced m"
    and "\<And>x. Q x \<Longrightarrow> sig_ok (f x) \<and> objs (f x) = m \<and> \<not> sig_lock (f x)"
  shows "runs (map_option f call) (\<lambda>s'. (sig_inv s' \<and> \<not> sig_lock s') \<and> objs s' = m)"
  unfolding runs_map_option
  by (rule runs_mono [OF assms(1)]) (use assms(2,3) in \<open>auto simp: sig_inv_def\<close>)

lemma wakeup_senders_sel [simp]:
  "objs (wakeup_senders s) = objs s" "sig_lock (wakeup_senders s) = sig_lock s"
  by (simp_all add: wakeup_senders_def)

lemma wait_refines:
  assumes ok: "sig_ok s" "\<not> sig_lock s" "referenced (objs s)"
  shows "runs (vxtsig_wait (undisturbed gone) h s) (\<lambda>(ret, s'). sig_ok s' \<and> objs s' = dir_exec (Wait gone h) (objs s) \<and> \<not> sig_lock s')"
proof (rule runs_mono [OF runs_wait [OF ok]], goal_cases)
  case (1 s1)
  then show ?case
    using upto_view [OF 1(3)] ok by (auto simp: undisturbed_def sleeping_def dir_update_def visible_def split: option.splits)
next
  case (2 x)
  obtain ret s' where x: "x = (ret, s')" by fastforce
  show ?case
  proof (cases "visible h (objs s) \<and> pending_signal (the (objs s h)) = 0")
    case True
    then obtain ob where ob: "objs s h = Some ob" "hidden ob = 0" "pending_signal ob = 0"
      by (auto simp: visible_def)
    then have r: "so_ref_cnt ob \<noteq> 0" using ok(3) by (simp add: referencedD)
    from 2 True obtain s1 where s1: "upto_table (sleeping h s) s1"
      and fin: "if fst (undisturbed gone s1) = VXT_PARM then ret = VXT_PARM \<and> s' = s1
         else ret = VXT_SUCCESS \<and> upto_table (s1\<lparr>objs := dir_unref h ((objs s1)(h \<mapsto> no_signal (the (objs s1 h))))\<rparr>) s'"
      by (auto simp: x undisturbed_def)
    have "objs s1 = (objs s)(h \<mapsto> ob\<lparr>so_ref_cnt := so_ref_cnt ob + 1\<rparr>)" "\<not> sig_lock s1" "sig_ok s1"
      using upto_view [OF s1] ok ob by (auto simp: sleeping_def dir_update_def)
    then show ?thesis
      using fin ob r by (auto simp: x undisturbed_def dir_update_def dir_unref_def no_signal_def dest!: upto_view split: if_splits)
  next
    case False
    then show ?thesis
      using 2 ok(2) by (auto simp: x dir_update_def no_signal_def visible_def dest!: upto_view split: if_splits option.splits)
  qed
qed

lemma sig_exec_refines:
  assumes inv: "sig_inv s" and unlocked: "\<not> sig_lock s" and allowed: "sig_allowed c (objs s)"
  shows "runs (sig_exec c s) (\<lambda>s'. (sig_inv s' \<and> \<not> sig_lock s') \<and> objs s' = dir_exec c (objs s))"
proof -
  have ok: "sig_ok s" and refs: "referenced (objs s)" using inv by (simp_all add: sig_inv_def)
  note calls = ok unlocked refs
  show ?thesis
  proof (cases c)
    case (Object_create mem cc d)
    have "referenced (opened_object mem cc d (objs s))"
      using refs by (auto simp: opened_object_def referenced_def split: option.splits)
    moreover have "mem = Some a \<Longrightarrow> objs s a = None" for a
      using allowed Object_create by simp
    ultimately show ?thesis
      unfolding Object_create sig_exec.simps dir_exec.simps
      by (intro refined_by [OF runs_create [OF ok unlocked]]) (use unlocked in \<open>auto dest!: upto_view\<close>)
  next
    case (Object_destroy h)
    show ?thesis
      unfolding Object_destroy sig_exec.simps dir_exec.simps
      by (intro refined_by [OF runs_destroy [OF calls]] referenced_destroy refs)
        (use unlocked in \<open>auto simp: dir_destroy_def dest!: upto_view split: if_splits\<close>)
  next
    case (Object_signal h)
    show ?thesis
      unfolding Object_signal sig_exec.simps dir_exec.simps
      by (intro refined_by [OF runs_object_signal [OF calls]] referenced_update refs)
        (use unlocked in \<open>auto simp: dir_update_invisible shut_def dest!: upto_view split: if_splits\<close>)
  next
    case (Register_remote h r)
    show ?thesis
      unfolding Register_remote sig_exec.simps dir_exec.simps
      by (intro refined_by [OF runs_register_remote [OF calls]] referenced_update refs) (use unlocked in \<open>auto dest!: upto_view\<close>)
  next
    case (Wait gone h)
    have "referenced (dir_exec (Wait gone h) (objs s))"
      using allowed refs Wait by (auto simp: dir_update_def referenced_def split: option.splits)
    then show ?thesis
      unfolding Wait sig_exec.simps
      by (intro refined_by [OF wait_refines [OF calls]]) auto
  next
    case (Poll h ev)
    show ?thesis
      unfolding Poll sig_exec.simps dir_exec.simps
      by (intro refined_by [OF runs_poll [OF calls]] referenced_update refs) (use unlocked in \<open>auto dest!: upto_view\<close>)
  next
    case (Inc_ref h)
    have "referenced (dir_exec (Inc_ref h) (objs s))"
      using allowed refs Inc_ref by (auto simp: dir_update_def referenced_def split: option.splits)
    then show ?thesis
      unfolding Inc_ref sig_exec.simps
      by (intro refined_by [OF runs_inc_ref [OF ok unlocked]]) (use unlocked in \<open>auto dest!: upto_view\<close>)
  next
    case (Dec_ref h)
    show ?thesis
      unfolding Dec_ref sig_exec.simps dir_exec.simps
      by (intro refined_by [OF runs_dec_ref [OF calls]] referenced_unref refs) (use unlocked in \<open>auto dest!: upto_view\<close>)
  qed
qed

interpretation sig_calls: refined_calls "\<lambda>s. sig_inv s \<and> \<not> sig_lock s" objs sig_allowed sig_exec dir_exec
  by unfold_locales (rule sig_exec_refines; simp)

subsection \<open>What the calls guarantee\<close>

lemma init_inv:
  assumes "vxtsig_controller_init trace_mem obj_mem table_mem vxtcom = Some (Inr s)"
    and "\<And>n es. trace_mem n = Some es \<Longrightarrow> length es = n"
  shows "sig_inv s" "\<not> sig_lock s" "objs s = (\<lambda>_. None)"
proof -
  from assms(1) obtain t a where t: "vxt_trace_create trace_mem 500 = Inr t"
    and s: "VXT_TRACE 0 a vxtcom 0
       \<lparr>ctrlr_obj = a, sig_lock = False, sig_controller = vxtcom, sig_trace = fst (vxt_trace_start t),
        signal_wait = 0, signal_running = 1, sig_shutting_down = 0, sig_cnt = 0, int_cnt = 0,
        hash_table = (\<lambda>_. []), objs = (\<lambda>_. None), events = 0\<rparr> = Some s"
    by (auto simp: vxtsig_controller_init_def split: sum.splits option.splits if_splits bind_splits)
  have "trace_inv (fst (vxt_trace_start t))"
    using trace_create_inv(1) [OF t _ assms(2)] by (simp add: vxt_trace_start_def)
  then obtain t' where "vxt_trace_log (fst (vxt_trace_start t)) 0 a vxtcom 0 = Some t'" "trace_inv t'"
    using trace_log_total by blast
  with s show "sig_inv s" "\<not> sig_lock s" "objs s = (\<lambda>_. None)"
    by (auto simp: VXT_TRACE_def sig_inv_def tab_ok_def referenced_def)
qed

text \<open>
  C7: after the initialisation of a controller every sequence of calls (create, destroy, signal, register,
  wait, poll, take and give back a reference) returns: no call uses an object that has been freed,
  runs off the hash table or leaves the lock held. The objects that the calls leave behind are
  those of the directory, a map from handles to objects without hash table and trace. New memory is
  not in use already, and counts of references stay below \<open>2\<^sup>3\<^sup>2\<close>.
\<close>

theorem signal_calls_refine:
  assumes "vxtsig_controller_init trace_mem obj_mem table_mem vxtcom = Some (Inr s)"
    and "\<And>n es. trace_mem n = Some es \<Longrightarrow> length es = n"
    and "allowed_all sig_allowed dir_exec cs (\<lambda>_. None)"
  shows "\<exists>s'. exec_all sig_exec cs s = Some s' \<and> objs s' = fold dir_exec cs (\<lambda>_. None) \<and> \<not> sig_lock s'"
  using sig_calls.exec_all_refines [of s cs] init_inv [OF assms(1,2)] assms(3) by (auto simp: runs_def)

definition blank_entry :: vxt_trace_entry where
  "blank_entry = \<lparr>entry = 0, parm1 = 0, parm2 = 0, parm3 = 0\<rparr>"

lemma init_succeeds:
  "\<exists>s. vxtsig_controller_init (\<lambda>n. Some (replicate n blank_entry)) (Some 640) True 64 = Some (Inr s)"
  by (simp add: vxtsig_controller_init_def vxt_trace_create_def VXT_MAX_TRACE_TABLE_SIZE_def VXT_TRACE_def
      vxt_trace_start_def vxt_trace_log_def Let_def)

theorem signal_calls_refine_witness:
  "\<exists>s s'. vxtsig_controller_init (\<lambda>n. Some (replicate n blank_entry)) (Some 640) True 64 = Some (Inr s)
     \<and> exec_all sig_exec [Object_create (Some 4096) 64 128, Inc_ref 4096, Object_destroy 4096, Poll 4096 0, Dec_ref 4096] s = Some s'
     \<and> objs s' 4096 = None"
proof -
  obtain s where s: "vxtsig_controller_init (\<lambda>n. Some (replicate n blank_entry)) (Some 640) True 64 = Some (Inr s)"
    using init_succeeds by blast
  have "allowed_all sig_allowed dir_exec
      [Object_create (Some 4096) 64 128, Inc_ref 4096, Object_destroy 4096, Poll 4096 0, Dec_ref 4096] (\<lambda>_. None)"
    by (simp add: opened_object_def)
  moreover have "fold dir_exec [Object_create (Some 4096) 64 128, Inc_ref 4096, Object_destroy 4096, Poll 4096 0, Dec_ref 4096]
      (\<lambda>_. None) 4096 = None"
    by (simp add: opened_object_def dir_update_def dir_destroy_def visible_def dir_unref_def new_object_def shut_def wake_def)
  ultimately show ?thesis
    using signal_calls_refine [OF s] s by fastforce
qed

text \<open>An object after it has been destroyed, with the references that are left.\<close>

definition hidden_object :: "u64 \<Rightarrow> u64 \<Rightarrow> u64 \<Rightarrow> nat \<Rightarrow> vxtsig_object" where
  "hidden_object ctrlr device a n = (shut (new_object ctrlr device a))\<lparr>hidden := 1, so_ref_cnt := of_nat n\<rparr>"

lemma u32_of_nat_1: "1 < n \<Longrightarrow> n < 2 ^ 32 \<Longrightarrow> (of_nat n :: u32) \<noteq> 1"
  by (simp add: word_unat_eq_iff unat_of_nat)

lemma fold_inc_ref:
  "m h = Some ob \<Longrightarrow> hidden ob = 0 \<Longrightarrow>
     fold dir_exec (replicate n (Inc_ref h)) m = m(h \<mapsto> ob\<lparr>so_ref_cnt := so_ref_cnt ob + of_nat n\<rparr>)"
  by (induction n arbitrary: m ob) (auto simp: dir_update_def algebra_simps map_upd_triv)

lemma fold_dec_ref:
  "m h = Some (hidden_object c d a n) \<Longrightarrow> k < n \<Longrightarrow> n < 2 ^ 32 \<Longrightarrow>
     fold dir_exec (replicate k (Dec_ref h)) m = m(h \<mapsto> hidden_object c d a (n - k))"
proof (induction k arbitrary: m n)
  case (Suc k)
  then obtain n' where n: "n = Suc n'" by (cases n) auto
  have "(of_nat n :: u32) \<noteq> 1" using Suc.prems u32_of_nat_1 [of n] by simp
  then have "dir_unref h m = m(h \<mapsto> hidden_object c d a n')"
    using Suc.prems(1) n by (auto simp: dir_unref_def hidden_object_def)
  then show ?case
    using Suc.IH [of "m(h \<mapsto> hidden_object c d a n')" n'] Suc.prems n by (simp del: fun_upd_apply add: fun_upd_same)
qed (auto simp: map_upd_triv)

lemma allowed_append:
  "allowed_all p f (xs @ ys) v = (allowed_all p f xs v \<and> allowed_all p f ys (fold f xs v))"
  by (induction xs arbitrary: v) auto

lemma allowed_incs:
  "m h = Some ob \<Longrightarrow> hidden ob = 0 \<Longrightarrow> unat (so_ref_cnt ob) + n < 2 ^ 32 \<Longrightarrow>
     allowed_all sig_allowed dir_exec (replicate n (Inc_ref h)) m"
proof (induction n arbitrary: m ob)
  case (Suc n)
  let ?ob = "ob\<lparr>so_ref_cnt := so_ref_cnt ob + 1\<rparr>"
  have one: "unat (so_ref_cnt ob + 1) = Suc (unat (so_ref_cnt ob))"
    using Suc.prems(3) by (simp add: unat_word_ariths)
  then have "so_ref_cnt ob + 1 \<noteq> 0" by auto
  moreover have "dir_update h (\<lambda>ob. ob\<lparr>so_ref_cnt := so_ref_cnt ob + 1\<rparr>) m = m(h \<mapsto> ?ob)"
    using Suc.prems by (simp add: dir_update_def)
  ultimately show ?case
    using Suc.IH [of "m(h \<mapsto> ?ob)" ?ob] Suc.prems one by (simp del: fun_upd_apply add: fun_upd_same)
qed simp

lemma allowed_decs: "allowed_all sig_allowed dir_exec (replicate k (Dec_ref h)) m"
  by (induction k arbitrary: m) auto

lemma fold_all_decs:
  assumes "m h = Some (hidden_object c d a n)" "0 < n" "n < 2 ^ 32"
  shows "fold dir_exec (replicate n (Dec_ref h)) m = m(h := None)"
proof -
  obtain k where n: "n = Suc k" using assms(2) by (cases n) auto
  then have "replicate n (Dec_ref h) = replicate k (Dec_ref h) @ [Dec_ref h]"
    by (simp add: replicate_append_same)
  then show ?thesis
    using fold_dec_ref [of m h c d a n k] assms n by (simp add: dir_unref_def hidden_object_def del: replicate.simps)
qed

lemma destroyed_object:
  assumes "m h = None" "n < 2 ^ 32 - 1"
  shows "dir_destroy h (m(h \<mapsto> (new_object c d h)\<lparr>so_ref_cnt := 1 + of_nat n\<rparr>)) =
    m(h := if n = 0 then None else Some (hidden_object c d h n))"
proof -
  have "(1 + of_nat n :: u32) = 1 \<longleftrightarrow> n = 0"
    using u32_of_nat_1 [of "Suc n"] assms(2) by (cases n) auto
  then show ?thesis
    by (auto simp: dir_destroy_def visible_def dir_update_def dir_unref_def hidden_object_def shut_def)
qed

text \<open>
  C15: an object lives as long as somebody refers to it: created, referred to \<open>n\<close> more times, destroyed
  and given back \<open>k\<close> times it is still there, hidden and with its waiters woken up, as long as \<open>k < n\<close>, and is
  freed exactly when the last reference is given back. No other object changes, and every one of
  these calls returns.
\<close>

theorem object_lives_by_references:
  assumes "sig_inv s" "\<not> sig_lock s" "objs s h = None" "k \<le> n" "n < 2 ^ 32 - 1"
  shows "\<exists>s'. exec_all sig_exec (Object_create (Some h) c d # replicate n (Inc_ref h) @ Object_destroy h # replicate k (Dec_ref h)) s = Some s'
    \<and> objs s' = (objs s)(h := if k = n then None else Some (hidden_object c d h (n - k)))"
proof -
  let ?mk = "Object_create (Some h) c d # replicate n (Inc_ref h)" and ?rm = "Object_destroy h # replicate k (Dec_ref h)"
  let ?ob = "new_object c d h"
  have made: "fold dir_exec ?mk (objs s) = (objs s)(h \<mapsto> ?ob\<lparr>so_ref_cnt := 1 + of_nat n\<rparr>)"
    using fold_inc_ref [of "(objs s)(h \<mapsto> ?ob)" h ?ob n] by (simp add: opened_object_def)
  have gone: "fold dir_exec ?rm (fold dir_exec ?mk (objs s)) =
      (objs s)(h := if k = n then None else Some (hidden_object c d h (n - k)))"
    unfolding made
    using assms(3-5) destroyed_object [of "objs s" h n c d] fold_all_decs [of "(objs s)(h \<mapsto> hidden_object c d h n)" h c d h n]
      fold_dec_ref [of "(objs s)(h \<mapsto> hidden_object c d h n)" h c d h n k]
    by (cases "k = n") (auto simp del: fun_upd_apply simp add: fun_upd_same)
  have "allowed_all sig_allowed dir_exec (?mk @ ?rm) (objs s)"
    using assms(3,5) allowed_incs [of "(objs s)(h \<mapsto> ?ob)" h ?ob n]
    by (auto simp: allowed_append allowed_decs opened_object_def simp del: fun_upd_apply simp add: fun_upd_same)
  then show ?thesis
    using sig_calls.exec_all_refines [of s "?mk @ ?rm"] assms(1,2) gone by (auto simp: runs_def)
qed

theorem object_lives_by_references_witness:
  "\<exists>s s'. exec_all sig_exec [Object_create (Some 4096) 64 128, Inc_ref 4096, Inc_ref 4096, Object_destroy 4096, Dec_ref 4096] s = Some s'
     \<and> objs s' 4096 = Some (hidden_object 64 128 4096 1)"
proof -
  obtain s where s: "vxtsig_controller_init (\<lambda>n. Some (replicate n blank_entry)) (Some 640) True 64 = Some (Inr s)"
    using init_succeeds by blast
  have "replicate (Suc (Suc 0)) (Inc_ref 4096) = [Inc_ref 4096, Inc_ref 4096]" "replicate 1 (Dec_ref 4096) = [Dec_ref 4096]"
    by simp_all
  with object_lives_by_references [of s 4096 1 "Suc (Suc 0)" 64 128] init_inv [OF s] obtain s' where
    "exec_all sig_exec [Object_create (Some 4096) 64 128, Inc_ref 4096, Inc_ref 4096, Object_destroy 4096, Dec_ref 4096] s = Some s'"
    "objs s' 4096 = Some (hidden_object 64 128 4096 1)"
    by (auto simp del: exec_all.simps)
  then show ?thesis by blast
qed

text \<open>
  What the controller does while somebody sleeps: another thread destroys the object.
\<close>

definition destroyed_meanwhile :: "vxtsig_handle_t \<Rightarrow> vxtsig_controller \<Rightarrow> vxt_status \<times> vxtsig_controller" where
  "destroyed_meanwhile h s = (case vxtsig_object_destroy h s of None \<Rightarrow> (VXT_FAIL, s) | Some (_, s') \<Rightarrow> (VXT_SUCCESS, s'))"

text \<open>
  C26: an object that is destroyed while a thread sleeps in \<^verbatim>\<open>vxtsig_wait\<close> for its signal stays until the sleeper
  has left: the destruction wakes it, it returns without touching freed memory, and with it goes
  the last reference; the object is freed unless others still refer to it, and the lock is free.
\<close>

theorem waiter_outlives_destroy:
  assumes "sig_inv s" "\<not> sig_lock s" "objs s h = Some ob" "hidden ob = 0" "pending_signal ob = 0" "so_ref_cnt ob + 1 \<noteq> 0"
  shows "\<exists>s'. vxtsig_wait (destroyed_meanwhile h) h s = Some (VXT_SUCCESS, s') \<and> \<not> sig_lock s'
    \<and> objs s' = (objs s)(h := if so_ref_cnt ob = 1 then None
        else Some ((shut ob)\<lparr>hidden := 1, pending_signal := 0, so_ref_cnt := so_ref_cnt ob - 1\<rparr>))"
proof -
  let ?ob = "ob\<lparr>so_ref_cnt := so_ref_cnt ob + 1\<rparr>"
  have ok: "sig_ok s" "referenced (objs s)" and r: "so_ref_cnt ob \<noteq> 0"
    using assms(1,3) by (auto simp: sig_inv_def referenced_def)
  have asleep: "objs s1 = (objs s)(h \<mapsto> ?ob) \<and> sig_ok s1 \<and> \<not> sig_lock s1 \<and> referenced (objs s1)"
    if "upto_table (sleeping h s) s1" for s1
    using upto_view [OF that] ok assms by (auto simp: sleeping_def dir_update_def referenced_def)
  have meanwhile: "\<exists>s2. destroyed_meanwhile h s1 = (VXT_SUCCESS, s2) \<and> sig_ok s2 \<and> \<not> sig_lock s2
      \<and> objs s2 = (objs s)(h \<mapsto> (shut ob)\<lparr>hidden := 1\<rparr>)"
    if "upto_table (sleeping h s) s1" for s1
  proof -
    have "runs (vxtsig_object_destroy h s1) (\<lambda>(ret, s'). ret = VXT_SUCCESS \<and> sig_ok s' \<and> \<not> sig_lock s'
        \<and> objs s' = (objs s)(h \<mapsto> (shut ob)\<lparr>hidden := 1\<rparr>))"
      by (rule runs_mono [OF runs_destroy])
        (use asleep [OF that] assms(4) r in \<open>auto simp: visible_def dir_destroy_visible dir_unref_def shut_def dest!: upto_view\<close>)
    then show ?thesis
      by (auto simp: runs_def destroyed_meanwhile_def)
  qed
  have "runs (vxtsig_wait (destroyed_meanwhile h) h s) (\<lambda>(ret, s'). ret = VXT_SUCCESS \<and> \<not> sig_lock s'
    \<and> objs s' = (objs s)(h := if so_ref_cnt ob = 1 then None
        else Some ((shut ob)\<lparr>hidden := 1, pending_signal := 0, so_ref_cnt := so_ref_cnt ob - 1\<rparr>)))"
  proof (rule runs_mono [OF runs_wait [OF ok(1) assms(2) ok(2)]], goal_cases)
    case (1 s1)
    then show ?case using meanwhile [OF 1(3)] by auto
  next
    case (2 x)
    have "visible h (objs s)" using assms(3,4) by (simp add: visible_def)
    with 2 assms(3,5) obtain s1 where s1: "upto_table (sleeping h s) s1" and
      x: "if fst (destroyed_meanwhile h s1) = VXT_PARM then fst x = VXT_PARM \<and> snd x = snd (destroyed_meanwhile h s1)
        else fst x = VXT_SUCCESS \<and> upto_table ((snd (destroyed_meanwhile h s1))\<lparr>objs := dir_unref h
          ((objs (snd (destroyed_meanwhile h s1)))(h \<mapsto> no_signal (the (objs (snd (destroyed_meanwhile h s1)) h))))\<rparr>) (snd x)"
      by (auto simp: case_prod_beta)
    from meanwhile [OF s1] x show ?case
      by (auto simp: dir_unref_def no_signal_def shut_def case_prod_beta dest!: upto_view)
  qed
  then show ?thesis by (auto simp: runs_def)
qed

theorem waiter_outlives_destroy_witness:
  "\<exists>s s' s''. exec_all sig_exec [Object_create (Some 4096) 64 128] s = Some s'
     \<and> vxtsig_wait (destroyed_meanwhile 4096) 4096 s' = Some (VXT_SUCCESS, s'') \<and> objs s'' 4096 = None"
proof -
  obtain s where s: "vxtsig_controller_init (\<lambda>n. Some (replicate n blank_entry)) (Some 640) True 64 = Some (Inr s)"
    using init_succeeds by blast
  obtain s' where s': "exec_all sig_exec [Object_create (Some 4096) 64 128] s = Some s'" "sig_inv s'" "\<not> sig_lock s'"
    "objs s' = [4096 \<mapsto> new_object 64 128 4096]"
    using sig_calls.exec_all_refines [of s "[Object_create (Some 4096) 64 128]"] init_inv [OF s]
    by (auto simp: runs_def opened_object_def simp del: exec_all.simps)
  with waiter_outlives_destroy [of s' 4096 "new_object 64 128 4096"] obtain s'' where
    "vxtsig_wait (destroyed_meanwhile 4096) 4096 s' = Some (VXT_SUCCESS, s'')" "objs s'' 4096 = None"
    by (auto simp: new_object_def)
  with s' show ?thesis by blast
qed

end
