(* ===== verification/Vxt_Signal_Ring.thy ===== *)
theory Vxt_Signal_Ring
  imports Vxt_Signal_Calls
begin

text \<open>
  The ring of requests between two controllers: the sender appends, the interrupt of the receiver
  delivers everything in order, and both decide when the other side needs an event.
\<close>

subsection \<open>Indices\<close>

text \<open>A buffer that both sides treat as agreed: the requests fit, and both indices name one of them.\<close>

definition ring_ok :: "vxtsig_com \<Rightarrow> bool" where
  "ring_ok b \<longleftrightarrow> 20 \<le> length (sig_list b) \<and> send_index b < 20 \<and> recv_index b < 20"

definition ring_dist :: "u32 \<Rightarrow> u32 \<Rightarrow> nat" where
  "ring_dist i j = (if unat i \<le> unat j then unat j - unat i else unat j + 20 - unat i)"

definition requests_from :: "vxtsig_com \<Rightarrow> u32 \<Rightarrow> nat \<Rightarrow> vxtsig_handle_t list" where
  "requests_from b i n = map (\<lambda>k. sig_list b ! ((unat i + k) mod 20)) [0..<n]"

text \<open>The requests that have been sent and not been received, oldest first.\<close>

definition queued :: "vxtsig_com \<Rightarrow> vxtsig_handle_t list" where
  "queued b = requests_from b (recv_index b) (ring_dist (recv_index b) (send_index b))"

lemma unat_less_20: "(i :: u32) < 20 \<longleftrightarrow> unat i < 20"
  by (simp add: word_less_nat_alt)

lemma mod_20: "x < 40 \<Longrightarrow> x mod 20 = (if x < 20 then x else x - (20 :: nat))"
  by (simp add: le_mod_geq)

lemma unat_sig_next: "i < 20 \<Longrightarrow> unat (sig_next i) = (if unat i = 19 then 0 else Suc (unat i))"
proof -
  assume "i < 20"
  then have i: "unat i < 20" by (simp add: unat_less_20)
  then have s: "unat (i + 1) = Suc (unat i)" by (simp add: unat_word_ariths)
  show ?thesis
  proof (cases "unat i = 19")
    case True
    then have "i + 1 = 20" using s by (simp add: word_unat_eq_iff)
    then show ?thesis using True by (simp add: sig_next_def VXTSIG_MAX_SIG_CNT_def)
  next
    case False
    then have "i + 1 \<noteq> 20" using s by (simp add: word_unat_eq_iff)
    then show ?thesis using False i s by (simp add: sig_next_def VXTSIG_MAX_SIG_CNT_def)
  qed
qed

lemma sig_next_less [simp]: "i < 20 \<Longrightarrow> sig_next i < 20"
  using unat_sig_next [of i] by (auto simp: unat_less_20 split: if_splits)

lemma ring_dist_less: "j < 20 \<Longrightarrow> ring_dist i j < 20"
  by (auto simp: ring_dist_def unat_less_20)

lemma ring_dist_0: "i < 20 \<Longrightarrow> j < 20 \<Longrightarrow> ring_dist i j = 0 \<longleftrightarrow> i = j"
  by (auto simp: ring_dist_def unat_less_20 word_unat_eq_iff)

lemma ring_dist_next_left: "i < 20 \<Longrightarrow> j < 20 \<Longrightarrow> i \<noteq> j \<Longrightarrow> ring_dist i j = Suc (ring_dist (sig_next i) j)"
  by (auto simp: ring_dist_def unat_less_20 word_unat_eq_iff unat_sig_next)

lemma ring_dist_next_right: "i < 20 \<Longrightarrow> j < 20 \<Longrightarrow> sig_next j \<noteq> i \<Longrightarrow> ring_dist i (sig_next j) = Suc (ring_dist i j)"
  by (auto simp: ring_dist_def unat_less_20 word_unat_eq_iff unat_sig_next)

lemma ring_dist_full: "i < 20 \<Longrightarrow> j < 20 \<Longrightarrow> sig_next j = i \<longleftrightarrow> ring_dist i j = 19"
  by (auto simp: ring_dist_def unat_less_20 word_unat_eq_iff unat_sig_next)

lemma length_queued: "length (queued b) = ring_dist (recv_index b) (send_index b)"
  by (simp add: queued_def requests_from_def)

lemma queued_bound: "ring_ok b \<Longrightarrow> length (queued b) \<le> 19"
  using ring_dist_less [of "send_index b" "recv_index b"] by (simp add: length_queued ring_ok_def)

lemma sig_full_queued: "ring_ok b \<Longrightarrow> sig_full b \<longleftrightarrow> length (queued b) = 19"
  by (simp add: ring_ok_def sig_full_def length_queued ring_dist_full)

lemma queued_empty: "ring_ok b \<Longrightarrow> queued b = [] \<longleftrightarrow> send_index b = recv_index b"
  using ring_dist_0 [of "recv_index b" "send_index b"] by (metis length_0_conv length_queued ring_ok_def)

lemma requests_from_Suc:
  assumes "i < 20"
  shows "requests_from b i (Suc n) = sig_list b ! unat i # requests_from b (sig_next i) n"
proof -
  have "(unat (sig_next i) + k) mod 20 = (unat i + Suc k) mod 20" for k
    using assms by (cases "unat i = 19") (simp_all add: unat_sig_next)
  moreover have "unat i mod 20 = unat i" using assms by (simp add: unat_less_20)
  ultimately show ?thesis
    using assms by (simp add: requests_from_def map_upt_Suc del: upt_Suc)
qed

subsection \<open>Appending a request\<close>

text \<open>What the sender does to the buffer for one signal, and for several.\<close>

definition append_request :: "vxtsig_handle_t \<Rightarrow> vxtsig_com \<Rightarrow> vxtsig_com" where
  "append_request h b = (if sig_full b then b else case sig_store h b of None \<Rightarrow> b | Some b' \<Rightarrow> sig_publish b')"

definition sends :: "vxtsig_handle_t list \<Rightarrow> vxtsig_com \<Rightarrow> vxtsig_com" where
  "sends hs b = fold append_request hs b"

lemma store_publish:
  assumes "ring_ok b" "\<not> sig_full b"
  shows "\<exists>b'. sig_store h b = Some b' \<and> send_index b' = send_index b \<and> ring_ok (sig_publish b') \<and> queued (sig_publish b') = queued b @ [h]
    \<and> recv_index b' = recv_index b \<and> restart_signal_request b' = restart_signal_request b"
proof -
  let ?i = "unat (send_index b)" and ?r = "unat (recv_index b)" and ?n = "ring_dist (recv_index b) (send_index b)"
  have b: "send_index b < 20" "recv_index b < 20" "?i < length (sig_list b)" "?i < 20" "?r < 20"
    using assms(1) by (auto simp: ring_ok_def unat_less_20)
  have dist: "ring_dist (recv_index b) (sig_next (send_index b)) = Suc ?n"
    using ring_dist_next_right [OF b(2,1)] assms(2) by (simp add: sig_full_def)
  have slot: "(?r + ?n) mod 20 = ?i"
    using b(4,5) by (auto simp: ring_dist_def)
  have other: "(?r + k) mod 20 \<noteq> ?i" if "k < ?n" for k
    using that b(4,5) mod_20 [of "?r + k"] by (auto simp: ring_dist_def split: if_splits)
  have "requests_from (b\<lparr>sig_list := (sig_list b)[?i := h], send_index := j\<rparr>) (recv_index b) (Suc ?n) = queued b @ [h]" for j
  proof -
    have "(sig_list b)[?i := h] ! ((?r + k) mod 20) = sig_list b ! ((?r + k) mod 20)" if "k < ?n" for k
      using other [OF that] by simp
    then show ?thesis
      using slot b(3) by (simp add: requests_from_def queued_def)
  qed
  then show ?thesis
    using b assms(1) dist by (simp add: sig_store_def sig_publish_def ring_ok_def queued_def)
qed

lemma append_request_queued:
  assumes "ring_ok b" "length (queued b) < 19"
  shows "ring_ok (append_request h b) \<and> queued (append_request h b) = queued b @ [h]
    \<and> recv_index (append_request h b) = recv_index b \<and> restart_signal_request (append_request h b) = restart_signal_request b"
  using assms store_publish [OF assms(1), of h] sig_full_queued [OF assms(1)]
  by (auto simp: append_request_def sig_publish_def)

lemma sends_queued:
  "ring_ok b \<Longrightarrow> length (queued b) + length hs \<le> 19 \<Longrightarrow> ring_ok (sends hs b) \<and> queued (sends hs b) = queued b @ hs
     \<and> recv_index (sends hs b) = recv_index b \<and> restart_signal_request (sends hs b) = restart_signal_request b"
proof (induction hs arbitrary: b)
  case (Cons h hs)
  then show ?case
    using append_request_queued [of b h] Cons.IH [of "append_request h b"] by (simp add: sends_def)
qed (simp add: sends_def)

subsection \<open>Receiving\<close>

lemma sig_slot_ring: "20 \<le> length (sig_list b) \<Longrightarrow> i < 20 \<Longrightarrow> sig_slot b i = Some (sig_list b ! unat i)"
  by (simp add: sig_slot_def unat_less_20)

lemma receive_loop_eq:
  assumes "20 \<le> length (sig_list b)" "j < 20" "i < 20" "ring_dist i j = n"
  shows "receive_loop b j i cnt s = map_option (\<lambda>s'. (cnt + of_nat n, s')) (exec_all deliver (requests_from b i n) s)"
  using assms(3,4)
proof (induction n arbitrary: i cnt s)
  case 0
  then have "i = j" using ring_dist_0 [of i j] assms(2) by simp
  then show ?case by (simp add: receive_loop.simps requests_from_def)
next
  case (Suc n)
  then have ne: "i \<noteq> j" and n: "ring_dist (sig_next i) j = n"
    using ring_dist_0 [of i j] ring_dist_next_left [of i j] assms(2) by auto
  show ?case
    using Suc.IH [OF sig_next_less [OF Suc.prems(1)] n] ne sig_slot_ring [OF assms(1) Suc.prems(1)]
      requests_from_Suc [OF Suc.prems(1), of b n]
    by (subst receive_loop.simps) (cases "deliver (sig_list b ! unat i) s"; simp add: add.assoc)
qed

lemma exec_all_append: "exec_all f (xs @ ys) s = exec_all f xs s \<bind> exec_all f ys"
  by (induction xs arbitrary: s) (auto split: bind_split)

lemma allowed_all_True: "allowed_all (\<lambda>_ _. True) f cs v"
  by (induction cs arbitrary: v) auto

text \<open>
  The rounds of an interrupt during which the remote controller sends the requests \<open>hss\<close>, those of one
  list at the end of one round.
\<close>

lemma process_signals_eq:
  "ring_ok b \<Longrightarrow> \<forall>hs\<in>set hss. hs \<noteq> [] \<and> length hs \<le> 19 \<Longrightarrow>
    \<exists>b'. ring_ok b' \<and> queued b' = [] \<and> restart_signal_request b' = restart_signal_request b
      \<and> process_signals (map sends hss) cnt b s =
         map_option (\<lambda>s'. (b', cnt + of_nat (length (queued b @ concat hss)), length (last (queued b # hss)) = 19, s'))
           (exec_all deliver (queued b @ concat hss) s)"
proof (induction hss arbitrary: b cnt s)
  case Nil
  let ?b = "b\<lparr>recv_index := send_index b\<rparr>"
  have ok: "20 \<le> length (sig_list b)" "send_index b < 20" "recv_index b < 20" "ring_ok ?b" "queued ?b = []"
    using Nil queued_empty [of ?b] by (simp_all add: ring_ok_def)
  have "process_signals (map sends []) cnt b s =
      map_option (\<lambda>s'. (?b, cnt + of_nat (length (queued b)), length (queued b) = 19, s')) (exec_all deliver (queued b) s)"
    using receive_loop_eq [OF ok(1-3) refl] ring_dist_full [OF ok(3,2)] length_queued [of b]
    by (subst process_signals.simps) (cases "exec_all deliver (queued b) s"; simp add: Let_def queued_def)
  then show ?case using ok(4,5) by (intro exI [of _ ?b]) simp
next
  case (Cons hs hss)
  let ?b = "b\<lparr>recv_index := send_index b\<rparr>"
  have ok: "20 \<le> length (sig_list b)" "send_index b < 20" "recv_index b < 20" "ring_ok ?b" "queued ?b = []"
    using Cons.prems queued_empty [of ?b] by (simp_all add: ring_ok_def)
  then have b1: "ring_ok (sends hs ?b)" "queued (sends hs ?b) = hs" "restart_signal_request (sends hs ?b) = restart_signal_request b"
    using sends_queued [of ?b hs] Cons.prems(2) by auto
  then have more: "send_index (sends hs ?b) \<noteq> recv_index (sends hs ?b)"
    using queued_empty [of "sends hs ?b"] Cons.prems(2) by auto
  have step: "process_signals (map sends (hs # hss)) cnt b s =
      exec_all deliver (queued b) s \<bind> process_signals (map sends hss) (cnt + of_nat (length (queued b))) (sends hs ?b)"
    using receive_loop_eq [OF ok(1-3) refl] length_queued [of b] more
    by (subst process_signals.simps) (cases "exec_all deliver (queued b) s"; simp add: Let_def queued_def)
  show ?case
  proof (cases "exec_all deliver (queued b) s")
    case None
    then show ?thesis
      unfolding step using ok(4,5) by (intro exI [of _ ?b]) (simp add: exec_all_append)
  next
    case (Some s1)
    from Cons.IH [OF b1(1), of "cnt + of_nat (length (queued b))" s1] Cons.prems(2) b1 show ?thesis
      unfolding step by (auto simp: exec_all_append Some add.assoc)
  qed
qed

text \<open>The directory after the requests \<open>hs\<close>.\<close>

definition signalled :: "vxtsig_handle_t list \<Rightarrow> (u64 \<rightharpoonup> vxtsig_object) \<Rightarrow> (u64 \<rightharpoonup> vxtsig_object)" where
  "signalled hs m = fold (\<lambda>h. dir_update h wake) hs m"

lemma fold_requests: "fold (\<lambda>h (m, r). (dir_update h wake m, r)) hs (m, r) = (signalled hs m, r)"
  by (induction hs arbitrary: m) (simp_all add: signalled_def)

lemma deliver_all:
  assumes "sig_inv s"
  shows "runs (exec_all deliver hs s) (\<lambda>s'. sig_inv s' \<and> objs s' = signalled hs (objs s) \<and> rest s' = rest s)"
  by (rule runs_mono [OF requests.exec_all_refines [OF assms]]) (auto simp: fold_requests intro: allowed_all_True)

lemma rest_eqD:
  assumes "rest s' = rest s"
  shows "sig_lock s' = sig_lock s" "events s' = events s" "signal_running s' = signal_running s" "ctrlr_obj s' = ctrlr_obj s"
    "sig_shutting_down s' = sig_shutting_down s" "sig_cnt s' = sig_cnt s"
proof -
  have "sig_lock (rest x) = sig_lock x \<and> events (rest x) = events x \<and> signal_running (rest x) = signal_running x \<and> ctrlr_obj (rest x) = ctrlr_obj x
      \<and> sig_shutting_down (rest x) = sig_shutting_down x \<and> sig_cnt (rest x) = sig_cnt x" for x
    by (simp add: rest_def)
  then show "sig_lock s' = sig_lock s" "events s' = events s" "signal_running s' = signal_running s" "ctrlr_obj s' = ctrlr_obj s"
    "sig_shutting_down s' = sig_shutting_down s" "sig_cnt s' = sig_cnt s"
    using assms by metis+
qed

lemma runs_event_signal:
  assumes "sig_ok s"
  shows "runs (event_signal s) (\<lambda>s'. sig_ok s' \<and> objs s' = objs s \<and> events s' = Suc (events s) \<and> sig_lock s' = sig_lock s
    \<and> signal_running s' = signal_running s)"
  unfolding event_signal_def by (rule runs_trace) (use assms in auto)

lemma signalled_sel:
  "signalled hs m h = (case m h of None \<Rightarrow> None | Some ob \<Rightarrow> Some (if hidden ob = 0 then (wake ^^ count_list hs h) ob else ob))"
proof (induction hs arbitrary: m)
  case (Cons a hs)
  have "signalled (a # hs) m = signalled hs (dir_update a wake m)" by (simp add: signalled_def)
  then show ?case
    using Cons.IH [of "dir_update a wake m"] by (auto simp: dir_update_def funpow_swap1 split: option.splits)
qed (simp add: signalled_def split: option.splits)

lemma received_many:
  assumes "n = length (queued b @ concat hss)" "n < 2 ^ 32"
  shows "(length (last (queued b # hss)) = 19 \<or> VXTSIG_MAX_SIG_CNT - 1 \<le> of_nat n) = (19 \<le> n)"
proof -
  have "length (last (queued b # hss)) \<le> n"
    using assms(1) length_concat [of hss] member_le_sum_list [of "length (last hss)" "map length hss"] by (auto simp: last_in_set)
  moreover have "VXTSIG_MAX_SIG_CNT - 1 \<le> of_nat n \<longleftrightarrow> 19 \<le> n"
    using assms(2) by (simp add: VXTSIG_MAX_SIG_CNT_def word_le_nat_alt unat_of_nat)
  ultimately show ?thesis by auto
qed

text \<open>The state that an interrupt with the requests \<open>hs\<close> leaves behind.\<close>

definition delivered :: "vxtsig_handle_t list \<Rightarrow> vxtsig_com \<Rightarrow> vxtsig_controller \<Rightarrow> vxtsig_com \<times> vxtsig_controller \<Rightarrow> bool" where
  "delivered hs b s = (\<lambda>(b', s'). ring_ok b' \<and> queued b' = []
    \<and> objs s' = signalled hs (objs s) \<and> signal_running s' \<noteq> 0 \<and> sig_inv s' \<and> \<not> sig_lock s'
    \<and> events s' = events s + (if 19 \<le> length hs then 1 else 0)
    \<and> restart_signal_request b' = (if 19 \<le> length hs then 1 else restart_signal_request b))"

lemma runs_interrupt:
  assumes inv: "sig_inv s" "\<not> sig_lock s" and ring: "ring_ok b" and hss: "\<forall>hs\<in>set hss. hs \<noteq> [] \<and> length hs \<le> 19"
    and n: "n = length (queued b @ concat hss)" "n < 2 ^ 32"
  shows "runs (vxtsig_interrupt (map sends hss) buffer b s) (delivered (queued b @ concat hss) b s)"
proof -
  let ?fine = "delivered (queued b @ concat hss) b s"
  have ok: "sig_ok s" "referenced (objs s)" using inv by (simp_all add: sig_inv_def)
  have lock: "vxt_slock (s\<lparr>int_cnt := int_cnt s + 1\<rparr>) = Some (s\<lparr>int_cnt := int_cnt s + 1, sig_lock := True\<rparr>)"
    using inv(2) by (simp add: vxt_slock_def)
  have "runs (vxtsig_interrupt (map sends hss) buffer b s) ?fine"
    unfolding vxtsig_interrupt_def runs_bind lock runs_Some
  proof (rule runs_trace, goal_cases)
    case (2 t)
    let ?s = "s\<lparr>int_cnt := int_cnt s + 1, sig_lock := True, sig_trace := t\<rparr>"
    define s1 where "s1 = (if signal_running ?s = 0 then wakeup_senders ?s else ?s)"
    have s1: "sig_inv s1" "objs s1 = objs s" "events s1 = events s" "signal_running s1 \<noteq> 0"
      using 2 ok by (auto simp: s1_def sig_inv_def wakeup_senders_def)
    obtain b' where b': "ring_ok b'" "queued b' = []" "restart_signal_request b' = restart_signal_request b"
      and loop: "process_signals (map sends hss) 0 b s1 =
         map_option (\<lambda>s'. (b', of_nat n, length (last (queued b # hss)) = 19, s')) (exec_all deliver (queued b @ concat hss) s1)"
      using process_signals_eq [OF ring hss, of 0 s1] n(1) by auto
    have b'': "ring_ok (b'\<lparr>restart_signal_request := 1\<rparr>)" "queued (b'\<lparr>restart_signal_request := 1\<rparr>) = []"
      using b' by (simp_all add: ring_ok_def queued_def requests_from_def)
    have fin: "runs (if 19 \<le> n then do { s \<leftarrow> event_signal s2; Some (b'\<lparr>restart_signal_request := 1\<rparr>, vxt_sunlock s) }
        else Some (b', vxt_sunlock s2)) ?fine"
      if "sig_inv s2" "objs s2 = signalled (queued b @ concat hss) (objs s1)" "rest s2 = rest s1" for s2
      using that s1 b' b'' rest_eqD [OF that(3)]
      by (auto simp: delivered_def n(1) vxt_sunlock_def sig_inv_def intro!: runs_mono [OF runs_event_signal])
    have "runs (process_signals (map sends hss) 0 b s1)
      (\<lambda>(b, cnt, signal, s). runs (if signal \<or> VXTSIG_MAX_SIG_CNT - 1 \<le> cnt
          then do { s \<leftarrow> event_signal s; Some (b\<lparr>restart_signal_request := 1\<rparr>, vxt_sunlock s) }
          else Some (b, vxt_sunlock s)) ?fine)"
      unfolding loop runs_map_option
      by (rule runs_mono [OF deliver_all [OF s1(1)]]) (use fin received_many [OF n] in \<open>simp del: runs_bind\<close>)
    then show ?case
      unfolding s1_def [symmetric] Let_def runs_bind by (rule runs_mono) (auto simp: case_prod_beta)
  qed (use ok in auto)
  then show ?thesis .
qed

text \<open>
  C13: an interrupt delivers every request that is in the buffer, also those that the remote controller
  appends between the rounds of the loop, in the order in which they were sent: it returns, the
  ring is empty, each visible object has been woken up once per request with its handle, requests
  with other handles are ignored, senders that wait here run again, and the lock is free. The remote controller gets an
  event exactly when it may have found the ring full, that is, when the interrupt has received 19
  requests or more.
\<close>

theorem interrupt_delivers:
  assumes inv: "sig_inv s" "\<not> sig_lock s" and ring: "ring_ok b" and hss: "\<forall>hs\<in>set hss. hs \<noteq> [] \<and> length hs \<le> 19"
    and n: "n = length (queued b @ concat hss)" "n < 2 ^ 32"
  shows "\<exists>b' s'. vxtsig_interrupt (map sends hss) buffer b s = Some (b', s') \<and> ring_ok b' \<and> queued b' = []
    \<and> objs s' = signalled (queued b @ concat hss) (objs s) \<and> signal_running s' \<noteq> 0 \<and> sig_inv s' \<and> \<not> sig_lock s'
    \<and> events s' = events s + (if 19 \<le> n then 1 else 0)
    \<and> restart_signal_request b' = (if 19 \<le> n then 1 else restart_signal_request b)"
  using runs_interrupt [OF assms, of buffer] n(1) by (auto simp: runs_def delivered_def)

text \<open>A buffer with room for the ring, and two controllers to try the theorems on.\<close>

definition fresh_ring :: vxtsig_com where
  "fresh_ring = \<lparr>send_index = 0, recv_index = 0, restart_signal_request = 0, sig_list = replicate 20 0\<rparr>"

lemma fresh_ring_ok: "ring_ok fresh_ring" "queued fresh_ring = []"
  by (simp_all add: fresh_ring_def ring_ok_def queued_def requests_from_def ring_dist_def)

definition sample_controller :: vxtsig_controller where
  "sample_controller = \<lparr>ctrlr_obj = 640, sig_lock = False, sig_controller = 64,
     sig_trace = \<lparr>halted = 0, wrapped = 0, next_record = 0, tsize = 1, entries = [blank_entry]\<rparr>, signal_wait = 0,
     signal_running = 1, sig_shutting_down = 0, sig_cnt = 0, int_cnt = 0,
     hash_table = (\<lambda>i. if i = 0 then [4096, 8192] else []),
     objs = [4096 \<mapsto> (new_object 64 128 4096)\<lparr>remote_signal := 8192\<rparr>, 8192 \<mapsto> new_object 64 128 8192], events = 0\<rparr>"

lemma sample_controller_ok:
  "sig_inv sample_controller" "\<not> sig_lock sample_controller" "sig_shutting_down sample_controller = 0"
  "objs sample_controller = [4096 \<mapsto> (new_object 64 128 4096)\<lparr>remote_signal := 8192\<rparr>, 8192 \<mapsto> new_object 64 128 8192]"
proof -
  have "VXTSIG_HASH 4096 = 0" "VXTSIG_HASH 8192 = 0"
    by (simp_all add: VXTSIG_HASH_def VXTSIG_HTABLE_SIZE_def)
  then show "sig_inv sample_controller"
    by (auto simp: sample_controller_def sig_inv_def tab_ok_def trace_inv_def referenced_def)
qed (simp_all add: sample_controller_def)

theorem interrupt_delivers_witness:
  "\<exists>b' s'. vxtsig_interrupt (map sends [[8192, 7], [9]]) 0 fresh_ring sample_controller = Some (b', s') \<and> queued b' = []
     \<and> pending_signal (the (objs s' 8192)) = 1 \<and> pending_signal (the (objs s' 4096)) = 0"
proof -
  obtain b' s' where "vxtsig_interrupt (map sends [[8192, 7], [9]]) 0 fresh_ring sample_controller = Some (b', s')" "queued b' = []"
    "objs s' = signalled [8192, 7, 9] (objs sample_controller)"
    using interrupt_delivers [OF sample_controller_ok(1,2) fresh_ring_ok(1), of "[[8192, 7], [9]]" 3 0] fresh_ring_ok by auto
  then show ?thesis
    by (intro exI [of _ b'] exI [of _ s']) (simp add: signalled_sel sample_controller_ok(4) new_object_def)
qed

subsection \<open>An index out of range\<close>

lemma receive_loop_in_ring:
  assumes "receive_loop b j i cnt s = Some r"
  shows "i < 20 \<longrightarrow> j < 20"
proof (rule receive_loop.raw_induct [where P = "\<lambda>b j i cnt s r. i < 20 \<longrightarrow> j < 20", OF _ assms], goal_cases)
  case (1 f b j i cnt s r)
  from 1(2) show ?case
    by (auto dest: 1(1) split: if_splits bind_splits)
qed

text \<open>
  C27: the index of the remote controller is not checked: when it is 20 or more, the loop of the
  interrupt goes round the ring without ever meeting it. The interrupt does not return.
\<close>

theorem interrupt_hangs:
  assumes "20 \<le> send_index b" "recv_index b < 20"
  shows "vxtsig_interrupt remote buffer b s = None"
proof -
  have "receive_loop b (send_index b) (recv_index b) cnt s1 = None" for cnt s1
    using receive_loop_in_ring [of b "send_index b" "recv_index b" cnt s1] assms by (meson linorder_not_le not_None_eq)
  then have "process_signals remote cnt b s1 = None" for cnt s1
    by (subst process_signals.simps) (simp add: Let_def)
  then show ?thesis
    by (simp add: vxtsig_interrupt_def Let_def split: bind_split)
qed

theorem interrupt_hangs_witness:
  "vxtsig_interrupt [] 0 (fresh_ring\<lparr>send_index := 20\<rparr>) sample_controller = None \<and> ring_ok fresh_ring"
  using interrupt_hangs [of "fresh_ring\<lparr>send_index := 20\<rparr>"] fresh_ring_ok by (simp add: fresh_ring_def)

subsection \<open>Sending\<close>

text \<open>The outcome of a signal through \<open>ob\<close> that found room in \<open>b\<close>.\<close>

definition appended :: "vxtsig_com \<Rightarrow> vxtsig_object \<Rightarrow> vxtsig_controller \<Rightarrow> vxt_status \<times> vxtsig_com \<times> vxtsig_controller \<Rightarrow> bool" where
  "appended b ob s = (\<lambda>(ret, b', s'). ret = VXT_SUCCESS \<and> ring_ok b' \<and> queued b' = queued b @ [remote_signal ob]
     \<and> objs s' = objs s \<and> sig_inv s' \<and> \<not> sig_lock s' \<and> signal_running s' = 1
     \<and> events s' = events s + (if queued b = [] \<or> length (queued b) = 18 then 1 else 0))"

lemma sig_needed_queued:
  assumes "ring_ok b" "length (queued b) < 19"
  shows "(send_index b = recv_index b \<or> sig_next (sig_next (send_index b)) = recv_index b) = (queued b = [] \<or> length (queued b) = 18)"
proof -
  have b: "send_index b < 20" "recv_index b < 20" using assms(1) by (simp_all add: ring_ok_def)
  have "sig_next (send_index b) \<noteq> recv_index b"
    using assms ring_dist_full [OF b(2,1)] by (simp add: length_queued)
  then have "sig_next (sig_next (send_index b)) = recv_index b \<longleftrightarrow> length (queued b) = 18"
    using ring_dist_full [OF b(2) sig_next_less [OF b(1)]] ring_dist_next_right [OF b(2,1)] by (simp add: length_queued)
  then show ?thesis using queued_empty [OF assms(1)] by simp
qed

lemma grab_objs: "objs (grab h ob s) = (objs s)(h \<mapsto> ob\<lparr>so_ref_cnt := so_ref_cnt ob + 1\<rparr>)"
  by (simp add: grab_def)

lemma running_again: "(s\<lparr>signal_running := 0\<rparr>)\<lparr>signal_running := 1\<rparr> = s\<lparr>signal_running := 1\<rparr>"
  by simp

lemma runs_append:
  assumes inv: "sig_inv s" "sig_shutting_down s \<noteq> 1" and ring: "ring_ok b" "length (queued b) < 19"
    and ob: "objs s h = Some ob" "hidden ob = 0"
  shows "runs (signal_retry sleeps id h b s) (appended b ob s)"
proof -
  have ok: "sig_ok s" "referenced (objs s)" using inv by (simp_all add: sig_inv_def)
  have full: "\<not> sig_full b" using sig_full_queued ring by simp
  obtain b' where b': "sig_store (remote_signal ob) b = Some b'" "send_index b' = send_index b" "ring_ok (sig_publish b')"
    "queued (sig_publish b') = queued b @ [remote_signal ob]" "recv_index b' = recv_index b"
    using store_publish [OF ring(1) full] by blast
  have need: "sig_needed (send_index b) (sig_publish b') = (queued b = [] \<or> length (queued b) = 18)"
    using sig_needed_queued [OF ring] b' by (simp add: sig_needed_def was_empty_def is_full_def sig_publish_def)
  have fin: "runs (if queued b = [] \<or> length (queued b) = 18 then event_signal s1 else Some s1)
      (\<lambda>s2. appended b ob s (VXT_SUCCESS, sig_publish b', vxt_sunlock s2))"
    if "sig_ok s1" "objs s1 = objs s" "events s1 = events s" "signal_running s1 = 1" for s1
    using that b' ok by (auto simp: appended_def vxt_sunlock_def sig_inv_def intro!: runs_mono [OF runs_event_signal])
  show ?thesis
    unfolding signal_retry.simps [of sleeps] if_not_P [OF inv(2)] Let_def if_not_P [OF full] running_again runs_bind
  proof (rule runs_lookup, goal_cases)
    case (3 t ob')
    with ob have eq: "ob' = ob" by simp
    have r: "so_ref_cnt ob \<noteq> 0" "so_handle ob = h"
      using ob(1) referencedD [OF ok(2)] tab_okD(4) [OF ok(1)] by auto
    have gave: "runs (vxtsig_object_release h (grab h ob (s\<lparr>signal_running := 1, sig_trace := t\<rparr>)))
        (\<lambda>s1. sig_ok s1 \<and> objs s1 = objs s \<and> events s1 = events s \<and> signal_running s1 = 1)"
      by (rule runs_give_back [where ob = "ob\<lparr>so_ref_cnt := so_ref_cnt ob + 1\<rparr>" and r = "so_ref_cnt ob"])
        (use 3(1) r(1) ob(1) in \<open>simp_all add: eq grab_def map_upd_triv\<close>)
    show ?case
      by (simp add: eq grab_objs b' Let_def need split del: if_split) (rule runs_mono [OF gave], rule fin; elim conjE; assumption)
  qed (use ok ob in \<open>auto simp: visible_def\<close>)
qed

lemma runs_signal:
  assumes inv: "sig_inv s" "\<not> sig_lock s"
    and retry: "\<And>s1. sig_inv s1 \<Longrightarrow> objs s1 = objs s \<Longrightarrow> events s1 = events s \<Longrightarrow> sig_shutting_down s1 = sig_shutting_down s
      \<Longrightarrow> runs (signal_retry sleeps remote h b s1) P"
  shows "runs (vxtsig_signal sleeps remote h b s) P"
  unfolding vxtsig_signal_def runs_bind lock_free [OF inv(2)] runs_Some
  by (rule runs_trace) (use inv in \<open>auto simp: sig_inv_def intro!: retry\<close>)

text \<open>
  C14: a signal through an object that is visible appends the handle of the remote object behind
  the requests that are queued, changes no object, and leaves the lock free. The
  receiver gets an event when the ring was empty, so that it would not look, or has become full;
  otherwise the receiver has work and finds the request.
\<close>

theorem signal_appends:
  assumes "sig_inv s" "\<not> sig_lock s" "sig_shutting_down s \<noteq> 1" "ring_ok b" "length (queued b) < 19"
    and "objs s h = Some ob" "hidden ob = 0"
  shows "\<exists>b' s'. vxtsig_signal sleeps id h b s = Some (VXT_SUCCESS, b', s') \<and> ring_ok b' \<and> queued b' = queued b @ [remote_signal ob]
    \<and> objs s' = objs s \<and> sig_inv s' \<and> \<not> sig_lock s'
    \<and> events s' = events s + (if queued b = [] \<or> length (queued b) = 18 then 1 else 0)"
proof -
  have "runs (vxtsig_signal sleeps id h b s) (appended b ob s)"
    by (rule runs_signal [OF assms(1,2)])
      (rule runs_mono [OF runs_append], use assms in \<open>auto simp: appended_def\<close>)
  then show ?thesis by (auto simp: runs_def appended_def)
qed

theorem signal_appends_witness:
  "\<exists>b' s'. vxtsig_signal [] id 4096 fresh_ring sample_controller = Some (VXT_SUCCESS, b', s')
     \<and> queued b' = [8192] \<and> events s' = 1"
  using signal_appends [OF sample_controller_ok(1,2) _ fresh_ring_ok(1), of 4096 "(new_object 64 128 4096)\<lparr>remote_signal := 8192\<rparr>" "[]"]
    sample_controller_ok fresh_ring_ok
  by (auto simp: sample_controller_def)

text \<open>
  Sleeps of a sender that found the ring full: one that ends although the ring is still full, and
  one during which the receiver has taken everything.
\<close>

definition woken_in_vain :: "vxtsig_com \<Rightarrow> vxtsig_controller \<Rightarrow> vxt_status \<times> vxtsig_com \<times> vxtsig_controller" where
  "woken_in_vain b s = (VXT_SUCCESS, b, s\<lparr>signal_running := 1\<rparr>)"

definition drained :: "vxtsig_com \<Rightarrow> vxtsig_controller \<Rightarrow> vxt_status \<times> vxtsig_com \<times> vxtsig_controller" where
  "drained b s = (VXT_SUCCESS, b\<lparr>recv_index := send_index b\<rparr>, s\<lparr>signal_running := 1\<rparr>)"

lemma retry_after_sleep:
  assumes "sig_ok s" "sig_shutting_down s \<noteq> 1" "sig_full b"
    and sleep: "\<And>t. sleep b (s\<lparr>signal_running := 0, sig_trace := t, sig_lock := False\<rparr>) =
      (VXT_SUCCESS, buf, s\<lparr>signal_running := 1, sig_trace := t, sig_lock := False\<rparr>)"
    and retry: "\<And>t. sig_ok (s\<lparr>signal_running := 1, sig_lock := True, sig_trace := t\<rparr>)
      \<Longrightarrow> runs (signal_retry sleeps remote h buf (s\<lparr>signal_running := 1, sig_lock := True, sig_trace := t\<rparr>)) P"
  shows "runs (signal_retry (sleep # sleeps) remote h b s) P"
  unfolding signal_retry.simps [of "sleep # sleeps"] if_not_P [OF assms(2)] Let_def if_P [OF assms(3)] list.case runs_bind
proof (rule runs_trace, goal_cases)
  case (2 t)
  let ?s = "s\<lparr>signal_running := 1, sig_trace := t, sig_lock := True\<rparr>"
  have "runs (VXT_TRACE 11 (ctrlr_obj ?s) 0 0 ?s) (\<lambda>s. runs (signal_retry sleeps remote h buf s) P)"
    by (rule runs_trace) (use 2 retry in auto)
  then show ?case
    by (simp add: vxt_sunlock_def sleep)
qed (use assms in auto)

definition sent_alone :: "vxtsig_object \<Rightarrow> vxtsig_controller \<Rightarrow> vxt_status \<times> vxtsig_com \<times> vxtsig_controller \<Rightarrow> bool" where
  "sent_alone ob s = (\<lambda>(ret, b', s'). ret = VXT_SUCCESS \<and> queued b' = [remote_signal ob] \<and> events s' = Suc (events s)
     \<and> objs s' = objs s \<and> \<not> sig_lock s')"

lemma runs_drained:
  assumes "sig_inv s" "sig_shutting_down s \<noteq> 1" "ring_ok b" "sig_full b" "objs s h = Some ob" "hidden ob = 0"
  shows "runs (signal_retry [drained] id h b s) (sent_alone ob s)"
proof (rule retry_after_sleep [where buf = "b\<lparr>recv_index := send_index b\<rparr>"])
  fix t
  let ?b = "b\<lparr>recv_index := send_index b\<rparr>" and ?s = "s\<lparr>signal_running := 1, sig_lock := True, sig_trace := t\<rparr>"
  assume "sig_ok ?s"
  moreover have "ring_ok ?b" "queued ?b = []" using assms(3) queued_empty [of ?b] by (simp_all add: ring_ok_def)
  ultimately show "runs (signal_retry [] id h ?b ?s) (sent_alone ob s)"
    by (intro runs_mono [OF runs_append [where ob = ob]]) (use assms in \<open>auto simp: sig_inv_def appended_def sent_alone_def\<close>)
qed (use assms in \<open>auto simp: drained_def sig_inv_def\<close>)

lemma runs_blocked:
  "sig_inv s \<Longrightarrow> sig_shutting_down s \<noteq> 1 \<Longrightarrow> ring_ok b \<Longrightarrow> sig_full b \<Longrightarrow> objs s h = Some ob \<Longrightarrow> hidden ob = 0 \<Longrightarrow>
   runs (signal_retry (replicate k woken_in_vain @ [drained]) id h b s) (sent_alone ob s)"
proof (induction k arbitrary: s)
  case 0
  show ?case
    unfolding replicate_0 append_Nil by (rule runs_drained) (use 0 in simp_all)
next
  case (Suc k)
  have "runs (signal_retry (woken_in_vain # replicate k woken_in_vain @ [drained]) id h b s) (sent_alone ob s)"
  proof (rule retry_after_sleep [where buf = b])
    fix t
    let ?s = "s\<lparr>signal_running := 1, sig_lock := True, sig_trace := t\<rparr>"
    assume "sig_ok ?s"
    moreover have "sent_alone ob s = sent_alone ob ?s" by (simp add: sent_alone_def)
    ultimately show "runs (signal_retry (replicate k woken_in_vain @ [drained]) id h b ?s) (sent_alone ob s)"
      using Suc.prems by (auto simp only:) (rule Suc.IH; auto simp: sig_inv_def)
  qed (use Suc.prems in \<open>auto simp: woken_in_vain_def sig_inv_def\<close>)
  then show ?case by (simp only: replicate_Suc append_Cons)
qed

text \<open>
  A sender that finds the ring full sleeps, without the lock, and tries again whenever it is
  woken up: however often that happens in vain, once the receiver has emptied the ring the request is appended and,
  the ring being empty, the receiver gets an event.
\<close>

theorem signal_waits_for_space:
  assumes "sig_inv s" "\<not> sig_lock s" "sig_shutting_down s \<noteq> 1" "ring_ok b" "sig_full b" "objs s h = Some ob" "hidden ob = 0"
  shows "\<exists>b' s'. vxtsig_signal (replicate k woken_in_vain @ [drained]) id h b s = Some (VXT_SUCCESS, b', s')
    \<and> queued b' = [remote_signal ob] \<and> events s' = Suc (events s) \<and> objs s' = objs s \<and> \<not> sig_lock s'"
proof -
  have "runs (vxtsig_signal (replicate k woken_in_vain @ [drained]) id h b s) (sent_alone ob s)"
    by (rule runs_signal [OF assms(1,2)]) (rule runs_mono [OF runs_blocked], use assms in \<open>auto simp: sent_alone_def\<close>)
  then show ?thesis by (auto simp: runs_def sent_alone_def)
qed

theorem signal_waits_for_space_witness:
  "\<exists>b' s'. vxtsig_signal [woken_in_vain, drained] id 4096 (fresh_ring\<lparr>send_index := 19\<rparr>) sample_controller = Some (VXT_SUCCESS, b', s')
     \<and> queued b' = [8192]"
  using signal_waits_for_space [OF sample_controller_ok(1,2), of "fresh_ring\<lparr>send_index := 19\<rparr>" 4096
      "(new_object 64 128 4096)\<lparr>remote_signal := 8192\<rparr>" 1]
  by (auto simp: sample_controller_def fresh_ring_def ring_ok_def sig_full_def sig_next_def VXTSIG_MAX_SIG_CNT_def)

subsection \<open>From one controller to the other\<close>

lemma wake_funpow:
  "hidden ((wake ^^ n) ob) = hidden ob" "0 < n \<Longrightarrow> pending_signal ((wake ^^ n) ob) = 1"
  by (induction n) (auto simp: gr0_conv_Suc)

text \<open>
  C8: a signal arrives: a controller signals through an object whose remote object is \<open>r\<close>; after the
  interrupt of the other controller a thread that waits for \<open>r\<close> there returns with success at once,
  whatever its sleep would do, and takes the signal: the next wait sleeps.
\<close>

theorem signal_reaches_waiter:
  assumes "sig_inv s" "\<not> sig_lock s" "sig_shutting_down s \<noteq> 1" "ring_ok b" "length (queued b) < 19"
    and "objs s h = Some ob" "hidden ob = 0"
    and "sig_inv t" "\<not> sig_lock t" "objs t (remote_signal ob) = Some rob" "hidden rob = 0"
  shows "\<exists>b1 s1 b2 t1 t2 rob'. vxtsig_signal sleeps id h b s = Some (VXT_SUCCESS, b1, s1)
    \<and> vxtsig_interrupt [] buffer b1 t = Some (b2, t1) \<and> queued b2 = []
    \<and> vxtsig_wait sleep (remote_signal ob) t1 = Some (VXT_SUCCESS, t2)
    \<and> objs t2 (remote_signal ob) = Some rob' \<and> pending_signal rob' = 0 \<and> hidden rob' = 0 \<and> \<not> sig_lock t2"
proof -
  let ?r = "remote_signal ob"
  have "runs (vxtsig_signal sleeps id h b s) (appended b ob s)"
    by (rule runs_signal [OF assms(1,2)])
      (rule runs_mono [OF runs_append], use assms in \<open>auto simp: appended_def\<close>)
  then obtain b1 s1 where 1: "vxtsig_signal sleeps id h b s = Some (VXT_SUCCESS, b1, s1)"
    and b1: "ring_ok b1" "queued b1 = queued b @ [?r]" by (auto simp: runs_def appended_def)
  have "length (queued b1) < 2 ^ 32" using assms(5) b1(2) by simp
  with runs_interrupt [OF assms(8,9) b1(1), of "[]" "length (queued b1)" buffer] obtain b2 t1 where
    2: "vxtsig_interrupt [] buffer b1 t = Some (b2, t1)" "queued b2 = []"
    and t1: "objs t1 = signalled (queued b1) (objs t)" "sig_inv t1" "\<not> sig_lock t1"
    by (auto simp: runs_def delivered_def)
  define rob1 where "rob1 = (wake ^^ count_list (queued b1) ?r) rob"
  have rob1: "objs t1 ?r = Some rob1" "hidden rob1 = 0" "pending_signal rob1 = 1"
    using assms(10,11) b1(2) by (simp_all add: t1(1) signalled_sel wake_funpow rob1_def)
  have "sig_ok t1" "referenced (objs t1)" using t1(2) by (simp_all add: sig_inv_def)
  then have "runs (vxtsig_wait sleep ?r t1) (\<lambda>(ret, t2). ret = VXT_SUCCESS \<and> upto_table (t1\<lparr>objs := dir_update ?r no_signal (objs t1)\<rparr>) t2)"
    by (intro runs_mono [OF runs_wait]) (use rob1 t1(3) in \<open>auto simp: visible_def\<close>)
  then obtain t2 where 3: "vxtsig_wait sleep ?r t1 = Some (VXT_SUCCESS, t2)"
    and "upto_table (t1\<lparr>objs := dir_update ?r no_signal (objs t1)\<rparr>) t2"
    by (auto simp: runs_def)
  from upto_view [OF this(2)] have "objs t2 = (objs t1)(?r \<mapsto> no_signal rob1)" "\<not> sig_lock t2"
    using rob1 t1(3) by (auto simp: dir_update_def)
  with 1 2 3 rob1 show ?thesis
    by (intro exI [of _ b1] exI [of _ s1] exI [of _ b2] exI [of _ t1] exI [of _ t2] exI [of _ "no_signal rob1"])
      (simp add: no_signal_def)
qed

theorem signal_reaches_waiter_witness:
  "\<exists>b1 s1 b2 t1 t2. vxtsig_signal [] id 4096 fresh_ring sample_controller = Some (VXT_SUCCESS, b1, s1)
     \<and> vxtsig_interrupt [] 0 b1 sample_controller = Some (b2, t1) \<and> vxtsig_wait (undisturbed True) 8192 t1 = Some (VXT_SUCCESS, t2)"
  using signal_reaches_waiter [OF sample_controller_ok(1,2) _ fresh_ring_ok(1), of 4096 "(new_object 64 128 4096)\<lparr>remote_signal := 8192\<rparr>"
      sample_controller "new_object 64 128 8192" "[]" 0 "undisturbed True"] sample_controller_ok fresh_ring_ok
  by auto

end
