(* ===== verification/Vxt_Signal_Steps.thy ===== *)
theory Vxt_Signal_Steps
  imports Vxt_Signal_Ring
begin

text \<open>
  \<^verbatim>\<open>vxtsig_signal\<close>, called by any number of threads of one controller, and \<^verbatim>\<open>vxtsig_interrupt\<close> of the other run at
  the same time and share the ring without a lock. Here they are sequences of atomic steps that interleave
  in any order, one for each access to the ring, to \<^verbatim>\<open>signal_running\<close> and to the wait queue, and one for each event.
  No request is lost, duplicated or overtaken, and no request waits without an event under way. A sender that
  sleeps because the ring was full is woken up again when it is the only sender, and may
  be forgotten when there are two.
\<close>

subsection \<open>Steps\<close>

text \<open>
  Where the thread is that holds the lock of the sending controller: nobody holds it; at the test whether the
  ring is full; with the request in hand; behind each barrier.
\<close>

datatype sender_at = Ready | Testing | Storing vxtsig_handle_t | Publishing vxtsig_handle_t | Checking u32 | Rechecking u32

text \<open>
  Where the receiver is: outside of the interrupt, at \<^verbatim>\<open>process_signals\<close>, in the loop with \<open>last_index\<close>, \<open>signal\<close> and
  \<open>signal_request_index\<close>, behind the update of \<open>recv_index\<close>, or on the way out with the decision about the event.
\<close>

datatype receiver_at = Idle | Starting | Receiving u32 bool u32 | Deciding bool | Leaving bool

text \<open>
  The ring; the thread that holds the sender's lock, and the numbers of the threads that are about to take it (\<open>calling\<close>), that
  have released it and are about to look at \<^verbatim>\<open>signal_running\<close> (\<open>pausing\<close>), and that sleep on \<^verbatim>\<open>signal_wait\<close> (\<open>asleep\<close>);
  \<^verbatim>\<open>signal_running\<close>; the receiver; the events that are pending in either direction; \<open>signal_cnt\<close>. The rest is
  history: all that was sent and received, and how much of it had been acknowledged and, at the last
  entry of the interrupt, received.
\<close>

record sig_link =
  ring :: vxtsig_com
  sender :: sender_at
  calling :: nat
  pausing :: nat
  asleep :: nat
  running :: u32
  receiver :: receiver_at
  to_receiver :: bool
  to_sender :: bool
  signal_cnt :: u32
  sent :: "vxtsig_handle_t list"
  got :: "vxtsig_handle_t list"
  acked :: nat
  entered :: nat

text \<open>Everybody on the wait queue is woken up, to look at \<^verbatim>\<open>signal_running\<close> again.\<close>

definition wake_link :: "sig_link \<Rightarrow> sig_link" where
  "wake_link st = st\<lparr>running := 1, pausing := pausing st + asleep st, asleep := 0\<rparr>"

text \<open>
  The steps of \<^verbatim>\<open>vxtsig_signal\<close>. A thread that finds the ring full releases the lock before it looks at
  \<^verbatim>\<open>signal_running\<close>, which other threads change meanwhile; awake again, it starts over. The handle of the
  remote object is the one that the lookup gives, which may also fail.
\<close>

inductive send_step :: "sig_link \<Rightarrow> sig_link \<Rightarrow> bool" where
  take_lock: "sender st = Ready \<Longrightarrow> 0 < calling st \<Longrightarrow> send_step st (st\<lparr>calling := calling st - 1, sender := Testing, running := 0\<rparr>)"
| found_full: "sender st = Testing \<Longrightarrow> sig_full (ring st) \<Longrightarrow> send_step st (st\<lparr>sender := Ready, pausing := pausing st + 1\<rparr>)"
| go_on: "0 < pausing st \<Longrightarrow> running st \<noteq> 0 \<Longrightarrow> send_step st (st\<lparr>pausing := pausing st - 1, calling := calling st + 1\<rparr>)"
| go_to_sleep: "0 < pausing st \<Longrightarrow> running st = 0 \<Longrightarrow> send_step st (st\<lparr>pausing := pausing st - 1, asleep := asleep st + 1\<rparr>)"
| found_room: "sender st = Testing \<Longrightarrow> \<not> sig_full (ring st) \<Longrightarrow> send_step st (st\<lparr>sender := Storing h, running := 1\<rparr>)"
| no_object: "sender st = Storing h \<Longrightarrow> send_step st (st\<lparr>sender := Ready\<rparr>)"
| store: "sender st = Storing h \<Longrightarrow> sig_store h (ring st) = Some b \<Longrightarrow> send_step st (st\<lparr>ring := b, sender := Publishing h\<rparr>)"
| publish: "sender st = Publishing h \<Longrightarrow>
    send_step st (st\<lparr>ring := sig_publish (ring st), sender := Checking (send_index (ring st)), sent := sent st @ [h]\<rparr>)"
| check_empty: "sender st = Checking p \<Longrightarrow> was_empty p (ring st) \<Longrightarrow> send_step st (st\<lparr>sender := Ready, to_receiver := True\<rparr>)"
| check_more: "sender st = Checking p \<Longrightarrow> \<not> was_empty p (ring st) \<Longrightarrow> send_step st (st\<lparr>sender := Rechecking p\<rparr>)"
| check_full: "sender st = Rechecking p \<Longrightarrow>
    send_step st (st\<lparr>sender := Ready, to_receiver := to_receiver st \<or> is_full p (ring st)\<rparr>)"

text \<open>
  The steps of \<^verbatim>\<open>vxtsig_interrupt\<close>: on the side of the sender, which must be able to take the lock, the wake-up of
  the threads that wait for space; on the other side the work on the ring.
\<close>

inductive interrupt_step :: "sig_link \<Rightarrow> sig_link \<Rightarrow> bool" where
  wake_senders: "to_sender st \<Longrightarrow> sender st = Ready \<Longrightarrow>
    interrupt_step st ((if running st = 0 then wake_link st else st)\<lparr>to_sender := False\<rparr>)"
| enter: "receiver st = Idle \<Longrightarrow> to_receiver st \<Longrightarrow>
    interrupt_step st (st\<lparr>receiver := Starting, to_receiver := False, signal_cnt := 0, entered := length (got st)\<rparr>)"
| freeze: "receiver st = Starting \<Longrightarrow>
    interrupt_step st (st\<lparr>receiver := Receiving (send_index (ring st)) (sig_full (ring st)) (recv_index (ring st))\<rparr>)"
| receive: "receiver st = Receiving l full i \<Longrightarrow> i \<noteq> l \<Longrightarrow> sig_slot (ring st) i = Some h \<Longrightarrow>
    interrupt_step st (st\<lparr>receiver := Receiving l full (sig_next i), got := got st @ [h], signal_cnt := signal_cnt st + 1\<rparr>)"
| acknowledge: "receiver st = Receiving l full l \<Longrightarrow>
    interrupt_step st (st\<lparr>ring := (ring st)\<lparr>recv_index := l\<rparr>, receiver := Deciding full, acked := length (got st)\<rparr>)"
| again: "receiver st = Deciding full \<Longrightarrow> send_index (ring st) \<noteq> recv_index (ring st) \<Longrightarrow> interrupt_step st (st\<lparr>receiver := Starting\<rparr>)"
| leave: "receiver st = Deciding full \<Longrightarrow> send_index (ring st) = recv_index (ring st) \<Longrightarrow>
    interrupt_step st (st\<lparr>receiver := Leaving (full \<or> VXTSIG_MAX_SIG_CNT - 1 \<le> signal_cnt st)\<rparr>)"
| leave_event: "receiver st = Leaving signal \<Longrightarrow> interrupt_step st (st\<lparr>receiver := Idle, to_sender := to_sender st \<or> signal\<rparr>)"

text \<open>
  What comes from outside: a new call; an event for other reasons, such as requests in the other
  direction; the wake-up by the end or the local signal of an object, under the sender's lock; the end of an interruptible sleep.
\<close>

inductive outside_step :: "sig_link \<Rightarrow> sig_link \<Rightarrow> bool" where
  call: "outside_step st (st\<lparr>calling := calling st + 1\<rparr>)"
| event_to_receiver: "outside_step st (st\<lparr>to_receiver := True\<rparr>)"
| event_to_sender: "outside_step st (st\<lparr>to_sender := True\<rparr>)"
| object_wakes: "sender st = Ready \<Longrightarrow> outside_step st (wake_link st)"
| interrupted: "0 < asleep st \<Longrightarrow> outside_step st (st\<lparr>asleep := asleep st - 1, calling := calling st + 1\<rparr>)"

definition own_step :: "sig_link \<Rightarrow> sig_link \<Rightarrow> bool" where
  "own_step st st' \<longleftrightarrow> send_step st st' \<or> interrupt_step st st'"

definition sig_step :: "sig_link \<Rightarrow> sig_link \<Rightarrow> bool" where
  "sig_step st st' \<longleftrightarrow> own_step st st' \<or> outside_step st st'"

lemma sig_step_cases [consumes 1, case_names send interrupt outside]:
  assumes "sig_step st st'"
  obtains "send_step st st'" | "interrupt_step st st'" | "outside_step st st'"
  using assms by (auto simp: sig_step_def own_step_def)

inductive_simps send_step_simps: "send_step st st'"
inductive_simps interrupt_step_simps: "interrupt_step st st'"
inductive_simps outside_step_simps: "outside_step st st'"

text \<open>The threads that are inside of \<^verbatim>\<open>vxtsig_signal\<close>.\<close>

definition senders :: "sig_link \<Rightarrow> nat" where
  "senders st = calling st + pausing st + asleep st + (if sender st = Ready then 0 else 1)"

definition link_start :: "vxtsig_handle_t list \<Rightarrow> sig_link" where
  "link_start buf = \<lparr>ring = vxtsig_init_send_buf \<lparr>send_index = 0, recv_index = 0, restart_signal_request = 0, sig_list = buf\<rparr>,
     sender = Ready, calling = 0, pausing = 0, asleep = 0, running = 1, receiver = Idle, to_receiver = False, to_sender = False,
     signal_cnt = 0, sent = [], got = [], acked = 0, entered = 0\<rparr>"

subsection \<open>The invariant\<close>

text \<open>The index of the \<open>n\<close>th request.\<close>

definition nth_index :: "u32 \<Rightarrow> nat \<Rightarrow> bool" where
  "nth_index i n \<longleftrightarrow> unat i = n mod 20"

lemma nth_index_less: "nth_index i n \<Longrightarrow> i < 20"
  by (simp add: nth_index_def unat_less_20)

lemma nth_index_next: "nth_index i n \<Longrightarrow> nth_index (sig_next i) (Suc n)"
  using unat_sig_next [of i] nth_index_less [of i n] by (auto simp: nth_index_def mod_Suc)

lemma mod_20_inj: "m mod 20 = n mod 20 \<Longrightarrow> m \<le> n \<Longrightarrow> n \<le> m + 19 \<Longrightarrow> m = (n :: nat)"
proof -
  assume "m mod 20 = n mod 20" "m \<le> n" "n \<le> m + 19"
  then have d: "n = m + (n - m)" "n - m < 20" by linarith+
  have "(m + 0) mod 20 = (m + (n - m)) mod 20"
    using \<open>m mod 20 = n mod 20\<close> d(1) by (metis add_0_right)
  from mod_ring_inj [OF this _ d(2)] d(1) show "m = n" by linarith
qed

lemma nth_index_eq: "nth_index i m \<Longrightarrow> nth_index j n \<Longrightarrow> m \<le> n \<Longrightarrow> n \<le> m + 19 \<Longrightarrow> i = j \<longleftrightarrow> m = n"
  unfolding nth_index_def word_unat_eq_iff using mod_20_inj by metis

lemma nth_index_full: "nth_index i m \<Longrightarrow> nth_index j n \<Longrightarrow> m \<le> n \<Longrightarrow> n \<le> m + 19 \<Longrightarrow> sig_next j = i \<longleftrightarrow> n = m + 19"
  using nth_index_eq [of "sig_next j" "Suc n" i "m + 20"] nth_index_next [of j n] by (auto simp: nth_index_def)

definition ring_agrees :: "sig_link \<Rightarrow> bool" where
  "ring_agrees st \<longleftrightarrow> 20 \<le> length (sig_list (ring st))
     \<and> nth_index (send_index (ring st)) (length (sent st)) \<and> nth_index (recv_index (ring st)) (acked st)
     \<and> acked st \<le> length (got st) \<and> length (got st) \<le> length (sent st) \<and> length (sent st) \<le> acked st + 19
     \<and> got st = take (length (got st)) (sent st)
     \<and> (\<forall>k. length (got st) \<le> k \<and> k < length (sent st) \<longrightarrow> sig_list (ring st) ! (k mod 20) = sent st ! k)"

fun sender_ok :: "sig_link \<Rightarrow> sender_at \<Rightarrow> bool" where
  "sender_ok st (Storing h) \<longleftrightarrow> length (sent st) < acked st + 19"
| "sender_ok st (Publishing h) \<longleftrightarrow> length (sent st) < acked st + 19 \<and> sig_list (ring st) ! (length (sent st) mod 20) = h"
| "sender_ok st (Checking p) \<longleftrightarrow> sent st \<noteq> [] \<and> nth_index p (length (sent st) - 1)"
| "sender_ok st _ \<longleftrightarrow> True"

fun receiver_ok :: "sig_link \<Rightarrow> receiver_at \<Rightarrow> bool" where
  "receiver_ok st (Receiving l full i) \<longleftrightarrow> nth_index i (length (got st))
     \<and> (\<exists>n. length (got st) \<le> n \<and> n \<le> length (sent st) \<and> nth_index l n)"
| "receiver_ok st _ \<longleftrightarrow> acked st = length (got st)"

text \<open>Nobody outside of the loop overlooks a request: an event is pending, or the sender is about to find that it is needed.\<close>

definition receiver_called :: "sig_link \<Rightarrow> bool" where
  "receiver_called st \<longleftrightarrow> acked st = length (sent st) \<or> to_receiver st
     \<or> (\<exists>p. sender st = Checking p \<and> length (sent st) = Suc (acked st))"

fun sender_called :: "sig_link \<Rightarrow> receiver_at \<Rightarrow> bool" where
  "sender_called st Idle \<longleftrightarrow> length (sent st) = acked st + 19"
| "sender_called st (Leaving signal) \<longleftrightarrow> signal \<or> length (sent st) = acked st + 19"
| "sender_called st _ \<longleftrightarrow> entered st + 19 \<le> length (sent st)"

definition link_inv :: "sig_link \<Rightarrow> bool" where
  "link_inv st \<longleftrightarrow> ring_agrees st \<and> sender_ok st (sender st) \<and> receiver_ok st (receiver st)
     \<and> (receiver st \<noteq> Idle \<longrightarrow> entered st \<le> acked st \<and> signal_cnt st = of_nat (length (got st) - entered st))
     \<and> ((receiver st = Idle \<or> (\<exists>x. receiver st = Leaving x)) \<longrightarrow> receiver_called st)
     \<and> (running st = 0 \<longrightarrow> sender st = Ready \<and> (to_sender st \<or> sender_called st (receiver st)) \<or> sender st = Testing)"

lemma link_start_inv: "20 \<le> length buf \<Longrightarrow> link_inv (link_start buf)"
  by (simp add: link_inv_def ring_agrees_def link_start_def vxtsig_init_send_buf_def nth_index_def receiver_called_def)

lemma full_by_count: "ring_agrees st \<Longrightarrow> sig_full (ring st) \<longleftrightarrow> length (sent st) = acked st + 19"
  unfolding ring_agrees_def sig_full_def by (intro nth_index_full) auto

lemma sent_grows: "sig_step st st' \<Longrightarrow> length (sent st) \<le> length (sent st')"
  by (auto simp: sig_step_def own_step_def wake_link_def send_step_simps interrupt_step_simps outside_step_simps)

text \<open>The parts of the invariant depend on the ring and the history only.\<close>

lemma ring_agrees_cong:
  "ring st = ring st' \<Longrightarrow> sent st = sent st' \<Longrightarrow> got st = got st' \<Longrightarrow> acked st = acked st' \<Longrightarrow> ring_agrees st = ring_agrees st'"
  by (simp add: ring_agrees_def)

lemma sender_ok_cong:
  "ring st = ring st' \<Longrightarrow> sent st = sent st' \<Longrightarrow> acked st = acked st' \<Longrightarrow> sender_ok st a = sender_ok st' a"
  by (cases a) simp_all

lemma receiver_ok_cong:
  "sent st = sent st' \<Longrightarrow> got st = got st' \<Longrightarrow> acked st = acked st' \<Longrightarrow> receiver_ok st r = receiver_ok st' r"
  by (cases r) simp_all

lemma sender_called_cong:
  "sent st = sent st' \<Longrightarrow> acked st = acked st' \<Longrightarrow> entered st = entered st' \<Longrightarrow> sender_called st r = sender_called st' r"
  by (cases r) simp_all

text \<open>Two states with the same ring and history, and the same receiver.\<close>

definition same_ring :: "sig_link \<Rightarrow> sig_link \<Rightarrow> bool" where
  "same_ring st st' \<longleftrightarrow> ring st' = ring st \<and> sent st' = sent st \<and> got st' = got st \<and> acked st' = acked st \<and> entered st' = entered st
     \<and> signal_cnt st' = signal_cnt st \<and> receiver st' = receiver st"

lemma same_ringD:
  assumes "same_ring st st'"
  shows "ring_agrees st' = ring_agrees st" "sender_ok st' a = sender_ok st a" "receiver_ok st' r = receiver_ok st r"
    "sender_called st' r = sender_called st r"
  by (rule ring_agrees_cong sender_ok_cong receiver_ok_cong sender_called_cong; use assms in \<open>simp add: same_ring_def\<close>)+

text \<open>A receiver in the interrupt, and the other conjuncts of the invariant.\<close>

lemma link_invD:
  assumes "link_inv st"
  shows "ring_agrees st" "sender_ok st (sender st)" "receiver_ok st (receiver st)"
    and "receiver st \<noteq> Idle \<Longrightarrow> entered st \<le> acked st" "receiver st \<noteq> Idle \<Longrightarrow> signal_cnt st = of_nat (length (got st) - entered st)"
    and "receiver st = Idle \<Longrightarrow> receiver_called st" "receiver st = Leaving x \<Longrightarrow> receiver_called st"
    and "running st = 0 \<Longrightarrow> sender st = Ready \<and> (to_sender st \<or> sender_called st (receiver st)) \<or> sender st = Testing"
  using assms by (auto simp: link_inv_def)

lemma same_ring_inv:
  assumes inv: "link_inv st" and same: "same_ring st st'"
    and s: "sender_ok st (sender st')" "receiver_called st \<Longrightarrow> receiver_called st'"
    and r: "running st' = 0 \<Longrightarrow> sender st' = Ready \<and> (to_sender st' \<or> sender_called st (receiver st)) \<or> sender st' = Testing"
  shows "link_inv st'"
  using inv s r same unfolding link_inv_def same_ringD [OF same] by (simp add: same_ring_def)

lemma ring_agreesD:
  assumes "ring_agrees st"
  shows "20 \<le> length (sig_list (ring st))" "nth_index (send_index (ring st)) (length (sent st))"
    and "nth_index (recv_index (ring st)) (acked st)" "acked st \<le> length (got st)" "length (got st) \<le> length (sent st)"
    and "length (sent st) \<le> acked st + 19" "got st = take (length (got st)) (sent st)"
    and "length (got st) \<le> k \<Longrightarrow> k < length (sent st) \<Longrightarrow> sig_list (ring st) ! (k mod 20) = sent st ! k"
  using assms by (auto simp: ring_agrees_def)

text \<open>The steps of the sender that change the ring.\<close>

lemma store_agrees:
  assumes "ring_agrees st" "length (sent st) < acked st + 19" "sig_store h (ring st) = Some b"
  shows "ring_agrees (st\<lparr>ring := b, sender := s\<rparr>) \<and> sig_list b ! (length (sent st) mod 20) = h"
proof -
  let ?n = "length (sent st)"
  have b: "b = (ring st)\<lparr>sig_list := (sig_list (ring st))[?n mod 20 := h]\<rparr>" and len: "?n mod 20 < length (sig_list (ring st))"
    using assms(1,3) by (auto simp: sig_store_def ring_agrees_def nth_index_def split: if_splits)
  have "k mod 20 \<noteq> ?n mod 20" if "length (got st) \<le> k" "k < ?n" for k
    using mod_20_inj [of k ?n] that ring_agreesD(4,6) [OF assms(1)] by linarith
  then have "(sig_list (ring st))[?n mod 20 := h] ! (k mod 20) = sig_list (ring st) ! (k mod 20)"
    if "length (got st) \<le> k" "k < ?n" for k
    using that by (metis nth_list_update_neq)
  then show ?thesis
    using assms(1) len unfolding ring_agrees_def b by (auto simp del: mod_less)
qed

lemma publish_agrees:
  assumes "ring_agrees st" "length (sent st) < acked st + 19" "sig_list (ring st) ! (length (sent st) mod 20) = h"
  shows "ring_agrees (st\<lparr>ring := sig_publish (ring st), sender := s, sent := sent st @ [h]\<rparr>)"
  using assms nth_index_next [of "send_index (ring st)" "length (sent st)"]
  by (auto simp: ring_agrees_def sig_publish_def nth_append less_Suc_eq)

text \<open>A thread that finds the ring full has somebody who will tell it about space.\<close>

lemma full_called:
  assumes "link_inv st" "length (sent st) = acked st + 19"
  shows "sender_called st (receiver st)"
  using assms link_invD(4) [OF assms(1)] by (cases "receiver st") auto

lemma send_inv:
  assumes inv: "link_inv st" and step: "send_step st st'"
  shows "link_inv st'"
  using step
proof cases
  case take_lock
  show ?thesis by (rule same_ring_inv [OF inv]) (use take_lock in \<open>auto simp: same_ring_def receiver_called_def\<close>)
next
  case found_full
  have "length (sent st) = acked st + 19" using link_invD(1) [OF inv] full_by_count found_full by blast
  from full_called [OF inv this] show ?thesis
    by (intro same_ring_inv [OF inv]) (use found_full in \<open>auto simp: same_ring_def receiver_called_def\<close>)
next
  case go_on
  show ?thesis
    by (rule same_ring_inv [OF inv]) (use go_on link_invD(2,8) [OF inv] in \<open>auto simp: same_ring_def receiver_called_def\<close>)
next
  case go_to_sleep
  show ?thesis
    by (rule same_ring_inv [OF inv]) (use go_to_sleep link_invD(2,8) [OF inv] in \<open>auto simp: same_ring_def receiver_called_def\<close>)
next
  case (found_room h)
  then have "length (sent st) < acked st + 19"
    using link_invD(1) [OF inv] full_by_count ring_agreesD(6) by (metis le_neq_implies_less)
  then show ?thesis
    by (intro same_ring_inv [OF inv]) (use found_room in \<open>auto simp: same_ring_def receiver_called_def\<close>)
next
  case (no_object h)
  show ?thesis
    by (rule same_ring_inv [OF inv]) (use no_object link_invD(8) [OF inv] in \<open>auto simp: same_ring_def receiver_called_def\<close>)
next
  case (store h b)
  have "ring_agrees st' \<and> sig_list b ! (length (sent st) mod 20) = h"
    unfolding store by (rule store_agrees) (use inv store in \<open>auto simp: link_inv_def\<close>)
  moreover have "receiver_ok st' (receiver st)" using link_invD(3) [OF inv] store by (cases "receiver st") auto
  ultimately show ?thesis
    using link_invD [OF inv] store by (auto simp: link_inv_def receiver_called_def)
next
  case (publish h)
  have "ring_agrees st'"
    unfolding publish by (rule publish_agrees) (use inv publish in \<open>auto simp: link_inv_def\<close>)
  moreover have "nth_index (send_index (ring st)) (length (sent st))"
    using link_invD(1) [OF inv] ring_agreesD(2) by blast
  moreover have "receiver_ok st' (receiver st)"
    using link_invD(3) [OF inv] publish by (cases "receiver st") auto
  moreover have "receiver_called st \<Longrightarrow> receiver_called st'"
    using publish by (auto simp: receiver_called_def)
  ultimately show ?thesis
    using link_invD [OF inv] publish by (auto simp: link_inv_def)
next
  case (check_empty p)
  show ?thesis
    by (rule same_ring_inv [OF inv]) (use check_empty link_invD(8) [OF inv] in \<open>auto simp: same_ring_def receiver_called_def\<close>)
next
  case (check_more p)
  have ns: "sent st \<noteq> []" "nth_index p (length (sent st) - 1)"
    using link_invD(2) [OF inv] check_more by simp_all
  have "length (sent st) \<noteq> Suc (acked st)"
  proof
    assume "length (sent st) = Suc (acked st)"
    then have "p = recv_index (ring st)"
      using ns ring_agreesD(3) [OF link_invD(1) [OF inv]] by (simp add: nth_index_def word_unat_eq_iff)
    then show False using check_more by (simp add: was_empty_def)
  qed
  then show ?thesis
    by (intro same_ring_inv [OF inv]) (use check_more link_invD(8) [OF inv] in \<open>auto simp: same_ring_def receiver_called_def\<close>)
next
  case (check_full p)
  show ?thesis
    by (rule same_ring_inv [OF inv]) (use check_full link_invD(8) [OF inv] in \<open>auto simp: same_ring_def receiver_called_def\<close>)
qed

lemma outside_inv:
  assumes inv: "link_inv st" and step: "outside_step st st'"
  shows "link_inv st'"
proof (rule same_ring_inv [OF inv])
  show "same_ring st st'" using step by (auto simp: outside_step_simps same_ring_def wake_link_def)
  show "sender_ok st (sender st')" using step link_invD(2) [OF inv] by (auto simp: outside_step_simps wake_link_def)
  show "receiver_called st \<Longrightarrow> receiver_called st'" using step by (auto simp: outside_step_simps receiver_called_def wake_link_def)
  show "running st' = 0 \<Longrightarrow> sender st' = Ready \<and> (to_sender st' \<or> sender_called st (receiver st)) \<or> sender st' = Testing"
    using step link_invD(8) [OF inv] by (auto simp: outside_step_simps wake_link_def)
qed

lemma interrupt_inv:
  assumes inv: "link_inv st" and step: "interrupt_step st st'" and bound: "length (sent st') < 2 ^ 32"
  shows "link_inv st'"
  using step
proof cases
  case wake_senders
  show ?thesis
    by (rule same_ring_inv [OF inv]) (use wake_senders link_invD(2,8) [OF inv] in \<open>auto simp: same_ring_def receiver_called_def wake_link_def split: if_splits\<close>)
next
  case enter
  have s: "sender_ok st' (sender st)" using link_invD(2) [OF inv] enter by (cases "sender st") auto
  have r: "running st' = 0 \<longrightarrow> sender st' = Ready \<and> (to_sender st' \<or> sender_called st' (receiver st')) \<or> sender st' = Testing"
    using link_invD(3,8) [OF inv] enter by auto
  have a: "ring_agrees st'" using link_invD(1) [OF inv] enter by (simp add: ring_agrees_def)
  show ?thesis using a s r link_invD(3) [OF inv] enter by (simp add: link_inv_def)
next
  case freeze
  have s: "sender_ok st' (sender st)" using link_invD(2) [OF inv] freeze by (cases "sender st") auto
  have a: "ring_agrees st'" using link_invD(1) [OF inv] freeze by (simp add: ring_agrees_def)
  have r: "running st' = 0 \<longrightarrow> sender st' = Ready \<and> (to_sender st' \<or> sender_called st' (receiver st')) \<or> sender st' = Testing"
    using link_invD(8) [OF inv] freeze by auto
  show ?thesis using a s r link_invD(3-5) [OF inv] ring_agreesD [OF link_invD(1) [OF inv]] freeze by (auto simp: link_inv_def)
next
  case (receive l full i h)
  let ?n = "length (got st)"
  note ring = ring_agreesD [OF link_invD(1) [OF inv]]
  have i: "nth_index i ?n" using link_invD(3) [OF inv] receive by simp
  obtain n where n: "?n \<le> n" "n \<le> length (sent st)" "nth_index l n" using link_invD(3) [OF inv] receive by auto
  have "n \<noteq> ?n" using n(3) i receive(3) by (auto simp: nth_index_def word_unat_eq_iff)
  then have less: "?n < n" using n(1) by simp
  have "h = sig_list (ring st) ! (?n mod 20)"
    using receive(4) i by (simp add: sig_slot_def nth_index_def split: if_splits)
  then have h: "h = sent st ! ?n" using ring(8) [of ?n] less n(2) by simp
  have "ring_agrees st'"
    using ring receive less n(2) h by (auto simp: ring_agrees_def take_Suc_conv_app_nth)
  moreover have "signal_cnt st' = of_nat (length (got st') - entered st)"
    using link_invD(4,5) [OF inv] ring(4) receive by (simp add: Suc_diff_le)
  moreover have "receiver_ok st' (receiver st')"
    using receive less n nth_index_next [OF i] by (auto intro!: exI [of _ n])
  moreover have "sender_ok st' (sender st)" using link_invD(2) [OF inv] receive by (cases "sender st") auto
  ultimately show ?thesis
    using link_invD(4,8) [OF inv] receive by (auto simp: link_inv_def)
next
  case (acknowledge l full)
  note ring = ring_agreesD [OF link_invD(1) [OF inv]]
  have "nth_index l (length (got st))" using link_invD(3) [OF inv] acknowledge by simp
  then have "ring_agrees st'"
    using ring acknowledge by (auto simp: ring_agrees_def)
  moreover have "sender_ok st' (sender st)"
    using link_invD(2) [OF inv] acknowledge ring(4) by (cases "sender st") auto
  ultimately show ?thesis
    using link_invD(4,5,8) [OF inv] acknowledge ring(4) by (auto simp: link_inv_def)
next
  case (again full)
  have s: "sender_ok st' (sender st)" using link_invD(2) [OF inv] again by (cases "sender st") auto
  have a: "ring_agrees st'" using link_invD(1) [OF inv] again by (simp add: ring_agrees_def)
  show ?thesis using a s link_invD(3-5,8) [OF inv] again by (auto simp: link_inv_def)
next
  case (leave full)
  note ring = ring_agreesD [OF link_invD(1) [OF inv]]
  have "length (sent st) = acked st"
    using nth_index_eq [OF ring(3,2)] ring(4-6) leave(3) by simp
  then have all: "acked st = length (sent st)" "length (got st) = length (sent st)"
    using ring(4,5) by simp_all
  have "length (sent st) < 2 ^ 32" using bound leave by simp
  then have "unat (of_nat (length (got st) - entered st) :: u32) = length (got st) - entered st"
    using all by (simp add: unat_of_nat del: of_nat_diff)
  then have cnt: "VXTSIG_MAX_SIG_CNT - 1 \<le> signal_cnt st" if "entered st + 19 \<le> length (sent st)"
    using that link_invD(5) [OF inv] leave all(2) by (simp add: VXTSIG_MAX_SIG_CNT_def word_le_nat_alt del: of_nat_diff)
  have s: "sender_ok st' (sender st)" using link_invD(2) [OF inv] leave by (cases "sender st") auto
  have a: "ring_agrees st'" using link_invD(1) [OF inv] leave by (simp add: ring_agrees_def)
  show ?thesis
    using a s cnt link_invD(3-5,8) [OF inv] leave all by (auto simp: link_inv_def receiver_called_def)
next
  case (leave_event signal)
  have c: "receiver_called st'"
    using link_invD(7) [OF inv leave_event(2)] leave_event by (simp add: receiver_called_def)
  have s: "sender_ok st' (sender st)" using link_invD(2) [OF inv] leave_event by (cases "sender st") auto
  have a: "ring_agrees st'" using link_invD(1) [OF inv] leave_event by (simp add: ring_agrees_def)
  show ?thesis
    using a s c link_invD(3,8) [OF inv] leave_event by (auto simp: link_inv_def)
qed

lemma step_inv: "link_inv st \<Longrightarrow> sig_step st st' \<Longrightarrow> length (sent st') < 2 ^ 32 \<Longrightarrow> link_inv st'"
  by (auto simp: sig_step_def own_step_def intro: send_inv interrupt_inv outside_inv)

lemma reachable_inv:
  assumes "sig_step\<^sup>*\<^sup>* (link_start buf) st" "20 \<le> length buf"
  shows "length (sent st) < 2 ^ 32 \<longrightarrow> link_inv st"
  using assms(1)
proof (induction rule: rtranclp_induct)
  case base
  then show ?case using link_start_inv assms(2) by blast
next
  case (step st st')
  then show ?case
    using step_inv [of st st'] sent_grows [of st st'] by auto
qed

text \<open>A state in which neither side can make a step of its own.\<close>

definition at_rest :: "sig_link \<Rightarrow> bool" where
  "at_rest st \<longleftrightarrow> (\<forall>st'. \<not> own_step st st')"

lemma at_restD:
  assumes rest: "at_rest st" and inv: "link_inv st"
  shows "sender st = Ready" "calling st = 0" "pausing st = 0" "\<not> to_sender st" "receiver st = Idle" "\<not> to_receiver st"
proof -
  have no: "\<not> send_step st st'" "\<not> interrupt_step st st'" for st' using rest by (auto simp: at_rest_def own_step_def)
  show ready: "sender st = Ready"
  proof (cases "sender st")
    case Testing
    then show ?thesis using no(1) found_full found_room by blast
  next
    case (Storing h)
    then show ?thesis using no(1) no_object by blast
  next
    case (Publishing h)
    then show ?thesis using no(1) publish by blast
  next
    case (Checking p)
    then show ?thesis using no(1) check_empty check_more by blast
  next
    case (Rechecking p)
    then show ?thesis using no(1) check_full by blast
  qed
  show "calling st = 0" using no(1) take_lock [OF ready] by blast
  show "pausing st = 0" using no(1) go_on go_to_sleep by blast
  show "\<not> to_sender st" using no(2) wake_senders ready by blast
  show idle: "receiver st = Idle"
  proof (cases "receiver st")
    case Starting
    then show ?thesis using no(2) freeze by blast
  next
    case (Receiving l full i)
    have "unat i < length (sig_list (ring st))"
      using link_invD(3) [OF inv] ring_agreesD(1) [OF link_invD(1) [OF inv]] Receiving
      by (auto simp: nth_index_def intro: less_le_trans [of _ 20])
    then have "sig_slot (ring st) i = Some (sig_list (ring st) ! unat i)" by (simp add: sig_slot_def)
    then show ?thesis using no(2) Receiving receive [of st l full i] acknowledge [of st l full] by (cases "i = l") auto
  next
    case (Deciding full)
    then show ?thesis using no(2) again leave by blast
  next
    case (Leaving signal)
    then show ?thesis using no(2) leave_event by blast
  qed
  show "\<not> to_receiver st" using no(2) enter [OF idle] by blast
qed

subsection \<open>What the interleaving guarantees\<close>

text \<open>
  C12: however the steps of the senders and of the interrupt interleave, what has been received is what was sent
  first, in order: nothing is lost, duplicated, overtaken or overwritten before it has been
  received, and at most 19 requests are on their way. This holds up to \<open>2\<^sup>3\<^sup>2\<close> requests.
\<close>

theorem requests_in_order:
  assumes "sig_step\<^sup>*\<^sup>* (link_start buf) st" "20 \<le> length buf" "length (sent st) < 2 ^ 32"
  shows "\<exists>rest. sent st = got st @ rest \<and> length rest \<le> 19"
proof -
  note ring = ring_agreesD [OF link_invD(1) [OF mp [OF reachable_inv [OF assms(1,2)] assms(3)]]]
  have "sent st = got st @ drop (length (got st)) (sent st)"
    using ring(7) by (metis append_take_drop_id)
  then show ?thesis using ring(4,6) by (intro exI [of _ "drop (length (got st)) (sent st)"]) auto
qed

text \<open>While there is only one sender, it sleeps only until \<^verbatim>\<open>signal_running\<close> is set.\<close>

lemma alone_step:
  assumes "sig_step st st'" "senders st \<le> 1" "senders st' \<le> 1" "0 < asleep st \<longrightarrow> running st = 0"
  shows "0 < asleep st' \<longrightarrow> running st' = 0"
  using assms
  by (auto simp: sig_step_def own_step_def senders_def wake_link_def send_step_simps interrupt_step_simps outside_step_simps split: if_splits)

definition run_of :: "bool \<Rightarrow> sig_link \<Rightarrow> sig_link \<Rightarrow> bool" where
  "run_of alone st st' \<longleftrightarrow> sig_step st st' \<and> (alone \<longrightarrow> senders st' \<le> 1)"

lemma run_of_steps: "(run_of alone)\<^sup>*\<^sup>* st st' \<Longrightarrow> sig_step\<^sup>*\<^sup>* st st'"
  using mono_rtranclp [of "run_of alone" sig_step st st'] by (auto simp: run_of_def)

lemma run_alone:
  assumes "(run_of True)\<^sup>*\<^sup>* (link_start buf) st"
  shows "senders st \<le> 1 \<and> (0 < asleep st \<longrightarrow> running st = 0)"
  using assms
proof (induction rule: rtranclp_induct)
  case base
  show ?case by (simp add: senders_def link_start_def)
next
  case (step st st')
  have "sig_step st st'" "senders st' \<le> 1" using step.hyps(2) by (simp_all add: run_of_def)
  then show ?case using alone_step [of st st'] step.IH by simp
qed

text \<open>
  C6: When neither side can make a step of its own, everything that was sent has been received, no event
  is pending and no thread is on its way through \<^verbatim>\<open>vxtsig_signal\<close>. Only threads that sleep on
  \<^verbatim>\<open>signal_wait\<close> may be left, and none when at most one thread at a time was inside of
  \<^verbatim>\<open>vxtsig_signal\<close> (\<open>alone\<close>). With more senders the space for which they sleep is there, and
  \<^verbatim>\<open>signal_running\<close> is set. This holds for up to \<open>2\<^sup>3\<^sup>2\<close> requests, on controllers that are not shut
  down.
\<close>

theorem no_lost_wakeup:
  assumes "(run_of alone)\<^sup>*\<^sup>* (link_start buf) st" "20 \<le> length buf" "length (sent st) < 2 ^ 32" "at_rest st"
  shows "got st = sent st \<and> receiver st = Idle \<and> sender st = Ready \<and> calling st = 0 \<and> pausing st = 0
    \<and> \<not> to_receiver st \<and> \<not> to_sender st \<and> \<not> sig_full (ring st) \<and> running st \<noteq> 0 \<and> (alone \<longrightarrow> asleep st = 0)"
proof -
  have inv: "link_inv st" using reachable_inv [OF run_of_steps [OF assms(1)] assms(2)] assms(3) by blast
  note ring = ring_agreesD [OF link_invD(1) [OF inv]] and rest = at_restD [OF assms(4) inv]
  have all: "acked st = length (sent st)"
    using link_invD(6) [OF inv rest(5)] rest(1,6) by (auto simp: receiver_called_def)
  then have "length (sent st) \<le> length (got st)" using ring(4) by simp
  then have "got st = sent st" using ring(7) by (metis take_all)
  moreover have "\<not> sig_full (ring st)" using full_by_count [OF link_invD(1) [OF inv]] all by simp
  moreover have run: "running st \<noteq> 0" using link_invD(8) [OF inv] rest all by auto
  moreover have "asleep st = 0" if alone using that run_alone [of buf st] assms(1) run by auto
  ultimately show ?thesis using rest by simp
qed

subsection \<open>Runs\<close>

text \<open>Who makes the next step; the steps of each are determined by the state.\<close>

datatype turn = Caller | Sender vxtsig_handle_t | Pauser | Receiver | Waker

fun sender_turn :: "vxtsig_handle_t \<Rightarrow> sig_link \<Rightarrow> sender_at \<Rightarrow> sig_link option" where
  "sender_turn h st Ready = (if calling st = 0 then None else Some (st\<lparr>calling := calling st - 1, sender := Testing, running := 0\<rparr>))"
| "sender_turn h st Testing = Some (if sig_full (ring st) then st\<lparr>sender := Ready, pausing := pausing st + 1\<rparr>
     else st\<lparr>sender := Storing h, running := 1\<rparr>)"
| "sender_turn h st (Storing h') = map_option (\<lambda>b. st\<lparr>ring := b, sender := Publishing h'\<rparr>) (sig_store h' (ring st))"
| "sender_turn h st (Publishing h') = Some (st\<lparr>ring := sig_publish (ring st), sender := Checking (send_index (ring st)), sent := sent st @ [h']\<rparr>)"
| "sender_turn h st (Checking p) = Some (if was_empty p (ring st) then st\<lparr>sender := Ready, to_receiver := True\<rparr> else st\<lparr>sender := Rechecking p\<rparr>)"
| "sender_turn h st (Rechecking p) = Some (st\<lparr>sender := Ready, to_receiver := to_receiver st \<or> is_full p (ring st)\<rparr>)"

fun receiver_turn :: "sig_link \<Rightarrow> receiver_at \<Rightarrow> sig_link option" where
  "receiver_turn st Idle = (if to_receiver st
     then Some (st\<lparr>receiver := Starting, to_receiver := False, signal_cnt := 0, entered := length (got st)\<rparr>) else None)"
| "receiver_turn st Starting = Some (st\<lparr>receiver := Receiving (send_index (ring st)) (sig_full (ring st)) (recv_index (ring st))\<rparr>)"
| "receiver_turn st (Receiving l full i) = (if i = l
     then Some (st\<lparr>ring := (ring st)\<lparr>recv_index := l\<rparr>, receiver := Deciding full, acked := length (got st)\<rparr>)
     else map_option (\<lambda>h. st\<lparr>receiver := Receiving l full (sig_next i), got := got st @ [h], signal_cnt := signal_cnt st + 1\<rparr>) (sig_slot (ring st) i))"
| "receiver_turn st (Deciding full) = Some (if send_index (ring st) \<noteq> recv_index (ring st) then st\<lparr>receiver := Starting\<rparr>
     else st\<lparr>receiver := Leaving (full \<or> VXTSIG_MAX_SIG_CNT - 1 \<le> signal_cnt st)\<rparr>)"
| "receiver_turn st (Leaving signal) = Some (st\<lparr>receiver := Idle, to_sender := to_sender st \<or> signal\<rparr>)"

fun take_turn :: "turn \<Rightarrow> sig_link \<Rightarrow> sig_link option" where
  "take_turn Caller st = Some (st\<lparr>calling := calling st + 1\<rparr>)"
| "take_turn (Sender h) st = sender_turn h st (sender st)"
| "take_turn Pauser st = (if pausing st = 0 then None
     else Some (if running st = 0 then st\<lparr>pausing := pausing st - 1, asleep := asleep st + 1\<rparr>
       else st\<lparr>pausing := pausing st - 1, calling := calling st + 1\<rparr>))"
| "take_turn Receiver st = receiver_turn st (receiver st)"
| "take_turn Waker st = (if to_sender st \<and> sender st = Ready
     then Some ((if running st = 0 then wake_link st else st)\<lparr>to_sender := False\<rparr>) else None)"

fun take_turns :: "turn list \<Rightarrow> sig_link \<Rightarrow> sig_link option" where
  "take_turns [] st = Some st"
| "take_turns (t # ts) st = (case take_turn t st of None \<Rightarrow> None | Some st \<Rightarrow> take_turns ts st)"

lemma sender_turn_step: "sender_turn h st (sender st) = Some st' \<Longrightarrow> send_step st st'"
  by (cases "sender st") (auto intro: send_step.intros send_step.intros(1,2) [simplified] split: if_splits)

lemma receiver_turn_step: "receiver_turn st (receiver st) = Some st' \<Longrightarrow> interrupt_step st st'"
  by (cases "receiver st") (auto intro: interrupt_step.intros split: if_splits)

lemma take_turn_step: "take_turn t st = Some st' \<Longrightarrow> sig_step st st'"
proof (cases t)
  case Caller
  assume "take_turn t st = Some st'"
  with Caller show ?thesis by (auto simp: sig_step_def intro: call [simplified])
next
  case (Sender h)
  assume "take_turn t st = Some st'"
  with Sender sender_turn_step show ?thesis by (simp add: sig_step_def own_step_def)
next
  case Pauser
  assume "take_turn t st = Some st'"
  with Pauser go_on go_to_sleep show ?thesis by (auto simp: sig_step_def own_step_def split: if_splits)
next
  case Receiver
  assume "take_turn t st = Some st'"
  with Receiver receiver_turn_step show ?thesis by (simp add: sig_step_def own_step_def)
next
  case Waker
  assume "take_turn t st = Some st'"
  with Waker wake_senders [of st] show ?thesis by (auto simp: sig_step_def own_step_def split: if_splits)
qed

lemma take_turns_run: "take_turns ts st = Some st' \<Longrightarrow> sig_step\<^sup>*\<^sup>* st st'"
  by (induction ts arbitrary: st) (auto dest: take_turn_step intro: converse_rtranclp_into_rtranclp split: option.splits)

fun alone_turns :: "turn list \<Rightarrow> sig_link \<Rightarrow> bool" where
  "alone_turns [] st \<longleftrightarrow> True"
| "alone_turns (t # ts) st \<longleftrightarrow> (case take_turn t st of None \<Rightarrow> True | Some st \<Rightarrow> senders st \<le> 1 \<and> alone_turns ts st)"

lemma alone_turns_run: "take_turns ts st = Some st' \<Longrightarrow> alone_turns ts st \<Longrightarrow> (run_of True)\<^sup>*\<^sup>* st st'"
proof (induction ts arbitrary: st)
  case (Cons t ts)
  then obtain st1 where "take_turn t st = Some st1" "take_turns ts st1 = Some st'" "senders st1 \<le> 1" "alone_turns ts st1"
    by (auto split: option.splits)
  with Cons.IH [of st1] take_turn_step [of t st st1] show ?case
    by (auto simp: run_of_def intro: converse_rtranclp_into_rtranclp)
qed simp

lemma at_restI:
  assumes "sender st = Ready" "calling st = 0" "pausing st = 0" "\<not> to_sender st" "receiver st = Idle" "\<not> to_receiver st"
  shows "at_rest st"
  using assms by (auto simp: at_rest_def own_step_def send_step_simps interrupt_step_simps)

text \<open>One signal on its way: stored, published and announced, received, acknowledged.\<close>

definition one_signal :: sig_link where
  "one_signal = (link_start (replicate 20 0))\<lparr>ring := \<lparr>send_index = 1, recv_index = 1, restart_signal_request = 0, sig_list = (replicate 20 0)[0 := 7]\<rparr>,
     signal_cnt := 1, sent := [7], got := [7], acked := 1\<rparr>"

definition one_send :: "turn list" where
  "one_send = Caller # replicate 5 (Sender 7)"

definition one_run :: "turn list" where
  "one_run = one_send @ replicate 6 Receiver"

lemma one_signal_turns: "take_turns one_run (link_start (replicate 20 0)) = Some one_signal" "alone_turns one_run (link_start (replicate 20 0))"
  by code_simp+

lemma one_signal_rest: "at_rest one_signal"
  by (rule at_restI) (simp_all add: one_signal_def link_start_def)

theorem requests_in_order_witness:
  "\<exists>rest. sent one_signal = got one_signal @ rest \<and> sent one_signal = [7]"
  using requests_in_order [OF take_turns_run [OF one_signal_turns(1)]] by (auto simp: one_signal_def)

theorem no_lost_wakeup_witness:
  "got one_signal = [7] \<and> sender one_signal = Ready \<and> asleep one_signal = 0"
  using no_lost_wakeup [OF alone_turns_run [OF one_signal_turns] _ _ one_signal_rest] by (simp add: one_signal_def link_start_def)

text \<open>
  With two senders a wake-up is lost. The first finds the ring full and sleeps. The receiver takes everything and sends
  its event; before that event arrives the second sender finds room and sets \<^verbatim>\<open>signal_running\<close>, so
  that the interrupt wakes nobody. In the end the ring is empty and nothing is under way, and the first sender
  sleeps on.
\<close>

definition forgotten_run :: "turn list" where
  "forgotten_run = one_send @ concat (replicate 18 (one_send @ [Sender 7])) @ [Caller, Sender 7, Sender 7, Pauser] @ replicate 24 Receiver
     @ one_send @ [Waker] @ replicate 6 Receiver"

definition forgotten :: sig_link where
  "forgotten = the (take_turns forgotten_run (link_start (replicate 20 0)))"

lemma forgotten_turns:
  "case take_turns forgotten_run (link_start (replicate 20 0)) of None \<Rightarrow> False
   | Some st \<Rightarrow> sender st = Ready \<and> calling st = 0 \<and> pausing st = 0 \<and> \<not> to_sender st \<and> receiver st = Idle \<and> \<not> to_receiver st
       \<and> asleep st = 1 \<and> got st = sent st \<and> recv_index (ring st) = send_index (ring st)"
  by code_simp

theorem second_sender_steals_wakeup:
  "\<exists>st. sig_step\<^sup>*\<^sup>* (link_start (replicate 20 0)) st \<and> at_rest st \<and> asleep st = 1 \<and> got st = sent st \<and> \<not> sig_full (ring st)"
proof -
  obtain st where st: "take_turns forgotten_run (link_start (replicate 20 0)) = Some st"
    and f: "sender st = Ready" "calling st = 0" "pausing st = 0" "\<not> to_sender st" "receiver st = Idle" "\<not> to_receiver st"
      "asleep st = 1" "got st = sent st" "recv_index (ring st) = send_index (ring st)"
    using forgotten_turns by (auto split: option.splits)
  have "\<not> sig_full (ring st)"
    using f(9) by (simp add: sig_full_def sig_next_def VXTSIG_MAX_SIG_CNT_def)
  with take_turns_run [OF st] at_restI [OF f(1-6)] f show ?thesis by blast
qed

end
